(* ===== verification/Lwip_Base.thy ===== *)
theory Lwip_Base
  imports Main "HOL-Library.Word" "HOL-Library.Monad_Syntax" "HOL-Library.Multiset"
begin

text \<open>
  Prelude of the development: the fixed-width integer types of \<^verbatim>\<open>include/lwip/cc.h\<close>,
  the error codes of \<^verbatim>\<open>include/lwip/err.h\<close>, the configuration constants that
  \<^verbatim>\<open>include/lwip/opt.h\<close> and \<^verbatim>\<open>include/lwip/lwipopts.h\<close> give, the assertion macro of
  \<^verbatim>\<open>include/lwip/debug.h\<close>, the circular order on 32-bit sequence numbers of
  \<^verbatim>\<open>include/lwip/tcp_impl.h\<close>, and the generic lemmas the component theories share.
\<close>

unbundle bit_operations_syntax

section \<open>Machine integers\<close>

type_synonym u8 = "8 word"
type_synonym u16 = "16 word"
type_synonym u32 = "32 word"

text \<open>\<open>s16_t\<close> and \<open>s32_t\<close> values are the same words, read with \<open>sint\<close>.\<close>

type_synonym s16 = "16 word"
type_synonym s32 = "32 word"

text \<open>\<open>err_t\<close> is a signed byte; only its value matters, so it is an integer here.\<close>

type_synonym err_t = int

abbreviation ERR_OK :: err_t where "ERR_OK \<equiv> 0"
abbreviation ERR_MEM :: err_t where "ERR_MEM \<equiv> - 1"
abbreviation ERR_BUF :: err_t where "ERR_BUF \<equiv> - 2"
abbreviation ERR_INPROGRESS :: err_t where "ERR_INPROGRESS \<equiv> - 5"
abbreviation ERR_VAL :: err_t where "ERR_VAL \<equiv> - 6"
abbreviation ERR_USE :: err_t where "ERR_USE \<equiv> - 8"
abbreviation ERR_ISCONN :: err_t where "ERR_ISCONN \<equiv> - 10"
abbreviation ERR_CONN :: err_t where "ERR_CONN \<equiv> - 11"
abbreviation ERR_ABRT :: err_t where "ERR_ABRT \<equiv> - 12"
abbreviation ERR_RST :: err_t where "ERR_RST \<equiv> - 13"
abbreviation ERR_CLSD :: err_t where "ERR_CLSD \<equiv> - 14"
abbreviation ERR_ARG :: err_t where "ERR_ARG \<equiv> - 15"

definition err_is_fatal :: "err_t \<Rightarrow> bool" where
  "err_is_fatal e \<longleftrightarrow> e < ERR_CONN"

text \<open>Widening keeps the value.\<close>

lemma unat_ucast_u16_u32 [simp]: "unat (ucast (x :: u16) :: u32) = unat x"
proof -
  have "unat x < 2 ^ 16" using unsigned_less [of x] by simp
  then have "unat x < 2 ^ 32" by simp
  then show ?thesis by (simp add: unsigned_ucast_eq take_bit_nat_eq_self)
qed

section \<open>Configuration\<close>

text \<open>
  The values of the unit-test configuration in \<^verbatim>\<open>include/lwip/lwipopts.h\<close>, with the defaults
  of \<^verbatim>\<open>include/lwip/opt.h\<close> where it sets none: no window scaling, no timestamps, out-of-order
  queueing on, \<open>MEM_ALIGNMENT\<close> 1, \<open>MEM_LIBC_MALLOC\<close> 1, \<open>LWIP_DEBUG\<close> defined.
\<close>

abbreviation TCP_MSS :: u16 where "TCP_MSS \<equiv> 536"
abbreviation TCP_WND :: u16 where "TCP_WND \<equiv> 5360"
abbreviation TCP_SND_BUF :: u16 where "TCP_SND_BUF \<equiv> 6432"
abbreviation TCP_SND_QUEUELEN :: u16 where "TCP_SND_QUEUELEN \<equiv> 40"
abbreviation TCP_SNDQUEUELEN_OVERFLOW :: u16 where "TCP_SNDQUEUELEN_OVERFLOW \<equiv> 65532"
abbreviation TCP_OVERSIZE :: u16 where "TCP_OVERSIZE \<equiv> 536"
abbreviation TCP_MAXRTX :: u8 where "TCP_MAXRTX \<equiv> 12"
abbreviation TCP_SYNMAXRTX :: u8 where "TCP_SYNMAXRTX \<equiv> 6"
abbreviation TCP_WND_UPDATE_THRESHOLD :: int where "TCP_WND_UPDATE_THRESHOLD \<equiv> 1340"
abbreviation TCP_SLOW_INTERVAL :: u32 where "TCP_SLOW_INTERVAL \<equiv> 500"
abbreviation TCP_HLEN :: u16 where "TCP_HLEN \<equiv> 20"
abbreviation PBUF_POOL_BUFSIZE :: nat where "PBUF_POOL_BUFSIZE \<equiv> 556"
abbreviation PBUF_TRANSPORT_HLEN :: nat where "PBUF_TRANSPORT_HLEN \<equiv> 20"

section \<open>Assertions\<close>

text \<open>
  \<open>LWIP_ASSERT\<close> prints and calls \<open>abort()\<close> when its condition is false; with \<open>LWIP_NOASSERT\<close>
  undefined, \<open>LWIP_ERROR\<close> does the same before its handler could run. Operations of the model
  therefore return an option: \<open>None\<close> is the aborted process (or an access the C language leaves
  undefined, such as a dereference of \<open>NULL\<close>), \<open>Some r\<close> is a normal return.
\<close>

definition lwip_assert :: "bool \<Rightarrow> unit option" where
  "lwip_assert b = (if b then Some () else None)"

lemma lwip_assert_Some [simp]: "lwip_assert b = Some u \<longleftrightarrow> b"
  by (simp add: lwip_assert_def)

lemma lwip_assert_bind_Some [simp]:
  "Option.bind (lwip_assert b) f = Some r \<longleftrightarrow> b \<and> f () = Some r"
  by (simp add: lwip_assert_def)

lemma lwip_assert_True [simp]: "lwip_assert True = Some ()"
  by (simp add: lwip_assert_def)

lemma lwip_assert_False [simp]: "lwip_assert False = None"
  by (simp add: lwip_assert_def)

lemmas bind_Some_iff = Option.bind_eq_Some_conv

section \<open>Sequence numbers\<close>

definition TCP_SEQ_LT :: "u32 \<Rightarrow> u32 \<Rightarrow> bool" where
  "TCP_SEQ_LT a b \<longleftrightarrow> sint (a - b) < 0"

definition TCP_SEQ_LEQ :: "u32 \<Rightarrow> u32 \<Rightarrow> bool" where
  "TCP_SEQ_LEQ a b \<longleftrightarrow> sint (a - b) \<le> 0"

definition TCP_SEQ_GT :: "u32 \<Rightarrow> u32 \<Rightarrow> bool" where
  "TCP_SEQ_GT a b \<longleftrightarrow> sint (a - b) > 0"

definition TCP_SEQ_GEQ :: "u32 \<Rightarrow> u32 \<Rightarrow> bool" where
  "TCP_SEQ_GEQ a b \<longleftrightarrow> sint (a - b) \<ge> 0"

definition TCP_SEQ_BETWEEN :: "u32 \<Rightarrow> u32 \<Rightarrow> u32 \<Rightarrow> bool" where
  "TCP_SEQ_BETWEEN a b c \<longleftrightarrow> TCP_SEQ_GEQ a b \<and> TCP_SEQ_LEQ a c"

text \<open>
  The macros compare by the sign of a 32-bit difference. On any half of the number circle that
  starts at a base \<open>b\<close> they are the order of the distances from \<open>b\<close>; \<open>seq_win\<close> is that half.
\<close>

definition seq_win :: "u32 \<Rightarrow> u32 \<Rightarrow> bool" where
  "seq_win b x \<longleftrightarrow> unat (x - b) < 2 ^ 31"

definition seq_rank :: "u32 \<Rightarrow> u32 \<Rightarrow> nat" where
  "seq_rank b x = unat (x - b)"

lemma signed_take_bit_31:
  "- 2147483648 \<le> k \<Longrightarrow> k < 2147483648 \<Longrightarrow> signed_take_bit 31 k = k" for k :: int
  by (rule signed_take_bit_int_eq_self) simp_all

lemma sint_of_small:
  assumes "unat (x :: u32) < 2147483648"
  shows "sint x = int (unat x)"
proof -
  have u: "uint x = int (unat x)" by simp
  have "sint x = signed_take_bit 31 (int (unat x))"
    unfolding sint_uint u by simp
  also have "\<dots> = int (unat x)"
    by (rule signed_take_bit_31) (use assms in linarith)+
  finally show ?thesis .
qed

lemma sint_diff_small:
  assumes "unat (x :: u32) < 2147483648" and "unat y < 2147483648"
  shows "sint (x - y) = int (unat x) - int (unat y)"
proof -
  have "sint (x - y) = signed_take_bit 31 (sint x - sint y)"
    by (simp add: sint_word_ariths)
  also have "\<dots> = signed_take_bit 31 (int (unat x) - int (unat y))"
    using assms by (simp only: sint_of_small)
  also have "\<dots> = int (unat x) - int (unat y)"
    by (rule signed_take_bit_31) (use assms in linarith)+
  finally show ?thesis .
qed

lemma sint_seq_diff:
  assumes "seq_win b x" and "seq_win b y"
  shows "sint (x - y) = int (seq_rank b x) - int (seq_rank b y)"
proof -
  have "x - y = (x - b) - (y - b)" by simp
  then show ?thesis
    using assms sint_diff_small [of "x - b" "y - b"] by (simp add: seq_win_def seq_rank_def)
qed

lemma seq_rank_eq_iff: "seq_rank b x = seq_rank b y \<longleftrightarrow> x = y"
  by (simp add: seq_rank_def word_unat_eq_iff [symmetric])

lemma TCP_SEQ_LT_rank:
  "seq_win b x \<Longrightarrow> seq_win b y \<Longrightarrow> TCP_SEQ_LT x y \<longleftrightarrow> seq_rank b x < seq_rank b y"
  by (simp add: TCP_SEQ_LT_def sint_seq_diff)

lemma TCP_SEQ_LEQ_rank:
  "seq_win b x \<Longrightarrow> seq_win b y \<Longrightarrow> TCP_SEQ_LEQ x y \<longleftrightarrow> seq_rank b x \<le> seq_rank b y"
  by (simp add: TCP_SEQ_LEQ_def sint_seq_diff)

lemma TCP_SEQ_GT_rank:
  "seq_win b x \<Longrightarrow> seq_win b y \<Longrightarrow> TCP_SEQ_GT x y \<longleftrightarrow> seq_rank b y < seq_rank b x"
  by (simp add: TCP_SEQ_GT_def sint_seq_diff)

lemma TCP_SEQ_GEQ_rank:
  "seq_win b x \<Longrightarrow> seq_win b y \<Longrightarrow> TCP_SEQ_GEQ x y \<longleftrightarrow> seq_rank b y \<le> seq_rank b x"
  by (simp add: TCP_SEQ_GEQ_def sint_seq_diff)

lemmas seq_rank_simps =
  TCP_SEQ_LT_rank TCP_SEQ_LEQ_rank TCP_SEQ_GT_rank TCP_SEQ_GEQ_rank TCP_SEQ_BETWEEN_def

lemma seq_win_self [simp]: "seq_win b b" and seq_rank_self [simp]: "seq_rank b b = 0"
  by (simp_all add: seq_win_def seq_rank_def)

text \<open>Adding a length that does not leave the window adds it to the rank.\<close>

lemma seq_rank_add:
  assumes "seq_rank b x + unat n < 2 ^ 31"
  shows "seq_rank b (x + n) = seq_rank b x + unat n" and "seq_win b (x + n)"
proof -
  have e: "x + n - b = (x - b) + n" by simp
  have "unat (x + n - b) = unat (x - b) + unat n"
    unfolding e using assms by (subst unat_word_ariths) (simp add: seq_rank_def)
  then show "seq_rank b (x + n) = seq_rank b x + unat n" and "seq_win b (x + n)"
    using assms by (simp_all add: seq_rank_def seq_win_def)
qed

lemma TCP_SEQ_LT_irrefl [simp]: "\<not> TCP_SEQ_LT a a"
  and TCP_SEQ_LEQ_refl [simp]: "TCP_SEQ_LEQ a a"
  and TCP_SEQ_GEQ_refl [simp]: "TCP_SEQ_GEQ a a"
  and TCP_SEQ_GT_irrefl [simp]: "\<not> TCP_SEQ_GT a a"
  by (simp_all add: TCP_SEQ_LT_def TCP_SEQ_LEQ_def TCP_SEQ_GEQ_def TCP_SEQ_GT_def)

section \<open>Lists\<close>

text \<open>The cases of a list as a test, so that splitting leaves no quantifier.\<close>

lemma list_case_if: "(case xs of [] \<Rightarrow> a | y # ys \<Rightarrow> f y ys) = (if xs = [] then a else f (hd xs) (tl xs))"
  by (cases xs) simp_all

end
