(* ===== verification/Memp.thy ===== *)
theory Memp
  imports Lwip_Base
begin

text \<open>
  The pool allocator of \<^verbatim>\<open>src/memp.c\<close>: one free list per pool, carved out of one static
  block by \<open>memp_init\<close>, popped by \<open>memp_malloc\<close> and pushed by \<open>memp_free\<close>, with the statistics
  of \<^verbatim>\<open>include/lwip/stats.h\<close>. Addresses are natural numbers; a \<open>NULL\<close> result is \<open>None\<close>. The
  sizes of the C structures depend on the compiler and are a parameter (\<open>memp_sizes\<close>).
\<close>

section \<open>Data\<close>

datatype memp_t = MEMP_TCP_PCB | MEMP_TCP_PCB_LISTEN | MEMP_TCP_SEG | MEMP_PBUF | MEMP_PBUF_POOL

text \<open>The number of elements of each pool: \<open>MEMP_NUM_*\<close> and \<open>PBUF_POOL_SIZE\<close>.\<close>

fun memp_num :: "memp_t \<Rightarrow> nat" where
  "memp_num MEMP_TCP_PCB = 5"
| "memp_num MEMP_TCP_PCB_LISTEN = 8"
| "memp_num MEMP_TCP_SEG = 40"
| "memp_num MEMP_PBUF = 16"
| "memp_num MEMP_PBUF_POOL = 16"

text \<open>The pools in the order of \<^verbatim>\<open>include/lwip/memp_std.h\<close>, which is the order of the enum.\<close>

definition memp_pools :: "memp_t list" where
  "memp_pools = [MEMP_TCP_PCB, MEMP_TCP_PCB_LISTEN, MEMP_TCP_SEG, MEMP_PBUF, MEMP_PBUF_POOL]"

record stats_mem =
  st_err :: u16
  st_avail :: "64 word"
  st_used :: "64 word"
  st_max :: "64 word"

record memp_state =
  memp_tab :: "memp_t \<Rightarrow> nat list"
  memp_stats :: "memp_t \<Rightarrow> stats_mem"

section \<open>Operations\<close>

text \<open>\<open>MEMP_STATS_INC_USED\<close>, \<open>MEMP_STATS_DEC (used)\<close>, \<open>MEMP_STATS_INC (err)\<close>, \<open>MEMP_STATS_DEC (err)\<close>.\<close>

definition stats_inc_used :: "stats_mem \<Rightarrow> stats_mem" where
  "stats_inc_used st = (let u = st_used st + 1 in
     st\<lparr>st_used := u, st_max := (if st_max st < u then u else st_max st)\<rparr>)"

definition memp_stats_upd :: "memp_t \<Rightarrow> (stats_mem \<Rightarrow> stats_mem) \<Rightarrow> 'a memp_state_scheme \<Rightarrow> 'a memp_state_scheme" where
  "memp_stats_upd t f s = s\<lparr>memp_stats := (memp_stats s)(t := f (memp_stats s t))\<rparr>"

definition memp_stats_dec_err :: "memp_t \<Rightarrow> 'a memp_state_scheme \<Rightarrow> 'a memp_state_scheme" where
  "memp_stats_dec_err t = memp_stats_upd t (\<lambda>st. st\<lparr>st_err := st_err st - 1\<rparr>)"

text \<open>The inner loop of \<open>memp_init\<close>: \<open>n\<close> elements of \<open>sz\<close> bytes from address \<open>a\<close> on.\<close>

fun memp_carve :: "nat \<Rightarrow> nat \<Rightarrow> nat \<Rightarrow> nat list \<Rightarrow> nat list \<times> nat" where
  "memp_carve sz 0 a tab = (tab, a)"
| "memp_carve sz (Suc n) a tab = memp_carve sz n (a + sz) (a # tab)"

fun memp_init_from :: "(memp_t \<Rightarrow> nat) \<Rightarrow> memp_t list \<Rightarrow> nat \<Rightarrow> 'a memp_state_scheme \<Rightarrow> 'a memp_state_scheme" where
  "memp_init_from sizes [] a s = s"
| "memp_init_from sizes (t # ts) a s =
     (let (tab, a') = memp_carve (sizes t) (memp_num t) a []
      in memp_init_from sizes ts a' (s\<lparr>memp_tab := (memp_tab s)(t := tab)\<rparr>))"

definition memp_init :: "(memp_t \<Rightarrow> nat) \<Rightarrow> nat \<Rightarrow> 'a memp_state_scheme \<Rightarrow> 'a memp_state_scheme" where
  "memp_init sizes base s =
     memp_init_from sizes memp_pools base
       (s\<lparr>memp_stats := (\<lambda>t. \<lparr>st_err = 0, st_avail = of_nat (memp_num t), st_used = 0, st_max = 0\<rparr>)\<rparr>)"

definition memp_malloc :: "memp_t \<Rightarrow> 'a memp_state_scheme \<Rightarrow> nat option \<times> 'a memp_state_scheme" where
  "memp_malloc t s =
     (case memp_tab s t of
        m # rest \<Rightarrow> (Some m, memp_stats_upd t stats_inc_used (s\<lparr>memp_tab := (memp_tab s)(t := rest)\<rparr>))
      | [] \<Rightarrow> (None, memp_stats_upd t (\<lambda>st. st\<lparr>st_err := st_err st + 1\<rparr>) s))"

definition memp_free :: "memp_t \<Rightarrow> nat option \<Rightarrow> 'a memp_state_scheme \<Rightarrow> 'a memp_state_scheme" where
  "memp_free t mem s =
     (case mem of
        None \<Rightarrow> s
      | Some m \<Rightarrow>
          (let s1 = memp_stats_upd t (\<lambda>st. st\<lparr>st_used := st_used st - 1\<rparr>) s
           in s1\<lparr>memp_tab := (memp_tab s1)(t := m # memp_tab s1 t)\<rparr>))"

section \<open>What a pool of objects promises\<close>

text \<open>
  \<open>pool_ok E fr out\<close>: the objects \<open>E\<close> of a pool are split into the free list \<open>fr\<close> and the
  objects \<open>out\<close> that were handed out, each object in exactly one of the two.
\<close>

definition pool_ok :: "'a list \<Rightarrow> 'a list \<Rightarrow> 'a multiset \<Rightarrow> bool" where
  "pool_ok E fr out \<longleftrightarrow> distinct E \<and> mset fr + out = mset E"

locale object_pool =
  fixes take_obj :: "'s \<Rightarrow> 'a option \<times> 's"
    and give_obj :: "'a \<Rightarrow> 's \<Rightarrow> 's"
    and free_objs :: "'s \<Rightarrow> 'a list"
  assumes take_empty: "free_objs s = [] \<Longrightarrow> fst (take_obj s) = None \<and> free_objs (snd (take_obj s)) = []"
    and take_some: "free_objs s = a # as \<Longrightarrow> fst (take_obj s) = Some a \<and> free_objs (snd (take_obj s)) = as"
    and free_give: "free_objs (give_obj a s) = a # free_objs s"
begin

lemma take_None_iff: "fst (take_obj s) = None \<longleftrightarrow> free_objs s = []"
  using take_empty take_some by (cases "free_objs s") force+

lemma take_ok:
  assumes "pool_ok E (free_objs s) out" and "take_obj s = (Some a, s')"
  shows "pool_ok E (free_objs s') (add_mset a out)" and "a \<notin># out" and "a \<in> set E"
proof -
  obtain as where fr: "free_objs s = a # as" and fr': "free_objs s' = as"
    using assms(2) take_empty [of s] take_some [of s] by (cases "free_objs s") fastforce+
  from assms(1) fr fr' show ok: "pool_ok E (free_objs s') (add_mset a out)"
    by (simp add: pool_ok_def)
  then have "mset E = add_mset a (mset as + out)"
    using fr' by (simp add: pool_ok_def)
  then have "count (mset E) a = Suc (count (mset as) a + count out a)"
    by simp
  moreover have "count (mset E) a \<le> 1"
    using assms(1) distinct_count_atmost_1 [of E] by (simp add: pool_ok_def)
  ultimately have "count out a = 0" by simp
  then show "a \<notin># out" by (simp add: count_eq_zero_iff)
  show "a \<in> set E"
    using \<open>mset E = _\<close> by (metis set_mset_mset union_single_eq_member add_mset_add_single)
qed

lemma give_ok:
  assumes "pool_ok E (free_objs s) out" and "a \<in># out"
  shows "pool_ok E (free_objs (give_obj a s)) (out - {#a#})"
proof -
  from assms(2) obtain out' where "out = add_mset a out'"
    by (blast dest: multi_member_split)
  with assms(1) show ?thesis by (simp add: pool_ok_def free_give)
qed

lemma take_fail_ok:
  assumes "pool_ok E (free_objs s) out" and "take_obj s = (None, s')"
  shows "pool_ok E (free_objs s') out" and "out = mset E"
  using assms take_empty [of s] take_None_iff [of s] by (auto simp: pool_ok_def)

lemma take_give: "take_obj s = (Some a, s') \<Longrightarrow> free_objs (give_obj a s') = free_objs s"
  using take_empty [of s] take_some [of s] free_give by (cases "free_objs s") auto

end

lemma memp_stats_upd_tab [simp]: "memp_tab (memp_stats_upd t f s) = memp_tab s"
  by (simp add: memp_stats_upd_def)

lemma memp_stats_dec_err_tab [simp]: "memp_tab (memp_stats_dec_err t s) = memp_tab s"
  by (simp add: memp_stats_dec_err_def)

text \<open>The allocator's own operations provide the contract, one pool at a time.\<close>

interpretation memp_pool: object_pool "memp_malloc t" "\<lambda>a. memp_free t (Some a)" "\<lambda>s. memp_tab s t" for t
  by unfold_locales (auto simp: memp_malloc_def memp_free_def)

lemma memp_malloc_other: "t' \<noteq> t \<Longrightarrow> memp_tab (snd (memp_malloc t s)) t' = memp_tab s t'"
  by (auto simp: memp_malloc_def split: list.splits)

lemma memp_free_other: "t' \<noteq> t \<Longrightarrow> memp_tab (memp_free t m s) t' = memp_tab s t'"
  by (auto simp: memp_free_def Let_def split: option.splits)

lemma memp_free_None [simp]: "memp_free t None s = s"
  by (simp add: memp_free_def)

section \<open>Initialisation\<close>

lemma memp_carve_eq:
  "memp_carve sz n a tab = (rev (map (\<lambda>i. a + i * sz) [0..<n]) @ tab, a + n * sz)"
proof (induction n arbitrary: a tab)
  case 0
  then show ?case by simp
next
  case (Suc n)
  have "[0..<Suc n] = 0 # map Suc [0..<n]"
    by (simp add: map_Suc_upt upt_conv_Cons)
  then show ?case
    by (simp add: Suc.IH comp_def add.assoc del: upt_Suc)
qed

text \<open>\<open>memp_base sizes ts base t\<close> is where the block of pool \<open>t\<close> begins.\<close>

fun memp_base :: "(memp_t \<Rightarrow> nat) \<Rightarrow> memp_t list \<Rightarrow> nat \<Rightarrow> memp_t \<Rightarrow> nat" where
  "memp_base sizes [] a t = a"
| "memp_base sizes (u # us) a t =
     (if u = t then a else memp_base sizes us (a + memp_num u * sizes u) t)"

definition memp_elems :: "(memp_t \<Rightarrow> nat) \<Rightarrow> nat \<Rightarrow> memp_t \<Rightarrow> nat list" where
  "memp_elems sizes base t =
     rev (map (\<lambda>i. memp_base sizes memp_pools base t + i * sizes t) [0..<memp_num t])"

lemma memp_init_from_tab:
  "distinct ts \<Longrightarrow> memp_tab (memp_init_from sizes ts a s) t =
     (if t \<in> set ts then rev (map (\<lambda>i. memp_base sizes ts a t + i * sizes t) [0..<memp_num t])
      else memp_tab s t)"
  by (induction ts arbitrary: a s) (auto simp: memp_carve_eq Let_def)

lemma memp_init_from_stats: "memp_stats (memp_init_from sizes ts a s) = memp_stats s"
  by (induction ts arbitrary: a s) (auto simp: Let_def split: prod.splits)

lemma memp_pools_all: "t \<in> set memp_pools"
  by (cases t) (simp_all add: memp_pools_def)

lemma memp_pools_distinct: "distinct memp_pools"
  by (simp add: memp_pools_def)

lemma memp_init_tab: "memp_tab (memp_init sizes base s) t = memp_elems sizes base t"
  using memp_pools_all [of t] memp_pools_distinct
  by (simp add: memp_init_def memp_elems_def memp_init_from_tab)

lemma memp_init_eq:
  "memp_init sizes base s = s\<lparr>memp_tab := memp_elems sizes base,
     memp_stats := (\<lambda>t. \<lparr>st_err = 0, st_avail = of_nat (memp_num t), st_used = 0, st_max = 0\<rparr>)\<rparr>"
proof -
  have only_tab: "memp_init_from sizes ts a s = s\<lparr>memp_tab := memp_tab (memp_init_from sizes ts a s)\<rparr>" for ts a and s :: "'a memp_state_scheme"
  proof (induction ts arbitrary: a s)
    case (Cons u ts)
    obtain tab a' where c: "memp_carve (sizes u) (memp_num u) a [] = (tab, a')" by fastforce
    let ?s1 = "s\<lparr>memp_tab := (memp_tab s)(u := tab)\<rparr>"
    have "memp_init_from sizes (u # ts) a s = memp_init_from sizes ts a' ?s1" by (simp add: c)
    also have "\<dots> = ?s1\<lparr>memp_tab := memp_tab (memp_init_from sizes ts a' ?s1)\<rparr>" by (rule Cons.IH)
    also have "\<dots> = s\<lparr>memp_tab := memp_tab (memp_init_from sizes (u # ts) a s)\<rparr>" by (simp add: c)
    finally show ?case .
  qed simp
  have "memp_tab (memp_init sizes base s) = memp_elems sizes base" by (rule ext) (rule memp_init_tab)
  then show ?thesis unfolding memp_init_def by (subst only_tab) simp
qed

lemma memp_base_order:
  assumes "distinct ts" and "t \<in> set ts" and "u \<in> set ts" and "t \<noteq> u"
  shows "memp_base sizes ts a t + memp_num t * sizes t \<le> memp_base sizes ts a u \<or>
         memp_base sizes ts a u + memp_num u * sizes u \<le> memp_base sizes ts a t"
proof -
  have ge: "a \<le> memp_base sizes us a v" for us a v
    by (induction us arbitrary: a) (auto intro: le_trans [OF le_add1])
  show ?thesis
    using assms by (induction ts arbitrary: a) (auto simp: ge)
qed

lemma memp_elems_block:
  assumes "a \<in> set (memp_elems sizes base t)"
  shows "memp_base sizes memp_pools base t \<le> a"
    and "a + sizes t \<le> memp_base sizes memp_pools base t + memp_num t * sizes t"
proof -
  obtain i where i: "i < memp_num t" "a = memp_base sizes memp_pools base t + i * sizes t"
    using assms by (auto simp: memp_elems_def)
  then show "memp_base sizes memp_pools base t \<le> a" by simp
  have "Suc i * sizes t \<le> memp_num t * sizes t"
    using i(1) by (intro mult_le_mono1) simp
  then show "a + sizes t \<le> memp_base sizes memp_pools base t + memp_num t * sizes t"
    using i(2) by simp
qed

lemma memp_elems_disjoint:
  assumes "a \<in> set (memp_elems sizes base t)" and "b \<in> set (memp_elems sizes base u)"
    and "(t, a) \<noteq> (u, b)"
  shows "a + sizes t \<le> b \<or> b + sizes u \<le> a"
proof (cases "t = u")
  case True
  obtain i j where ij: "a = memp_base sizes memp_pools base t + i * sizes t"
      "b = memp_base sizes memp_pools base t + j * sizes t"
    using assms(1,2) True by (auto simp: memp_elems_def)
  with assms(3) True have "i \<noteq> j" by auto
  then consider "Suc i \<le> j" | "Suc j \<le> i" by linarith
  then show ?thesis
  proof cases
    case 1
    then have "Suc i * sizes t \<le> j * sizes t" by (rule mult_le_mono1)
    then show ?thesis using ij by simp
  next
    case 2
    then have "Suc j * sizes t \<le> i * sizes t" by (rule mult_le_mono1)
    then show ?thesis using ij True by simp
  qed
next
  case False
  from memp_base_order [OF memp_pools_distinct memp_pools_all memp_pools_all False, of sizes base]
    memp_elems_block [OF assms(1)] memp_elems_block [OF assms(2)]
  show ?thesis by linarith
qed

lemma memp_elems_distinct: "0 < sizes t \<Longrightarrow> distinct (memp_elems sizes base t)"
  by (auto simp: memp_elems_def distinct_map inj_on_def)

section \<open>Every sequence of allocations and releases\<close>

text \<open>
  A configuration is the allocator's state and, per pool, what the callers hold. A caller may
  release only what it holds; everything else is the allocator's business.
\<close>

inductive memp_reach ::
  "(memp_t \<Rightarrow> nat) \<Rightarrow> nat \<Rightarrow> (memp_t \<Rightarrow> nat multiset) \<Rightarrow> memp_state \<Rightarrow> bool"
  for sizes :: "memp_t \<Rightarrow> nat" and base :: nat where
  init: "memp_reach sizes base (\<lambda>_. {#}) (memp_init sizes base s)"
| malloc: "memp_reach sizes base out s \<Longrightarrow> memp_malloc t s = (Some a, s') \<Longrightarrow>
     memp_reach sizes base (out(t := add_mset a (out t))) s'"
| malloc_null: "memp_reach sizes base out s \<Longrightarrow> memp_malloc t s = (None, s') \<Longrightarrow>
     memp_reach sizes base out s'"
| free: "memp_reach sizes base out s \<Longrightarrow> a \<in># out t \<Longrightarrow>
     memp_reach sizes base (out(t := out t - {#a#})) (memp_free t (Some a) s)"

definition memp_inv :: "(memp_t \<Rightarrow> nat) \<Rightarrow> nat \<Rightarrow> (memp_t \<Rightarrow> nat multiset) \<Rightarrow> 'a memp_state_scheme \<Rightarrow> bool" where
  "memp_inv sizes base out s \<longleftrightarrow>
     (\<forall>t. pool_ok (memp_elems sizes base t) (memp_tab s t) (out t) \<and>
          st_used (memp_stats s t) = of_nat (size (out t)))"

lemma memp_inv_init:
  assumes "\<forall>t. 0 < sizes t"
  shows "memp_inv sizes base (\<lambda>_. {#}) (memp_init sizes base s)"
  using assms
  by (simp add: memp_inv_def pool_ok_def memp_init_tab memp_elems_distinct)
    (simp add: memp_init_def memp_init_from_stats)

lemma memp_malloc_used:
  "memp_malloc t s = (Some a, s') \<Longrightarrow>
   st_used (memp_stats s' u) = st_used (memp_stats s u) + (if u = t then 1 else 0)"
  by (auto simp: memp_malloc_def memp_stats_upd_def stats_inc_used_def Let_def split: list.splits)

lemma memp_malloc_null_used:
  "memp_malloc t s = (None, s') \<Longrightarrow> st_used (memp_stats s' u) = st_used (memp_stats s u)"
  by (auto simp: memp_malloc_def memp_stats_upd_def Let_def split: list.splits)

lemma memp_free_used:
  "st_used (memp_stats (memp_free t (Some a) s) u) =
   st_used (memp_stats s u) - (if u = t then 1 else 0)"
  by (simp add: memp_free_def memp_stats_upd_def Let_def)

lemma memp_inv_malloc:
  assumes inv: "memp_inv sizes base out s" and m: "memp_malloc t s = (Some a, s')"
  shows "memp_inv sizes base (out(t := add_mset a (out t))) s'"
proof -
  have "pool_ok (memp_elems sizes base u) (memp_tab s' u) ((out(t := add_mset a (out t))) u)" for u
    using inv m memp_malloc_other [of u t s] memp_pool.take_ok(1) [OF _ m]
    by (cases "u = t") (auto simp: memp_inv_def)
  moreover have "st_used (memp_stats s' u) = of_nat (size ((out(t := add_mset a (out t))) u))" for u
    using inv memp_malloc_used [OF m, of u] by (auto simp: memp_inv_def)
  ultimately show ?thesis by (simp add: memp_inv_def)
qed

lemma memp_inv_malloc_null:
  assumes inv: "memp_inv sizes base out s" and m: "memp_malloc t s = (None, s')"
  shows "memp_inv sizes base out s'"
proof -
  have "pool_ok (memp_elems sizes base u) (memp_tab s' u) (out u)" for u
    using inv m memp_malloc_other [of u t s] memp_pool.take_fail_ok(1) [OF _ m]
    by (cases "u = t") (auto simp: memp_inv_def)
  then show ?thesis
    using inv memp_malloc_null_used [OF m] by (simp add: memp_inv_def)
qed

lemma memp_inv_free:
  assumes inv: "memp_inv sizes base out s" and a: "a \<in># out t"
  shows "memp_inv sizes base (out(t := out t - {#a#})) (memp_free t (Some a) s)"
proof -
  from a obtain out' where out': "out t = add_mset a out'"
    by (blast dest: multi_member_split)
  have "pool_ok (memp_elems sizes base u) (memp_tab (memp_free t (Some a) s) u)
          ((out(t := out t - {#a#})) u)" for u
    using inv memp_free_other [of u t "Some a" s] memp_pool.give_ok [OF _ a, of _ s]
    by (cases "u = t") (auto simp: memp_inv_def)
  moreover have "st_used (memp_stats (memp_free t (Some a) s) u) =
      of_nat (size ((out(t := out t - {#a#})) u))" for u
    using inv memp_free_used [of t a s u] out' by (auto simp: memp_inv_def)
  ultimately show ?thesis by (simp add: memp_inv_def)
qed

lemma memp_reach_inv:
  assumes "memp_reach sizes base out s" and "\<forall>t. 0 < sizes t"
  shows "memp_inv sizes base out s"
  using assms
  by (induction rule: memp_reach.induct)
    (auto intro: memp_inv_init memp_inv_malloc memp_inv_malloc_null memp_inv_free)

section \<open>Properties\<close>

text \<open>
  C23: whatever sequence of allocations and releases has run since \<open>memp_init\<close>, a successful
  \<open>memp_malloc\<close> returns an element of its pool whose bytes overlap none of the elements, of any
  pool, that are still held.
\<close>

theorem memp_malloc_fresh:
  assumes "memp_reach sizes base out s" and "\<forall>t. 0 < sizes t"
    and "memp_malloc t s = (Some a, s')"
  shows "a \<in> set (memp_elems sizes base t) \<and>
    (\<forall>u. \<forall>b \<in># out u. a + sizes t \<le> b \<or> b + sizes u \<le> a)"
proof -
  have inv: "memp_inv sizes base out s"
    using assms(1,2) by (rule memp_reach_inv)
  then have ok: "pool_ok (memp_elems sizes base u) (memp_tab s u) (out u)" for u
    by (simp add: memp_inv_def)
  note a = memp_pool.take_ok [OF ok assms(3)]
  have "b \<in> set (memp_elems sizes base u)" if "b \<in># out u" for b u
    using ok [of u] that by (metis pool_ok_def set_mset_mset union_iff)
  moreover have "(t, a) \<noteq> (u, b)" if "b \<in># out u" for b u
    using a(2) that by auto
  ultimately show ?thesis
    using a(3) memp_elems_disjoint by blast
qed

text \<open>
  C24: the counters tell the truth: \<open>used\<close> is the number of elements of the pool that are held,
  it never exceeds the pool's size, and \<open>memp_malloc\<close> fails only when all are held.
\<close>

theorem memp_stats_correct:
  assumes "memp_reach sizes base out s" and "\<forall>t. 0 < sizes t"
  shows "unat (st_used (memp_stats s t)) = size (out t) \<and> size (out t) \<le> memp_num t \<and>
    (fst (memp_malloc t s) = None \<longleftrightarrow> size (out t) = memp_num t)"
proof -
  have inv: "memp_inv sizes base out s"
    using assms by (rule memp_reach_inv)
  then have "size (mset (memp_tab s t) + out t) = size (mset (memp_elems sizes base t))"
    by (simp add: memp_inv_def pool_ok_def)
  then have sz: "length (memp_tab s t) + size (out t) = memp_num t"
    by (simp add: memp_elems_def)
  moreover have "memp_num t \<le> 40" by (cases t) simp_all
  ultimately have "unat (of_nat (size (out t)) :: 64 word) = size (out t)"
    by (simp add: unat_of_nat take_bit_nat_eq_self)
  then show ?thesis
    using inv sz memp_pool.take_None_iff [of t s] by (auto simp: memp_inv_def)
qed

text \<open>A run of three operations on which the two theorems apply.\<close>

definition memp_ex0 :: memp_state where
  "memp_ex0 = memp_init (\<lambda>_. 2) 100 \<lparr>memp_tab = (\<lambda>_. []), memp_stats = (\<lambda>_. \<lparr>st_err = 0, st_avail = 0, st_used = 0, st_max = 0\<rparr>)\<rparr>"

lemma memp_ex_malloc:
  "memp_malloc MEMP_PBUF memp_ex0 = (Some 236, snd (memp_malloc MEMP_PBUF memp_ex0))"
  "memp_malloc MEMP_PBUF (snd (memp_malloc MEMP_PBUF memp_ex0)) =
     (Some 234, snd (memp_malloc MEMP_PBUF (snd (memp_malloc MEMP_PBUF memp_ex0))))"
  by (simp_all add: memp_malloc_def memp_ex0_def memp_init_tab memp_elems_def memp_pools_def
      upt_rec memp_stats_upd_def)

lemma memp_ex_reach:
  "memp_reach (\<lambda>_. 2) 100 ((\<lambda>_. {#})(MEMP_PBUF := {#236#})) (snd (memp_malloc MEMP_PBUF memp_ex0))"
proof -
  have "memp_reach (\<lambda>_. 2) 100 (\<lambda>_. {#}) memp_ex0"
    unfolding memp_ex0_def by (rule memp_reach.init)
  from memp_reach.malloc [OF this memp_ex_malloc(1)] show ?thesis by simp
qed

theorem memp_malloc_fresh_witness:
  "234 \<in> set (memp_elems (\<lambda>_. 2) 100 MEMP_PBUF) \<and> (234 + (2 :: nat) \<le> 236 \<or> 236 + 2 \<le> (234 :: nat))"
  using memp_malloc_fresh [OF memp_ex_reach _ memp_ex_malloc(2)] by simp

theorem memp_stats_correct_witness:
  "unat (st_used (memp_stats (snd (memp_malloc MEMP_PBUF memp_ex0)) MEMP_PBUF)) = 1"
  using memp_stats_correct [OF memp_ex_reach, of MEMP_PBUF] by simp

end
