(* ===== verification/Pbuf.thy ===== *)
theory Pbuf
  imports Memp
begin

text \<open>
  Packet buffers: \<^verbatim>\<open>src/pbuf.c\<close> and \<^verbatim>\<open>include/lwip/pbuf.h\<close>. A chain linked by \<open>next\<close> is the
  list of its buffers, the empty list being \<open>NULL\<close>. The reference counts live in the shared
  state, by the address of the buffer, because two chains may hold the same buffer. Memory that
  \<open>malloc\<close> or the pool hands out has arbitrary contents, which the environment supplies.
\<close>

section \<open>Data\<close>

datatype pbuf_layer = PBUF_TRANSPORT | PBUF_IP | PBUF_RAW

datatype pbuf_type = PBUF_RAM | PBUF_ROM | PBUF_REF | PBUF_POOL

abbreviation PBUF_FLAG_PUSH :: u8 where "PBUF_FLAG_PUSH \<equiv> 0x01"
abbreviation PBUF_FLAG_TCP_FIN :: u8 where "PBUF_FLAG_TCP_FIN \<equiv> 0x20"

text \<open>
  \<open>pb_mem\<close> is the memory the payload lies in: what follows the structure for \<open>PBUF_RAM\<close> and
  \<open>PBUF_POOL\<close>, the referenced memory for the other two. \<open>pb_off\<close> is \<open>payload\<close> relative to its
  beginning. A buffer whose \<open>payload\<close> was never set has no memory.
\<close>

record pbuf =
  pb_addr :: nat
  pb_mem :: "u8 list"
  pb_off :: int
  pb_tot_len :: u16
  pb_len :: u16
  pb_type :: pbuf_type
  pb_flags :: u8

text \<open>
  The environment: the address the \<open>k\<close>-th call of \<open>mem_malloc\<close> returns for \<open>n\<close> bytes, the
  contents of the \<open>k\<close>-th block that is handed out, and what the \<open>k\<close>-th call of the transmit
  function below the stack returns.
\<close>

record env =
  env_malloc :: "nat \<Rightarrow> nat \<Rightarrow> nat option"
  env_junk :: "nat \<Rightarrow> nat \<Rightarrow> u8"
  env_ip_output :: "nat \<Rightarrow> err_t"

record mem_state = memp_state +
  sy_mallocs :: nat
  sy_allocs :: nat
  sy_heap :: "nat list"
  sy_ref :: "nat \<Rightarrow> u16"
  sy_ooseq_pending :: u8

definition fresh_bytes :: "env \<Rightarrow> nat \<Rightarrow> 'a mem_state_scheme \<Rightarrow> u8 list" where
  "fresh_bytes env n s = map (env_junk env (sy_allocs s)) [0..<n]"

text \<open>\<open>mem_malloc\<close> and \<open>mem_free\<close> are \<open>malloc\<close> and \<open>free\<close> of the C library.\<close>

definition mem_malloc :: "env \<Rightarrow> nat \<Rightarrow> 'a mem_state_scheme \<Rightarrow> nat option \<times> 'a mem_state_scheme" where
  "mem_malloc env n s =
     (let s1 = s\<lparr>sy_mallocs := sy_mallocs s + 1\<rparr>
      in case env_malloc env (sy_mallocs s) n of
           None \<Rightarrow> (None, s1)
         | Some a \<Rightarrow> (Some a, s1\<lparr>sy_heap := a # sy_heap s\<rparr>))"

definition mem_free :: "nat \<Rightarrow> 'a mem_state_scheme \<Rightarrow> 'a mem_state_scheme" where
  "mem_free a s = s\<lparr>sy_heap := remove1 a (sy_heap s)\<rparr>"

text \<open>\<open>SIZEOF_STRUCT_PBUF\<close> on a 64-bit target; it only determines the size asked of \<open>malloc\<close>.\<close>

abbreviation SIZEOF_STRUCT_PBUF :: nat where "SIZEOF_STRUCT_PBUF \<equiv> 24"

section \<open>Access to the payload\<close>

text \<open>\<open>MEMCPY\<close> from and to \<open>payload + i\<close>; outside the buffer's memory it is undefined.\<close>

definition pb_read :: "pbuf \<Rightarrow> int \<Rightarrow> nat \<Rightarrow> u8 list option" where
  "pb_read p i n =
     (if n = 0 then Some []
      else if 0 \<le> pb_off p + i \<and> nat (pb_off p + i) + n \<le> length (pb_mem p)
      then Some (take n (drop (nat (pb_off p + i)) (pb_mem p))) else None)"

definition pb_write :: "pbuf \<Rightarrow> int \<Rightarrow> u8 list \<Rightarrow> pbuf option" where
  "pb_write p i bs =
     (if bs = [] then Some p
      else if 0 \<le> pb_off p + i \<and> nat (pb_off p + i) + length bs \<le> length (pb_mem p)
      then Some (p\<lparr>pb_mem := take (nat (pb_off p + i)) (pb_mem p) @ bs @
                             drop (nat (pb_off p + i) + length bs) (pb_mem p)\<rparr>) else None)"

text \<open>Reading \<open>n\<close> bytes at offset \<open>i\<close> of a memory area of the caller.\<close>

definition buf_read :: "u8 list \<Rightarrow> nat \<Rightarrow> nat \<Rightarrow> u8 list option" where
  "buf_read b i n = (if i + n \<le> length b then Some (take n (drop i b)) else None)"

section \<open>Releasing\<close>

definition pbuf_ref_of :: "pbuf \<Rightarrow> 'a mem_state_scheme \<Rightarrow> u16" where
  "pbuf_ref_of p s = sy_ref s (pb_addr p)"

definition pbuf_set_ref :: "pbuf \<Rightarrow> u16 \<Rightarrow> 'a mem_state_scheme \<Rightarrow> 'a mem_state_scheme" where
  "pbuf_set_ref p r s = s\<lparr>sy_ref := (sy_ref s)(pb_addr p := r)\<rparr>"

definition pbuf_dealloc :: "pbuf \<Rightarrow> 'a mem_state_scheme \<Rightarrow> 'a mem_state_scheme" where
  "pbuf_dealloc p s =
     (case pb_type p of
        PBUF_POOL \<Rightarrow> memp_free MEMP_PBUF_POOL (Some (pb_addr p)) s
      | PBUF_ROM \<Rightarrow> memp_free MEMP_PBUF (Some (pb_addr p)) s
      | PBUF_REF \<Rightarrow> memp_free MEMP_PBUF (Some (pb_addr p)) s
      | PBUF_RAM \<Rightarrow> mem_free (pb_addr p) s)"

fun pbuf_free_loop :: "pbuf list \<Rightarrow> u8 \<Rightarrow> 'a mem_state_scheme \<Rightarrow> (u8 \<times> 'a mem_state_scheme) option" where
  "pbuf_free_loop [] cnt s = Some (cnt, s)"
| "pbuf_free_loop (p # q) cnt s = do {
     lwip_assert (0 < pbuf_ref_of p s);
     let ref = pbuf_ref_of p s - 1;
     let s1 = pbuf_set_ref p ref s;
     if ref = 0 then pbuf_free_loop q (cnt + 1) (pbuf_dealloc p s1)
     else Some (cnt, s1)
   }"

definition pbuf_free :: "pbuf list \<Rightarrow> 'a mem_state_scheme \<Rightarrow> (u8 \<times> 'a mem_state_scheme) option" where
  "pbuf_free p s = do {
     lwip_assert (p \<noteq> []);
     pbuf_free_loop p 0 s
   }"

definition pbuf_clen :: "pbuf list \<Rightarrow> u8" where
  "pbuf_clen p = foldl (\<lambda>len _. len + 1) 0 p"

definition pbuf_ref :: "pbuf list \<Rightarrow> 'a mem_state_scheme \<Rightarrow> 'a mem_state_scheme" where
  "pbuf_ref ps s = (case ps of [] \<Rightarrow> s | p # _ \<Rightarrow> pbuf_set_ref p (pbuf_ref_of p s + 1) s)"

section \<open>Allocation\<close>

definition pbuf_pool_is_empty :: "'a mem_state_scheme \<Rightarrow> 'a mem_state_scheme" where
  "pbuf_pool_is_empty s = s\<lparr>sy_ooseq_pending := 1\<rparr>"

fun pbuf_layer_offset :: "pbuf_layer \<Rightarrow> nat" where
  "pbuf_layer_offset PBUF_TRANSPORT = PBUF_TRANSPORT_HLEN"
| "pbuf_layer_offset PBUF_IP = 0"
| "pbuf_layer_offset PBUF_RAW = 0"

text \<open>One buffer from the pool; the payload begins \<open>off\<close> bytes into its data memory.\<close>

definition pbuf_pool_new :: "env \<Rightarrow> nat \<Rightarrow> nat \<Rightarrow> u16 \<Rightarrow> u16 \<Rightarrow> 'a mem_state_scheme \<Rightarrow> pbuf \<times> 'a mem_state_scheme" where
  "pbuf_pool_new env a off tot len s =
     (let p = \<lparr>pb_addr = a, pb_mem = fresh_bytes env PBUF_POOL_BUFSIZE s, pb_off = int off,
               pb_tot_len = tot, pb_len = len, pb_type = PBUF_POOL, pb_flags = 0\<rparr>
      in (p, pbuf_set_ref p 1 (s\<lparr>sy_allocs := sy_allocs s + 1\<rparr>)))"

text \<open>
  The loop of \<open>pbuf_alloc\<close> that extends the chain \<open>p\<close> until \<open>rem_len\<close> bytes more are there; when
  the pool runs empty it releases what it had.
\<close>

function pbuf_alloc_tail :: "env \<Rightarrow> pbuf list \<Rightarrow> int \<Rightarrow> 'a mem_state_scheme \<Rightarrow> (pbuf list \<times> 'a mem_state_scheme) option" where
  "pbuf_alloc_tail env p rem_len s =
     (if rem_len > 0 then
        (case memp_malloc MEMP_PBUF_POOL s of
           (None, s1) \<Rightarrow> do {
             (_, s2) \<leftarrow> pbuf_free p (pbuf_pool_is_empty s1);
             Some ([], s2)
           }
         | (Some a, s1) \<Rightarrow>
             if rem_len < 0xffff then
               (let len = min (of_int rem_len) (of_nat PBUF_POOL_BUFSIZE);
                    (q, s2) = pbuf_pool_new env a 0 (of_int rem_len) len s1
                in pbuf_alloc_tail env (p @ [q]) (rem_len - uint len) s2)
             else None)
      else Some (p, s))"
  by pat_completeness auto

lemma pool_chunk:
  assumes "0 < r" and "r < 0xffff"
  shows "uint (min (of_int r) (556 :: u16)) = min r 556" and "uint (word_of_int r :: u16) = r"
proof -
  have r: "uint (word_of_int r :: u16) = r"
    using assms by (simp add: uint_word_of_int)
  then show "uint (word_of_int r :: u16) = r" .
  have "(word_of_int r :: u16) \<le> 556 \<longleftrightarrow> r \<le> 556"
    by (simp add: word_le_def r)
  then show "uint (min (of_int r) (556 :: u16)) = min r 556"
    using r by (auto simp: min_def)
qed

termination pbuf_alloc_tail
proof (relation "measure (\<lambda>(env, p, rem_len, s). nat rem_len)", goal_cases)
  case (2 env p rem_len s x1 s1 a len q s2)
  then show ?case using pool_chunk [of rem_len] by auto
qed simp

definition pbuf_alloc_pool :: "env \<Rightarrow> nat \<Rightarrow> u16 \<Rightarrow> 'a mem_state_scheme \<Rightarrow> (pbuf list \<times> 'a mem_state_scheme) option" where
  "pbuf_alloc_pool env off len s =
     (case memp_malloc MEMP_PBUF_POOL s of
        (None, s1) \<Rightarrow> Some ([], pbuf_pool_is_empty s1)
      | (Some a, s1) \<Rightarrow> do {
          let plen = (if unat len \<le> PBUF_POOL_BUFSIZE - off then len else of_nat (PBUF_POOL_BUFSIZE - off));
          let (p, s2) = pbuf_pool_new env a off len plen s1;
          lwip_assert (off + unat plen \<le> PBUF_POOL_BUFSIZE);
          lwip_assert (PBUF_POOL_BUFSIZE - off > 0);
          pbuf_alloc_tail env [p] (uint len - uint plen) s2
        })"

definition pbuf_alloc :: "env \<Rightarrow> pbuf_layer \<Rightarrow> u16 \<Rightarrow> pbuf_type \<Rightarrow> 'a mem_state_scheme \<Rightarrow> (pbuf list \<times> 'a mem_state_scheme) option" where
  "pbuf_alloc env layer len type s =
     (let off = pbuf_layer_offset layer in
      case type of
        PBUF_POOL \<Rightarrow> pbuf_alloc_pool env off len s
      | PBUF_RAM \<Rightarrow>
          (case mem_malloc env (SIZEOF_STRUCT_PBUF + off + unat len) s of
             (None, s1) \<Rightarrow> Some ([], s1)
           | (Some a, s1) \<Rightarrow>
               (let p = \<lparr>pb_addr = a, pb_mem = fresh_bytes env (off + unat len) s1, pb_off = int off,
                         pb_tot_len = len, pb_len = len, pb_type = PBUF_RAM, pb_flags = 0\<rparr>
                in Some ([p], pbuf_set_ref p 1 (s1\<lparr>sy_allocs := sy_allocs s1 + 1\<rparr>))))
      | _ \<Rightarrow>
          (case memp_malloc MEMP_PBUF s of
             (None, s1) \<Rightarrow> Some ([], s1)
           | (Some a, s1) \<Rightarrow>
               (let p = \<lparr>pb_addr = a, pb_mem = [], pb_off = 0,
                         pb_tot_len = len, pb_len = len, pb_type = type, pb_flags = 0\<rparr>
                in Some ([p], pbuf_set_ref p 1 s1))))"

section \<open>Shrinking, headers, chaining\<close>

text \<open>
  \<open>pbuf_realloc\<close>: \<open>grow\<close> is \<open>new_len - tot_len\<close>, an \<open>s32_t\<close>; \<open>mem_trim\<close> is the identity, since
  \<open>MEM_LIBC_MALLOC\<close> is set.
\<close>

fun pbuf_realloc_loop :: "int \<Rightarrow> u16 \<Rightarrow> pbuf list \<Rightarrow> 'a mem_state_scheme \<Rightarrow> (pbuf list \<times> 'a mem_state_scheme) option" where
  "pbuf_realloc_loop grow rem_len [] s = None"
| "pbuf_realloc_loop grow rem_len (q # qs) s =
     (if pb_len q < rem_len then do {
        lwip_assert (grow < 0xffff);
        (qs', s') \<leftarrow> pbuf_realloc_loop grow (rem_len - pb_len q) qs s;
        Some (q\<lparr>pb_tot_len := pb_tot_len q + of_int grow\<rparr> # qs', s')
      }
      else do {
        let q' = q\<lparr>pb_len := rem_len, pb_tot_len := rem_len\<rparr>;
        (if qs = [] then Some ([q'], s)
         else do { (_, s') \<leftarrow> pbuf_free qs s; Some ([q'], s') })
      })"

definition pbuf_realloc :: "pbuf list \<Rightarrow> u16 \<Rightarrow> 'a mem_state_scheme \<Rightarrow> (pbuf list \<times> 'a mem_state_scheme) option" where
  "pbuf_realloc ps new_len s =
     (case ps of
        [] \<Rightarrow> None
      | p # _ \<Rightarrow>
          if pb_tot_len p \<le> new_len then Some (ps, s)
          else pbuf_realloc_loop (uint new_len - uint (pb_tot_len p)) new_len ps s)"

text \<open>
  \<open>pbuf_header_impl\<close>: the first component of the result is the \<open>u8_t\<close> it returns, 0 for success.
  The check that the new payload is not before the data memory is the one on \<open>pb_off\<close>.
\<close>

definition pbuf_header_impl :: "pbuf list \<Rightarrow> s16 \<Rightarrow> bool \<Rightarrow> (u8 \<times> pbuf list) option" where
  "pbuf_header_impl ps inc force =
     (case ps of
        [] \<Rightarrow> None
      | p # q \<Rightarrow>
          if inc = 0 then Some (0, ps)
          else do {
            lwip_assert (sint inc < 0 \<longrightarrow> - inc \<le> pb_len p);
            let off = pb_off p - sint inc;
            let moved = p\<lparr>pb_off := off, pb_len := pb_len p + inc, pb_tot_len := pb_tot_len p + inc\<rparr>;
            (if pb_type p = PBUF_RAM \<or> pb_type p = PBUF_POOL then
               (if off < 0 then Some (1, ps) else Some (0, moved # q))
             else if sint inc < 0 \<and> - inc \<le> pb_len p then Some (0, moved # q)
             else if sint inc > 0 \<and> force then Some (0, moved # q)
             else Some (1, ps))
          })"

definition pbuf_header :: "pbuf list \<Rightarrow> s16 \<Rightarrow> (u8 \<times> pbuf list) option" where
  "pbuf_header p inc = pbuf_header_impl p inc False"

definition pbuf_header_force :: "pbuf list \<Rightarrow> s16 \<Rightarrow> (u8 \<times> pbuf list) option" where
  "pbuf_header_force p inc = pbuf_header_impl p inc True"

fun pbuf_cat_loop :: "pbuf list \<Rightarrow> pbuf list \<Rightarrow> pbuf list option" where
  "pbuf_cat_loop (p # p' # ps) t = do {
     r \<leftarrow> pbuf_cat_loop (p' # ps) t;
     Some (p\<lparr>pb_tot_len := pb_tot_len p + pb_tot_len (hd t)\<rparr> # r)
   }"
| "pbuf_cat_loop [p] t = do {
     lwip_assert (pb_tot_len p = pb_len p);
     Some (p\<lparr>pb_tot_len := pb_tot_len p + pb_tot_len (hd t)\<rparr> # t)
   }"
| "pbuf_cat_loop [] t = None"

definition pbuf_cat :: "pbuf list \<Rightarrow> pbuf list \<Rightarrow> pbuf list option" where
  "pbuf_cat h t = do {
     lwip_assert (h \<noteq> [] \<and> t \<noteq> []);
     pbuf_cat_loop h t
   }"

definition pbuf_chain :: "pbuf list \<Rightarrow> pbuf list \<Rightarrow> 'a mem_state_scheme \<Rightarrow> (pbuf list \<times> 'a mem_state_scheme) option" where
  "pbuf_chain h t s = do {
     r \<leftarrow> pbuf_cat h t;
     Some (r, pbuf_ref t s)
   }"

text \<open>\<open>pbuf_dechain\<close> returns the head on its own and the tail, empty if it was deallocated.\<close>

definition pbuf_dechain :: "pbuf list \<Rightarrow> 'a mem_state_scheme \<Rightarrow> (pbuf list \<times> pbuf list \<times> 'a mem_state_scheme) option" where
  "pbuf_dechain ps s =
     (case ps of
        [] \<Rightarrow> None
      | [p] \<Rightarrow> do {
          lwip_assert (pb_tot_len p = pb_len p);
          Some ([p], [], s)
        }
      | p # q # qs \<Rightarrow> do {
          lwip_assert (pb_tot_len q = pb_tot_len p - pb_len p \<and> pb_len p \<le> pb_tot_len p);
          let q' = q\<lparr>pb_tot_len := pb_tot_len p - pb_len p\<rparr>;
          let p' = p\<lparr>pb_tot_len := pb_len p\<rparr>;
          (tail_gone, s') \<leftarrow> pbuf_free (q' # qs) s;
          Some ([p'], if tail_gone > 0 then [] else q' # qs, s')
        })"

section \<open>Copying\<close>

text \<open>
  One round of \<open>pbuf_copy\<close> moves \<open>len\<close> bytes and ends the current source or the current target
  buffer; the target buffers it is done with are returned in front of the rest.
\<close>

function pbuf_copy_loop :: "pbuf list \<Rightarrow> pbuf list \<Rightarrow> u16 \<Rightarrow> u16 \<Rightarrow> pbuf list option" where
  "pbuf_copy_loop [] ps offset_to offset_from = None"
| "pbuf_copy_loop (t # ts) [] offset_to offset_from = None"
| "pbuf_copy_loop (t # ts) (p # ps) offset_to offset_from =
     (let len = (if uint (pb_len p) - uint offset_from \<le> uint (pb_len t) - uint offset_to
                 then pb_len p - offset_from else pb_len t - offset_to);
          offset_to' = offset_to + len;
          offset_from' = offset_from + len;
          p_from = (if pb_len p \<le> offset_from' then ps else p # ps);
          next_from = (if pb_len p \<le> offset_from' then 0 else offset_from')
      in do {
        bs \<leftarrow> pb_read p (uint offset_from) (unat len);
        t' \<leftarrow> pb_write t (uint offset_to) bs;
        lwip_assert (offset_to' \<le> pb_len t');
        lwip_assert (offset_from' \<le> pb_len p);
        lwip_assert (offset_to' = pb_len t' \<longrightarrow> ts \<noteq> [] \<or> p_from = []);
        let p_to = (if offset_to' = pb_len t' then ts else t' # ts);
        lwip_assert (p_from \<noteq> [] \<longrightarrow> pb_len (hd p_from) = pb_tot_len (hd p_from) \<longrightarrow> tl p_from = []);
        lwip_assert (p_to \<noteq> [] \<longrightarrow> pb_len (hd p_to) = pb_tot_len (hd p_to) \<longrightarrow> tl p_to = []);
        if p_from = [] then Some (t' # ts)
        else if offset_to' = pb_len t' then do {
          r \<leftarrow> pbuf_copy_loop ts p_from 0 next_from;
          Some (t' # r)
        }
        else pbuf_copy_loop (t' # ts) p_from offset_to' next_from
      })"
  by pat_completeness auto

lemma pb_write_len: "pb_write p i bs = Some p' \<Longrightarrow> pb_len p' = pb_len p \<and> pb_tot_len p' = pb_tot_len p"
  by (auto simp: pb_write_def split: if_splits)

termination pbuf_copy_loop
  by (relation "measure (\<lambda>(ts, ps, _, _). length ts + length ps)")
    (auto simp: pb_write_len split: if_splits)

definition pbuf_copy :: "pbuf list \<Rightarrow> pbuf list \<Rightarrow> (err_t \<times> pbuf list) option" where
  "pbuf_copy p_to p_from = do {
     lwip_assert (p_to \<noteq> [] \<and> p_from \<noteq> []);
     lwip_assert (pb_tot_len (hd p_from) \<le> pb_tot_len (hd p_to));
     r \<leftarrow> pbuf_copy_loop p_to p_from 0 0;
     Some (ERR_OK, r)
   }"

text \<open>
  \<open>pbuf_copy_partial\<close>: the result is the returned count and the bytes stored from \<open>dataptr\<close> on.
\<close>

fun pbuf_copy_partial_loop :: "pbuf list \<Rightarrow> u16 \<Rightarrow> u16 \<Rightarrow> u16 \<Rightarrow> u8 list \<Rightarrow> (u16 \<times> u8 list) option" where
  "pbuf_copy_partial_loop [] len off copied_total dataptr = Some (copied_total, dataptr)"
| "pbuf_copy_partial_loop (p # ps) len off copied_total dataptr =
     (if len = 0 then Some (copied_total, dataptr)
      else if off \<noteq> 0 \<and> pb_len p \<le> off then
        pbuf_copy_partial_loop ps len (off - pb_len p) copied_total dataptr
      else do {
        let buf_copy_len = (if len < pb_len p - off then len else pb_len p - off);
        bs \<leftarrow> pb_read p (uint off) (unat buf_copy_len);
        pbuf_copy_partial_loop ps (len - buf_copy_len) 0 (copied_total + buf_copy_len) (dataptr @ bs)
      })"

definition pbuf_copy_partial :: "pbuf list \<Rightarrow> u16 \<Rightarrow> u16 \<Rightarrow> (u16 \<times> u8 list) option" where
  "pbuf_copy_partial buf len off = do {
     lwip_assert (buf \<noteq> []);
     pbuf_copy_partial_loop buf len off 0 []
   }"

fun pbuf_take_loop :: "pbuf list \<Rightarrow> u8 list \<Rightarrow> u16 \<Rightarrow> u16 \<Rightarrow> pbuf list option" where
  "pbuf_take_loop [] dataptr total_copy_len copied_total =
     (if total_copy_len = 0 then Some [] else None)"
| "pbuf_take_loop (p # ps) dataptr total_copy_len copied_total =
     (if total_copy_len = 0 then Some (p # ps)
      else do {
        let buf_copy_len = (if pb_len p < total_copy_len then pb_len p else total_copy_len);
        bs \<leftarrow> buf_read dataptr (unat copied_total) (unat buf_copy_len);
        p' \<leftarrow> pb_write p 0 bs;
        ps' \<leftarrow> pbuf_take_loop ps dataptr (total_copy_len - buf_copy_len) (copied_total + buf_copy_len);
        Some (p' # ps')
      })"

definition pbuf_take :: "pbuf list \<Rightarrow> u8 list \<Rightarrow> u16 \<Rightarrow> (err_t \<times> pbuf list) option" where
  "pbuf_take buf dataptr len = do {
     lwip_assert (buf \<noteq> []);
     if pb_tot_len (hd buf) < len then Some (ERR_ARG, buf)
     else do {
       r \<leftarrow> pbuf_take_loop buf dataptr len 0;
       Some (ERR_OK, r)
     }
   }"

text \<open>\<open>pbuf_skip\<close> splits the chain: the buffers it passed, the chain it returns, the rest offset.\<close>

fun pbuf_skip :: "pbuf list \<Rightarrow> u16 \<Rightarrow> pbuf list \<times> pbuf list \<times> u16" where
  "pbuf_skip [] offset_left = ([], [], offset_left)"
| "pbuf_skip (q # qs) offset_left =
     (if pb_len q \<le> offset_left then
        (let (pre, r) = pbuf_skip qs (offset_left - pb_len q) in (q # pre, r))
      else ([], q # qs, offset_left))"

definition pbuf_take_at :: "pbuf list \<Rightarrow> u8 list \<Rightarrow> u16 \<Rightarrow> u16 \<Rightarrow> (err_t \<times> pbuf list) option" where
  "pbuf_take_at buf dataptr len off =
     (let (pre, qs, target_offset) = pbuf_skip buf off in
      case qs of
        [] \<Rightarrow> Some (ERR_MEM, buf)
      | q # rest \<Rightarrow>
          if unat target_offset + unat len \<le> unat (pb_tot_len q) then do {
            let first_copy_len = (if unat (pb_len q) - unat target_offset < unat len
                                  then pb_len q - target_offset else len);
            bs \<leftarrow> buf_read dataptr 0 (unat first_copy_len);
            q' \<leftarrow> pb_write q (uint target_offset) bs;
            (if len - first_copy_len > 0 then do {
               (err, rest') \<leftarrow> pbuf_take rest (drop (unat first_copy_len) dataptr) (len - first_copy_len);
               Some (err, pre @ q' # rest')
             } else Some (ERR_OK, pre @ q' # rest))
          }
          else Some (ERR_MEM, buf))"

definition pbuf_coalesce :: "env \<Rightarrow> pbuf list \<Rightarrow> pbuf_layer \<Rightarrow> 'a mem_state_scheme \<Rightarrow> (pbuf list \<times> 'a mem_state_scheme) option" where
  "pbuf_coalesce env ps layer s =
     (case ps of
        [] \<Rightarrow> None
      | [p] \<Rightarrow> Some (ps, s)
      | p # _ # _ \<Rightarrow> do {
          (q, s1) \<leftarrow> pbuf_alloc env layer (pb_tot_len p) PBUF_RAM s;
          if q = [] then Some (ps, s1)
          else do {
            (err, q') \<leftarrow> pbuf_copy q ps;
            lwip_assert (err = ERR_OK);
            (_, s2) \<leftarrow> pbuf_free ps s1;
            Some (q', s2)
          }
        })"

section \<open>Bytes by offset\<close>

definition pbuf_get_at :: "pbuf list \<Rightarrow> u16 \<Rightarrow> u8 option" where
  "pbuf_get_at p off =
     (case pbuf_skip p off of
        (_, q # _, q_idx) \<Rightarrow>
          if q_idx < pb_len q then do { bs \<leftarrow> pb_read q (uint q_idx) 1; Some (hd bs) } else Some 0
      | (_, [], _) \<Rightarrow> Some 0)"

definition pbuf_put_at :: "pbuf list \<Rightarrow> u16 \<Rightarrow> u8 \<Rightarrow> pbuf list option" where
  "pbuf_put_at p off d =
     (case pbuf_skip p off of
        (pre, q # qs, q_idx) \<Rightarrow>
          if q_idx < pb_len q then do { q' \<leftarrow> pb_write q (uint q_idx) [d]; Some (pre @ q' # qs) }
          else Some p
      | (_, [], _) \<Rightarrow> Some p)"

text \<open>
  The loop of \<open>pbuf_memcmp\<close>, over the function it reads a byte with (\<open>pbuf_get_at q\<close>); \<open>s2\<close> is the
  memory compared with, from index \<open>i\<close> on, for the remaining \<open>n\<close> bytes.
\<close>

fun memcmp_loop :: "(u16 \<Rightarrow> u8 option) \<Rightarrow> u16 \<Rightarrow> u8 list \<Rightarrow> nat \<Rightarrow> u16 \<Rightarrow> u16 option" where
  "memcmp_loop rd start s2 0 i = Some 0"
| "memcmp_loop rd start s2 (Suc n) i = do {
     a \<leftarrow> rd (start + i);
     b \<leftarrow> (if unat i < length s2 then Some (s2 ! unat i) else None);
     if a \<noteq> b then Some (i + 1) else memcmp_loop rd start s2 n (i + 1)
   }"

definition pbuf_memcmp :: "pbuf list \<Rightarrow> u16 \<Rightarrow> u8 list \<Rightarrow> u16 \<Rightarrow> u16 option" where
  "pbuf_memcmp p off s2 n =
     (case pbuf_skip p off of
        (_, q # qs, start) \<Rightarrow>
          if start < pb_len q then memcmp_loop (pbuf_get_at (q # qs)) start s2 (unat n) 0
          else Some 0xffff
      | (_, [], _) \<Rightarrow> Some 0xffff)"

text \<open>The search loop has no result when it does not end; \<open>i\<close> is an \<open>u16_t\<close> and may wrap.\<close>

partial_function (option) pbuf_memfind_loop :: "pbuf list \<Rightarrow> u8 list \<Rightarrow> u16 \<Rightarrow> u16 \<Rightarrow> u16 \<Rightarrow> u16 option" where
  "pbuf_memfind_loop p mem mem_len i mx =
     (if i \<le> mx then
        Option.bind (pbuf_memcmp p i mem mem_len)
          (\<lambda>plus. if plus = 0 then Some i else pbuf_memfind_loop p mem mem_len (i + 1) mx)
      else Some 0xffff)"

definition pbuf_memfind :: "pbuf list \<Rightarrow> u8 list \<Rightarrow> u16 \<Rightarrow> u16 \<Rightarrow> u16 option" where
  "pbuf_memfind p mem mem_len start_offset =
     (case p of
        [] \<Rightarrow> None
      | q # _ \<Rightarrow>
          (let mx = pb_tot_len q - mem_len in
           if unat mem_len + unat start_offset \<le> unat (pb_tot_len q)
           then pbuf_memfind_loop p mem mem_len start_offset mx
           else Some 0xffff))"

text \<open>\<open>substr\<close> is the memory the pointer refers to; a string without its final 0 is undefined.\<close>

definition pbuf_strstr :: "pbuf list \<Rightarrow> u8 list option \<Rightarrow> u16 option" where
  "pbuf_strstr p substr =
     (case substr of
        None \<Rightarrow> Some 0xffff
      | Some str \<Rightarrow>
          (if 0 \<notin> set str then None
           else if hd str = 0 then Some 0xffff
           else (case p of
             [] \<Rightarrow> None
           | q # _ \<Rightarrow>
               if pb_tot_len q = 0xffff then Some 0xffff
               else (let substr_len = length (takeWhile (\<lambda>c. c \<noteq> 0) str) in
                 if substr_len \<ge> 0xffff then Some 0xffff
                 else pbuf_memfind p str (of_nat substr_len) 0))))"

end
