(* ===== verification/Pbuf_Bytes.thy ===== *)
theory Pbuf_Bytes
  imports Pbuf
begin

text \<open>
  The byte-level view of the packet buffers of \<^verbatim>\<open>src/pbuf.c\<close>: the bytes of a chain, when a chain is
  well formed, the reader interface behind \<open>pbuf_memcmp\<close> and \<open>pbuf_memfind\<close>, and what
  \<open>pbuf_copy_partial\<close> and \<open>pbuf_take\<close> do to the bytes.
\<close>

section \<open>The bytes of a chain\<close>

definition pb_ok :: "pbuf \<Rightarrow> bool" where
  "pb_ok p \<longleftrightarrow> 0 \<le> pb_off p \<and> nat (pb_off p) + unat (pb_len p) \<le> length (pb_mem p)"

definition pb_bytes :: "pbuf \<Rightarrow> u8 list" where
  "pb_bytes p = take (unat (pb_len p)) (drop (nat (pb_off p)) (pb_mem p))"

definition chain_bytes :: "pbuf list \<Rightarrow> u8 list" where
  "chain_bytes ps = concat (map pb_bytes ps)"

definition chain_len :: "pbuf list \<Rightarrow> nat" where
  "chain_len ps = sum_list (map (\<lambda>p. unat (pb_len p)) ps)"

text \<open>
  A well-formed chain: every payload lies in its memory and every \<open>tot_len\<close> is the number of
  bytes from there to the end, as \<^verbatim>\<open>include/lwip/pbuf.h\<close> requires of a chain that is no queue.
\<close>

fun chain_ok :: "pbuf list \<Rightarrow> bool" where
  "chain_ok [] = True"
| "chain_ok (p # ps) \<longleftrightarrow> pb_ok p \<and> unat (pb_tot_len p) = unat (pb_len p) + chain_len ps \<and> chain_ok ps"

text \<open>Overwriting part of a list.\<close>

definition splice_at :: "nat \<Rightarrow> 'a list \<Rightarrow> 'a list \<Rightarrow> 'a list" where
  "splice_at i bs xs = take i xs @ bs @ drop (i + length bs) xs"

lemma splice_at_length [simp]: "i + length bs \<le> length xs \<Longrightarrow> length (splice_at i bs xs) = length xs"
  by (simp add: splice_at_def)

lemma splice_at_nil [simp]: "splice_at i [] xs = xs"
  by (simp add: splice_at_def)

lemma splice_at_append1:
  "i + length bs \<le> length xs \<Longrightarrow> splice_at i bs (xs @ ys) = splice_at i bs xs @ ys"
  by (simp add: splice_at_def)

lemma splice_at_append2:
  "length xs \<le> i \<Longrightarrow> splice_at i bs (xs @ ys) = xs @ splice_at (i - length xs) bs ys"
  by (simp add: splice_at_def)

lemma splice_at_split:
  assumes "length xs = i + length bs"
  shows "splice_at i (bs @ cs) (xs @ ys) = splice_at i bs xs @ splice_at 0 cs ys"
  using assms by (simp add: splice_at_def)

lemma splice_at_splice:
  "i + length bs + length cs \<le> length xs \<Longrightarrow>
   splice_at (i + length bs) cs (splice_at i bs xs) = splice_at i (bs @ cs) xs"
  by (simp add: splice_at_def ac_simps)

lemma take_splice_at:
  assumes "i + length bs \<le> n" and "n \<le> length xs"
  shows "take n (splice_at i bs xs) = splice_at i bs (take n xs)"
proof -
  have "xs = take n xs @ drop n xs" by simp
  moreover have "length (take n xs) = n" using assms(2) by simp
  ultimately have "splice_at i bs xs = splice_at i bs (take n xs) @ drop n xs"
    using assms(1) splice_at_append1 by metis
  then show ?thesis using assms by simp
qed

lemma drop_splice_at:
  "k + length (bs :: 'a list) + i \<le> length xs \<Longrightarrow>
   drop k (take (k + i) xs @ bs @ drop (k + i + length bs) xs) = splice_at i bs (drop k xs)"
  by (simp add: splice_at_def drop_take ac_simps)

lemma u16_bound: "unat (x :: u16) < 65536"
  by (rule less_le_trans [OF unsigned_less]) simp

lemma nth_splice_at:
  "i + length bs \<le> length xs \<Longrightarrow> j < length xs \<Longrightarrow>
   splice_at i bs xs ! j = (if i \<le> j \<and> j < i + length bs then bs ! (j - i) else xs ! j)"
  by (auto simp: splice_at_def nth_append min_def)

lemma pb_bytes_length [simp]: "pb_ok p \<Longrightarrow> length (pb_bytes p) = unat (pb_len p)"
  by (auto simp: pb_ok_def pb_bytes_def min_def)

lemma chain_simps [simp]:
  "chain_bytes [] = []" "chain_bytes (p # ps) = pb_bytes p @ chain_bytes ps"
  "chain_bytes (ps @ qs) = chain_bytes ps @ chain_bytes qs"
  "chain_len [] = 0" "chain_len (p # ps) = unat (pb_len p) + chain_len ps"
  "chain_len (ps @ qs) = chain_len ps + chain_len qs"
  by (simp_all add: chain_bytes_def chain_len_def)

lemma chain_bytes_length: "\<forall>p \<in> set ps. pb_ok p \<Longrightarrow> length (chain_bytes ps) = chain_len ps"
  by (induction ps) auto

lemma chain_ok_all: "chain_ok ps \<Longrightarrow> \<forall>p \<in> set ps. pb_ok p"
  by (induction ps) auto

lemma chain_ok_length [simp]: "chain_ok ps \<Longrightarrow> length (chain_bytes ps) = chain_len ps"
  by (simp add: chain_bytes_length chain_ok_all)

lemma chain_ok_tot: "chain_ok ps \<Longrightarrow> ps \<noteq> [] \<Longrightarrow> unat (pb_tot_len (hd ps)) = chain_len ps"
  by (cases ps) auto

lemma chain_len_bound: "chain_ok ps \<Longrightarrow> chain_len ps < 65536"
  using u16_bound [of "pb_tot_len (hd ps)"] chain_ok_tot [of ps] by (cases ps) auto

lemma uint_add_nat: "nat (k + uint (i :: u16)) = nat k + unat i" if "0 \<le> k"
  using that by (simp add: nat_add_distrib flip: unat_eq_nat_uint)

lemma pb_read_bytes:
  assumes "pb_ok p" and "unat (i :: u16) + n \<le> unat (pb_len p)"
  shows "pb_read p (uint i) n = Some (take n (drop (unat i) (pb_bytes p)))"
  using assms by (auto simp: pb_read_def pb_ok_def pb_bytes_def uint_add_nat drop_take add.commute)

lemma pb_write_bytes:
  assumes "pb_ok p" and "unat (i :: u16) + length bs \<le> unat (pb_len p)"
  obtains p' where "pb_write p (uint i) bs = Some p'" and "pb_ok p'"
    and "pb_bytes p' = splice_at (unat i) bs (pb_bytes p)"
    and "pb_len p' = pb_len p" and "pb_tot_len p' = pb_tot_len p" and "pb_addr p' = pb_addr p"
    and "pb_type p' = pb_type p" and "pb_flags p' = pb_flags p" and "pb_off p' = pb_off p"
    and "length (pb_mem p') = length (pb_mem p)"
proof (cases "bs = []")
  case True
  then show ?thesis using assms that [of p] by (simp add: pb_write_def)
next
  case False
  define m where "m = nat (pb_off p) + unat i"
  define p' where "p' = p\<lparr>pb_mem := take m (pb_mem p) @ bs @ drop (m + length bs) (pb_mem p)\<rparr>"
  have w: "pb_write p (uint i) bs = Some p'"
    using assms False by (auto simp: pb_write_def pb_ok_def uint_add_nat p'_def m_def)
  have len: "length (pb_mem p') = length (pb_mem p)"
    using assms by (simp add: p'_def pb_ok_def m_def)
  have d: "drop (nat (pb_off p)) (pb_mem p') = splice_at (unat i) bs (drop (nat (pb_off p)) (pb_mem p))"
    using assms drop_splice_at [of "nat (pb_off p)" bs "unat i" "pb_mem p"]
    by (simp add: p'_def pb_ok_def m_def)
  have "pb_bytes p' = take (unat (pb_len p)) (splice_at (unat i) bs (drop (nat (pb_off p)) (pb_mem p)))"
    using d by (simp add: pb_bytes_def) (simp add: p'_def)
  also have "\<dots> = splice_at (unat i) bs (pb_bytes p)"
    unfolding pb_bytes_def using assms by (intro take_splice_at) (auto simp: pb_ok_def)
  finally show ?thesis
    using that [OF w] len assms by (simp add: pb_ok_def) (simp add: p'_def)
qed

lemma pbuf_skip_spec:
  assumes "\<forall>p \<in> set ps. pb_ok p" and "pbuf_skip ps off = (pre, qs, idx)"
  shows "ps = pre @ qs \<and> unat off = chain_len pre + unat idx \<and>
    (qs \<noteq> [] \<longrightarrow> idx < pb_len (hd qs)) \<and> (qs = [] \<longleftrightarrow> chain_len ps \<le> unat off)"
  using assms
proof (induction ps arbitrary: off pre)
  case (Cons p ps)
  show ?case
  proof (cases "pb_len p \<le> off")
    case True
    then obtain pre' where r: "pbuf_skip ps (off - pb_len p) = (pre', qs, idx)" "pre = p # pre'"
      using Cons.prems by (auto split: prod.splits)
    have "unat (off - pb_len p) = unat off - unat (pb_len p)"
      using True by (rule unat_sub)
    moreover have "unat (pb_len p) \<le> unat off"
      using True by (simp add: word_le_nat_alt)
    ultimately show ?thesis
      using Cons.IH [OF _ r(1)] Cons.prems(1) r(2) by auto
  next
    case False
    then show ?thesis using Cons.prems by (auto simp: word_le_nat_alt not_le word_less_nat_alt)
  qed
qed auto

lemma pbuf_get_at_eq:
  assumes "\<forall>p \<in> set ps. pb_ok p"
  shows "pbuf_get_at ps off =
    Some (if unat off < length (chain_bytes ps) then chain_bytes ps ! unat off else 0)"
proof -
  obtain pre qs idx where sk: "pbuf_skip ps off = (pre, qs, idx)" by (metis prod_cases3)
  note s = pbuf_skip_spec [OF assms sk]
  show ?thesis
  proof (cases qs)
    case Nil
    then have "\<not> unat off < length (chain_bytes ps)"
      using s chain_bytes_length [OF assms] by simp
    then show ?thesis using sk Nil by (simp add: pbuf_get_at_def)
  next
    case (Cons q rest)
    have ok: "pb_ok q" "\<forall>p \<in> set pre. pb_ok p" using s assms Cons by auto
    have lt: "unat idx < unat (pb_len q)" using s Cons by (simp add: word_less_nat_alt)
    then have "pb_read q (uint idx) 1 = Some [pb_bytes q ! unat idx]"
      using ok by (subst pb_read_bytes) (simp_all add: take_Suc_conv_app_nth hd_drop_conv_nth take_Suc drop_Suc)
    then show ?thesis
      using s sk Cons lt ok chain_bytes_length [OF ok(2)] chain_bytes_length [OF assms]
      by (simp add: pbuf_get_at_def word_less_nat_alt nth_append)
  qed
qed

section \<open>Readers\<close>

text \<open>
  A reader of a byte sequence: a function that returns the byte at an offset, and zero behind the
  end. What \<open>pbuf_memcmp\<close> computes depends on nothing else of the chain.
\<close>

definition pad_nth :: "u8 list \<Rightarrow> nat \<Rightarrow> u8" where
  "pad_nth bs i = (if i < length bs then bs ! i else 0)"

text \<open>
  The result of comparing \<open>n\<close> bytes: 0, or the position (counted from \<open>k + 1\<close>) of the first
  difference.
\<close>

definition cmp_res :: "(nat \<Rightarrow> u8) \<Rightarrow> (nat \<Rightarrow> u8) \<Rightarrow> nat \<Rightarrow> nat \<Rightarrow> u16 \<Rightarrow> bool" where
  "cmp_res f g n k r \<longleftrightarrow>
     (if r = 0 then \<forall>j < n. f j = g j
      else \<exists>j < n. unat r = k + j + 1 \<and> f j \<noteq> g j \<and> (\<forall>l < j. f l = g l))"

lemma cmp_res_Suc:
  "f 0 = g 0 \<Longrightarrow> cmp_res (\<lambda>j. f (Suc j)) (\<lambda>j. g (Suc j)) n (Suc k) r \<Longrightarrow> cmp_res f g (Suc n) k r"
  unfolding cmp_res_def by (auto simp: All_less_Suc2 Ex_less_Suc2 split: if_splits)

lemma cmp_res_now: "f 0 \<noteq> g 0 \<Longrightarrow> unat r = Suc k \<Longrightarrow> cmp_res f g (Suc n) k r"
  unfolding cmp_res_def by (auto intro!: exI [of _ 0])

locale byte_reader =
  fixes rd :: "u16 \<Rightarrow> u8 option" and bs :: "u8 list"
  assumes rd_spec: "rd i = Some (pad_nth bs (unat i))"
begin

lemma memcmp_loop_spec:
  assumes "unat i + n \<le> length s2" and "unat i + n < 65536" and "unat start + unat i + n \<le> 65536"
  shows "\<exists>r. memcmp_loop rd start s2 n i = Some r \<and>
    cmp_res (\<lambda>j. pad_nth bs (unat start + unat i + j)) (\<lambda>j. s2 ! (unat i + j)) n (unat i) r"
  using assms
proof (induction n arbitrary: i)
  case 0
  then show ?case by (simp add: cmp_res_def)
next
  case (Suc n)
  have st: "unat (start + i) = unat start + unat i" and i1: "unat (i + 1) = Suc (unat i)"
    using Suc.prems by (simp_all add: unat_word_ariths)
  have "\<exists>r. memcmp_loop rd start s2 n (i + 1) = Some r \<and>
      cmp_res (\<lambda>j. pad_nth bs (unat start + unat (i + 1) + j)) (\<lambda>j. s2 ! (unat (i + 1) + j)) n (unat (i + 1)) r"
    by (rule Suc.IH) (use Suc.prems i1 in simp_all)
  then obtain r where r: "memcmp_loop rd start s2 n (i + 1) = Some r"
    "cmp_res (\<lambda>j. pad_nth bs (unat start + unat i + Suc j)) (\<lambda>j. s2 ! (unat i + Suc j)) n (Suc (unat i)) r"
    unfolding i1 by auto
  show ?case
  proof (cases "pad_nth bs (unat start + unat i) = s2 ! unat i")
    case True
    then have "memcmp_loop rd start s2 (Suc n) i = Some r"
      using Suc.prems r(1) by (simp add: rd_spec [of "start + i"] st)
    moreover have "cmp_res (\<lambda>j. pad_nth bs (unat start + unat i + j)) (\<lambda>j. s2 ! (unat i + j)) (Suc n) (unat i) r"
      by (rule cmp_res_Suc) (use True r(2) in simp_all)
    ultimately show ?thesis by blast
  next
    case False
    then have "memcmp_loop rd start s2 (Suc n) i = Some (i + 1)"
      using Suc.prems by (simp add: rd_spec [of "start + i"] st)
    then show ?thesis using False i1 by (auto intro!: cmp_res_now)
  qed
qed

lemma memcmp_loop_zero_iff:
  assumes "n \<le> length s2" and "n < 65536" and "unat start + n \<le> length bs" and "length bs < 65536"
  shows "memcmp_loop rd start s2 n 0 = Some 0 \<longleftrightarrow> take n (drop (unat start) bs) = take n s2"
proof -
  obtain r where r: "memcmp_loop rd start s2 n 0 = Some r"
    "cmp_res (\<lambda>j. pad_nth bs (unat start + j)) (\<lambda>j. s2 ! j) n 0 r"
    using memcmp_loop_spec [of 0 n s2 start] assms by (simp add: unat_0) blast
  have l: "length (take n (drop (unat start) bs)) = n" "length (take n s2) = n"
    using assms by simp_all
  have "take n (drop (unat start) bs) = take n s2 \<longleftrightarrow> (\<forall>j < n. pad_nth bs (unat start + j) = s2 ! j)"
    unfolding list_eq_iff_nth_eq l using assms by (simp add: pad_nth_def)
  then show ?thesis using r by (auto simp: cmp_res_def split: if_splits)
qed

end

lemma pad_nth_pbuf_get_at:
  "\<forall>p \<in> set ps. pb_ok p \<Longrightarrow> pbuf_get_at ps off = Some (pad_nth (chain_bytes ps) (unat off))"
  by (simp add: pbuf_get_at_eq pad_nth_def)

text \<open>Every chain whose payloads lie in their memory is a reader of its bytes.\<close>

definition okays :: "pbuf list \<Rightarrow> pbuf list" where
  "okays ps = (if \<forall>p \<in> set ps. pb_ok p then ps else [])"

interpretation pbuf_reader: byte_reader "pbuf_get_at (okays ps)" "chain_bytes (okays ps)" for ps
  by unfold_locales (simp add: pad_nth_pbuf_get_at okays_def)


lemma okays_ok [simp]: "chain_ok ps \<Longrightarrow> okays ps = ps"
  by (simp add: okays_def chain_ok_all)

lemma chain_ok_append: "chain_ok (pre @ qs) \<Longrightarrow> chain_ok qs"
  by (induction pre) auto

lemma chain_ok_app_tot:
  "chain_ok qs \<Longrightarrow> \<forall>p \<in> set pre. pb_ok p \<Longrightarrow> chain_ok (pre @ qs) \<longleftrightarrow>
   (\<forall>i < length pre. unat (pb_tot_len (pre ! i)) = chain_len (drop i pre) + chain_len qs)"
  by (induction pre) (auto simp: All_less_Suc2)

lemma pbuf_skip_ok:
  assumes "chain_ok ps" and "unat off < chain_len ps"
  obtains pre q qs idx where "pbuf_skip ps off = (pre, q # qs, idx)" and "ps = pre @ q # qs"
    and "unat off = chain_len pre + unat idx" and "idx < pb_len q" and "chain_ok (q # qs)"
    and "pb_ok q" and "\<forall>p \<in> set pre. pb_ok p" and "chain_len pre = length (chain_bytes pre)"
proof -
  obtain pre r idx where sk: "pbuf_skip ps off = (pre, r, idx)" by (metis prod_cases3)
  note s = pbuf_skip_spec [OF chain_ok_all [OF assms(1)] sk]
  then obtain q qs where r: "r = q # qs" using assms(2) by (cases r) auto
  then have ps: "ps = pre @ q # qs" using s by simp
  have ok: "chain_ok (q # qs)" using assms(1) unfolding ps by (rule chain_ok_append)
  have pre: "\<forall>p \<in> set pre. pb_ok p" using ps chain_ok_all [OF assms(1)] by simp
  have q: "pb_ok q" using ok by simp
  have "idx < pb_len q" "unat off = chain_len pre + unat idx" using s r by simp_all
  then show ?thesis
    using that [OF sk [unfolded r] ps _ _ ok q pre] chain_bytes_length [OF pre] by metis
qed

text \<open>
  \<open>pbuf_memcmp\<close> of a range inside the chain returns 0 exactly when the bytes of the range are
  the first \<open>n\<close> bytes of the memory, across however many buffers the range runs.
\<close>

lemma memcmp_zero_iff:
  assumes "chain_ok p" and "unat off < chain_len p" and "unat off + unat n \<le> chain_len p"
    and "unat n \<le> length s2"
  shows "\<exists>r. pbuf_memcmp p off s2 n = Some r \<and>
    (r = 0 \<longleftrightarrow> take (unat n) (drop (unat off) (chain_bytes p)) = take (unat n) s2)"
proof -
  obtain pre q qs idx where k: "pbuf_skip p off = (pre, q # qs, idx)" "p = pre @ q # qs"
      "unat off = chain_len pre + unat idx" "idx < pb_len q" "chain_ok (q # qs)"
      "chain_len pre = length (chain_bytes pre)"
    using assms(1,2) by (rule pbuf_skip_ok)
  have ok: "okays (q # qs) = q # qs" using k(5) by simp
  have len: "length (chain_bytes (q # qs)) = chain_len (q # qs)" using k(5) by (rule chain_ok_length)
  have fits: "unat idx + unat n \<le> length (chain_bytes (q # qs))"
    unfolding len using assms(3) k(2,3) by simp
  have b: "length (chain_bytes (q # qs)) < 65536"
    unfolding len using k(5) by (rule chain_len_bound)
  have nb: "unat n < 65536" by (rule u16_bound)
  have e: "pbuf_memcmp p off s2 n = memcmp_loop (pbuf_get_at (q # qs)) idx s2 (unat n) 0"
    using k by (simp add: pbuf_memcmp_def)
  obtain r where r: "memcmp_loop (pbuf_get_at (q # qs)) idx s2 (unat n) 0 = Some r"
    using pbuf_reader.memcmp_loop_spec [of 0 "unat n" s2 idx "q # qs", unfolded ok] assms(4) nb fits b
    by (auto simp: unat_0)
  have "r = 0 \<longleftrightarrow> take (unat n) (drop (unat idx) (chain_bytes (q # qs))) = take (unat n) s2"
    using pbuf_reader.memcmp_loop_zero_iff [of "unat n" s2 idx "q # qs", unfolded ok, OF assms(4) nb fits b] r
    by simp
  moreover have "drop (unat idx) (chain_bytes (q # qs)) = drop (unat off) (chain_bytes p)"
    unfolding k(2,3) k(6) by (simp add: drop_append)
  ultimately show ?thesis using e r by metis
qed

text \<open>\<open>pat\<close> occurs in \<open>bs\<close> at \<open>i\<close>.\<close>

definition occurs_at :: "'a list \<Rightarrow> 'a list \<Rightarrow> nat \<Rightarrow> bool" where
  "occurs_at bs pat i \<longleftrightarrow> i + length pat \<le> length bs \<and> take (length pat) (drop i bs) = pat"

lemma memfind_loop_spec:
  assumes "chain_ok p" and "mem \<noteq> []" and "length mem \<le> chain_len p"
    and "length mem \<le> length m" and "take (length mem) m = mem" and "unat mem_len = length mem"
    and "chain_len p < 65535" and "unat mx = chain_len p - length mem"
  shows "\<exists>r. pbuf_memfind_loop p m mem_len i mx = Some r \<and>
    (if \<exists>j \<ge> unat i. occurs_at (chain_bytes p) mem j
     then occurs_at (chain_bytes p) mem (unat r) \<and> unat i \<le> unat r \<and>
       (\<forall>j. unat i \<le> j \<and> j < unat r \<longrightarrow> \<not> occurs_at (chain_bytes p) mem j)
     else r = 0xffff)"
proof (induction "Suc (unat mx) - unat i" arbitrary: i)
  case 0
  then have "\<not> i \<le> mx" by (simp add: word_le_nat_alt)
  moreover have "\<not> occurs_at (chain_bytes p) mem j" if "unat i \<le> j" for j
    using 0 that assms(1,2,8) by (auto simp: occurs_at_def)
  ultimately show ?case
    by (subst pbuf_memfind_loop.simps) auto
next
  case (Suc d)
  then have le: "unat i \<le> unat mx" by simp
  then have in_range: "unat i + unat mem_len \<le> chain_len p" "unat i < chain_len p"
    using assms by (auto simp flip: length_greater_0_conv)
  have i1: "unat (i + 1) = Suc (unat i)"
    using le assms(7,8) by (simp add: unat_word_ariths)
  obtain c where c: "pbuf_memcmp p i m mem_len = Some c"
      "c = 0 \<longleftrightarrow> take (unat mem_len) (drop (unat i) (chain_bytes p)) = take (unat mem_len) m"
    using memcmp_zero_iff [OF assms(1) in_range(2,1), of m] assms(4,6) by auto
  have occ: "c = 0 \<longleftrightarrow> occurs_at (chain_bytes p) mem (unat i)"
    using c(2) in_range(1) assms(1,5,6) by (simp add: occurs_at_def)
  show ?case
  proof (cases "c = 0")
    case True
    then show ?thesis
      using le c(1) occ by (subst pbuf_memfind_loop.simps) (auto simp: word_le_nat_alt)
  next
    case False
    have step: "pbuf_memfind_loop p m mem_len i mx = pbuf_memfind_loop p m mem_len (i + 1) mx"
      using le c(1) False by (subst pbuf_memfind_loop.simps) (simp add: word_le_nat_alt)
    have next_eq: "(unat i \<le> j) = (j = unat i \<or> unat (i + 1) \<le> j)" for j
      unfolding i1 by auto
    have "d = Suc (unat mx) - unat (i + 1)" using Suc.hyps(2) i1 by simp
    from Suc.hyps(1) [OF this] show ?thesis
      unfolding step next_eq using occ False by (metis (no_types, lifting) nless_le)
  qed
qed

text \<open>
  C32: \<open>pbuf_memfind\<close> always returns, and its result is the first position from \<open>start_offset\<close> on
  where the memory occurs in the bytes of the chain, or 0xffff when there is none.
\<close>

theorem pbuf_memfind_first:
  assumes "chain_ok p" and "p \<noteq> []" and "mem \<noteq> []" and "chain_len p < 65535"
    and "length mem \<le> length m" and "take (length mem) m = mem" and "unat mem_len = length mem"
  shows "\<exists>r. pbuf_memfind p m mem_len start = Some r \<and>
    (if \<exists>j \<ge> unat start. occurs_at (chain_bytes p) mem j
     then occurs_at (chain_bytes p) mem (unat r) \<and> unat start \<le> unat r \<and>
       (\<forall>j. unat start \<le> j \<and> j < unat r \<longrightarrow> \<not> occurs_at (chain_bytes p) mem j)
     else r = 0xffff)"
proof -
  obtain q qs where p: "p = q # qs" using assms(2) by (cases p) auto
  then have tot: "unat (pb_tot_len q) = chain_len p" using assms(1) by simp
  show ?thesis
  proof (cases "unat mem_len + unat start \<le> unat (pb_tot_len q)")
    case True
    then have "unat (pb_tot_len q - mem_len) = chain_len p - length mem"
      using tot assms(7) by (subst unat_sub) (simp_all add: word_le_nat_alt)
    then show ?thesis
      using memfind_loop_spec [OF assms(1,3) _ assms(5,6,7,4), of "pb_tot_len q - mem_len" start]
        True tot assms(7) p by (simp add: pbuf_memfind_def)
  next
    case False
    then have "\<not> occurs_at (chain_bytes p) mem j" if "unat start \<le> j" for j
      using that tot assms(1,7) by (auto simp: occurs_at_def)
    then show ?thesis using False p by (auto simp: pbuf_memfind_def)
  qed
qed


section \<open>Reading and writing ranges\<close>

lemma copy_partial_loop_eq:
  assumes "\<forall>p \<in> set ps. pb_ok p" and "unat len + length acc < 65536" and "unat tot = length acc"
  shows "\<exists>n. pbuf_copy_partial_loop ps len off tot acc =
    Some (n, acc @ take (unat len) (drop (unat off) (chain_bytes ps))) \<and>
    unat n = length acc + min (unat len) (length (chain_bytes ps) - unat off)"
  using assms
proof (induction ps arbitrary: len off tot acc)
  case Nil
  then show ?case by simp
next
  case (Cons p ps)
  have ok: "pb_ok p" and oks: "\<forall>p \<in> set ps. pb_ok p" using Cons.prems(1) by auto
  show ?case
  proof (cases "len = 0")
    case True
    then show ?thesis using Cons.prems by simp
  next
    case nz: False
    show ?thesis
    proof (cases "off \<noteq> 0 \<and> pb_len p \<le> off")
      case True
      then have "unat (off - pb_len p) = unat off - unat (pb_len p)" "unat (pb_len p) \<le> unat off"
        by (simp_all add: unat_sub word_le_nat_alt)
      then show ?thesis
        using Cons.IH [OF oks, of len acc tot "off - pb_len p"] Cons.prems ok nz True
        by (simp add: add.commute)
    next
      case False
      then have le: "unat off \<le> unat (pb_len p)"
        by (auto simp: word_le_nat_alt not_le)
      then have sub: "unat (pb_len p - off) = unat (pb_len p) - unat off"
        by (simp add: unat_sub word_le_nat_alt)
      define c where "c = (if len < pb_len p - off then len else pb_len p - off)"
      have c: "unat c = min (unat len) (unat (pb_len p) - unat off)"
        by (auto simp: c_def word_less_nat_alt sub)
      have rd: "pb_read p (uint off) (unat c) = Some (take (unat c) (drop (unat off) (pb_bytes p)))"
        using ok le c by (intro pb_read_bytes) auto
      have lc: "unat (len - c) = unat len - unat c"
        using c by (simp add: unat_sub word_le_nat_alt)
      have tc: "unat (tot + c) = unat tot + unat c"
        using Cons.prems c by (subst unat_word_ariths) simp
      let ?acc = "acc @ take (unat c) (drop (unat off) (pb_bytes p))"
      have la: "length ?acc = length acc + unat c" using ok c by simp
      obtain n where n: "pbuf_copy_partial_loop ps (len - c) 0 (tot + c) ?acc =
          Some (n, ?acc @ take (unat (len - c)) (drop (unat 0) (chain_bytes ps)))"
        "unat n = length ?acc + min (unat (len - c)) (length (chain_bytes ps) - unat 0)"
        using Cons.IH [OF oks, of "len - c" ?acc "tot + c" 0] Cons.prems c unfolding la lc tc by auto
      have "take (unat c) (drop (unat off) (pb_bytes p)) = take (unat len) (drop (unat off) (pb_bytes p))"
        using ok c by (simp add: min_def)
      then have "?acc @ take (unat (len - c)) (drop (unat 0) (chain_bytes ps)) =
          acc @ take (unat len) (drop (unat off) (chain_bytes (p # ps)))"
        using ok le by (cases "unat len \<le> unat (pb_len p) - unat off") (simp_all add: lc c)
      moreover have "unat n = length acc + min (unat len) (length (chain_bytes (p # ps)) - unat off)"
        unfolding n(2) la lc c using ok le by (simp add: unat_0)
      moreover have "pbuf_copy_partial_loop (p # ps) len off tot acc =
          pbuf_copy_partial_loop ps (len - c) 0 (tot + c) ?acc"
        using nz False rd by (auto simp: c_def [symmetric] Let_def)
      ultimately show ?thesis using n(1) by metis
    qed
  qed
qed

text \<open>
  C27: \<open>pbuf_copy_partial\<close> stores exactly the bytes of the chain from \<open>offset\<close> on, at most \<open>len\<close> and
  never more than the chain has, and returns their number.
\<close>

theorem pbuf_copy_partial_bytes:
  assumes "chain_ok buf" and "buf \<noteq> []"
  shows "pbuf_copy_partial buf len off =
    Some (of_nat (min (unat len) (chain_len buf - unat off)),
          take (unat len) (drop (unat off) (chain_bytes buf)))"
proof -
  obtain n where n: "pbuf_copy_partial_loop buf len off 0 [] =
      Some (n, [] @ take (unat len) (drop (unat off) (chain_bytes buf)))"
    "unat n = length [] + min (unat len) (length (chain_bytes buf) - unat off)"
    using copy_partial_loop_eq [OF chain_ok_all [OF assms(1)], of len "[]" 0 off] u16_bound [of len]
    by auto
  then have e: "unat n = min (unat len) (chain_len buf - unat off)" using assms(1) by simp
  have "n = of_nat (unat n)" by simp
  then have "n = of_nat (min (unat len) (chain_len buf - unat off))" unfolding e .
  then show ?thesis using n(1) assms(2) by (simp add: pbuf_copy_partial_def)
qed

text \<open>Writes that change nothing but the bytes keep a chain well formed.\<close>

definition same_shape :: "pbuf \<Rightarrow> pbuf \<Rightarrow> bool" where
  "same_shape p p' \<longleftrightarrow> pb_len p' = pb_len p \<and> pb_tot_len p' = pb_tot_len p \<and> pb_addr p' = pb_addr p \<and>
     pb_type p' = pb_type p \<and> pb_flags p' = pb_flags p \<and> pb_off p' = pb_off p \<and>
     length (pb_mem p') = length (pb_mem p)"

lemma same_shape_refl [simp]: "same_shape p p"
  by (simp add: same_shape_def)

lemma same_shape_trans: "same_shape p q \<Longrightarrow> same_shape q r \<Longrightarrow> same_shape p r"
  by (simp add: same_shape_def)

lemma same_shape_ok: "same_shape p p' \<Longrightarrow> pb_ok p' = pb_ok p"
  by (simp add: same_shape_def pb_ok_def)

lemma same_shapes_refl [simp]: "list_all2 same_shape ps ps"
  by (simp add: list.rel_refl)

lemma same_shapes_len: "list_all2 same_shape ps ps' \<Longrightarrow> chain_len ps' = chain_len ps"
  by (induction rule: list_all2_induct) (auto simp: same_shape_def)

lemma same_shapes_ok: "list_all2 same_shape ps ps' \<Longrightarrow> chain_ok ps' = chain_ok ps"
  by (induction rule: list_all2_induct) (auto simp: same_shapes_len same_shape_ok, auto simp: same_shape_def)

lemma pb_write_shape:
  assumes "pb_ok p" and "unat (i :: u16) + length bs \<le> unat (pb_len p)"
  shows "\<exists>p'. pb_write p (uint i) bs = Some p' \<and> pb_ok p' \<and> same_shape p p' \<and>
    pb_bytes p' = splice_at (unat i) bs (pb_bytes p)"
  using pb_write_bytes [OF assms] unfolding same_shape_def by metis

lemma take_loop_bytes:
  assumes "\<forall>p \<in> set ps. pb_ok p" and "unat len \<le> chain_len ps" and "unat cop + unat len \<le> length d"
    and "unat cop + unat len < 65536"
  shows "\<exists>ps'. pbuf_take_loop ps d len cop = Some ps' \<and> list_all2 same_shape ps ps' \<and>
    chain_bytes ps' = splice_at 0 (take (unat len) (drop (unat cop) d)) (chain_bytes ps)"
  using assms
proof (induction ps arbitrary: len cop)
  case Nil
  then have "len = 0" by (simp add: unat_eq_zero)
  then show ?case by simp
next
  case (Cons p ps)
  have ok: "pb_ok p" and oks: "\<forall>p \<in> set ps. pb_ok p" using Cons.prems(1) by auto
  show ?case
  proof (cases "len = 0")
    case True
    then show ?thesis by simp
  next
    case nz: False
    define c where "c = (if pb_len p < len then pb_len p else len)"
    have c: "unat c = min (unat len) (unat (pb_len p))"
      by (auto simp: c_def word_less_nat_alt)
    let ?bs = "take (unat c) (drop (unat cop) d)"
    have lb: "length ?bs = unat c" using Cons.prems(3) c by simp
    have rd: "buf_read d (unat cop) (unat c) = Some ?bs"
      using Cons.prems(3) c by (simp add: buf_read_def)
    obtain p' where p': "pb_write p 0 ?bs = Some p'" "same_shape p p'" "pb_bytes p' = splice_at 0 ?bs (pb_bytes p)"
      using pb_write_shape [OF ok, of 0 ?bs] lb c by (auto simp: unat_0)
    have lc: "unat (len - c) = unat len - unat c"
      using c by (simp add: unat_sub word_le_nat_alt)
    have cc: "unat (cop + c) = unat cop + unat c"
      using Cons.prems(4) c by (subst unat_word_ariths) simp
    obtain ps' where ps': "pbuf_take_loop ps d (len - c) (cop + c) = Some ps'" "list_all2 same_shape ps ps'"
      "chain_bytes ps' = splice_at 0 (take (unat len - unat c) (drop (unat cop + unat c) d)) (chain_bytes ps)"
    proof -
      have "unat len - unat c \<le> chain_len ps" "unat cop + unat c + (unat len - unat c) \<le> length d"
        "unat cop + unat c + (unat len - unat c) < 65536"
        using Cons.prems(2-4) c by auto
      then show ?thesis
        using Cons.IH [OF oks, of "len - c" "cop + c", unfolded lc cc] that by blast
    qed
    have "take (unat len) (drop (unat cop) d) = ?bs @ take (unat len - unat c) (drop (unat cop + unat c) d)"
      using c take_add [of "unat c" "unat len - unat c" "drop (unat cop) d"] by (simp add: add.commute)
    moreover have "splice_at 0 ?bs (pb_bytes p) @ splice_at 0 (take (unat len - unat c) (drop (unat cop + unat c) d)) (chain_bytes ps)
       = splice_at 0 (?bs @ take (unat len - unat c) (drop (unat cop + unat c) d)) (pb_bytes p @ chain_bytes ps)"
    proof (cases "unat len \<le> unat (pb_len p)")
      case True
      then show ?thesis using c lb ok by (simp add: splice_at_append1)
    next
      case False
      then show ?thesis using c lb ok by (subst splice_at_split) simp_all
    qed
    ultimately show ?thesis
      using nz rd p' ps' by (simp add: c_def [symmetric] Let_def)
  qed
qed

lemma take_bytes:
  assumes "chain_ok buf" and "buf \<noteq> []" and "unat len \<le> chain_len buf" and "unat len \<le> length d"
  shows "\<exists>buf'. pbuf_take buf d len = Some (ERR_OK, buf') \<and> list_all2 same_shape buf buf' \<and>
    chain_bytes buf' = splice_at 0 (take (unat len) d) (chain_bytes buf)"
proof -
  have "\<not> pb_tot_len (hd buf) < len"
    using assms chain_ok_tot [of buf] by (simp add: word_less_nat_alt)
  then show ?thesis
    using take_loop_bytes [OF chain_ok_all [OF assms(1)] assms(3), of 0 d] assms(2,4) u16_bound [of len]
    by (auto simp: pbuf_take_def unat_0)
qed


lemma same_shapes_trans:
  "list_all2 same_shape ps qs \<Longrightarrow> list_all2 same_shape qs rs \<Longrightarrow> list_all2 same_shape ps rs"
  by (rule list_all2_trans [where ?P1.0 = same_shape and ?P2.0 = same_shape]) (rule same_shape_trans)

lemma same_shapes_ok_tot:
  assumes "chain_ok (pre @ qs)" and "list_all2 same_shape qs qs'"
  shows "chain_ok (pre @ qs')" and "chain_len (pre @ qs') = chain_len (pre @ qs)"
proof -
  have "list_all2 same_shape (pre @ qs) (pre @ qs')"
    using assms(2) by (intro list_all2_appendI) simp_all
  then show "chain_ok (pre @ qs')" "chain_len (pre @ qs') = chain_len (pre @ qs)"
    using assms(1) by (simp_all only: same_shapes_ok same_shapes_len)
qed

text \<open>
  C28: \<open>pbuf_take_at\<close> with a range inside the chain succeeds, overwrites exactly that range with the
  first \<open>len\<close> bytes of the data, and keeps the shape of the chain.
\<close>

theorem pbuf_take_at_bytes:
  assumes "chain_ok buf" and "unat off < chain_len buf" and "unat off + unat len \<le> chain_len buf"
    and "unat len \<le> length d"
  shows "\<exists>buf'. pbuf_take_at buf d len off = Some (ERR_OK, buf') \<and> chain_ok buf' \<and>
    chain_bytes buf' = splice_at (unat off) (take (unat len) d) (chain_bytes buf)"
proof -
  obtain pre q qs idx where k: "pbuf_skip buf off = (pre, q # qs, idx)" "buf = pre @ q # qs"
      "unat off = chain_len pre + unat idx" "idx < pb_len q" "chain_ok (q # qs)" "pb_ok q"
      "\<forall>p \<in> set pre. pb_ok p" "chain_len pre = length (chain_bytes pre)"
    using assms(1,2) by (rule pbuf_skip_ok)
  define c where "c = (if unat (pb_len q) - unat idx < unat len then pb_len q - idx else len)"
  have il: "unat idx < unat (pb_len q)" using k(4) by (simp add: word_less_nat_alt)
  then have "unat (pb_len q - idx) = unat (pb_len q) - unat idx"
    by (simp add: unat_sub word_le_nat_alt)
  then have c: "unat c = min (unat (pb_len q) - unat idx) (unat len)" by (auto simp: c_def)
  let ?bs = "take (unat c) d"
  have lb: "length ?bs = unat c" using c assms(4) by simp
  obtain q' where q': "pb_write q (uint idx) ?bs = Some q'" "same_shape q q'"
    "pb_bytes q' = splice_at (unat idx) ?bs (pb_bytes q)"
  proof -
    have "unat idx + length ?bs \<le> unat (pb_len q)" unfolding lb using c il by simp
    then show ?thesis using pb_write_shape [OF k(6), of idx ?bs] that by blast
  qed
  have lc: "unat (len - c) = unat len - unat c" using c by (simp add: unat_sub word_le_nat_alt)
  have lens: "unat len - unat c \<le> chain_len qs" "unat len - unat c \<le> length (drop (unat c) d)"
    using assms(3,4) k(2,3) c by auto
  obtain r where r: "(if len - c > 0 then do {
        (err, rest') \<leftarrow> pbuf_take qs (drop (unat c) d) (len - c);
        Some (err, pre @ q' # rest') } else Some (ERR_OK, pre @ q' # qs)) = Some (ERR_OK, pre @ q' # r)"
      "list_all2 same_shape qs r"
      "chain_bytes r = splice_at 0 (take (unat len - unat c) (drop (unat c) d)) (chain_bytes qs)"
  proof (cases "len - c > 0")
    case True
    then have "0 < unat len - unat c" using lc by (simp add: word_less_nat_alt)
    then have "qs \<noteq> []" using lens(1) by auto
    then show ?thesis
      using take_bytes [of qs "len - c" "drop (unat c) d", unfolded lc] k(5) lens True that by auto
  next
    case False
    then have "unat len - unat c = 0" using lc by (simp add: word_less_nat_alt)
    then show ?thesis using that [of qs] False by simp
  qed
  have all: "list_all2 same_shape (q # qs) (q' # r)" using q'(2) r(2) by simp
  have split: "take (unat len) d = ?bs @ take (unat len - unat c) (drop (unat c) d)"
    using take_add [of "unat c" "unat len - unat c" d] c by simp
  have "splice_at (unat idx) ?bs (pb_bytes q) @ splice_at 0 (take (unat len - unat c) (drop (unat c) d)) (chain_bytes qs)
     = splice_at (unat idx) (take (unat len) d) (pb_bytes q @ chain_bytes qs)"
  proof (cases "unat len \<le> unat (pb_len q) - unat idx")
    case True
    then show ?thesis using split c lb il k(6) assms(4) by (simp add: splice_at_append1)
  next
    case False
    then show ?thesis unfolding split using c lb il k(6) by (subst splice_at_split) auto
  qed
  then have "chain_bytes (pre @ q' # r) = splice_at (unat off) (take (unat len) d) (chain_bytes buf)"
    using q'(3) r(3) k(2,3,8) by (simp add: splice_at_append2)
  moreover have "pbuf_take_at buf d len off = Some (ERR_OK, pre @ q' # r)"
    using k(1,2,3,5) assms(3,4) q'(1) r(1) c
    by (simp add: pbuf_take_at_def c_def [symmetric] buf_read_def)
  ultimately show ?thesis using same_shapes_ok_tot(1) [OF assms(1) [unfolded k(2)] all] by blast
qed

section \<open>Instances\<close>

text \<open>Two small chains and a small memory on which the properties above apply.\<close>

definition ex_buf :: "nat \<Rightarrow> u8 list \<Rightarrow> u16 \<Rightarrow> pbuf" where
  "ex_buf a bs tot = \<lparr>pb_addr = a, pb_mem = [9, 9] @ bs, pb_off = 2, pb_tot_len = tot,
     pb_len = of_nat (length bs), pb_type = PBUF_POOL, pb_flags = 0\<rparr>"

definition ex_chain :: "pbuf list" where
  "ex_chain = [ex_buf 1 [1, 2, 3] 5, ex_buf 2 [4, 5] 2]"

definition ex_target :: "pbuf list" where
  "ex_target = [ex_buf 3 [0, 0] 6, ex_buf 4 [0, 0, 0, 0] 4]"

definition ex_mem :: mem_state where
  "ex_mem = \<lparr>memp_tab = (\<lambda>t. if t = MEMP_PBUF_POOL then [7, 8] else []),
     memp_stats = (\<lambda>_. \<lparr>st_err = 0, st_avail = 0, st_used = 0, st_max = 0\<rparr>),
     sy_mallocs = 0, sy_allocs = 0, sy_heap = [], sy_ref = (\<lambda>_. 1), sy_ooseq_pending = 0\<rparr>"

definition ex_env :: env where
  "ex_env = \<lparr>env_malloc = (\<lambda>k n. Some (1000 + k)), env_junk = (\<lambda>_ _. 0), env_ip_output = (\<lambda>_. ERR_OK)\<rparr>"

lemma ex_chain_ok:
  "chain_ok ex_chain" "ex_chain \<noteq> []" "chain_len ex_chain = 5"
  "chain_bytes ex_chain = [1, 2, 3, 4, 5]" "distinct (map pb_addr ex_chain)" "pb_len (hd ex_chain) = 3"
  "chain_ok ex_target" "ex_target \<noteq> []" "chain_len ex_target = 6"
  "chain_bytes ex_target = [0, 0, 0, 0, 0, 0]"
  by (simp_all add: ex_chain_def ex_target_def ex_buf_def pb_ok_def pb_bytes_def)


lemma occurs_ex:
  "occurs_at [1, 2, 3, 4, 5] [3, 4 :: u8] 2" "\<not> occurs_at [1, 2, 3, 4, 5] [3, 4 :: u8] 0"
  "\<not> occurs_at [1, 2, 3, 4, 5] [3, 4 :: u8] 1"
  by (simp_all add: occurs_at_def)

theorem pbuf_memfind_first_witness:
  "\<exists>r. pbuf_memfind ex_chain [3, 4] 2 0 = Some r \<and> unat r = 2"
proof -
  obtain r where r: "pbuf_memfind ex_chain [3, 4] 2 0 = Some r"
    "occurs_at [1, 2, 3, 4, 5] [3, 4 :: u8] (unat r)"
    "\<forall>j. 0 \<le> j \<and> j < unat r \<longrightarrow> \<not> occurs_at [1, 2, 3, 4, 5] [3, 4 :: u8] j"
    using pbuf_memfind_first [of ex_chain "[3, 4]" "[3, 4]" 2 0, unfolded ex_chain_ok unat_0] occurs_ex(1)
    by (auto simp: ex_chain_ok split: if_splits)
  define k where "k = unat r"
  have "occurs_at [1, 2, 3, 4, 5] [3, 4 :: u8] k" "\<forall>j. 0 \<le> j \<and> j < k \<longrightarrow> \<not> occurs_at [1, 2, 3, 4, 5] [3, 4 :: u8] j"
    using r(2,3) unfolding k_def by blast+
  then have "\<not> 2 < k" and "k \<noteq> 0" and "k \<noteq> 1"
    using occurs_ex by (blast, metis, metis)
  then have "unat r = 2" unfolding k_def by linarith
  with r(1) show ?thesis by blast
qed

theorem pbuf_copy_partial_bytes_witness:
  "pbuf_copy_partial ex_chain 10 2 = Some (3, [3, 4, 5])"
  using pbuf_copy_partial_bytes [of ex_chain 10 2] by (simp add: ex_chain_ok)

theorem pbuf_take_at_bytes_witness:
  "\<exists>r. pbuf_take_at ex_chain [7, 8] 2 2 = Some (ERR_OK, r) \<and> chain_bytes r = [1, 2, 7, 8, 5]"
  using pbuf_take_at_bytes [of ex_chain 2 2 "[7, 8]"] by (auto simp: ex_chain_ok splice_at_def)

end
