(* ===== verification/Pbuf_Copy.thy ===== *)
theory Pbuf_Copy
  imports Pbuf_Bytes
begin

text \<open>
  \<open>pbuf_take_at\<close> and \<open>pbuf_copy\<close> of \<^verbatim>\<open>src/pbuf.c\<close> on the bytes of the chains, for any cut into buffers.
\<close>

section \<open>Copying a chain into a chain\<close>

text \<open>
  A chain of one packet: only the last buffer has its own length as \<open>tot_len\<close>. \<open>pbuf_copy\<close> asserts
  this of both chains on its way.
\<close>

fun one_packet :: "pbuf list \<Rightarrow> bool" where
  "one_packet [] = True"
| "one_packet (p # ps) \<longleftrightarrow> (pb_len p = pb_tot_len p \<longrightarrow> ps = []) \<and> one_packet ps"

lemma one_packet_hd: "one_packet ps \<Longrightarrow> ps \<noteq> [] \<Longrightarrow> pb_len (hd ps) = pb_tot_len (hd ps) \<Longrightarrow> tl ps = []"
  by (cases ps) auto

lemma one_packet_shape: "list_all2 same_shape ps ps' \<Longrightarrow> one_packet ps' = one_packet ps"
  by (induction rule: list_all2_induct) (auto simp: same_shape_def)

lemma one_packet_assert:
  "one_packet ps \<Longrightarrow> (ps \<noteq> [] \<longrightarrow> pb_len (hd ps) = pb_tot_len (hd ps) \<longrightarrow> tl ps = []) = True"
  by (cases ps) auto

lemma one_packet_more:
  "chain_ok (p # ps) \<Longrightarrow> one_packet (p # ps) \<Longrightarrow> ps \<noteq> [] \<Longrightarrow> 0 < chain_len ps"
  by (cases "pb_len p = pb_tot_len p") (auto simp: word_unat_eq_iff)

lemma splice_at_fill:
  assumes "length xs = i + length bs" and "length cs \<le> length ys"
  shows "splice_at i bs xs @ splice_at 0 cs ys = splice_at i (bs @ cs) (xs @ ys)"
  using assms by (simp add: splice_at_def)

text \<open>What one round of the loop does, once \<open>c\<close>, the number of bytes it moves, is fixed.\<close>

lemma copy_round:
  assumes t: "pb_ok t" and p: "pb_ok p"
    and ot: "unat ot \<le> unat (pb_len t)" and fr: "unat fr \<le> unat (pb_len p)"
    and packets: "one_packet (t # ts)" "one_packet (p # ps)"
    and c: "c = min (unat (pb_len p) - unat fr) (unat (pb_len t) - unat ot)"
    and room: "unat (pb_len t) = unat ot + c \<longrightarrow> unat (pb_len p) = unat fr + c \<and> ps = [] \<or> ts \<noteq> []"
  shows "\<exists>t' ot' fr'. same_shape t t' \<and>
    pb_bytes t' = splice_at (unat ot) (take c (drop (unat fr) (pb_bytes p))) (pb_bytes t) \<and>
    unat ot' = unat ot + c \<and> unat fr' = unat fr + c \<and>
    pbuf_copy_loop (t # ts) (p # ps) ot fr =
      (let p_from = (if unat (pb_len p) = unat fr + c then ps else p # ps);
           next_from = (if unat (pb_len p) = unat fr + c then 0 else fr')
       in if p_from = [] then Some (t' # ts)
          else if unat (pb_len t) = unat ot + c
          then map_option ((#) t') (pbuf_copy_loop ts p_from 0 next_from)
          else pbuf_copy_loop (t' # ts) p_from ot' next_from)"
proof -
  define len where "len = (if uint (pb_len p) - uint fr \<le> uint (pb_len t) - uint ot
                 then pb_len p - fr else pb_len t - ot)"
  have iff: "uint (pb_len p) - uint fr \<le> uint (pb_len t) - uint ot \<longleftrightarrow>
      unat (pb_len p) - unat fr \<le> unat (pb_len t) - unat ot"
    using ot fr by (simp add: uint_nat del: of_nat_unat) linarith
  have len: "unat len = c"
    using iff ot fr by (simp add: len_def c unat_sub word_le_nat_alt min_def)
  have rd: "pb_read p (uint fr) (unat len) = Some (take c (drop (unat fr) (pb_bytes p)))"
    unfolding len using p c fr by (intro pb_read_bytes) auto
  have lb: "length (take c (drop (unat fr) (pb_bytes p))) = c" using p c fr by simp
  obtain t' where t': "pb_write t (uint ot) (take c (drop (unat fr) (pb_bytes p))) = Some t'" "same_shape t t'"
    "pb_bytes t' = splice_at (unat ot) (take c (drop (unat fr) (pb_bytes p))) (pb_bytes t)"
  proof -
    have "unat ot + length (take c (drop (unat fr) (pb_bytes p))) \<le> unat (pb_len t)"
      unfolding lb using c ot by simp
    then show ?thesis using pb_write_shape [OF t] that by blast
  qed
  have ot': "unat (ot + len) = unat ot + c" and fr': "unat (fr + len) = unat fr + c"
    using c ot fr u16_bound [of "pb_len t"] u16_bound [of "pb_len p"]
    by (simp_all add: unat_word_ariths len)
  have lt': "pb_len t' = pb_len t" "pb_tot_len t' = pb_tot_len t" using t'(2) by (simp_all add: same_shape_def)
  have le: "unat ot + c \<le> unat (pb_len t)" "unat fr + c \<le> unat (pb_len p)"
    using c ot fr by arith+
  have w1: "pb_len p \<le> fr + len \<longleftrightarrow> unat (pb_len p) = unat fr + c"
    using le fr' by (auto simp: word_le_nat_alt)
  have w2: "ot + len = pb_len t' \<longleftrightarrow> unat (pb_len t) = unat ot + c"
    using ot' lt' by (auto simp: word_unat_eq_iff)
  have w3: "ot + len \<le> pb_len t'" "fr + len \<le> pb_len p"
    using le ot' fr' lt' by (simp_all add: word_le_nat_alt)
  let ?from = "if unat (pb_len p) = unat fr + c then ps else p # ps"
  let ?to = "if unat (pb_len t) = unat ot + c then ts else t' # ts"
  have from_ok: "one_packet ?from" using packets(2) by simp
  have to_ok: "one_packet ?to" using packets(1) lt' by simp
  have room_ok: "(unat (pb_len t) = unat ot + c \<longrightarrow> ts \<noteq> [] \<or> ?from = []) = True" using room by auto
  have unfolded: "pbuf_copy_loop (t # ts) (p # ps) ot fr = do {
      lwip_assert (ot + len \<le> pb_len t');
      lwip_assert (fr + len \<le> pb_len p);
      lwip_assert (unat (pb_len t) = unat ot + c \<longrightarrow> ts \<noteq> [] \<or> ?from = []);
      lwip_assert (?from \<noteq> [] \<longrightarrow> pb_len (hd ?from) = pb_tot_len (hd ?from) \<longrightarrow> tl ?from = []);
      lwip_assert (?to \<noteq> [] \<longrightarrow> pb_len (hd ?to) = pb_tot_len (hd ?to) \<longrightarrow> tl ?to = []);
      if ?from = [] then Some (t' # ts)
      else if unat (pb_len t) = unat ot + c then do {
        r \<leftarrow> pbuf_copy_loop ts ?from 0 (if unat (pb_len p) = unat fr + c then 0 else fr + len);
        Some (t' # r)
      }
      else pbuf_copy_loop (t' # ts) ?from (ot + len) (if unat (pb_len p) = unat fr + c then 0 else fr + len)
    }"
    by (simp only: pbuf_copy_loop.simps(3) Let_def len_def [symmetric] rd t'(1) bind.bind_lunit w1 w2)
  have "pbuf_copy_loop (t # ts) (p # ps) ot fr =
      (if ?from = [] then Some (t' # ts)
       else if unat (pb_len t) = unat ot + c
       then map_option ((#) t') (pbuf_copy_loop ts ?from 0 (if unat (pb_len p) = unat fr + c then 0 else fr + len))
       else pbuf_copy_loop (t' # ts) ?from (ot + len) (if unat (pb_len p) = unat fr + c then 0 else fr + len))"
    unfolding unfolded
    by (simp only: one_packet_assert [OF from_ok] one_packet_assert [OF to_ok] room_ok w3 lwip_assert_True
        bind.bind_lunit map_conv_bind_option comp_def)
  then show ?thesis
    using t'(2,3) ot' fr' unfolding Let_def by blast
qed

text \<open>The four ways a round can end, on byte lists.\<close>

lemma copy_finished:
  "length X = f + c \<Longrightarrow> o' + c \<le> length T \<Longrightarrow>
   splice_at o' (take c (drop f X)) T @ R = splice_at o' (drop f X) (T @ R)"
  by (simp add: splice_at_append1)

lemma copy_both:
  "length X = f + c \<Longrightarrow> length T = o' + c \<Longrightarrow>
   splice_at o' (take c (drop f X)) T @ splice_at 0 P R = splice_at o' (drop f (X @ P)) (T @ R)"
  by (simp add: splice_at_split)

lemma copy_source:
  assumes "length X = f + c" and "o' + c \<le> length T" and "o' + c + length P \<le> length (T @ R)"
  shows "splice_at (o' + c) P (splice_at o' (take c (drop f X)) T @ R) = splice_at o' (drop f (X @ P)) (T @ R)"
proof -
  have "splice_at o' (take c (drop f X)) T @ R = splice_at o' (drop f X) (T @ R)"
    using assms by (intro copy_finished) simp_all
  moreover have "splice_at (o' + length (drop f X)) P (splice_at o' (drop f X) (T @ R)) = splice_at o' (drop f X @ P) (T @ R)"
    using assms by (intro splice_at_splice) simp
  ultimately show ?thesis using assms(1) by simp
qed

lemma copy_target:
  assumes "f + c \<le> length X" and "length T = o' + c"
  shows "splice_at o' (take c (drop f X)) T @ splice_at 0 (drop (f + c) (X @ P)) R = splice_at o' (drop f (X @ P)) (T @ R)"
proof -
  have "drop f (X @ P) = take c (drop f X) @ drop (f + c) (X @ P)"
    using assms(1) append_take_drop_id [of c "drop f X"] by (simp add: add.commute)
  moreover have "length T = o' + length (take c (drop f X))" using assms by simp
  ultimately show ?thesis by (simp only: splice_at_split)
qed

lemma copy_loop_bytes:
  assumes "chain_ok ts" and "chain_ok ps" and "one_packet ts" and "one_packet ps"
    and "ts \<noteq> []" and "ps \<noteq> []"
    and "unat ot \<le> unat (pb_len (hd ts))" and "unat fr \<le> unat (pb_len (hd ps))"
    and "chain_len ps - unat fr \<le> chain_len ts - unat ot"
  shows "\<exists>r. pbuf_copy_loop ts ps ot fr = Some r \<and> list_all2 same_shape ts r \<and>
    chain_bytes r = splice_at (unat ot) (drop (unat fr) (chain_bytes ps)) (chain_bytes ts)"
  using assms
proof (induction "length ts + length ps" arbitrary: ts ps ot fr rule: less_induct)
  case less
  obtain t ts' p ps' where ts: "ts = t # ts'" and ps: "ps = p # ps'"
    using less.prems(5,6) by (meson list.exhaust)
  define c where "c = min (unat (pb_len p) - unat fr) (unat (pb_len t) - unat ot)"
  have ok: "pb_ok t" "pb_ok p" "chain_ok ts'" "chain_ok ps'" "one_packet ts'" "one_packet ps'"
    using less.prems(1-4) ts ps by auto
  have ot: "unat ot \<le> unat (pb_len t)" and fr: "unat fr \<le> unat (pb_len p)"
    and enough: "unat (pb_len p) + chain_len ps' - unat fr \<le> unat (pb_len t) + chain_len ts' - unat ot"
    using less.prems ts ps by simp_all
  have more: "ps' \<noteq> [] \<Longrightarrow> 0 < chain_len ps'"
    using one_packet_more less.prems(2,4) ps by blast
  have room: "unat (pb_len t) = unat ot + c \<longrightarrow> unat (pb_len p) = unat fr + c \<and> ps' = [] \<or> ts' \<noteq> []"
  proof (intro impI, rule ccontr)
    assume "unat (pb_len t) = unat ot + c" and "\<not> (unat (pb_len p) = unat fr + c \<and> ps' = [] \<or> ts' \<noteq> [])"
    then show False using enough more c_def fr ot by (cases "ps' = []") auto
  qed
  obtain t' ot' fr' where sh: "same_shape t t'"
    and bytes: "pb_bytes t' = splice_at (unat ot) (take c (drop (unat fr) (pb_bytes p))) (pb_bytes t)"
    and ot': "unat ot' = unat ot + c" and fr': "unat fr' = unat fr + c"
    and step: "pbuf_copy_loop (t # ts') (p # ps') ot fr =
      (let p_from = (if unat (pb_len p) = unat fr + c then ps' else p # ps');
           next_from = (if unat (pb_len p) = unat fr + c then 0 else fr')
       in if p_from = [] then Some (t' # ts')
          else if unat (pb_len t) = unat ot + c
          then map_option ((#) t') (pbuf_copy_loop ts' p_from 0 next_from)
          else pbuf_copy_loop (t' # ts') p_from ot' next_from)"
    using copy_round [OF ok(1,2) ot fr less.prems(3,4) [unfolded ts ps] c_def room] by blast
  have X: "length (pb_bytes p) = unat (pb_len p)" and T: "length (pb_bytes t) = unat (pb_len t)"
    and P: "length (chain_bytes ps') = chain_len ps'" and R: "length (chain_bytes ts') = chain_len ts'"
    using ok by simp_all
  have c_le: "unat ot + c \<le> unat (pb_len t)" "unat fr + c \<le> unat (pb_len p)"
    using c_def ot fr by arith+
  have shapes: "list_all2 same_shape (t # ts') (t' # ts')" using sh by simp
  have ok': "chain_ok (t' # ts')" "one_packet (t' # ts')"
    using same_shapes_ok [OF shapes] one_packet_shape [OF shapes] less.prems(1,3) ts by blast+
  have len_t': "pb_len t' = pb_len t" using sh by (simp add: same_shape_def)
  consider (finished) "unat (pb_len p) = unat fr + c" "ps' = []"
    | (both) "unat (pb_len p) = unat fr + c" "ps' \<noteq> []" "unat (pb_len t) = unat ot + c"
    | (source) "unat (pb_len p) = unat fr + c" "ps' \<noteq> []" "unat (pb_len t) \<noteq> unat ot + c"
    | (target) "unat (pb_len p) \<noteq> unat fr + c" "unat (pb_len t) = unat ot + c"
    using c_def ot fr by linarith
  then show ?case
  proof cases
    case finished
    have "pbuf_copy_loop ts ps ot fr = Some (t' # ts')"
      unfolding ts ps step using finished by simp
    then show ?thesis
      using copy_finished [of "pb_bytes p" "unat fr" c "unat ot" "pb_bytes t" "chain_bytes ts'"]
        X T c_le finished shapes bytes ts ps by simp
  next
    case both
    have ne: "ts' \<noteq> []" using room both by blast
    have fits: "chain_len ps' - unat (0 :: u16) \<le> chain_len ts' - unat (0 :: u16)" using enough both by (simp add: unat_0)
    have "\<exists>r. pbuf_copy_loop ts' ps' 0 0 = Some r \<and> list_all2 same_shape ts' r \<and>
        chain_bytes r = splice_at (unat (0 :: u16)) (drop (unat (0 :: u16)) (chain_bytes ps')) (chain_bytes ts')"
      by (rule less.hyps) (use ts ps ok ne both(2) fits in \<open>simp_all add: unat_0\<close>)
    then obtain r where r: "pbuf_copy_loop ts' ps' 0 0 = Some r" "list_all2 same_shape ts' r"
        "chain_bytes r = splice_at 0 (chain_bytes ps') (chain_bytes ts')"
      by (auto simp: unat_0)
    have "pbuf_copy_loop ts ps ot fr = Some (t' # r)"
      unfolding ts ps step using both r(1) by simp
    then show ?thesis
      using copy_both [of "pb_bytes p" "unat fr" c "pb_bytes t" "unat ot" "chain_bytes ps'" "chain_bytes ts'"]
        X T both sh r(2,3) bytes ts ps by simp
  next
    case source
    have fits: "chain_len ps' - unat (0 :: u16) \<le> chain_len (t' # ts') - unat ot'"
      using enough source(1) ot' len_t' by (simp add: unat_0)
    have "\<exists>r. pbuf_copy_loop (t' # ts') ps' ot' 0 = Some r \<and> list_all2 same_shape (t' # ts') r \<and>
        chain_bytes r = splice_at (unat ot') (drop (unat (0 :: u16)) (chain_bytes ps')) (chain_bytes (t' # ts'))"
      by (rule less.hyps) (use ts ps ok ok' source(2) fits ot' len_t' c_le in \<open>simp_all add: unat_0\<close>)
    then obtain r where r: "pbuf_copy_loop (t' # ts') ps' ot' 0 = Some r" "list_all2 same_shape (t' # ts') r"
        "chain_bytes r = splice_at (unat ot + c) (chain_bytes ps') (chain_bytes (t' # ts'))"
      by (auto simp: unat_0 ot')
    have "pbuf_copy_loop ts ps ot fr = Some r"
      unfolding ts ps step using source r(1) by simp
    moreover have "list_all2 same_shape ts r"
      unfolding ts using shapes r(2) by (rule same_shapes_trans)
    ultimately show ?thesis
      using copy_source [of "pb_bytes p" "unat fr" c "unat ot" "pb_bytes t" "chain_bytes ps'" "chain_bytes ts'"]
        X T P R c_le source(1) enough r(3) bytes ts ps by simp
  next
    case target
    have ne: "ts' \<noteq> []" using room target by blast
    have fits: "chain_len (p # ps') - unat fr' \<le> chain_len ts' - unat (0 :: u16)"
      using enough target fr' by (simp add: unat_0)
    have "\<exists>r. pbuf_copy_loop ts' (p # ps') 0 fr' = Some r \<and> list_all2 same_shape ts' r \<and>
        chain_bytes r = splice_at (unat (0 :: u16)) (drop (unat fr') (chain_bytes (p # ps'))) (chain_bytes ts')"
      by (rule less.hyps) (use ts ps ok less.prems(2,4) ne fits fr' c_le in \<open>simp_all add: unat_0\<close>)
    then obtain r where r: "pbuf_copy_loop ts' (p # ps') 0 fr' = Some r" "list_all2 same_shape ts' r"
        "chain_bytes r = splice_at 0 (drop (unat fr + c) (chain_bytes (p # ps'))) (chain_bytes ts')"
      by (auto simp: unat_0 fr')
    have "pbuf_copy_loop ts ps ot fr = Some (t' # r)"
      unfolding ts ps step using target r(1) by simp
    then show ?thesis
      using copy_target [of "unat fr" c "pb_bytes p" "pb_bytes t" "unat ot" "chain_bytes ps'" "chain_bytes ts'"]
        X T c_le target sh r(2,3) bytes ts ps by simp
  qed
qed


text \<open>
  C31: \<open>pbuf_copy\<close> into a chain that is at least as long succeeds, whatever the two chains are cut
  into: the target begins with the bytes of the source and is otherwise unchanged.
\<close>

theorem pbuf_copy_bytes:
  assumes "chain_ok to" and "chain_ok from" and "one_packet to" and "one_packet from"
    and "to \<noteq> []" and "from \<noteq> []" and "chain_len from \<le> chain_len to"
  shows "\<exists>r. pbuf_copy to from = Some (ERR_OK, r) \<and> chain_ok r \<and>
    chain_bytes r = splice_at 0 (chain_bytes from) (chain_bytes to)"
proof -
  have "pb_tot_len (hd from) \<le> pb_tot_len (hd to)"
    using assms chain_ok_tot by (simp add: word_le_nat_alt)
  moreover obtain r where "pbuf_copy_loop to from 0 0 = Some r" "list_all2 same_shape to r"
      "chain_bytes r = splice_at 0 (chain_bytes from) (chain_bytes to)"
    using copy_loop_bytes [OF assms(1-6), of 0 0] assms(7) by (auto simp: unat_0)
  ultimately show ?thesis
    using assms(1,5,6) same_shapes_ok by (auto simp: pbuf_copy_def)
qed

lemma ex_one_packet: "one_packet ex_chain" "one_packet ex_target"
  by (simp_all add: ex_chain_def ex_target_def ex_buf_def)

theorem pbuf_copy_bytes_witness:
  "\<exists>r. pbuf_copy ex_target ex_chain = Some (ERR_OK, r) \<and> chain_bytes r = [1, 2, 3, 4, 5, 0]"
  using pbuf_copy_bytes [of ex_target ex_chain] by (auto simp: ex_chain_ok ex_one_packet splice_at_def)

end
