(* ===== verification/Pbuf_Refs.thy ===== *)
theory Pbuf_Refs
  imports Pbuf_Bytes
begin

text \<open>
  Headers, concatenation, reference counts, shrinking and allocation of the buffers of
  \<^verbatim>\<open>src/pbuf.c\<close>: bytes, counts and what goes back to the pools and to the heap.
\<close>

section \<open>Headers and concatenation\<close>

lemma sint_s16_small: "unat (n :: s16) < 32768 \<Longrightarrow> sint n = int (unat n)"
proof -
  assume n: "unat n < 32768"
  have u: "uint n = int (unat n)" by simp
  have "sint n = signed_take_bit 15 (int (unat n))" unfolding sint_uint u by simp
  also have "\<dots> = int (unat n)"
    by (rule signed_take_bit_int_eq_self) (use n in \<open>simp_all del: of_nat_unat\<close>)
  finally show ?thesis .
qed

lemma sint_s16_neg: "unat (n :: s16) < 32768 \<Longrightarrow> sint (- n) = - int (unat n)"
proof -
  assume n: "unat n < 32768"
  have "sint (- n) = signed_take_bit 15 (- sint n)" by (simp add: sint_word_ariths)
  also have "\<dots> = - int (unat n)"
    unfolding sint_s16_small [OF n] by (rule signed_take_bit_int_eq_self) (use n in \<open>simp_all del: of_nat_unat\<close>)
  finally show ?thesis .
qed

lemma pbuf_header_hide:
  assumes "chain_ok (p # q)" and "unat n < 32768" and "n \<le> pb_len p"
  shows "pbuf_header_impl (p # q) (- n) force =
    Some (0, p\<lparr>pb_off := pb_off p + int (unat n), pb_len := pb_len p - n, pb_tot_len := pb_tot_len p - n\<rparr> # q)"
proof (cases "n = 0")
  case True
  then show ?thesis by (simp add: pbuf_header_impl_def unat_0)
next
  case False
  then have "0 < int (unat n)" by (simp add: unat_gt_0 del: of_nat_unat)
  moreover have "0 \<le> pb_off p" using assms(1) by (simp add: pb_ok_def)
  ultimately show ?thesis
    using assms(3) False by (cases "pb_type p") (simp_all add: pbuf_header_impl_def sint_s16_neg [OF assms(2)])
qed

text \<open>
  C30: hiding a header of \<open>n\<close> bytes that the first buffer holds always succeeds and drops the first
  \<open>n\<close> bytes of the chain; revealing them again restores the chain, for \<open>PBUF_RAM\<close> and
  \<open>PBUF_POOL\<close> with \<open>pbuf_header\<close> and for every type with \<open>pbuf_header_force\<close>.
\<close>

theorem pbuf_header_roundtrip:
  assumes "chain_ok (p # q)" and "unat n < 32768" and "n \<le> pb_len p"
  shows "\<exists>ps'. pbuf_header (p # q) (- n) = Some (0, ps') \<and> chain_ok ps' \<and>
    chain_bytes ps' = drop (unat n) (chain_bytes (p # q)) \<and>
    (pb_type p = PBUF_RAM \<or> pb_type p = PBUF_POOL \<longrightarrow> pbuf_header ps' n = Some (0, p # q)) \<and>
    pbuf_header_force ps' n = Some (0, p # q)"
proof -
  let ?p' = "p\<lparr>pb_off := pb_off p + int (unat n), pb_len := pb_len p - n, pb_tot_len := pb_tot_len p - n\<rparr>"
  have le: "unat n \<le> unat (pb_len p)" "unat n \<le> unat (pb_tot_len p)"
    using assms(1,3) by (auto simp: word_le_nat_alt)
  then have un: "unat (pb_len p - n) = unat (pb_len p) - unat n" "unat (pb_tot_len p - n) = unat (pb_tot_len p) - unat n"
    by (simp_all add: unat_sub word_le_nat_alt)
  have off: "0 \<le> pb_off p" "nat (pb_off p + int (unat n)) = nat (pb_off p) + unat n"
    using assms(1) by (simp_all add: pb_ok_def nat_add_distrib del: of_nat_unat)
  have b: "pb_bytes ?p' = drop (unat n) (pb_bytes p)"
    using un(1) off(2) by (simp add: pb_bytes_def drop_take add.commute del: of_nat_unat)
  have "chain_ok (?p' # q)"
    using assms(1) un off le by (simp add: pb_ok_def del: of_nat_unat)
  moreover have "chain_bytes (?p' # q) = drop (unat n) (chain_bytes (p # q))"
    using b assms(1) le(1) by simp
  moreover have "pbuf_header_impl (?p' # q) n force = Some (0, p # q)"
    if "force \<or> pb_type p = PBUF_RAM \<or> pb_type p = PBUF_POOL" for force
    using that off(1) sint_s16_small [OF assms(2)]
    by (cases "n = 0"; cases "pb_type p")
      (auto simp: pbuf_header_impl_def unat_0 unat_gt_0 simp del: of_nat_unat)
  ultimately show ?thesis
    using pbuf_header_hide [OF assms] unfolding pbuf_header_def pbuf_header_force_def by blast
qed

lemma pbuf_cat_loop_bytes:
  assumes "chain_ok h" and "chain_ok t" and "h \<noteq> []" and "t \<noteq> []" and "chain_len h + chain_len t < 65536"
  shows "\<exists>r. pbuf_cat_loop h t = Some r \<and> chain_ok r \<and> chain_bytes r = chain_bytes h @ chain_bytes t \<and>
    chain_len r = chain_len h + chain_len t"
  using assms
proof (induction h t rule: pbuf_cat_loop.induct)
  case (1 p p' ps t)
  have "chain_len (p' # ps) + chain_len t < 65536" using "1.prems"(5) by simp
  then obtain r where r: "pbuf_cat_loop (p' # ps) t = Some r" "chain_ok r"
      "chain_bytes r = chain_bytes (p' # ps) @ chain_bytes t" "chain_len r = chain_len (p' # ps) + chain_len t"
    using "1.IH" "1.prems" by auto
  have tot: "unat (pb_tot_len p + pb_tot_len (hd t)) = unat (pb_tot_len p) + unat (pb_tot_len (hd t))"
    using "1.prems" chain_ok_tot [of t] by (subst unat_word_ariths) simp
  show ?case
    using r "1.prems" chain_ok_tot [of t] tot by (auto simp: pb_ok_def pb_bytes_def)
next
  case (2 p t)
  have tot: "unat (pb_tot_len p + pb_tot_len (hd t)) = unat (pb_tot_len p) + unat (pb_tot_len (hd t))"
    using "2.prems" chain_ok_tot [of t] by (subst unat_word_ariths) simp
  have "pb_tot_len p = pb_len p" using "2.prems"(1) by (simp add: word_unat_eq_iff)
  then show ?case
    using "2.prems" chain_ok_tot [of t] tot by (simp add: pb_ok_def pb_bytes_def)
qed simp

text \<open>
  \<open>pbuf_cat\<close> of two well-formed chains whose lengths fit in 16 bits never runs into its
  assertion, appends their bytes and gives a well-formed chain.
\<close>

theorem pbuf_cat_bytes:
  assumes "chain_ok h" and "chain_ok t" and "h \<noteq> []" and "t \<noteq> []" and "chain_len h + chain_len t < 65536"
  shows "\<exists>r. pbuf_cat h t = Some r \<and> chain_ok r \<and> chain_bytes r = chain_bytes h @ chain_bytes t"
  using pbuf_cat_loop_bytes [OF assms] assms(3,4) by (auto simp: pbuf_cat_def)

section \<open>Reference counts\<close>

definition pbuf_pool :: "pbuf \<Rightarrow> memp_t option" where
  "pbuf_pool p = (case pb_type p of PBUF_POOL \<Rightarrow> Some MEMP_PBUF_POOL | PBUF_RAM \<Rightarrow> None | _ \<Rightarrow> Some MEMP_PBUF)"

definition freed_count :: "pbuf list \<Rightarrow> 'a mem_state_scheme \<Rightarrow> nat" where
  "freed_count ps s = length (takeWhile (\<lambda>p. sy_ref s (pb_addr p) = 1) ps)"

lemma pbuf_dealloc_simps [simp]:
  "sy_ref (pbuf_dealloc p s) = sy_ref s"
  "sy_ref (pbuf_set_ref p r s) = (sy_ref s)(pb_addr p := r)"
  "memp_tab (pbuf_set_ref p r s) = memp_tab s"
  "sy_heap (pbuf_set_ref p r s) = sy_heap s"
  by (auto simp: pbuf_dealloc_def pbuf_set_ref_def memp_free_def mem_free_def memp_stats_upd_def
      split: pbuf_type.splits)

lemma pbuf_dealloc_tab:
  "memp_tab (pbuf_dealloc p s) t = (if pbuf_pool p = Some t then pb_addr p # memp_tab s t else memp_tab s t)"
  by (auto simp: pbuf_dealloc_def pbuf_pool_def memp_free_def mem_free_def memp_stats_upd_def
      split: pbuf_type.splits)

lemma pbuf_dealloc_heap:
  "sy_heap (pbuf_dealloc p s) = (if pbuf_pool p = None then remove1 (pb_addr p) (sy_heap s) else sy_heap s)"
  by (auto simp: pbuf_dealloc_def pbuf_pool_def memp_free_def mem_free_def memp_stats_upd_def
      split: pbuf_type.splits)

lemma pbuf_free_loop_spec:
  assumes "distinct (map pb_addr ps)" and "\<forall>p \<in> set ps. 0 < sy_ref s (pb_addr p)"
  shows "\<exists>s'. pbuf_free_loop ps cnt s = Some (cnt + of_nat (freed_count ps s), s') \<and>
    (\<forall>a. sy_ref s' a =
       (if a \<in> pb_addr ` set (take (freed_count ps s) ps) then 0
        else if freed_count ps s < length ps \<and> a = pb_addr (ps ! freed_count ps s) then sy_ref s a - 1
        else sy_ref s a)) \<and>
    (\<forall>t. mset (memp_tab s' t) = mset (memp_tab s t) +
       mset (map pb_addr (filter (\<lambda>p. pbuf_pool p = Some t) (take (freed_count ps s) ps)))) \<and>
    mset (sy_heap s') = mset (sy_heap s) -
       mset (map pb_addr (filter (\<lambda>p. pbuf_pool p = None) (take (freed_count ps s) ps)))"
  using assms
proof (induction ps arbitrary: cnt s)
  case Nil
  then show ?case by (simp add: freed_count_def)
next
  case (Cons p ps)
  have pos: "0 < sy_ref s (pb_addr p)" using Cons.prems by simp
  let ?s1 = "pbuf_set_ref p (sy_ref s (pb_addr p) - 1) s"
  show ?case
  proof (cases "sy_ref s (pb_addr p) = 1")
    case False
    then have "sy_ref s (pb_addr p) - 1 \<noteq> 0" by simp
    moreover have "freed_count (p # ps) s = 0" using False by (simp add: freed_count_def)
    ultimately show ?thesis using pos by (simp add: pbuf_ref_of_def)
  next
    case True
    let ?s2 = "pbuf_dealloc p ?s1"
    have same: "sy_ref ?s2 (pb_addr x) = sy_ref s (pb_addr x)" if "x \<in> set ps" for x
      using that Cons.prems(1) by (auto simp: image_iff)
    have tw: "takeWhile (\<lambda>x. sy_ref ?s2 (pb_addr x) = 1) ps = takeWhile (\<lambda>x. sy_ref s (pb_addr x) = 1) ps"
      by (rule takeWhile_cong) (use same in auto)
    have fc: "freed_count (p # ps) s = Suc (freed_count ps ?s2)"
      using True tw by (simp add: freed_count_def)
    have "\<forall>x \<in> set ps. 0 < sy_ref ?s2 (pb_addr x)" using same Cons.prems(2) by simp
    then obtain s' where s': "pbuf_free_loop ps (cnt + 1) ?s2 = Some (cnt + 1 + of_nat (freed_count ps ?s2), s')"
      "\<forall>a. sy_ref s' a =
       (if a \<in> pb_addr ` set (take (freed_count ps ?s2) ps) then 0
        else if freed_count ps ?s2 < length ps \<and> a = pb_addr (ps ! freed_count ps ?s2) then sy_ref ?s2 a - 1
        else sy_ref ?s2 a)"
      "\<forall>t. mset (memp_tab s' t) = mset (memp_tab ?s2 t) +
       mset (map pb_addr (filter (\<lambda>p. pbuf_pool p = Some t) (take (freed_count ps ?s2) ps)))"
      "mset (sy_heap s') = mset (sy_heap ?s2) -
       mset (map pb_addr (filter (\<lambda>p. pbuf_pool p = None) (take (freed_count ps ?s2) ps)))"
      using Cons.IH [of ?s2 "cnt + 1"] Cons.prems(1) by auto
    have "pbuf_free_loop (p # ps) cnt s = pbuf_free_loop ps (cnt + 1) ?s2"
      using True by (simp add: pbuf_ref_of_def)
    then have "pbuf_free_loop (p # ps) cnt s = Some (cnt + of_nat (freed_count (p # ps) s), s')"
      using s'(1) fc by (simp add: add.assoc)
    moreover have "sy_ref s' a = (if a \<in> pb_addr ` set (take (freed_count (p # ps) s) (p # ps)) then 0
        else if freed_count (p # ps) s < length (p # ps) \<and> a = pb_addr ((p # ps) ! freed_count (p # ps) s)
        then sy_ref s a - 1 else sy_ref s a)" for a
    proof -
      define k where "k = freed_count ps ?s2"
      have r2: "sy_ref ?s2 = (sy_ref s)(pb_addr p := 0)" using True by simp
      have "pb_addr p \<notin> pb_addr ` set ps" using Cons.prems(1) by simp
      moreover have "set (take k ps) \<subseteq> set ps" by (rule set_take_subset)
      ultimately have "pb_addr p \<notin> pb_addr ` set (take k ps)" by blast
      moreover have "pb_addr (ps ! k) \<noteq> pb_addr p" if "k < length ps"
        using nth_mem [OF that] \<open>pb_addr p \<notin> pb_addr ` set ps\<close> by (metis image_eqI)
      ultimately show ?thesis
        using s'(2) unfolding fc r2 k_def [symmetric] by auto
    qed
    moreover have "mset (memp_tab s' t) = mset (memp_tab s t) +
       mset (map pb_addr (filter (\<lambda>p. pbuf_pool p = Some t) (take (freed_count (p # ps) s) (p # ps))))" for t
      using s'(3) unfolding fc by (simp add: pbuf_dealloc_tab)
    moreover have "mset (sy_heap s') = mset (sy_heap s) -
       mset (map pb_addr (filter (\<lambda>p. pbuf_pool p = None) (take (freed_count (p # ps) s) (p # ps))))"
      using s'(4) unfolding fc by (simp add: pbuf_dealloc_heap)
    ultimately show ?thesis by blast
  qed
qed

lemma free_spec:
  assumes "ps \<noteq> []" and "distinct (map pb_addr ps)" and "\<forall>p \<in> set ps. 0 < sy_ref s (pb_addr p)"
  shows "\<exists>s'. pbuf_free ps s = Some (of_nat (freed_count ps s), s') \<and>
    (\<forall>a. sy_ref s' a =
       (if a \<in> pb_addr ` set (take (freed_count ps s) ps) then 0
        else if freed_count ps s < length ps \<and> a = pb_addr (ps ! freed_count ps s) then sy_ref s a - 1
        else sy_ref s a)) \<and>
    (\<forall>t. mset (memp_tab s' t) = mset (memp_tab s t) +
       mset (map pb_addr (filter (\<lambda>p. pbuf_pool p = Some t) (take (freed_count ps s) ps)))) \<and>
    mset (sy_heap s') = mset (sy_heap s) -
       mset (map pb_addr (filter (\<lambda>p. pbuf_pool p = None) (take (freed_count ps s) ps)))"
  using pbuf_free_loop_spec [OF assms(2,3), of 0] assms(1) by (simp add: pbuf_free_def)

text \<open>
  C26: \<open>pbuf_free\<close> deallocates exactly the leading buffers nobody else refers to, returns their number
  (modulo 256), takes one reference from the next buffer, leaves all other counts alone, and gives
  each deallocated buffer back to the pool, or to the heap, it came from.
\<close>

theorem pbuf_free_refcounts:
  assumes "ps \<noteq> []" and "distinct (map pb_addr ps)" and "\<forall>p \<in> set ps. 0 < sy_ref s (pb_addr p)"
  shows "\<exists>s'. pbuf_free ps s = Some (of_nat (freed_count ps s), s') \<and>
    (\<forall>a. sy_ref s' a =
       (if a \<in> pb_addr ` set (take (freed_count ps s) ps) then 0
        else if freed_count ps s < length ps \<and> a = pb_addr (ps ! freed_count ps s) then sy_ref s a - 1
        else sy_ref s a)) \<and>
    (\<forall>t. mset (memp_tab s' t) = mset (memp_tab s t) +
       mset (map pb_addr (filter (\<lambda>p. pbuf_pool p = Some t) (take (freed_count ps s) ps)))) \<and>
    mset (sy_heap s') = mset (sy_heap s) -
       mset (map pb_addr (filter (\<lambda>p. pbuf_pool p = None) (take (freed_count ps s) ps)))"
  using assms by (rule free_spec)

section \<open>Shrinking\<close>

lemma pb_tot_upd [simp]:
  "pb_ok (q\<lparr>pb_tot_len := x\<rparr>) = pb_ok q" "pb_bytes (q\<lparr>pb_tot_len := x\<rparr>) = pb_bytes q"
  by (simp_all add: pb_ok_def pb_bytes_def)

lemma realloc_loop_bytes:
  assumes "chain_ok ps" and "unat rem_len \<le> chain_len ps" and "ps \<noteq> []"
    and "grow = int (unat rem_len) - int (chain_len ps)" and "grow \<le> 0"
    and "distinct (map pb_addr ps)" and "\<forall>p \<in> set ps. 0 < sy_ref s (pb_addr p)"
  shows "\<exists>ps' s'. pbuf_realloc_loop grow rem_len ps s = Some (ps', s') \<and> chain_ok ps' \<and>
    chain_bytes ps' = take (unat rem_len) (chain_bytes ps) \<and> chain_len ps' = unat rem_len"
  using assms
proof (induction ps arbitrary: rem_len)
  case Nil
  then show ?case by simp
next
  case (Cons q qs)
  have okq: "pb_ok q" and okqs: "chain_ok qs" using Cons.prems(1) by simp_all
  show ?case
  proof (cases "pb_len q < rem_len")
    case True
    then have sub: "unat (rem_len - pb_len q) = unat rem_len - unat (pb_len q)" "unat (pb_len q) < unat rem_len"
      by (simp_all add: unat_sub word_le_nat_alt word_less_nat_alt)
    have ne: "qs \<noteq> []" using sub(2) Cons.prems(2) by auto
    have "\<exists>ps' s'. pbuf_realloc_loop grow (rem_len - pb_len q) qs s = Some (ps', s') \<and> chain_ok ps' \<and>
      chain_bytes ps' = take (unat (rem_len - pb_len q)) (chain_bytes qs) \<and> chain_len ps' = unat (rem_len - pb_len q)"
      by (rule Cons.IH) (use Cons.prems sub ne in \<open>auto simp del: of_nat_unat\<close>)
    then obtain qs' s' where r: "pbuf_realloc_loop grow (rem_len - pb_len q) qs s = Some (qs', s')" "chain_ok qs'"
      "chain_bytes qs' = take (unat (rem_len - pb_len q)) (chain_bytes qs)" "chain_len qs' = unat (rem_len - pb_len q)"
      by blast
    have "unat (pb_tot_len q) = chain_len (q # qs)" using Cons.prems(1) by simp
    then have "of_nat (unat (pb_tot_len q)) = (of_nat (chain_len (q # qs)) :: u16)" by (rule arg_cong)
    then have "pb_tot_len q = of_nat (chain_len (q # qs))" by simp
    then have "pb_tot_len q + of_int grow = of_int (int (chain_len (q # qs)) + grow)"
      by simp
    also have "\<dots> = rem_len" using Cons.prems(4) by simp
    finally have tot: "pb_tot_len q + of_int grow = rem_len" .
    show ?thesis
      using r sub True okq tot Cons.prems(5) by simp
  next
    case False
    then have le: "unat rem_len \<le> unat (pb_len q)" by (simp add: word_less_nat_alt not_less)
    let ?q = "q\<lparr>pb_len := rem_len, pb_tot_len := rem_len\<rparr>"
    have q: "chain_ok [?q]" "chain_bytes [?q] = take (unat rem_len) (chain_bytes (q # qs))"
      using okq le pb_bytes_length [OF okq] by (auto simp add: pb_ok_def pb_bytes_def min_def)
    have "\<exists>s'. pbuf_realloc_loop grow rem_len (q # qs) s = Some ([?q], s')"
    proof (cases "qs = []")
      case True
      then show ?thesis using False by simp
    next
      case ne: False
      obtain c s' where "pbuf_free qs s = Some (c, s')"
        using free_spec [of qs s] ne Cons.prems(6,7) by auto
      then show ?thesis using False ne by simp
    qed
    then show ?thesis using q by auto
  qed
qed

text \<open>
  C29: \<open>pbuf_realloc\<close> to a length the chain has keeps exactly that many leading bytes and a
  well-formed chain, for every cut of the chain into buffers.
\<close>

theorem pbuf_realloc_bytes:
  assumes "chain_ok ps" and "ps \<noteq> []" and "unat new_len \<le> chain_len ps"
    and "distinct (map pb_addr ps)" and "\<forall>p \<in> set ps. 0 < sy_ref s (pb_addr p)"
  shows "\<exists>ps' s'. pbuf_realloc ps new_len s = Some (ps', s') \<and> chain_ok ps' \<and>
    chain_bytes ps' = take (unat new_len) (chain_bytes ps)"
proof -
  obtain p q where ps: "ps = p # q" using assms(2) by (cases ps) auto
  have tot: "unat (pb_tot_len p) = chain_len ps" using assms(1) ps by simp
  show ?thesis
  proof (cases "pb_tot_len p \<le> new_len")
    case True
    then have "unat new_len = chain_len ps" using assms(3) tot by (simp add: word_le_nat_alt)
    then show ?thesis using True ps assms(1) by (simp add: pbuf_realloc_def) 
  next
    case False
    have "uint new_len - uint (pb_tot_len p) = int (unat new_len) - int (chain_len ps)"
      using tot by (metis uint_nat)
    then show ?thesis
      using realloc_loop_bytes [OF assms(1,3,2) _ _ assms(4,5), of "uint new_len - uint (pb_tot_len p)"]
        False assms(3) ps by (auto simp: pbuf_realloc_def simp del: of_nat_unat)
  qed
qed

section \<open>Allocation\<close>

lemma fresh_bytes_length [simp]: "length (fresh_bytes env n s) = n"
  by (simp add: fresh_bytes_def)

lemma malloc_cases:
  assumes "memp_malloc t s = (Some a, s1)"
  shows "memp_tab s t = a # memp_tab s1 t \<and> (\<forall>u. u \<noteq> t \<longrightarrow> memp_tab s1 u = memp_tab s u)"
  using assms by (auto simp: memp_malloc_def split: list.splits)

lemma malloc_None:
  assumes "memp_malloc t s = (None, s1)"
  shows "memp_tab s t = []" "memp_tab s1 = memp_tab s" "sy_ref s1 = sy_ref s"
  using assms by (auto simp: memp_malloc_def memp_stats_upd_def split: list.splits)

lemma memp_malloc_more [simp]:
  "sy_ref (snd (memp_malloc t s)) = sy_ref s" "sy_heap (snd (memp_malloc t s)) = sy_heap s"
  by (auto simp: memp_malloc_def memp_stats_upd_def split: list.splits)

text \<open>
  What the loop of the pool allocation keeps: the chain built so far is made of fresh pool buffers
  of one reference each, and its \<open>tot_len\<close> fields already count the \<open>rem\<close> bytes to come.
\<close>

definition pool_chain :: "pbuf list \<Rightarrow> nat \<Rightarrow> 'a mem_state_scheme \<Rightarrow> bool" where
  "pool_chain ps rem s \<longleftrightarrow>
     (\<forall>p \<in> set ps. pb_ok p \<and> pb_type p = PBUF_POOL \<and> sy_ref s (pb_addr p) = 1) \<and>
     (\<forall>i < length ps. unat (pb_tot_len (ps ! i)) = chain_len (drop i ps) + rem) \<and>
     distinct (map pb_addr ps @ memp_tab s MEMP_PBUF_POOL)"

lemma pool_chain_free:
  assumes "pool_chain ps rem s" and "ps \<noteq> []"
  shows "\<exists>c s'. pbuf_free ps s = Some (c, s') \<and>
    mset (memp_tab s' MEMP_PBUF_POOL) = mset (map pb_addr ps) + mset (memp_tab s MEMP_PBUF_POOL)"
proof -
  have "takeWhile (\<lambda>p. sy_ref s (pb_addr p) = 1) ps = ps"
    using assms(1) by (simp add: pool_chain_def takeWhile_eq_all_conv)
  then have all: "freed_count ps s = length ps" unfolding freed_count_def by (rule arg_cong)
  have "filter (\<lambda>p. pbuf_pool p = Some MEMP_PBUF_POOL) ps = ps"
    using assms(1) by (auto simp: pool_chain_def pbuf_pool_def filter_id_conv)
  moreover have "distinct (map pb_addr ps)" "\<forall>p \<in> set ps. 0 < sy_ref s (pb_addr p)"
    using assms(1) by (auto simp: pool_chain_def)
  moreover from this obtain s' where "pbuf_free ps s = Some (of_nat (length ps), s')"
    "mset (memp_tab s' MEMP_PBUF_POOL) = mset (memp_tab s MEMP_PBUF_POOL) +
       mset (map pb_addr (filter (\<lambda>p. pbuf_pool p = Some MEMP_PBUF_POOL) (take (length ps) ps)))"
    using free_spec [OF assms(2), of s, unfolded all] by blast
  ultimately show ?thesis by simp
qed

lemma pool_chain_snoc:
  assumes "pool_chain ps (unat len + rem) s" and "memp_tab s MEMP_PBUF_POOL = a # fr"
    and "memp_tab s1 MEMP_PBUF_POOL = fr" and "sy_ref s1 = sy_ref s"
    and "pbuf_pool_new env a off tot len s1 = (q, s2)" and "off + unat len \<le> PBUF_POOL_BUFSIZE"
    and "unat tot = unat len + rem"
  shows "pool_chain (ps @ [q]) rem s2"
proof -
  have q: "pb_ok q" "pb_type q = PBUF_POOL" "pb_addr q = a" "pb_len q = len" "pb_tot_len q = tot"
    and s2: "sy_ref s2 = (sy_ref s)(a := 1)" "memp_tab s2 MEMP_PBUF_POOL = fr"
    using assms(3-6) by (auto simp: pbuf_pool_new_def pb_ok_def Let_def)
  have "a \<notin> pb_addr ` set ps" "distinct (map pb_addr (ps @ [q]) @ fr)"
    using assms(1,2) q(3) by (auto simp: pool_chain_def)
  moreover have "unat (pb_tot_len ((ps @ [q]) ! i)) = chain_len (drop i (ps @ [q])) + rem"
    if "i < length (ps @ [q])" for i
    using that assms(1,7) q(4,5) by (auto simp: pool_chain_def nth_append less_Suc_eq)
  ultimately show ?thesis
    using assms(1) q s2 unfolding pool_chain_def by (auto simp: image_iff)
qed

lemma pool_chain_done: "pool_chain ps 0 s \<Longrightarrow> chain_ok ps"
proof -
  assume "pool_chain ps 0 s"
  then have "\<forall>p \<in> set ps. pb_ok p" "\<forall>i < length ps. unat (pb_tot_len (ps ! i)) = chain_len (drop i ps)"
    by (auto simp: pool_chain_def)
  then show "chain_ok ps"
    using chain_ok_app_tot [of "[]" ps] by simp
qed

declare pbuf_alloc_tail.simps [simp del]

lemma alloc_tail_spec:
  assumes "pool_chain ps (nat rem) s" and "ps \<noteq> []" and "rem < 0xffff"
  shows "\<exists>r s'. pbuf_alloc_tail env ps rem s = Some (r, s') \<and>
    (if r = [] then mset (memp_tab s' MEMP_PBUF_POOL) = mset (map pb_addr ps) + mset (memp_tab s MEMP_PBUF_POOL)
     else pool_chain r 0 s' \<and> chain_len r = chain_len ps + nat rem \<and> hd r = hd ps \<and>
       map pb_addr ps @ memp_tab s MEMP_PBUF_POOL = map pb_addr r @ memp_tab s' MEMP_PBUF_POOL)"
  using assms
proof (induction "nat rem" arbitrary: ps rem s rule: less_induct)
  case less
  show ?case
  proof (cases "rem > 0")
    case False
    then show ?thesis using less.prems(1,2) by (subst pbuf_alloc_tail.simps) simp
  next
    case pos: True
    show ?thesis
    proof (cases "memp_malloc MEMP_PBUF_POOL s")
      case (Pair ao s1)
      show ?thesis
      proof (cases ao)
        case None
        then have m: "memp_tab s MEMP_PBUF_POOL = []" "memp_tab s1 = memp_tab s" "sy_ref s1 = sy_ref s"
          using malloc_None Pair by blast+
        then have "pool_chain ps (nat rem) (pbuf_pool_is_empty s1)"
          using less.prems(1) by (simp add: pool_chain_def pbuf_pool_is_empty_def)
        then obtain c s' where "pbuf_free ps (pbuf_pool_is_empty s1) = Some (c, s')"
          "mset (memp_tab s' MEMP_PBUF_POOL) = mset (map pb_addr ps) + mset (memp_tab (pbuf_pool_is_empty s1) MEMP_PBUF_POOL)"
          using pool_chain_free less.prems(2) by blast
        moreover have "memp_tab (pbuf_pool_is_empty s1) = memp_tab s1" by (simp add: pbuf_pool_is_empty_def)
        ultimately show ?thesis
          using pos Pair None m by (subst pbuf_alloc_tail.simps) simp
      next
        case (Some a)
        let ?len = "min (of_int rem) (556 :: u16)"
        obtain q s2 where new: "pbuf_pool_new env a 0 (of_int rem) ?len s1 = (q, s2)" by fastforce
        have len: "unat ?len = nat (min rem 556)" "uint ?len = min rem 556" "unat (of_int rem :: u16) = nat rem"
          using pool_chunk [OF pos less.prems(3)] by (simp_all add: unat_eq_nat_uint)
        have fr: "memp_tab s MEMP_PBUF_POOL = a # memp_tab s1 MEMP_PBUF_POOL"
          using malloc_cases Pair Some by blast
        have ref1: "sy_ref s1 = sy_ref s" using memp_malloc_more(1) [of MEMP_PBUF_POOL s] Pair by simp
        have sum: "nat rem = unat ?len + nat (rem - uint ?len)" unfolding len using pos by simp
        have le: "0 + unat ?len \<le> PBUF_POOL_BUFSIZE" unfolding len(1) by (simp add: nat_le_iff)
        have inv: "pool_chain (ps @ [q]) (nat (rem - uint ?len)) s2"
          by (rule pool_chain_snoc [OF less.prems(1) [unfolded sum] fr refl ref1 new le])
            (use len(1,3) sum in simp)
        have s2: "memp_tab s2 MEMP_PBUF_POOL = memp_tab s1 MEMP_PBUF_POOL" and q: "pb_addr q = a" "pb_len q = ?len"
          using new by (auto simp: pbuf_pool_new_def Let_def)
        have "\<exists>r s'. pbuf_alloc_tail env (ps @ [q]) (rem - uint ?len) s2 = Some (r, s') \<and>
            (if r = [] then mset (memp_tab s' MEMP_PBUF_POOL) = mset (map pb_addr (ps @ [q])) + mset (memp_tab s2 MEMP_PBUF_POOL)
             else pool_chain r 0 s' \<and> chain_len r = chain_len (ps @ [q]) + nat (rem - uint ?len) \<and> hd r = hd (ps @ [q]) \<and>
               map pb_addr (ps @ [q]) @ memp_tab s2 MEMP_PBUF_POOL = map pb_addr r @ memp_tab s' MEMP_PBUF_POOL)"
          by (rule less.hyps [OF _ inv]) (use len(2) pos less.prems(3) in auto)
        then obtain r s' where r: "pbuf_alloc_tail env (ps @ [q]) (rem - uint ?len) s2 = Some (r, s')"
            "if r = [] then mset (memp_tab s' MEMP_PBUF_POOL) = mset (map pb_addr (ps @ [q])) + mset (memp_tab s2 MEMP_PBUF_POOL)
             else pool_chain r 0 s' \<and> chain_len r = chain_len (ps @ [q]) + nat (rem - uint ?len) \<and> hd r = hd (ps @ [q]) \<and>
               map pb_addr (ps @ [q]) @ memp_tab s2 MEMP_PBUF_POOL = map pb_addr r @ memp_tab s' MEMP_PBUF_POOL"
          by blast
        moreover have "pbuf_alloc_tail env ps rem s = pbuf_alloc_tail env (ps @ [q]) (rem - uint ?len) s2"
          using pos less.prems(3) Pair Some new by (subst pbuf_alloc_tail.simps) (simp add: Let_def)
        ultimately show ?thesis
          using s2 q fr less.prems(2) sum by (cases "r = []") (simp_all add: add.assoc)
      qed
    qed
  qed
qed

lemma alloc_pool_spec:
  assumes "distinct (memp_tab s MEMP_PBUF_POOL)" and "off \<le> 20"
  shows "\<exists>ps s'. pbuf_alloc_pool env off len s = Some (ps, s') \<and>
    (if ps = [] then mset (memp_tab s' MEMP_PBUF_POOL) = mset (memp_tab s MEMP_PBUF_POOL)
     else pool_chain ps 0 s' \<and> chain_len ps = unat len \<and> pb_off (hd ps) = int off \<and>
       memp_tab s MEMP_PBUF_POOL = map pb_addr ps @ memp_tab s' MEMP_PBUF_POOL)"
proof (cases "memp_malloc MEMP_PBUF_POOL s")
  case (Pair ao s1)
  show ?thesis
  proof (cases ao)
    case None
    then show ?thesis
      using Pair malloc_None(2) [of MEMP_PBUF_POOL s s1] by (simp add: pbuf_alloc_pool_def pbuf_pool_is_empty_def)
  next
    case (Some a)
    define plen where "plen = (if unat len \<le> PBUF_POOL_BUFSIZE - off then len else of_nat (PBUF_POOL_BUFSIZE - off))"
    obtain p s2 where new: "pbuf_pool_new env a off len plen s1 = (p, s2)" by fastforce
    have small: "take_bit 16 (556 - off) = 556 - off"
      by (rule take_bit_nat_eq_self) simp
    have plen: "unat plen = min (unat len) (556 - off)"
      using small by (simp add: plen_def unat_of_nat)
    have fr: "memp_tab s MEMP_PBUF_POOL = a # memp_tab s1 MEMP_PBUF_POOL"
      using malloc_cases Pair Some by blast
    have ref1: "sy_ref s1 = sy_ref s" using memp_malloc_more(1) [of MEMP_PBUF_POOL s] Pair by simp
    have le: "off + unat plen \<le> PBUF_POOL_BUFSIZE" using plen assms(2) by simp
    have sum: "unat len = unat plen + (unat len - unat plen)" using plen by simp
    have rem: "nat (uint len - uint plen) = unat len - unat plen" "uint len - uint plen < 0xffff"
    proof -
      have "uint len - uint plen = int (unat len) - int (unat plen)" by simp
      moreover have "int (unat len) - int (unat plen) < 0xffff"
        using plen assms(2) u16_bound [of len] by linarith
      ultimately show "uint len - uint plen < 0xffff" by (simp del: of_nat_unat)
      show "nat (uint len - uint plen) = unat len - unat plen"
        using \<open>uint len - uint plen = _\<close> by (simp del: of_nat_unat add: nat_minus_as_int)
    qed
    have "pool_chain [] (unat plen + (unat len - unat plen)) s"
      using assms(1) by (simp add: pool_chain_def)
    from pool_chain_snoc [OF this fr refl ref1 new le sum]
    have inv: "pool_chain [p] (nat (uint len - uint plen)) s2" unfolding rem(1) by simp
    have p: "pb_addr p = a" "pb_off p = int off" "pb_len p = plen"
      and s2: "memp_tab s2 MEMP_PBUF_POOL = memp_tab s1 MEMP_PBUF_POOL"
      using new by (auto simp: pbuf_pool_new_def Let_def)
    obtain r s' where r: "pbuf_alloc_tail env [p] (uint len - uint plen) s2 = Some (r, s')"
      "if r = [] then mset (memp_tab s' MEMP_PBUF_POOL) = mset (map pb_addr [p]) + mset (memp_tab s2 MEMP_PBUF_POOL)
       else pool_chain r 0 s' \<and> chain_len r = chain_len [p] + nat (uint len - uint plen) \<and> hd r = hd [p] \<and>
         map pb_addr [p] @ memp_tab s2 MEMP_PBUF_POOL = map pb_addr r @ memp_tab s' MEMP_PBUF_POOL"
      using alloc_tail_spec [OF inv _ rem(2)] by blast
    have "pbuf_alloc_pool env off len s = Some (r, s')"
      using Pair Some new le r(1) assms(2) by (simp add: pbuf_alloc_pool_def plen_def [symmetric])
    then show ?thesis
      using r(2) p s2 fr sum unfolding rem(1) by (auto split: if_splits)
  qed
qed

text \<open>
  C25: an allocation with a payload never runs into an assertion. It gives either \<open>NULL\<close>, and then
  every pool buffer taken on the way is back in the pool, or a well-formed chain of the requested
  length and type, with the room for the header of its layer in front, and one reference on each
  buffer; a pool allocation takes exactly those buffers from the pool.
\<close>

theorem pbuf_alloc_ok:
  assumes "distinct (memp_tab s MEMP_PBUF_POOL)" and "type = PBUF_RAM \<or> type = PBUF_POOL"
  shows "\<exists>ps s'. pbuf_alloc env layer len type s = Some (ps, s') \<and>
    (if ps = [] then mset (memp_tab s' MEMP_PBUF_POOL) = mset (memp_tab s MEMP_PBUF_POOL)
     else chain_ok ps \<and> chain_len ps = unat len \<and> pb_off (hd ps) = int (pbuf_layer_offset layer) \<and>
       (\<forall>p \<in> set ps. pb_type p = type \<and> sy_ref s' (pb_addr p) = 1) \<and>
       memp_tab s MEMP_PBUF_POOL = (if type = PBUF_POOL then map pb_addr ps else []) @ memp_tab s' MEMP_PBUF_POOL)"
proof (cases "type = PBUF_POOL")
  case True
  have "pbuf_layer_offset layer \<le> 20" by (cases layer) simp_all
  then obtain ps s' where r: "pbuf_alloc_pool env (pbuf_layer_offset layer) len s = Some (ps, s')"
    "if ps = [] then mset (memp_tab s' MEMP_PBUF_POOL) = mset (memp_tab s MEMP_PBUF_POOL)
     else pool_chain ps 0 s' \<and> chain_len ps = unat len \<and> pb_off (hd ps) = int (pbuf_layer_offset layer) \<and>
       memp_tab s MEMP_PBUF_POOL = map pb_addr ps @ memp_tab s' MEMP_PBUF_POOL"
    using alloc_pool_spec [OF assms(1)] by blast
  have "pbuf_alloc env layer len type s = Some (ps, s')"
    using True r(1) by (simp add: pbuf_alloc_def)
  then show ?thesis
    using r(2) True pool_chain_done [of ps s'] by (cases "ps = []") (simp_all add: pool_chain_def)
next
  case False
  then have ram: "type = PBUF_RAM" using assms(2) by simp
  obtain ao s1 where m: "mem_malloc env (SIZEOF_STRUCT_PBUF + pbuf_layer_offset layer + unat len) s = (ao, s1)"
    by fastforce
  then have tab: "memp_tab s1 = memp_tab s" by (auto simp: mem_malloc_def Let_def split: option.splits)
  show ?thesis
  proof (cases ao)
    case None
    then have "pbuf_alloc env layer len type s = Some ([], s1)"
      using m ram by (simp add: pbuf_alloc_def)
    then show ?thesis using tab by simp
  next
    case (Some a)
    let ?p = "\<lparr>pb_addr = a, pb_mem = fresh_bytes env (pbuf_layer_offset layer + unat len) s1,
               pb_off = int (pbuf_layer_offset layer),
               pb_tot_len = len, pb_len = len, pb_type = PBUF_RAM, pb_flags = 0\<rparr>"
    have "pbuf_alloc env layer len type s = Some ([?p], pbuf_set_ref ?p 1 (s1\<lparr>sy_allocs := sy_allocs s1 + 1\<rparr>))"
      using m ram Some by (simp add: pbuf_alloc_def Let_def)
    then show ?thesis using tab ram by (simp add: pb_ok_def)
  qed
qed

theorem pbuf_header_roundtrip_witness:
  "\<exists>ps'. pbuf_header ex_chain (- 2) = Some (0, ps') \<and> chain_bytes ps' = [3, 4, 5] \<and>
     pbuf_header_force ps' 2 = Some (0, ex_chain)"
  using pbuf_header_roundtrip [of "hd ex_chain" "tl ex_chain" 2] by (auto simp: ex_chain_ok)

theorem pbuf_cat_bytes_witness:
  "\<exists>r. pbuf_cat ex_chain ex_target = Some r \<and> chain_bytes r = [1, 2, 3, 4, 5, 0, 0, 0, 0, 0, 0]"
  using pbuf_cat_bytes [of ex_chain ex_target] by (auto simp: ex_chain_ok)

theorem pbuf_free_refcounts_witness:
  "\<exists>s'. pbuf_free ex_chain ex_mem = Some (2, s') \<and> mset (memp_tab s' MEMP_PBUF_POOL) = {#7, 8, 1, 2#}"
  using pbuf_free_refcounts [of ex_chain ex_mem]
  by (auto simp: ex_mem_def ex_chain_def ex_buf_def freed_count_def pbuf_pool_def)

theorem pbuf_realloc_bytes_witness:
  "\<exists>ps' s'. pbuf_realloc ex_chain 2 ex_mem = Some (ps', s') \<and> chain_bytes ps' = [1, 2]"
  using pbuf_realloc_bytes [of ex_chain 2 ex_mem] by (auto simp: ex_chain_ok ex_mem_def)

theorem pbuf_alloc_ok_witness:
  "\<exists>ps s'. pbuf_alloc ex_env PBUF_TRANSPORT 1000 PBUF_POOL ex_mem = Some (ps, s') \<and>
    (if ps = [] then mset (memp_tab s' MEMP_PBUF_POOL) = {#7, 8#} else chain_ok ps \<and> chain_len ps = 1000)"
  using pbuf_alloc_ok [of ex_mem PBUF_POOL ex_env PBUF_TRANSPORT 1000]
  by (simp add: ex_mem_def split: if_splits) (metis (no_types, lifting))

end
