(* ===== verification/Tcp_Types.thy ===== *)
theory Tcp_Types
  imports Pbuf_Copy Pbuf_Refs
begin

text \<open>
  The data of the TCP layer: \<^verbatim>\<open>include/lwip/tcp.h\<close> (states, protocol control blocks, flags),
  \<^verbatim>\<open>include/lwip/tcp_impl.h\<close> (header, segments, options) and the global state of the output side.
  Segments and their release are here because every other TCP theory uses them.
\<close>

section \<open>Connection states\<close>

datatype tcp_state =
    CLOSED | LISTEN | SYN_SENT | SYN_RCVD | ESTABLISHED | FIN_WAIT_1 | FIN_WAIT_2
  | CLOSE_WAIT | CLOSING | LAST_ACK | TIME_WAIT

fun state_num :: "tcp_state \<Rightarrow> nat" where
  "state_num CLOSED = 0"
| "state_num LISTEN = 1"
| "state_num SYN_SENT = 2"
| "state_num SYN_RCVD = 3"
| "state_num ESTABLISHED = 4"
| "state_num FIN_WAIT_1 = 5"
| "state_num FIN_WAIT_2 = 6"
| "state_num CLOSE_WAIT = 7"
| "state_num CLOSING = 8"
| "state_num LAST_ACK = 9"
| "state_num TIME_WAIT = 10"

lemma state_num_inj: "state_num a = state_num b \<Longrightarrow> a = b"
  by (cases a; cases b) simp_all

text \<open>The enum's numeric order, which \<open>tcp_receive\<close> and the timers compare states by.\<close>

instantiation tcp_state :: linorder
begin

definition less_eq_tcp_state :: "tcp_state \<Rightarrow> tcp_state \<Rightarrow> bool" where
  "less_eq_tcp_state a b \<longleftrightarrow> state_num a \<le> state_num b"

definition less_tcp_state :: "tcp_state \<Rightarrow> tcp_state \<Rightarrow> bool" where
  "less_tcp_state a b \<longleftrightarrow> state_num a < state_num b"

instance
  by standard (auto simp: less_eq_tcp_state_def less_tcp_state_def dest: state_num_inj)

end

section \<open>Headers\<close>

abbreviation TCP_FIN :: u8 where "TCP_FIN \<equiv> 0x01"
abbreviation TCP_SYN :: u8 where "TCP_SYN \<equiv> 0x02"
abbreviation TCP_RST :: u8 where "TCP_RST \<equiv> 0x04"
abbreviation TCP_PSH :: u8 where "TCP_PSH \<equiv> 0x08"
abbreviation TCP_ACK :: u8 where "TCP_ACK \<equiv> 0x10"
abbreviation TCP_FLAGS :: u16 where "TCP_FLAGS \<equiv> 0x3f"

text \<open>The header in host byte order; \<open>tcp_hdr_bytes\<close> is its 20 bytes on the wire.\<close>

record tcp_hdr =
  th_connid1 :: u32
  th_connid2 :: u32
  th_seqno :: u32
  th_ackno :: u32
  th_hdrlen_rsvd_flags :: u16
  th_wnd :: u16

definition TCPH_HDRLEN :: "tcp_hdr \<Rightarrow> u16" where
  "TCPH_HDRLEN h = drop_bit 12 (th_hdrlen_rsvd_flags h)"

definition TCPH_FLAGS :: "tcp_hdr \<Rightarrow> u8" where
  "TCPH_FLAGS h = ucast (th_hdrlen_rsvd_flags h AND TCP_FLAGS)"

definition TCPH_HDRLEN_FLAGS_SET :: "u16 \<Rightarrow> u8 \<Rightarrow> tcp_hdr \<Rightarrow> tcp_hdr" where
  "TCPH_HDRLEN_FLAGS_SET len flags h = h\<lparr>th_hdrlen_rsvd_flags := push_bit 12 len OR ucast flags\<rparr>"

definition TCPH_FLAGS_SET :: "u8 \<Rightarrow> tcp_hdr \<Rightarrow> tcp_hdr" where
  "TCPH_FLAGS_SET flags h = h\<lparr>th_hdrlen_rsvd_flags := (th_hdrlen_rsvd_flags h AND NOT TCP_FLAGS) OR ucast flags\<rparr>"

definition TCPH_SET_FLAG :: "u8 \<Rightarrow> tcp_hdr \<Rightarrow> tcp_hdr" where
  "TCPH_SET_FLAG flags h = h\<lparr>th_hdrlen_rsvd_flags := th_hdrlen_rsvd_flags h OR ucast flags\<rparr>"

text \<open>\<open>htons\<close>/\<open>htonl\<close> followed by a store, and a load followed by \<open>ntohs\<close>/\<open>ntohl\<close>: big endian.\<close>

definition be16 :: "u16 \<Rightarrow> u8 list" where
  "be16 w = [ucast (drop_bit 8 w), ucast w]"

definition be32 :: "u32 \<Rightarrow> u8 list" where
  "be32 w = [ucast (drop_bit 24 w), ucast (drop_bit 16 w), ucast (drop_bit 8 w), ucast w]"

definition rd16 :: "u8 list \<Rightarrow> nat \<Rightarrow> u16" where
  "rd16 bs i = push_bit 8 (ucast (pad_nth bs i)) OR ucast (pad_nth bs (i + 1))"

definition rd32 :: "u8 list \<Rightarrow> nat \<Rightarrow> u32" where
  "rd32 bs i = push_bit 24 (ucast (pad_nth bs i)) OR push_bit 16 (ucast (pad_nth bs (i + 1))) OR
     push_bit 8 (ucast (pad_nth bs (i + 2))) OR ucast (pad_nth bs (i + 3))"

definition tcp_hdr_bytes :: "tcp_hdr \<Rightarrow> u8 list" where
  "tcp_hdr_bytes h = be32 (th_connid1 h) @ be32 (th_connid2 h) @ be32 (th_seqno h) @ be32 (th_ackno h) @
     be16 (th_hdrlen_rsvd_flags h) @ be16 (th_wnd h)"

definition tcp_hdr_read :: "u8 list \<Rightarrow> tcp_hdr" where
  "tcp_hdr_read bs = \<lparr>th_connid1 = rd32 bs 0, th_connid2 = rd32 bs 4, th_seqno = rd32 bs 8,
     th_ackno = rd32 bs 12, th_hdrlen_rsvd_flags = rd16 bs 16, th_wnd = rd16 bs 18\<rparr>"

lemma tcp_hdr_bytes_length [simp]: "length (tcp_hdr_bytes h) = 20"
  by (simp add: tcp_hdr_bytes_def be32_def be16_def)

text \<open>The bytes of a header determine it.\<close>

lemma rd32_be32: "rd32 (xs @ be32 w @ ys) (length xs) = w"
proof (rule bit_eqI)
  fix n
  show "bit (rd32 (xs @ be32 w @ ys) (length xs)) n = bit w n"
    by (cases "n < 8"; cases "n < 16"; cases "n < 24"; cases "n < 32")
      (simp_all add: rd32_def be32_def pad_nth_def nth_append bit_simps impossible_bit, auto)
qed

lemma rd16_be16: "rd16 (xs @ be16 w @ ys) (length xs) = w"
proof (rule bit_eqI)
  fix n
  show "bit (rd16 (xs @ be16 w @ ys) (length xs)) n = bit w n"
    by (cases "n < 8"; cases "n < 16")
      (simp_all add: rd16_def be16_def pad_nth_def nth_append bit_simps impossible_bit, auto)
qed

lemma be_length [simp]: "length (be32 w) = 4" "length (be16 v) = 2"
  by (simp_all add: be32_def be16_def)

lemma rd32_at: "xs = us @ be32 w @ ys \<Longrightarrow> length us = i \<Longrightarrow> rd32 xs i = w"
  using rd32_be32 by blast

lemma rd16_at: "xs = us @ be16 w @ ys \<Longrightarrow> length us = i \<Longrightarrow> rd16 xs i = w"
  using rd16_be16 by blast

lemma tcp_hdr_read_bytes: "tcp_hdr_read (tcp_hdr_bytes h @ rest) = h"
proof -
  let ?a = "be32 (th_connid1 h)" and ?b = "be32 (th_connid2 h)" and ?c = "be32 (th_seqno h)"
    and ?d = "be32 (th_ackno h)" and ?e = "be16 (th_hdrlen_rsvd_flags h)" and ?f = "be16 (th_wnd h)"
  let ?x = "?a @ ?b @ ?c @ ?d @ ?e @ ?f @ rest"
  have "rd32 ?x 0 = th_connid1 h" by (rule rd32_at [of _ "[]"]) simp_all
  moreover have "rd32 ?x 4 = th_connid2 h" by (rule rd32_at [of _ ?a]) simp_all
  moreover have "rd32 ?x 8 = th_seqno h" by (rule rd32_at [of _ "?a @ ?b"]) simp_all
  moreover have "rd32 ?x 12 = th_ackno h" by (rule rd32_at [of _ "?a @ ?b @ ?c"]) simp_all
  moreover have "rd16 ?x 16 = th_hdrlen_rsvd_flags h" by (rule rd16_at [of _ "?a @ ?b @ ?c @ ?d"]) simp_all
  moreover have "rd16 ?x 18 = th_wnd h" by (rule rd16_at [of _ "?a @ ?b @ ?c @ ?d @ ?e"]) simp_all
  ultimately show ?thesis
    by (simp add: tcp_hdr_read_def tcp_hdr_bytes_def)
qed

lemma TCP_FLAGS_mask: "TCP_FLAGS = mask 6" "(0x3f :: u8) = mask 6"
  by (simp_all add: mask_eq_exp_minus_1)

lemma TCPH_FLAGS_set [simp]:
  "TCPH_FLAGS (TCPH_HDRLEN_FLAGS_SET len flags h) = flags AND 0x3f"
  "TCPH_FLAGS (TCPH_FLAGS_SET flags h) = flags AND 0x3f"
  "TCPH_FLAGS (TCPH_SET_FLAG flags h) = TCPH_FLAGS h OR (flags AND 0x3f)"
  unfolding TCPH_FLAGS_def TCPH_HDRLEN_FLAGS_SET_def TCPH_FLAGS_SET_def TCPH_SET_FLAG_def TCP_FLAGS_mask
  by (rule bit_eqI; auto simp: bit_simps)+

lemma TCPH_HDRLEN_set [simp]:
  "TCPH_HDRLEN (TCPH_HDRLEN_FLAGS_SET len flags h) = len AND 0xf"
proof -
  have m: "(0xf :: u16) = mask 4" by (simp add: mask_eq_exp_minus_1)
  show ?thesis
    unfolding TCPH_HDRLEN_def TCPH_HDRLEN_FLAGS_SET_def m
    by (rule bit_eqI) (auto simp: bit_simps dest: bit_imp_le_length)
qed

lemma TCPH_HDRLEN_flag [simp]: "TCPH_HDRLEN (TCPH_SET_FLAG flags h) = TCPH_HDRLEN h"
  unfolding TCPH_HDRLEN_def TCPH_SET_FLAG_def
  by (rule bit_eqI) (auto simp: bit_simps dest: bit_imp_le_length)

text \<open>
  A header survives the wire: reading the 20 bytes that are sent for it, in network byte order and
  with anything behind them, gives every field back, and so the header length and flags that were set.
\<close>

theorem tcp_hdr_roundtrip:
  "tcp_hdr_read (tcp_hdr_bytes (TCPH_HDRLEN_FLAGS_SET len flags h) @ rest) = TCPH_HDRLEN_FLAGS_SET len flags h \<and>
   TCPH_HDRLEN (TCPH_HDRLEN_FLAGS_SET len flags h) = len AND 0xf \<and>
   TCPH_FLAGS (TCPH_HDRLEN_FLAGS_SET len flags h) = flags AND 0x3f"
  by (simp add: tcp_hdr_read_bytes)

section \<open>Segments\<close>

abbreviation TF_SEG_OPTS_MSS :: u8 where "TF_SEG_OPTS_MSS \<equiv> 0x01"

text \<open>
  A segment of the \<open>unsent\<close>, \<open>unacked\<close> or \<open>ooseq\<close> queue. A queue is the list of its segments; an
  empty \<open>sg_p\<close> is \<open>NULL\<close>. \<open>sg_hdr\<close> is what \<open>tcphdr\<close> refers to and \<open>sg_hdroff\<close> where it lies in
  the memory of the first buffer.
\<close>

record tcp_seg =
  sg_addr :: nat
  sg_p :: "pbuf list"
  sg_len :: u16
  sg_oversize_left :: u16
  sg_flags :: u8
  sg_hdr :: tcp_hdr
  sg_hdroff :: int

definition LWIP_TCP_OPT_LENGTH :: "u8 \<Rightarrow> u16" where
  "LWIP_TCP_OPT_LENGTH flags = (if flags AND TF_SEG_OPTS_MSS \<noteq> 0 then 4 else 0)"

text \<open>\<open>TCP_TCPLEN\<close> is of type \<open>unsigned int\<close>.\<close>

definition TCP_TCPLEN :: "tcp_seg \<Rightarrow> u32" where
  "TCP_TCPLEN seg = ucast (sg_len seg) +
     (if TCPH_FLAGS (sg_hdr seg) AND (TCP_FIN OR TCP_SYN) \<noteq> 0 then 1 else 0)"

abbreviation seg_seqno :: "tcp_seg \<Rightarrow> u32" where
  "seg_seqno seg \<equiv> th_seqno (sg_hdr seg)"

section \<open>Protocol control blocks\<close>

abbreviation TF_ACK_DELAY :: u8 where "TF_ACK_DELAY \<equiv> 0x01"
abbreviation TF_ACK_NOW :: u8 where "TF_ACK_NOW \<equiv> 0x02"
abbreviation TF_INFR :: u8 where "TF_INFR \<equiv> 0x04"
abbreviation TF_RXCLOSED :: u8 where "TF_RXCLOSED \<equiv> 0x10"
abbreviation TF_FIN :: u8 where "TF_FIN \<equiv> 0x20"
abbreviation TF_NODELAY :: u8 where "TF_NODELAY \<equiv> 0x40"
abbreviation TF_NAGLEMEMERR :: u8 where "TF_NAGLEMEMERR \<equiv> 0x80"

text \<open>
  Addresses of the control blocks are natural numbers; so are the function pointers of the
  application's callbacks, which the environment interprets, and its callback arguments.
\<close>

record tcp_pcb =
  pcb_addr :: nat
  pcb_remote_ip :: u32
  pcb_callback_arg :: nat
  pcb_accept :: "nat option"
  pcb_state :: tcp_state
  pcb_prio :: u8
  pcb_local_port :: u16
  pcb_remote_port :: u16
  pcb_remote_udp_port :: u16
  pcb_connid1 :: u32
  pcb_connid2 :: u32
  pcb_flags :: u8
  pcb_polltmr :: u8
  pcb_pollinterval :: u8
  pcb_last_timer :: u8
  pcb_tmr :: u32
  pcb_rcv_nxt :: u32
  pcb_rcv_wnd :: u16
  pcb_rcv_ann_wnd :: u16
  pcb_rcv_ann_right_edge :: u32
  pcb_rtime :: s16
  pcb_mss :: u16
  pcb_rttest :: u32
  pcb_rtseq :: u32
  pcb_sa :: s16
  pcb_sv :: s16
  pcb_rto :: s16
  pcb_nrtx :: u8
  pcb_dupacks :: u8
  pcb_lastack :: u32
  pcb_cwnd :: u16
  pcb_ssthresh :: u16
  pcb_snd_nxt :: u32
  pcb_snd_wl1 :: u32
  pcb_snd_wl2 :: u32
  pcb_snd_lbb :: u32
  pcb_snd_wnd :: u16
  pcb_snd_wnd_max :: u16
  pcb_acked :: u16
  pcb_snd_buf :: u16
  pcb_snd_queuelen :: u16
  pcb_unsent_oversize :: u16
  pcb_unsent :: "tcp_seg list"
  pcb_unacked :: "tcp_seg list"
  pcb_ooseq :: "tcp_seg list"
  pcb_refused_data :: "pbuf list"
  pcb_sent :: "nat option"
  pcb_recv :: "nat option"
  pcb_connected :: "nat option"
  pcb_poll :: "nat option"
  pcb_errf :: "nat option"
  pcb_keep_idle :: u32
  pcb_persist_cnt :: u8
  pcb_persist_backoff :: u8
  pcb_keep_cnt_sent :: u8

definition set_flag :: "u8 \<Rightarrow> tcp_pcb \<Rightarrow> tcp_pcb" where
  "set_flag f pcb = pcb\<lparr>pcb_flags := pcb_flags pcb OR f\<rparr>"

definition clear_flag :: "u8 \<Rightarrow> tcp_pcb \<Rightarrow> tcp_pcb" where
  "clear_flag f pcb = pcb\<lparr>pcb_flags := pcb_flags pcb AND NOT f\<rparr>"

definition has_flag :: "u8 \<Rightarrow> tcp_pcb \<Rightarrow> bool" where
  "has_flag f pcb \<longleftrightarrow> pcb_flags pcb AND f \<noteq> 0"

definition tcp_ack :: "tcp_pcb \<Rightarrow> tcp_pcb" where
  "tcp_ack pcb = (if has_flag TF_ACK_DELAY pcb then set_flag TF_ACK_NOW (clear_flag TF_ACK_DELAY pcb)
     else set_flag TF_ACK_DELAY pcb)"

definition tcp_ack_now :: "tcp_pcb \<Rightarrow> tcp_pcb" where
  "tcp_ack_now pcb = set_flag TF_ACK_NOW pcb"

section \<open>State shared by the output functions\<close>

datatype tcp_stat = S_XMIT | S_RECV | S_DROP | S_CHKERR | S_LENERR | S_MEMERR | S_PROTERR | S_ERR | S_CACHEHIT

text \<open>
  \<open>sy_sent\<close> is the log of the calls of \<open>ip_output_if\<close>, newest first: the chain, the address and the
  UDP port; \<open>sy_input_pcb\<close> is \<open>tcp_input_pcb\<close>.
\<close>

record sys = mem_state +
  sy_sent :: "(pbuf list \<times> u32 \<times> u16) list"
  sy_tcp_stats :: "tcp_stat \<Rightarrow> u16"
  sy_ticks :: u32
  sy_input_pcb :: "nat option"

definition tcp_stats_inc :: "tcp_stat \<Rightarrow> 'a sys_scheme \<Rightarrow> 'a sys_scheme" where
  "tcp_stats_inc x s = s\<lparr>sy_tcp_stats := (sy_tcp_stats s)(x := sy_tcp_stats s x + 1)\<rparr>"

text \<open>\<open>ip_output_if\<close> is supplied by the user of the stack; the environment gives its result.\<close>

definition ip_output_if :: "env \<Rightarrow> pbuf list \<Rightarrow> u32 \<Rightarrow> u16 \<Rightarrow> 'a sys_scheme \<Rightarrow> err_t \<times> 'a sys_scheme" where
  "ip_output_if env p ip port s =
     (env_ip_output env (length (sy_sent s)), s\<lparr>sy_sent := (p, ip, port) # sy_sent s\<rparr>)"

section \<open>Releasing and copying segments\<close>

definition tcp_seg_free :: "tcp_seg \<Rightarrow> 'a mem_state_scheme \<Rightarrow> 'a mem_state_scheme option" where
  "tcp_seg_free seg s = do {
     s1 \<leftarrow> (if sg_p seg \<noteq> [] then do { (_, s1) \<leftarrow> pbuf_free (sg_p seg) s; Some s1 } else Some s);
     Some (memp_free MEMP_TCP_SEG (Some (sg_addr seg)) s1)
   }"

fun tcp_segs_free :: "tcp_seg list \<Rightarrow> 'a mem_state_scheme \<Rightarrow> 'a mem_state_scheme option" where
  "tcp_segs_free [] s = Some s"
| "tcp_segs_free (seg # next) s = do {
     s1 \<leftarrow> tcp_seg_free seg s;
     tcp_segs_free next s1
   }"

definition tcp_seg_copy :: "tcp_seg \<Rightarrow> 'a mem_state_scheme \<Rightarrow> tcp_seg option \<times> 'a mem_state_scheme" where
  "tcp_seg_copy seg s =
     (case memp_malloc MEMP_TCP_SEG s of
        (None, s1) \<Rightarrow> (None, s1)
      | (Some a, s1) \<Rightarrow> (Some (seg\<lparr>sg_addr := a\<rparr>), pbuf_ref (sg_p seg) s1))"

section \<open>What memory operations leave alone\<close>

text \<open>
  An operation on buffers and segments changes no field added by a later record, and does not touch the
  pools of control blocks: \<open>mem_frame s s'\<close> says so, and gives the equality of each such field.
\<close>

definition mem_frame :: "'a mem_state_scheme \<Rightarrow> 'a mem_state_scheme \<Rightarrow> bool" where
  "mem_frame s s' \<longleftrightarrow> mem_state.more s' = mem_state.more s \<and>
     memp_tab s' MEMP_TCP_PCB = memp_tab s MEMP_TCP_PCB \<and> memp_tab s' MEMP_TCP_PCB_LISTEN = memp_tab s MEMP_TCP_PCB_LISTEN"

text \<open>The pools that buffers and segments come from.\<close>

abbreviation buffer_pool :: "memp_t \<Rightarrow> bool" where
  "buffer_pool t \<equiv> t \<noteq> MEMP_TCP_PCB \<and> t \<noteq> MEMP_TCP_PCB_LISTEN"

lemma mem_frame_refl [simp]: "mem_frame s s"
  by (simp add: mem_frame_def)

lemma mem_frame_trans: "mem_frame s s1 \<Longrightarrow> mem_frame s1 s2 \<Longrightarrow> mem_frame s s2"
  by (simp add: mem_frame_def)

lemma mem_frame_sys:
  assumes "mem_frame s (s' :: 'a sys_scheme)"
  shows "sy_sent s' = sy_sent s" and "sy_tcp_stats s' = sy_tcp_stats s" and "sy_ticks s' = sy_ticks s"
    and "sy_input_pcb s' = sy_input_pcb s" and "sys.more s' = sys.more s"
  using assms by (cases s; cases s'; simp add: mem_frame_def)+

lemma memp_malloc_frame: "memp_malloc t s = (r, s') \<Longrightarrow> buffer_pool t \<Longrightarrow> mem_frame s s'"
  by (auto simp: memp_malloc_def memp_stats_upd_def mem_frame_def split: list.splits)

lemma memp_free_frame [simp]: "buffer_pool t \<Longrightarrow> mem_frame s (memp_free t r s)"
  by (auto simp: memp_free_def memp_stats_upd_def mem_frame_def Let_def split: option.splits)

lemma mem_malloc_frame: "mem_malloc env n s = (r, s') \<Longrightarrow> mem_frame s s'"
  by (auto simp: mem_malloc_def Let_def mem_frame_def split: option.splits)

lemma pbuf_dealloc_frame [simp]: "mem_frame s (pbuf_dealloc p s)"
  by (auto simp: pbuf_dealloc_def mem_free_def mem_frame_def memp_free_def memp_stats_upd_def split: pbuf_type.splits)

lemma pbuf_set_ref_frame [simp]: "mem_frame s (pbuf_set_ref p r s)"
  by (simp add: pbuf_set_ref_def mem_frame_def)

lemma pbuf_free_loop_frame: "pbuf_free_loop ps cnt s = Some (r, s') \<Longrightarrow> mem_frame s s'"
  by (induction ps arbitrary: cnt s)
    (auto simp: Let_def bind_Some_iff split: if_splits
      intro: mem_frame_trans [OF mem_frame_trans [OF pbuf_set_ref_frame pbuf_dealloc_frame]])

lemma pbuf_free_frame: "pbuf_free ps s = Some (r, s') \<Longrightarrow> mem_frame s s'"
  by (auto simp: pbuf_free_def dest: pbuf_free_loop_frame split: list.splits if_splits)

lemma pbuf_ref_frame [simp]: "mem_frame s (pbuf_ref ps s)"
  by (auto simp: pbuf_ref_def split: list.splits)

lemma pbuf_realloc_loop_frame: "pbuf_realloc_loop g n ps s = Some (r, s') \<Longrightarrow> mem_frame s s'"
  by (induction g n ps s arbitrary: r s' rule: pbuf_realloc_loop.induct)
    (auto simp: Let_def bind_Some_iff dest: pbuf_free_frame split: if_splits)

lemma pbuf_realloc_frame: "pbuf_realloc ps n s = Some (r, s') \<Longrightarrow> mem_frame s s'"
  by (auto simp: pbuf_realloc_def simp del: pbuf_realloc_loop.simps dest: pbuf_realloc_loop_frame split: list.splits if_splits)

lemma pbuf_alloc_tail_frame: "pbuf_alloc_tail env p n s = Some (r, s') \<Longrightarrow> mem_frame s s'"
proof (induction env p n s arbitrary: r s' rule: pbuf_alloc_tail.induct)
  case (1 env p n s)
  show ?case
  proof (cases "0 < n")
    case False
    then show ?thesis using "1.prems" by (simp add: pbuf_alloc_tail.simps [of env p n])
  next
    case True
    obtain ao s1 where m: "memp_malloc MEMP_PBUF_POOL s = (ao, s1)" by fastforce
    note f1 = memp_malloc_frame [OF m]
    have f2: "mem_frame s1 (pbuf_pool_is_empty s1)" by (simp add: pbuf_pool_is_empty_def mem_frame_def)
    show ?thesis
    proof (cases ao)
      case None
      then show ?thesis using "1.prems" True m f1 f2
        by (auto simp: pbuf_alloc_tail.simps [of env p n] bind_Some_iff dest!: pbuf_free_frame intro: mem_frame_trans)
    next
      case (Some a)
      let ?q = "pbuf_pool_new env a 0 (of_int n) (min (of_int n) (of_nat PBUF_POOL_BUFSIZE)) s1"
      have f3: "mem_frame s1 (snd ?q)" by (simp add: pbuf_pool_new_def mem_frame_def pbuf_set_ref_def)
      have "n < 0xffff" using "1.prems" True m Some by (auto simp: pbuf_alloc_tail.simps [of env p n] split: if_splits)
      moreover from this have "mem_frame (snd ?q) s'"
        using "1.prems" True m Some
        by (intro "1.IH" [OF True m [symmetric] Some _ refl]) (auto simp: pbuf_alloc_tail.simps [of env p n] case_prod_beta Let_def)
      ultimately show ?thesis using f1 f3 by (blast intro: mem_frame_trans)
    qed
  qed
qed

lemma pbuf_alloc_frame: "pbuf_alloc env l n t s = Some (r, s') \<Longrightarrow> mem_frame s s'"
  by (auto simp del: pbuf_alloc_tail.simps simp: pbuf_alloc_def pbuf_alloc_pool_def Let_def bind_Some_iff pbuf_pool_new_def pbuf_pool_is_empty_def
      split: pbuf_type.splits prod.splits option.splits
      dest!: pbuf_alloc_tail_frame memp_malloc_frame mem_malloc_frame)
    (auto simp: mem_frame_def pbuf_set_ref_def)

lemma tcp_seg_free_frame: "tcp_seg_free seg s = Some s' \<Longrightarrow> mem_frame s s'"
  by (auto simp: tcp_seg_free_def bind_Some_iff dest!: pbuf_free_frame intro: mem_frame_trans split: if_splits)

lemma tcp_segs_free_frame: "tcp_segs_free q s = Some s' \<Longrightarrow> mem_frame s s'"
  by (induction q arbitrary: s) (auto simp: bind_Some_iff dest!: tcp_seg_free_frame intro: mem_frame_trans)

lemma tcp_seg_copy_frame: "tcp_seg_copy seg s = (r, s') \<Longrightarrow> mem_frame s s'"
  by (auto simp: tcp_seg_copy_def dest!: memp_malloc_frame split: prod.splits option.splits intro: mem_frame_trans)

end
