(* ===== verification/Tcp_Out.thy ===== *)
theory Tcp_Out
  imports Tcp_Types
begin

text \<open>
  \<^verbatim>\<open>src/tcp_out.c\<close>: segmentation of the data of \<open>tcp_write\<close>, control segments, transmission within
  the send window, retransmission, and the segments that are sent without being queued. An
  operation takes the control block and the shared state and returns both; \<open>None\<close> is a failed
  assertion.
\<close>

section \<open>Segments without a queue\<close>

definition tcp_output_alloc_header ::
  "env \<Rightarrow> tcp_pcb \<Rightarrow> u16 \<Rightarrow> u16 \<Rightarrow> u32 \<Rightarrow> 'a sys_scheme \<Rightarrow> (pbuf list \<times> tcp_hdr \<times> tcp_pcb \<times> 'a sys_scheme) option" where
  "tcp_output_alloc_header env pcb optlen datalen seqno s = do {
     (p, s1) \<leftarrow> pbuf_alloc env PBUF_IP (TCP_HLEN + optlen + datalen) PBUF_RAM s;
     let hdr = \<lparr>th_connid1 = pcb_connid1 pcb, th_connid2 = pcb_connid2 pcb, th_seqno = seqno,
                th_ackno = pcb_rcv_nxt pcb, th_hdrlen_rsvd_flags = 0, th_wnd = pcb_rcv_ann_wnd pcb\<rparr>;
     let hdr' = TCPH_HDRLEN_FLAGS_SET (5 + optlen div 4) TCP_ACK hdr;
     (case p of
        [] \<Rightarrow> Some ([], hdr', pcb, s1)
      | q # qs \<Rightarrow> do {
          lwip_assert (unat TCP_HLEN + unat optlen \<le> unat (pb_len q));
          q' \<leftarrow> pb_write q 0 (tcp_hdr_bytes hdr');
          Some (q' # qs, hdr',
                pcb\<lparr>pcb_rcv_ann_right_edge := pcb_rcv_nxt pcb + ucast (pcb_rcv_ann_wnd pcb)\<rparr>, s1)
        })
   }"

definition tcp_send_empty_ack :: "env \<Rightarrow> tcp_pcb \<Rightarrow> 'a sys_scheme \<Rightarrow> (err_t \<times> tcp_pcb \<times> 'a sys_scheme) option" where
  "tcp_send_empty_ack env pcb s = do {
     (p, _, pcb1, s1) \<leftarrow> tcp_output_alloc_header env pcb 0 0 (pcb_snd_nxt pcb) s;
     if p = [] then Some (ERR_BUF, set_flag (TF_ACK_DELAY OR TF_ACK_NOW) pcb1, s1)
     else do {
       let (err, s2) = ip_output_if env p (pcb_remote_ip pcb1) (pcb_remote_udp_port pcb1) s1;
       (_, s3) \<leftarrow> pbuf_free p s2;
       Some (err, if err \<noteq> ERR_OK then set_flag (TF_ACK_DELAY OR TF_ACK_NOW) pcb1
                  else clear_flag (TF_ACK_DELAY OR TF_ACK_NOW) pcb1, s3)
     }
   }"

definition tcp_rst :: "env \<Rightarrow> u32 \<Rightarrow> u32 \<Rightarrow> u32 \<Rightarrow> u32 \<times> u32 \<Rightarrow> u16 \<Rightarrow> 'a sys_scheme \<Rightarrow> 'a sys_scheme option" where
  "tcp_rst env seqno ackno remote_ip conn_id remote_udp_port s = do {
     (p, s1) \<leftarrow> pbuf_alloc env PBUF_IP TCP_HLEN PBUF_RAM s;
     (case p of
        [] \<Rightarrow> Some s1
      | q # qs \<Rightarrow> do {
          lwip_assert (20 \<le> pb_len q);
          let hdr = TCPH_HDRLEN_FLAGS_SET (TCP_HLEN div 4) (TCP_RST OR TCP_ACK)
                      \<lparr>th_connid1 = fst conn_id, th_connid2 = snd conn_id, th_seqno = seqno,
                       th_ackno = ackno, th_hdrlen_rsvd_flags = 0, th_wnd = TCP_WND\<rparr>;
          q' \<leftarrow> pb_write q 0 (tcp_hdr_bytes hdr);
          let (_, s2) = ip_output_if env (q' # qs) remote_ip remote_udp_port (tcp_stats_inc S_XMIT s1);
          (_, s3) \<leftarrow> pbuf_free (q' # qs) s2;
          Some s3
        })
   }"

definition tcp_keepalive :: "env \<Rightarrow> tcp_pcb \<Rightarrow> 'a sys_scheme \<Rightarrow> (err_t \<times> tcp_pcb \<times> 'a sys_scheme) option" where
  "tcp_keepalive env pcb s = do {
     (p, _, pcb1, s1) \<leftarrow> tcp_output_alloc_header env pcb 0 0 (pcb_snd_nxt pcb - 1) s;
     if p = [] then Some (ERR_MEM, pcb1, s1)
     else do {
       let (err, s2) = ip_output_if env p (pcb_remote_ip pcb1) (pcb_remote_udp_port pcb1) (tcp_stats_inc S_XMIT s1);
       (_, s3) \<leftarrow> pbuf_free p s2;
       Some (err, pcb1, s3)
     }
   }"

definition tcp_zero_window_probe :: "env \<Rightarrow> tcp_pcb \<Rightarrow> 'a sys_scheme \<Rightarrow> (err_t \<times> tcp_pcb \<times> 'a sys_scheme) option" where
  "tcp_zero_window_probe env pcb s =
     (case (if pcb_unacked pcb = [] then pcb_unsent pcb else pcb_unacked pcb) of
        [] \<Rightarrow> Some (ERR_OK, pcb, s)
      | seg # _ \<Rightarrow> do {
          let is_fin = (TCPH_FLAGS (sg_hdr seg) AND TCP_FIN \<noteq> 0 \<and> sg_len seg = 0);
          let len = (if is_fin then 0 else 1);
          (p, hdr, pcb1, s1) \<leftarrow> tcp_output_alloc_header env pcb 0 len (seg_seqno seg) s;
          (case p of
             [] \<Rightarrow> Some (ERR_MEM, pcb1, s1)
           | q # qs \<Rightarrow> do {
               q' \<leftarrow> (if is_fin then pb_write q 0 (tcp_hdr_bytes (TCPH_FLAGS_SET (TCP_ACK OR TCP_FIN) hdr))
                     else do {
                       lwip_assert (sg_p seg \<noteq> []);
                       (_, d) \<leftarrow> pbuf_copy_partial (sg_p seg) 1 (pb_tot_len (hd (sg_p seg)) - sg_len seg);
                       pb_write q (int (unat TCP_HLEN)) d
                     });
               let (err, s2) = ip_output_if env (q' # qs) (pcb_remote_ip pcb1) (pcb_remote_udp_port pcb1)
                                 (tcp_stats_inc S_XMIT s1);
               (_, s3) \<leftarrow> pbuf_free (q' # qs) s2;
               Some (err, pcb1, s3)
             })
        })"

section \<open>Creating segments\<close>

text \<open>
  \<open>tcp_create_segment\<close> frees \<open>p\<close> and returns \<open>None\<close> as segment when it fails. The fields \<open>ackno\<close>
  and \<open>wnd\<close> of the new header are whatever the memory holds until the segment is sent.
\<close>

definition tcp_create_segment ::
  "tcp_pcb \<Rightarrow> pbuf list \<Rightarrow> u8 \<Rightarrow> u32 \<Rightarrow> u8 \<Rightarrow> 'a sys_scheme \<Rightarrow> (tcp_seg option \<times> 'a sys_scheme) option" where
  "tcp_create_segment pcb p flags seqno optflags s = do {
     let optlen = LWIP_TCP_OPT_LENGTH optflags;
     (case memp_malloc MEMP_TCP_SEG s of
        (None, s1) \<Rightarrow> do { (_, s2) \<leftarrow> pbuf_free p s1; Some (None, s2) }
      | (Some a, s1) \<Rightarrow> do {
          lwip_assert (p \<noteq> [] \<and> optlen \<le> pb_tot_len (hd p));
          let len = pb_tot_len (hd p) - optlen;
          (failed, p') \<leftarrow> pbuf_header p TCP_HLEN;
          let mem = (case p' of [] \<Rightarrow> [] | q # _ \<Rightarrow> drop (nat (pb_off q)) (pb_mem q));
          let hdr = TCPH_HDRLEN_FLAGS_SET (5 + optlen div 4) flags
                      ((tcp_hdr_read mem)\<lparr>th_connid1 := pcb_connid1 pcb, th_connid2 := pcb_connid2 pcb,
                                         th_seqno := seqno\<rparr>);
          let seg = \<lparr>sg_addr = a, sg_p = p', sg_len = len, sg_oversize_left = 0, sg_flags = optflags,
                     sg_hdr = hdr, sg_hdroff = pb_off (hd p')\<rparr>;
          if failed \<noteq> 0 then do {
            s2 \<leftarrow> tcp_seg_free seg (tcp_stats_inc S_ERR s1);
            Some (None, s2)
          }
          else Some (Some seg, s1)
        })
   }"

abbreviation TCP_WRITE_FLAG_COPY :: u8 where "TCP_WRITE_FLAG_COPY \<equiv> 0x01"
abbreviation TCP_WRITE_FLAG_MORE :: u8 where "TCP_WRITE_FLAG_MORE \<equiv> 0x02"

text \<open>\<open>tcp_pbuf_prealloc\<close>: the second component is what it stores in \<open>*oversize\<close>.\<close>

definition tcp_pbuf_prealloc ::
  "env \<Rightarrow> pbuf_layer \<Rightarrow> u16 \<Rightarrow> u16 \<Rightarrow> u16 \<Rightarrow> tcp_pcb \<Rightarrow> u8 \<Rightarrow> bool \<Rightarrow> 'a sys_scheme \<Rightarrow>
     (pbuf list \<times> u16 \<times> 'a sys_scheme) option" where
  "tcp_pbuf_prealloc env layer len max_length oversize pcb apiflags first_seg s = do {
     let alloc = (if len < max_length \<and>
                     (apiflags AND TCP_WRITE_FLAG_MORE \<noteq> 0 \<or>
                      (\<not> has_flag TF_NODELAY pcb \<and> (\<not> first_seg \<or> pcb_unsent pcb \<noteq> [] \<or> pcb_unacked pcb \<noteq> [])))
                  then (if unat max_length < unat len + unat TCP_OVERSIZE then max_length else len + TCP_OVERSIZE)
                  else len);
     (p, s1) \<leftarrow> pbuf_alloc env layer alloc PBUF_RAM s;
     (case p of
        [] \<Rightarrow> Some ([], oversize, s1)
      | q # qs \<Rightarrow> do {
          lwip_assert (qs = []);
          Some ([q\<lparr>pb_len := len, pb_tot_len := len\<rparr>], pb_len q - len, s1)
        })
   }"

section \<open>tcp_write\<close>

definition tcp_write_checks :: "tcp_pcb \<Rightarrow> u16 \<Rightarrow> 'a sys_scheme \<Rightarrow> (err_t \<times> tcp_pcb \<times> 'a sys_scheme) option" where
  "tcp_write_checks pcb len s =
     (if pcb_state pcb \<noteq> ESTABLISHED \<and> pcb_state pcb \<noteq> CLOSE_WAIT \<and> pcb_state pcb \<noteq> SYN_SENT \<and>
         pcb_state pcb \<noteq> SYN_RCVD then Some (ERR_CONN, pcb, s)
      else if len = 0 then Some (ERR_OK, pcb, s)
      else if pcb_snd_buf pcb < len then Some (ERR_MEM, set_flag TF_NAGLEMEMERR pcb, s)
      else if TCP_SND_QUEUELEN \<le> pcb_snd_queuelen pcb \<or> TCP_SNDQUEUELEN_OVERFLOW < pcb_snd_queuelen pcb
      then Some (ERR_MEM, set_flag TF_NAGLEMEMERR pcb, tcp_stats_inc S_MEMERR s)
      else do {
        (if pcb_snd_queuelen pcb \<noteq> 0 then lwip_assert (pcb_unacked pcb \<noteq> [] \<or> pcb_unsent pcb \<noteq> [])
         else lwip_assert (pcb_unacked pcb = [] \<and> pcb_unsent pcb = []));
        Some (ERR_OK, pcb, s)
      })"

text \<open>The local variables of \<open>tcp_write\<close>; \<open>w_seg_last\<close> says that \<open>seg\<close> is \<open>last_unsent\<close>.\<close>

record write_locals =
  w_pos :: u16
  w_queuelen :: u16
  w_oversize :: u16
  w_oversize_used :: u16
  w_concat_p :: "pbuf list"
  w_last_unsent :: "tcp_seg option"
  w_seg_last :: bool
  w_queue :: "tcp_seg list"

definition write_start :: "tcp_pcb \<Rightarrow> write_locals" where
  "write_start pcb = \<lparr>w_pos = 0, w_queuelen = pcb_snd_queuelen pcb, w_oversize = 0, w_oversize_used = 0,
     w_concat_p = [], w_last_unsent = None, w_seg_last = False, w_queue = []\<rparr>"

definition write_mss_local :: "tcp_pcb \<Rightarrow> u16" where
  "write_mss_local pcb =
     (let m = min (pcb_mss pcb) (pcb_snd_wnd_max pcb div 2) in if m \<noteq> 0 then m else pcb_mss pcb)"

text \<open>Phase 1: how much fits in the oversized tail of the last unsent segment.\<close>

definition write_phase1 :: "tcp_pcb \<Rightarrow> u16 \<Rightarrow> u16 \<Rightarrow> tcp_seg \<Rightarrow> write_locals \<Rightarrow> (u16 \<times> write_locals) option" where
  "write_phase1 pcb len mss_local last_unsent w = do {
     let unsent_optlen = LWIP_TCP_OPT_LENGTH (sg_flags last_unsent);
     lwip_assert (unat (sg_len last_unsent) + unat unsent_optlen \<le> unat mss_local);
     let space = mss_local - (sg_len last_unsent + unsent_optlen);
     lwip_assert (pcb_unsent_oversize pcb = sg_oversize_left last_unsent);
     let oversize = pcb_unsent_oversize pcb;
     let w1 = w\<lparr>w_last_unsent := Some last_unsent, w_oversize := oversize\<rparr>;
     let used = (if oversize < len then oversize else len);
     (space', w2) \<leftarrow>
       (if oversize > 0 then do {
          lwip_assert (w_oversize_used w1 \<le> space);
          Some (space - used, w1\<lparr>w_seg_last := True, w_oversize_used := used, w_pos := w_pos w1 + used,
                                w_oversize := oversize - used\<rparr>)
        } else Some (space, w1));
     lwip_assert (w_oversize w2 = 0 \<or> w_pos w2 = len);
     Some (space', w2)
   }"

text \<open>
  Phase 2: a new buffer for the rest of the last unsent segment. The boolean of the result says that
  there was no memory (\<open>goto memerr\<close>).
\<close>

definition write_phase2 ::
  "env \<Rightarrow> tcp_pcb \<Rightarrow> u8 list \<Rightarrow> u16 \<Rightarrow> u8 \<Rightarrow> tcp_seg \<Rightarrow> u16 \<Rightarrow> write_locals \<Rightarrow> 'a sys_scheme \<Rightarrow>
     (bool \<times> write_locals \<times> 'a sys_scheme) option" where
  "write_phase2 env pcb arg len apiflags last_unsent space w s =
     (if w_pos w < len \<and> space > 0 \<and> sg_len last_unsent > 0 then do {
        let seglen = (if space < len - w_pos w then space else len - w_pos w);
        bs \<leftarrow> buf_read arg (unat (w_pos w)) (unat seglen);
        if apiflags AND TCP_WRITE_FLAG_COPY \<noteq> 0 then do {
          (p, oversize, s1) \<leftarrow> tcp_pbuf_prealloc env PBUF_RAW seglen space (w_oversize w) pcb apiflags True s;
          (case p of
             [] \<Rightarrow> Some (True, w\<lparr>w_seg_last := True\<rparr>, s1)
           | q # qs \<Rightarrow> do {
               q' \<leftarrow> pb_write q 0 bs;
               Some (False, w\<lparr>w_seg_last := True, w_oversize := oversize, w_concat_p := q' # qs,
                 w_last_unsent := Some (last_unsent\<lparr>sg_oversize_left := sg_oversize_left last_unsent + oversize\<rparr>),
                 w_pos := w_pos w + seglen, w_queuelen := w_queuelen w + ucast (pbuf_clen (q' # qs))\<rparr>, s1)
             })
        }
        else do {
          (p, s1) \<leftarrow> pbuf_alloc env PBUF_RAW seglen PBUF_ROM s;
          (case p of
             [] \<Rightarrow> Some (True, w\<lparr>w_seg_last := True\<rparr>, s1)
           | q # qs \<Rightarrow>
               Some (False, w\<lparr>w_seg_last := True, w_concat_p := q\<lparr>pb_mem := bs, pb_off := 0\<rparr> # qs,
                 w_pos := w_pos w + seglen,
                 w_queuelen := w_queuelen w + ucast (pbuf_clen (q\<lparr>pb_mem := bs, pb_off := 0\<rparr> # qs))\<rparr>, s1))
        }
      }
      else Some (False, w, s))"

text \<open>The chain for one new segment of phase 3: copied, or a header buffer in front of a reference.\<close>

definition write_seg_pbuf ::
  "env \<Rightarrow> tcp_pcb \<Rightarrow> u8 list \<Rightarrow> u8 \<Rightarrow> u16 \<Rightarrow> u16 \<Rightarrow> write_locals \<Rightarrow> 'a sys_scheme \<Rightarrow>
     (pbuf list \<times> u16 \<times> 'a sys_scheme) option" where
  "write_seg_pbuf env pcb arg apiflags mss_local seglen w s = do {
     bs \<leftarrow> buf_read arg (unat (w_pos w)) (unat seglen);
     if apiflags AND TCP_WRITE_FLAG_COPY \<noteq> 0 then do {
       (p, oversize, s1) \<leftarrow>
         tcp_pbuf_prealloc env PBUF_TRANSPORT seglen mss_local (w_oversize w) pcb apiflags (w_queue w = []) s;
       (case p of
          [] \<Rightarrow> Some ([], oversize, s1)
        | q # qs \<Rightarrow> do {
            lwip_assert (seglen \<le> pb_len q);
            q' \<leftarrow> pb_write q 0 bs;
            Some (q' # qs, oversize, s1)
          })
     }
     else do {
       lwip_assert (w_oversize w = 0);
       (p2, s1) \<leftarrow> pbuf_alloc env PBUF_TRANSPORT seglen PBUF_ROM s;
       (case p2 of
          [] \<Rightarrow> Some ([], w_oversize w, s1)
        | q2 # qs2 \<Rightarrow> do {
            let p2' = q2\<lparr>pb_mem := bs, pb_off := 0\<rparr> # qs2;
            (p, s2) \<leftarrow> pbuf_alloc env PBUF_TRANSPORT 0 PBUF_RAM s1;
            if p = [] then do { (_, s3) \<leftarrow> pbuf_free p2' s2; Some ([], w_oversize w, s3) }
            else do {
              p' \<leftarrow> pbuf_cat p p2';
              Some (p', w_oversize w, s2)
            }
          })
     }
   }"

text \<open>
  Phase 3: new segments until all data is queued. The loop may in principle run forever, so its
  termination is part of what is proved about it. \<open>optlen\<close> is 0 without timestamps.
\<close>

partial_function (option) write_phase3 ::
  "env \<Rightarrow> tcp_pcb \<Rightarrow> u8 list \<Rightarrow> u16 \<Rightarrow> u8 \<Rightarrow> u16 \<Rightarrow> write_locals \<Rightarrow> 'a sys_scheme \<Rightarrow>
     (bool \<times> write_locals \<times> 'a sys_scheme) option" where
  "write_phase3 env pcb arg len apiflags mss_local w s =
     (if w_pos w < len then
        (let left = len - w_pos w;
             seglen = (if mss_local < left then mss_local else left)
         in Option.bind (write_seg_pbuf env pcb arg apiflags mss_local seglen w s)
          (\<lambda>(p, oversize, s1).
             if p = [] then Some (True, w\<lparr>w_oversize := oversize\<rparr>, s1)
             else
               (let queuelen = w_queuelen w + ucast (pbuf_clen p) in
                if TCP_SND_QUEUELEN < queuelen \<or> TCP_SNDQUEUELEN_OVERFLOW < queuelen then
                  Option.bind (pbuf_free p s1) (\<lambda>(_, s2). Some (True, w, s2))
                else
                  Option.bind (tcp_create_segment pcb p 0 (pcb_snd_lbb pcb + ucast (w_pos w)) 0 s1)
                    (\<lambda>(seg, s2).
                       case seg of
                         None \<Rightarrow> Some (True, w, s2)
                       | Some sg \<Rightarrow>
                           write_phase3 env pcb arg len apiflags mss_local
                             (w\<lparr>w_pos := w_pos w + seglen, w_queuelen := queuelen, w_oversize := oversize,
                                w_queue := w_queue w @ [sg\<lparr>sg_oversize_left := oversize\<rparr>]\<rparr>) s2))))
      else Some (False, w, s))"

text \<open>The commit of phase 1: the bytes go behind the data of the last buffer.\<close>

fun write_extend :: "pbuf list \<Rightarrow> u8 list \<Rightarrow> u16 \<Rightarrow> pbuf list option" where
  "write_extend [] bs used = Some []"
| "write_extend [p] bs used = do {
     p' \<leftarrow> pb_write p (uint (pb_len p)) bs;
     Some [p'\<lparr>pb_tot_len := pb_tot_len p + used, pb_len := pb_len p + used\<rparr>]
   }"
| "write_extend (p # q # ps) bs used = do {
     r \<leftarrow> write_extend (q # ps) bs used;
     Some (p\<lparr>pb_tot_len := pb_tot_len p + used\<rparr> # r)
   }"

definition write_commit_last :: "u8 list \<Rightarrow> write_locals \<Rightarrow> tcp_seg \<Rightarrow> tcp_seg option" where
  "write_commit_last arg w last_unsent = do {
     last1 \<leftarrow>
       (if w_oversize_used w > 0 then do {
          bs \<leftarrow> buf_read arg 0 (unat (w_oversize_used w));
          p \<leftarrow> write_extend (sg_p last_unsent) bs (w_oversize_used w);
          lwip_assert (w_oversize_used w \<le> sg_oversize_left last_unsent);
          Some (last_unsent\<lparr>sg_p := p, sg_len := sg_len last_unsent + w_oversize_used w,
                            sg_oversize_left := sg_oversize_left last_unsent - w_oversize_used w\<rparr>)
        } else Some last_unsent);
     if w_concat_p w \<noteq> [] then do {
       p \<leftarrow> pbuf_cat (sg_p last1) (w_concat_p w);
       Some (last1\<lparr>sg_p := p, sg_len := sg_len last1 + pb_tot_len (hd (w_concat_p w))\<rparr>)
     } else Some last1
   }"

definition seg_set_flag :: "u8 \<Rightarrow> tcp_seg \<Rightarrow> tcp_seg" where
  "seg_set_flag f seg = seg\<lparr>sg_hdr := TCPH_SET_FLAG f (sg_hdr seg)\<rparr>"

text \<open>All phases succeeded: the queues and counters are updated, the last segment gets \<open>PSH\<close>.\<close>

definition write_commit :: "tcp_pcb \<Rightarrow> u8 list \<Rightarrow> u16 \<Rightarrow> u8 \<Rightarrow> write_locals \<Rightarrow> tcp_pcb option" where
  "write_commit pcb arg len apiflags w = do {
     unsent \<leftarrow>
       (case w_last_unsent w of
          None \<Rightarrow> do {
            lwip_assert (w_concat_p w = []);
            Some (w_queue w)
          }
        | Some l \<Rightarrow> do {
            l' \<leftarrow> write_commit_last arg w l;
            Some (butlast (pcb_unsent pcb) @ [l'] @ w_queue w)
          });
     let pcb1 = pcb\<lparr>pcb_unsent_oversize := w_oversize w, pcb_unsent := unsent,
                    pcb_snd_lbb := pcb_snd_lbb pcb + ucast len, pcb_snd_buf := pcb_snd_buf pcb - len,
                    pcb_snd_queuelen := w_queuelen w\<rparr>;
     lwip_assert (pcb_snd_queuelen pcb1 \<noteq> 0 \<longrightarrow> pcb_unacked pcb1 \<noteq> [] \<or> pcb_unsent pcb1 \<noteq> []);
     Some (if (w_seg_last w \<or> w_queue w \<noteq> []) \<and> apiflags AND TCP_WRITE_FLAG_MORE = 0
           then pcb1\<lparr>pcb_unsent := butlast unsent @ [seg_set_flag TCP_PSH (last unsent)]\<rparr>
           else pcb1)
   }"

definition write_memerr :: "tcp_pcb \<Rightarrow> write_locals \<Rightarrow> 'a sys_scheme \<Rightarrow> (err_t \<times> tcp_pcb \<times> 'a sys_scheme) option" where
  "write_memerr pcb w s = do {
     let pcb1 = set_flag TF_NAGLEMEMERR pcb;
     let s1 = tcp_stats_inc S_MEMERR s;
     s2 \<leftarrow> (if w_concat_p w \<noteq> [] then do { (_, s2) \<leftarrow> pbuf_free (w_concat_p w) s1; Some s2 } else Some s1);
     s3 \<leftarrow> tcp_segs_free (w_queue w) s2;
     lwip_assert (pcb_snd_queuelen pcb1 \<noteq> 0 \<longrightarrow> pcb_unacked pcb1 \<noteq> [] \<or> pcb_unsent pcb1 \<noteq> []);
     let pcb2 = (case w_last_unsent w of None \<Rightarrow> pcb1
                 | Some l \<Rightarrow> pcb1\<lparr>pcb_unsent := butlast (pcb_unsent pcb) @ [l]\<rparr>);
     Some (ERR_MEM, pcb2, s3)
   }"

definition tcp_write :: "env \<Rightarrow> tcp_pcb \<Rightarrow> u8 list option \<Rightarrow> u16 \<Rightarrow> u8 \<Rightarrow> 'a sys_scheme \<Rightarrow>
     (err_t \<times> tcp_pcb \<times> 'a sys_scheme) option" where
  "tcp_write env pcb argp len apiflags s = do {
     let mss_local = write_mss_local pcb;
     arg \<leftarrow> argp;
     (err, pcb1, s1) \<leftarrow> tcp_write_checks pcb len s;
     if err \<noteq> ERR_OK then Some (err, pcb1, s1)
     else do {
       (mem, w, s2) \<leftarrow>
         (if pcb_unsent pcb1 \<noteq> [] then do {
            let last_unsent = last (pcb_unsent pcb1);
            (space, w1) \<leftarrow> write_phase1 pcb1 len mss_local last_unsent (write_start pcb1);
            write_phase2 env pcb1 arg len apiflags last_unsent space w1 s1
          }
          else do {
            lwip_assert (pcb_unsent_oversize pcb1 = 0);
            Some (False, write_start pcb1, s1)
          });
       (mem', w', s3) \<leftarrow>
         (if mem then Some (True, w, s2) else write_phase3 env pcb1 arg len apiflags mss_local w s2);
       if mem' then write_memerr pcb1 w' s3
       else do {
         pcb2 \<leftarrow> write_commit pcb1 arg len apiflags w';
         Some (ERR_OK, pcb2, s3)
       }
     }
   }"

section \<open>Control segments\<close>

definition tcp_enqueue_flags :: "env \<Rightarrow> tcp_pcb \<Rightarrow> u8 \<Rightarrow> 'a sys_scheme \<Rightarrow> (err_t \<times> tcp_pcb \<times> 'a sys_scheme) option" where
  "tcp_enqueue_flags env pcb flags s = do {
     lwip_assert (flags AND (TCP_SYN OR TCP_FIN) \<noteq> 0);
     if (TCP_SND_QUEUELEN \<le> pcb_snd_queuelen pcb \<or> TCP_SNDQUEUELEN_OVERFLOW < pcb_snd_queuelen pcb) \<and>
        flags AND TCP_FIN = 0
     then Some (ERR_MEM, set_flag TF_NAGLEMEMERR pcb, tcp_stats_inc S_MEMERR s)
     else do {
       let optflags = (if flags AND TCP_SYN \<noteq> 0 then TF_SEG_OPTS_MSS else 0);
       let optlen = LWIP_TCP_OPT_LENGTH optflags;
       if pcb_snd_buf pcb = 0 then Some (ERR_MEM, pcb, tcp_stats_inc S_MEMERR s)
       else do {
         (p, s1) \<leftarrow> pbuf_alloc env PBUF_TRANSPORT optlen PBUF_RAM s;
         if p = [] then Some (ERR_MEM, set_flag TF_NAGLEMEMERR pcb, tcp_stats_inc S_MEMERR s1)
         else do {
           lwip_assert (optlen \<le> pb_len (hd p));
           (sego, s2) \<leftarrow> tcp_create_segment pcb p flags (pcb_snd_lbb pcb) optflags s1;
           (case sego of
              None \<Rightarrow> Some (ERR_MEM, set_flag TF_NAGLEMEMERR pcb, tcp_stats_inc S_MEMERR s2)
            | Some seg \<Rightarrow> do {
                lwip_assert (sg_len seg = 0);
                let pcb1 = pcb\<lparr>pcb_unsent := pcb_unsent pcb @ [seg], pcb_unsent_oversize := 0,
                               pcb_snd_lbb := pcb_snd_lbb pcb + 1, pcb_snd_buf := pcb_snd_buf pcb - 1\<rparr>;
                let pcb2 = (if flags AND TCP_FIN \<noteq> 0 then set_flag TF_FIN pcb1 else pcb1);
                let pcb3 = pcb2\<lparr>pcb_snd_queuelen := pcb_snd_queuelen pcb2 + ucast (pbuf_clen (sg_p seg))\<rparr>;
                lwip_assert (pcb_snd_queuelen pcb3 \<noteq> 0 \<longrightarrow> pcb_unacked pcb3 \<noteq> [] \<or> pcb_unsent pcb3 \<noteq> []);
                Some (ERR_OK, pcb3, s2)
              })
         }
       }
     }
   }"

definition tcp_send_fin :: "env \<Rightarrow> tcp_pcb \<Rightarrow> 'a sys_scheme \<Rightarrow> (err_t \<times> tcp_pcb \<times> 'a sys_scheme) option" where
  "tcp_send_fin env pcb s =
     (if pcb_unsent pcb \<noteq> [] \<and>
         TCPH_FLAGS (sg_hdr (last (pcb_unsent pcb))) AND (TCP_SYN OR TCP_FIN OR TCP_RST) = 0
      then Some (ERR_OK,
             set_flag TF_FIN (pcb\<lparr>pcb_unsent := butlast (pcb_unsent pcb) @
                                    [seg_set_flag TCP_FIN (last (pcb_unsent pcb))]\<rparr>), s)
      else tcp_enqueue_flags env pcb TCP_FIN s)"

section \<open>Transmission\<close>

text \<open>
  \<open>tcp_output_segment\<close> completes the header and writes it, with the MSS option if it is wanted,
  into the memory of the first buffer at \<open>tcphdr\<close>, where the payload is then made to begin.
\<close>

definition seg_header_bytes :: "tcp_seg \<Rightarrow> u8 list" where
  "seg_header_bytes seg =
     tcp_hdr_bytes (sg_hdr seg) @
     (if sg_flags seg AND TF_SEG_OPTS_MSS \<noteq> 0 then be32 (0x02040000 OR ucast TCP_MSS) else [])"

definition tcp_output_segment :: "env \<Rightarrow> tcp_seg \<Rightarrow> tcp_pcb \<Rightarrow> 'a sys_scheme \<Rightarrow>
     (err_t \<times> tcp_seg \<times> tcp_pcb \<times> 'a sys_scheme) option" where
  "tcp_output_segment env seg pcb s = do {
     let seg1 = seg\<lparr>sg_hdr := (sg_hdr seg)\<lparr>th_ackno := pcb_rcv_nxt pcb, th_wnd := pcb_rcv_ann_wnd pcb\<rparr>\<rparr>;
     let pcb1 = pcb\<lparr>pcb_rcv_ann_right_edge := pcb_rcv_nxt pcb + ucast (pcb_rcv_ann_wnd pcb)\<rparr>;
     let pcb2 = (if pcb_rtime pcb1 = - 1 then pcb1\<lparr>pcb_rtime := 0\<rparr> else pcb1);
     let pcb3 = (if pcb_rttest pcb2 = 0 then pcb2\<lparr>pcb_rttest := sy_ticks s, pcb_rtseq := seg_seqno seg1\<rparr> else pcb2);
     (case sg_p seg1 of
        [] \<Rightarrow> None
      | q # qs \<Rightarrow> do {
          let len = of_int (sg_hdroff seg1 - pb_off q);
          q' \<leftarrow> pb_write (q\<lparr>pb_off := sg_hdroff seg1, pb_len := pb_len q - len, pb_tot_len := pb_tot_len q - len\<rparr>) 0
                  (seg_header_bytes seg1);
          let seg2 = seg1\<lparr>sg_p := q' # qs\<rparr>;
          let (err, s1) = ip_output_if env (sg_p seg2) (pcb_remote_ip pcb3) (pcb_remote_udp_port pcb3)
                            (tcp_stats_inc S_XMIT s);
          Some (err, seg2, pcb3, s1)
        })
   }"

definition tcp_do_output_nagle :: "tcp_pcb \<Rightarrow> bool" where
  "tcp_do_output_nagle pcb \<longleftrightarrow>
     pcb_unacked pcb = [] \<or> has_flag (TF_NODELAY OR TF_INFR) pcb \<or>
     (pcb_unsent pcb \<noteq> [] \<and> (tl (pcb_unsent pcb) \<noteq> [] \<or> pcb_mss pcb \<le> sg_len (hd (pcb_unsent pcb)))) \<or>
     pcb_snd_buf pcb = 0 \<or> TCP_SND_QUEUELEN \<le> pcb_snd_queuelen pcb"

text \<open>Insertion in front of the first segment that does not begin before the new one.\<close>

fun seg_insert :: "tcp_seg \<Rightarrow> tcp_seg list \<Rightarrow> tcp_seg list" where
  "seg_insert seg [] = [seg]"
| "seg_insert seg (c # cs) =
     (if TCP_SEQ_LT (seg_seqno c) (seg_seqno seg) then c # seg_insert seg cs else seg # c # cs)"

text \<open>The position of a segment on the unacked queue once it was sent.\<close>

definition unacked_add :: "tcp_seg \<Rightarrow> tcp_seg list \<Rightarrow> tcp_seg list" where
  "unacked_add seg unacked =
     (if unacked = [] then [seg]
      else if TCP_SEQ_LT (seg_seqno seg) (seg_seqno (last unacked)) then seg_insert seg unacked
      else unacked @ [seg])"

definition seg_in_window :: "tcp_pcb \<Rightarrow> u32 \<Rightarrow> tcp_seg \<Rightarrow> bool" where
  "seg_in_window pcb wnd seg \<longleftrightarrow> seg_seqno seg - pcb_lastack pcb + ucast (sg_len seg) \<le> wnd"

text \<open>
  The loop of \<open>tcp_output\<close>; the list is the unsent queue, which the control block holds as well.
  The result says whether the loop was left by \<open>return err\<close>.
\<close>

fun tcp_output_loop :: "env \<Rightarrow> u32 \<Rightarrow> tcp_seg list \<Rightarrow> tcp_pcb \<Rightarrow> 'a sys_scheme \<Rightarrow>
     (err_t \<times> tcp_pcb \<times> 'a sys_scheme) option" where
  "tcp_output_loop env wnd [] pcb s = Some (ERR_OK, pcb, s)"
| "tcp_output_loop env wnd (seg # rest) pcb s =
     (if \<not> seg_in_window pcb wnd seg then Some (ERR_OK, pcb, s)
      else do {
        lwip_assert (TCPH_FLAGS (sg_hdr seg) AND TCP_RST = 0);
        if \<not> tcp_do_output_nagle pcb \<and> \<not> has_flag (TF_NAGLEMEMERR OR TF_FIN) pcb then Some (ERR_OK, pcb, s)
        else do {
          let seg1 = (if pcb_state pcb \<noteq> SYN_SENT then seg_set_flag TCP_ACK seg else seg);
          (err, seg2, pcb1, s1) \<leftarrow> tcp_output_segment env (seg1\<lparr>sg_oversize_left := 0\<rparr>) pcb s;
          if err \<noteq> ERR_OK then Some (err, set_flag TF_NAGLEMEMERR (pcb1\<lparr>pcb_unsent := seg2 # rest\<rparr>), s1)
          else do {
            let pcb2 = pcb1\<lparr>pcb_unsent := rest\<rparr>;
            let pcb3 = (if pcb_state pcb2 \<noteq> SYN_SENT then clear_flag (TF_ACK_DELAY OR TF_ACK_NOW) pcb2 else pcb2);
            let snd_nxt = seg_seqno seg2 + TCP_TCPLEN seg2;
            let pcb4 = (if TCP_SEQ_LT (pcb_snd_nxt pcb3) snd_nxt then pcb3\<lparr>pcb_snd_nxt := snd_nxt\<rparr> else pcb3);
            if TCP_TCPLEN seg2 > 0 then
              tcp_output_loop env wnd rest (pcb4\<lparr>pcb_unacked := unacked_add seg2 (pcb_unacked pcb4)\<rparr>) s1
            else do {
              s2 \<leftarrow> tcp_seg_free seg2 s1;
              tcp_output_loop env wnd rest pcb4 s2
            }
          }
        }
      })"

definition tcp_output :: "env \<Rightarrow> tcp_pcb \<Rightarrow> 'a sys_scheme \<Rightarrow> (err_t \<times> tcp_pcb \<times> 'a sys_scheme) option" where
  "tcp_output env pcb s = do {
     lwip_assert (pcb_state pcb \<noteq> LISTEN);
     if sy_input_pcb s = Some (pcb_addr pcb) then Some (ERR_OK, pcb, s)
     else do {
       let wnd = (ucast (min (pcb_snd_wnd pcb) (pcb_cwnd pcb)) :: u32);
       if has_flag TF_ACK_NOW pcb \<and>
          (pcb_unsent pcb = [] \<or> \<not> seg_in_window pcb wnd (hd (pcb_unsent pcb)))
       then tcp_send_empty_ack env pcb s
       else do {
         (err, pcb1, s1) \<leftarrow> tcp_output_loop env wnd (pcb_unsent pcb) pcb s;
         if err \<noteq> ERR_OK then Some (err, pcb1, s1)
         else do {
           let pcb2 = (if pcb_unsent pcb1 = [] then pcb1\<lparr>pcb_unsent_oversize := 0\<rparr> else pcb1);
           Some (ERR_OK, clear_flag TF_NAGLEMEMERR pcb2, s1)
         }
       }
     }
   }"

section \<open>Retransmission\<close>

definition rexmit_rto_queues :: "tcp_pcb \<Rightarrow> tcp_pcb" where
  "rexmit_rto_queues pcb =
     (let oversize = (if pcb_unsent pcb = [] then sg_oversize_left (last (pcb_unacked pcb)) else pcb_unsent_oversize pcb)
      in pcb\<lparr>pcb_unsent := pcb_unacked pcb @ pcb_unsent pcb, pcb_unsent_oversize := oversize,
             pcb_unacked := [], pcb_nrtx := pcb_nrtx pcb + 1, pcb_rttest := 0\<rparr>)"

definition tcp_rexmit_rto :: "env \<Rightarrow> tcp_pcb \<Rightarrow> 'a sys_scheme \<Rightarrow> (tcp_pcb \<times> 'a sys_scheme) option" where
  "tcp_rexmit_rto env pcb s =
     (if pcb_unacked pcb = [] then Some (pcb, s)
      else do {
        (_, pcb1, s1) \<leftarrow> tcp_output env (rexmit_rto_queues pcb) s;
        Some (pcb1, s1)
      })"

definition tcp_rexmit :: "tcp_pcb \<Rightarrow> tcp_pcb" where
  "tcp_rexmit pcb =
     (case pcb_unacked pcb of
        [] \<Rightarrow> pcb
      | seg # rest \<Rightarrow>
          (let unsent = seg_insert seg (pcb_unsent pcb);
               is_last = list_all (\<lambda>c. TCP_SEQ_LT (seg_seqno c) (seg_seqno seg)) (pcb_unsent pcb);
               oversize = (if is_last then 0 else pcb_unsent_oversize pcb)
           in pcb\<lparr>pcb_unacked := rest, pcb_unsent := unsent, pcb_unsent_oversize := oversize,
                  pcb_nrtx := pcb_nrtx pcb + 1, pcb_rttest := 0\<rparr>))"

text \<open>The arithmetic on \<open>unsigned int\<close> of \<open>2U * mss\<close> and its assignments back to 16 bits.\<close>

definition tcp_rexmit_fast :: "tcp_pcb \<Rightarrow> tcp_pcb" where
  "tcp_rexmit_fast pcb =
     (if pcb_unacked pcb \<noteq> [] \<and> \<not> has_flag TF_INFR pcb then
        (let pcb1 = tcp_rexmit pcb;
             half = (if pcb_snd_wnd pcb1 < pcb_cwnd pcb1 then pcb_snd_wnd pcb1 div 2 else pcb_cwnd pcb1 div 2);
             ssthresh = (if unat half < 2 * unat (pcb_mss pcb1) then 2 * pcb_mss pcb1 else half)
         in set_flag TF_INFR (pcb1\<lparr>pcb_ssthresh := ssthresh, pcb_cwnd := ssthresh + 3 * pcb_mss pcb1\<rparr>))
      else pcb)"

end
