(* ===== verification/Tcp.thy ===== *)
theory Tcp
  imports Tcp_Out
begin

text \<open>
  \<^verbatim>\<open>src/tcp.c\<close>: the store of control blocks and their four lists, opening and closing, port and
  sequence number choice, the timers, and the killing of old connections when memory runs out.
  Control blocks are referred to by address; access to one that was freed is \<open>None\<close>.
\<close>

section \<open>The state of the stack\<close>

text \<open>
  A \<open>tcp_pcb_listen\<close> is a structure of its own, with the common members only.
\<close>

record tcp_pcb_listen =
  lpcb_addr :: nat
  lpcb_callback_arg :: nat
  lpcb_accept :: "nat option"
  lpcb_state :: tcp_state
  lpcb_prio :: u8
  lpcb_local_port :: u16

datatype pcb_list = L_LISTEN | L_BOUND | L_ACTIVE | L_TW

text \<open>
  \<open>struct rudp_state\<close> of \<^verbatim>\<open>test/udp/rudp.h\<close>, what the application layer of the repository keeps for a connection. A
  function pointer that was never set, or is \<open>NULL\<close>, is \<open>None\<close>.
\<close>

record rudp_fd =
  fd_is_closing :: u8
  fd_pcb :: nat
  fd_recv_cb :: "nat option"
  fd_accept_cb :: "nat option"
  fd_connected_cb :: "nat option"

text \<open>
  The lists hold addresses, in list order. \<open>lw_recv_flags\<close> is the variable \<open>recv_flags\<close> of
  \<^verbatim>\<open>src/tcp_in.c\<close>, which \<open>tcp_close\<close> sets through \<open>tcp_trigger_input_pcb_close\<close>. \<open>lw_fds\<close> holds the structures of the
  application layer by address; the stack only passes their addresses to callbacks.
\<close>

record lw = sys +
  lw_pcbs :: "nat \<Rightarrow> tcp_pcb option"
  lw_lpcbs :: "nat \<Rightarrow> tcp_pcb_listen option"
  lw_lists :: "pcb_list \<Rightarrow> nat list"
  lw_active_changed :: bool
  lw_timer :: u8
  lw_timer_ctr :: u8
  lw_port :: u16
  lw_server_id :: u32
  lw_iss :: u32
  lw_recv_flags :: u8
  lw_fds :: "nat \<Rightarrow> rudp_fd option"

text \<open>
  The application: what its callbacks do, by function address. A callback may use the whole
  interface of the stack, so it maps the state of the stack to a new one. Address 0 stands for the
  stack's own \<open>tcp_recv_null\<close> and \<open>tcp_accept_null\<close>.
\<close>

record app =
  app_accept :: "nat \<Rightarrow> nat \<Rightarrow> nat \<Rightarrow> err_t \<Rightarrow> lw \<Rightarrow> (err_t \<times> lw) option"
  app_recv :: "nat \<Rightarrow> nat \<Rightarrow> nat \<Rightarrow> pbuf list \<Rightarrow> err_t \<Rightarrow> lw \<Rightarrow> (err_t \<times> lw) option"
  app_sent :: "nat \<Rightarrow> nat \<Rightarrow> nat \<Rightarrow> u16 \<Rightarrow> lw \<Rightarrow> (err_t \<times> lw) option"
  app_connected :: "nat \<Rightarrow> nat \<Rightarrow> nat \<Rightarrow> err_t \<Rightarrow> lw \<Rightarrow> (err_t \<times> lw) option"
  app_poll :: "nat \<Rightarrow> nat \<Rightarrow> nat \<Rightarrow> lw \<Rightarrow> (err_t \<times> lw) option"
  app_err :: "nat \<Rightarrow> nat \<Rightarrow> err_t \<Rightarrow> lw \<Rightarrow> lw option"

definition pcb_put :: "tcp_pcb \<Rightarrow> lw \<Rightarrow> lw" where
  "pcb_put p s = s\<lparr>lw_pcbs := (lw_pcbs s)(pcb_addr p \<mapsto> p)\<rparr>"

definition pcb_free :: "nat \<Rightarrow> lw \<Rightarrow> lw" where
  "pcb_free a s = memp_free MEMP_TCP_PCB (Some a) (s\<lparr>lw_pcbs := (lw_pcbs s)(a := None)\<rparr>)"

definition lpcb_free :: "nat \<Rightarrow> lw \<Rightarrow> lw" where
  "lpcb_free a s = memp_free MEMP_TCP_PCB_LISTEN (Some a) (s\<lparr>lw_lpcbs := (lw_lpcbs s)(a := None)\<rparr>)"

text \<open>An operation on one control block, run on the block at an address.\<close>

definition at_pcb :: "nat \<Rightarrow> (tcp_pcb \<Rightarrow> lw \<Rightarrow> ('r \<times> tcp_pcb \<times> lw) option) \<Rightarrow> lw \<Rightarrow> ('r \<times> lw) option" where
  "at_pcb a f s = do {
     p \<leftarrow> lw_pcbs s a;
     (r, p', s') \<leftarrow> f p s;
     Some (r, pcb_put p' s')
   }"

section \<open>The lists\<close>

definition TCP_REG :: "pcb_list \<Rightarrow> nat \<Rightarrow> lw \<Rightarrow> lw" where
  "TCP_REG l a s = s\<lparr>lw_lists := (lw_lists s)(l := a # lw_lists s l)\<rparr>"

definition TCP_RMV :: "pcb_list \<Rightarrow> nat \<Rightarrow> lw \<Rightarrow> lw" where
  "TCP_RMV l a s = s\<lparr>lw_lists := (lw_lists s)(l := remove1 a (lw_lists s l))\<rparr>"

definition TCP_REG_ACTIVE :: "nat \<Rightarrow> lw \<Rightarrow> lw" where
  "TCP_REG_ACTIVE a s = (TCP_REG L_ACTIVE a s)\<lparr>lw_active_changed := True\<rparr>"

definition TCP_RMV_ACTIVE :: "nat \<Rightarrow> lw \<Rightarrow> lw" where
  "TCP_RMV_ACTIVE a s = (TCP_RMV L_ACTIVE a s)\<lparr>lw_active_changed := True\<rparr>"

definition tcp_pcbs_sane :: "lw \<Rightarrow> bool" where
  "tcp_pcbs_sane s \<longleftrightarrow>
     list_all (\<lambda>a. case lw_pcbs s a of None \<Rightarrow> False
        | Some p \<Rightarrow> pcb_state p \<noteq> CLOSED \<and> pcb_state p \<noteq> LISTEN \<and> pcb_state p \<noteq> TIME_WAIT) (lw_lists s L_ACTIVE) \<and>
     list_all (\<lambda>a. case lw_pcbs s a of None \<Rightarrow> False | Some p \<Rightarrow> pcb_state p = TIME_WAIT) (lw_lists s L_TW)"

definition tcp_pcb_purge :: "tcp_pcb \<Rightarrow> 'a sys_scheme \<Rightarrow> (tcp_pcb \<times> 'a sys_scheme) option" where
  "tcp_pcb_purge pcb s =
     (if pcb_state pcb \<noteq> CLOSED \<and> pcb_state pcb \<noteq> TIME_WAIT \<and> pcb_state pcb \<noteq> LISTEN then do {
        s1 \<leftarrow> (if pcb_refused_data pcb \<noteq> [] then do { (_, s1) \<leftarrow> pbuf_free (pcb_refused_data pcb) s; Some s1 }
              else Some s);
        s2 \<leftarrow> tcp_segs_free (pcb_ooseq pcb) s1;
        s3 \<leftarrow> tcp_segs_free (pcb_unsent pcb) s2;
        s4 \<leftarrow> tcp_segs_free (pcb_unacked pcb) s3;
        Some (pcb\<lparr>pcb_refused_data := [], pcb_ooseq := [], pcb_rtime := - 1, pcb_unsent := [],
                  pcb_unacked := [], pcb_unsent_oversize := 0\<rparr>, s4)
      }
      else Some (pcb, s))"

definition tcp_pcb_remove :: "env \<Rightarrow> pcb_list \<Rightarrow> nat \<Rightarrow> lw \<Rightarrow> lw option" where
  "tcp_pcb_remove env l a s = do {
     let s1 = TCP_RMV l a s;
     p \<leftarrow> lw_pcbs s1 a;
     (p1, s2) \<leftarrow> tcp_pcb_purge p s1;
     (p2, s3) \<leftarrow>
       (if pcb_state p1 \<noteq> TIME_WAIT \<and> pcb_state p1 \<noteq> LISTEN \<and> has_flag TF_ACK_DELAY p1 then do {
          (_, p2, s3) \<leftarrow> tcp_output env (set_flag TF_ACK_NOW p1) s2;
          Some (p2, s3)
        } else Some (p1, s2));
     lwip_assert (pcb_state p2 \<noteq> LISTEN \<longrightarrow> pcb_unsent p2 = [] \<and> pcb_unacked p2 = [] \<and> pcb_ooseq p2 = []);
     let s4 = pcb_put (p2\<lparr>pcb_state := CLOSED, pcb_local_port := 0\<rparr>) s3;
     lwip_assert (tcp_pcbs_sane s4);
     Some s4
   }"

text \<open>The same for a listening control block, which has nothing to purge.\<close>

definition tcp_lpcb_remove :: "nat \<Rightarrow> lw \<Rightarrow> lw option" where
  "tcp_lpcb_remove a s = do {
     let s1 = TCP_RMV L_LISTEN a s;
     l \<leftarrow> lw_lpcbs s1 a;
     let s2 = s1\<lparr>lw_lpcbs := (lw_lpcbs s1)(a \<mapsto> l\<lparr>lpcb_state := CLOSED, lpcb_local_port := 0\<rparr>)\<rparr>;
     lwip_assert (tcp_pcbs_sane s2);
     Some s2
   }"

definition TCP_PCB_REMOVE_ACTIVE :: "env \<Rightarrow> nat \<Rightarrow> lw \<Rightarrow> lw option" where
  "TCP_PCB_REMOVE_ACTIVE env a s = do {
     s1 \<leftarrow> tcp_pcb_remove env L_ACTIVE a s;
     Some (s1\<lparr>lw_active_changed := True\<rparr>)
   }"

text \<open>
  \<open>pbuf_free_ooseq\<close> of \<^verbatim>\<open>src/pbuf.c\<close>: the out-of-sequence queue of the first active connection that
  has one is dropped when the pool of buffers is empty.
\<close>

fun free_ooseq_first :: "nat list \<Rightarrow> lw \<Rightarrow> lw option" where
  "free_ooseq_first [] s = Some s"
| "free_ooseq_first (a # as) s = do {
     p \<leftarrow> lw_pcbs s a;
     if pcb_ooseq p \<noteq> [] then do {
       s1 \<leftarrow> tcp_segs_free (pcb_ooseq p) s;
       Some (pcb_put (p\<lparr>pcb_ooseq := []\<rparr>) s1)
     }
     else free_ooseq_first as s
   }"

definition pbuf_free_ooseq :: "lw \<Rightarrow> lw option" where
  "pbuf_free_ooseq s = free_ooseq_first (lw_lists s L_ACTIVE) (s\<lparr>sy_ooseq_pending := 0\<rparr>)"

section \<open>Closing\<close>

abbreviation TF_RESET :: u8 where "TF_RESET \<equiv> 0x08"
abbreviation TF_CLOSED :: u8 where "TF_CLOSED \<equiv> 0x10"
abbreviation TF_GOT_FIN :: u8 where "TF_GOT_FIN \<equiv> 0x20"

text \<open>\<open>tcp_trigger_input_pcb_close\<close> of \<^verbatim>\<open>src/tcp_in.c\<close>.\<close>

definition tcp_trigger_input_pcb_close :: "lw \<Rightarrow> lw" where
  "tcp_trigger_input_pcb_close s = s\<lparr>lw_recv_flags := lw_recv_flags s OR TF_CLOSED\<rparr>"

definition pcb_rst :: "env \<Rightarrow> tcp_pcb \<Rightarrow> 'a sys_scheme \<Rightarrow> 'a sys_scheme option" where
  "pcb_rst env p s = tcp_rst env (pcb_snd_nxt p) (pcb_rcv_nxt p) (pcb_remote_ip p)
     (pcb_connid1 p, pcb_connid2 p) (pcb_remote_udp_port p) s"

text \<open>The reset that tells the peer that received data was not taken by the application.\<close>

definition close_with_rst :: "env \<Rightarrow> nat \<Rightarrow> tcp_pcb \<Rightarrow> lw \<Rightarrow> (err_t \<times> lw) option" where
  "close_with_rst env a p s = do {
     lwip_assert (has_flag TF_RXCLOSED p);
     s1 \<leftarrow> pcb_rst env p s;
     (p1, s2) \<leftarrow> tcp_pcb_purge p s1;
     let s3 = TCP_RMV_ACTIVE a (pcb_put p1 s2);
     if pcb_state p1 = ESTABLISHED then
       Some (ERR_OK, TCP_REG L_TW a (pcb_put (p1\<lparr>pcb_state := TIME_WAIT\<rparr>) s3))
     else if sy_input_pcb s3 = Some a then Some (ERR_OK, tcp_trigger_input_pcb_close s3)
     else Some (ERR_OK, pcb_free a s3)
   }"

text \<open>Queueing the FIN, and the state it leads to.\<close>

definition close_with_fin :: "env \<Rightarrow> tcp_state \<Rightarrow> nat \<Rightarrow> lw \<Rightarrow> (err_t \<times> lw) option" where
  "close_with_fin env st a s = do {
     (err, s1) \<leftarrow> at_pcb a (tcp_send_fin env) s;
     if err = ERR_OK then do {
       p \<leftarrow> lw_pcbs s1 a;
       (_, s2) \<leftarrow> at_pcb a (tcp_output env) (pcb_put (p\<lparr>pcb_state := st\<rparr>) s1);
       Some (ERR_OK, s2)
     }
     else Some (err, s1)
   }"

definition tcp_close_shutdown :: "env \<Rightarrow> nat \<Rightarrow> bool \<Rightarrow> lw \<Rightarrow> (err_t \<times> lw) option" where
  "tcp_close_shutdown env a rst_on_unacked_data s =
     (case lw_lpcbs s a of
        Some l \<Rightarrow> do {
          s1 \<leftarrow> tcp_lpcb_remove a s;
          Some (ERR_OK, lpcb_free a s1)
        }
      | None \<Rightarrow> do {
          p \<leftarrow> lw_pcbs s a;
          if rst_on_unacked_data \<and> (pcb_state p = ESTABLISHED \<or> pcb_state p = CLOSE_WAIT) \<and>
             (pcb_refused_data p \<noteq> [] \<or> pcb_rcv_wnd p \<noteq> TCP_WND)
          then close_with_rst env a p s
          else
            (case pcb_state p of
               CLOSED \<Rightarrow> Some (ERR_OK, pcb_free a (if pcb_local_port p \<noteq> 0 then TCP_RMV L_BOUND a s else s))
             | SYN_SENT \<Rightarrow> do {
                 s1 \<leftarrow> TCP_PCB_REMOVE_ACTIVE env a s;
                 Some (ERR_OK, pcb_free a s1)
               }
             | SYN_RCVD \<Rightarrow> close_with_fin env FIN_WAIT_1 a s
             | ESTABLISHED \<Rightarrow> close_with_fin env FIN_WAIT_1 a s
             | CLOSE_WAIT \<Rightarrow> close_with_fin env LAST_ACK a s
             | _ \<Rightarrow> Some (ERR_OK, s))
        })"

definition tcp_close :: "env \<Rightarrow> nat \<Rightarrow> lw \<Rightarrow> (err_t \<times> lw) option" where
  "tcp_close env a s =
     (case lw_lpcbs s a of
        Some l \<Rightarrow> tcp_close_shutdown env a True s
      | None \<Rightarrow> do {
          p \<leftarrow> lw_pcbs s a;
          tcp_close_shutdown env a True (pcb_put (set_flag TF_RXCLOSED p) s)
        })"

definition tcp_shutdown :: "env \<Rightarrow> nat \<Rightarrow> bool \<Rightarrow> bool \<Rightarrow> lw \<Rightarrow> (err_t \<times> lw) option" where
  "tcp_shutdown env a shut_rx shut_tx s =
     (case lw_lpcbs s a of
        Some l \<Rightarrow> Some (ERR_CONN, s)
      | None \<Rightarrow> do {
          p \<leftarrow> lw_pcbs s a;
          if shut_rx \<and> shut_tx then tcp_close_shutdown env a True (pcb_put (set_flag TF_RXCLOSED p) s)
          else do {
            s1 \<leftarrow>
              (if shut_rx then do {
                 let p1 = set_flag TF_RXCLOSED p;
                 if pcb_refused_data p1 \<noteq> [] then do {
                   (_, s1) \<leftarrow> pbuf_free (pcb_refused_data p1) s;
                   Some (pcb_put (p1\<lparr>pcb_refused_data := []\<rparr>) s1)
                 } else Some (pcb_put p1 s)
               } else Some s);
            if shut_tx then
              (if pcb_state p = SYN_RCVD \<or> pcb_state p = ESTABLISHED \<or> pcb_state p = CLOSE_WAIT
               then tcp_close_shutdown env a shut_rx s1
               else Some (ERR_CONN, s1))
            else Some (ERR_OK, s1)
          }
        })"

definition TCP_EVENT_ERR :: "app \<Rightarrow> nat option \<Rightarrow> nat \<Rightarrow> err_t \<Rightarrow> lw \<Rightarrow> lw option" where
  "TCP_EVENT_ERR app errf arg err s = (case errf of Some f \<Rightarrow> app_err app f arg err s | None \<Rightarrow> Some s)"

definition tcp_abandon :: "env \<Rightarrow> app \<Rightarrow> nat \<Rightarrow> bool \<Rightarrow> lw \<Rightarrow> lw option" where
  "tcp_abandon env app a reset s = do {
     lwip_assert (lw_lpcbs s a = None);
     p \<leftarrow> lw_pcbs s a;
     if pcb_state p = TIME_WAIT then do {
       s1 \<leftarrow> tcp_pcb_remove env L_TW a s;
       Some (pcb_free a s1)
     }
     else do {
       (send_rst, s1) \<leftarrow>
         (if pcb_state p = CLOSED \<and> pcb_local_port p \<noteq> 0 then Some (False, TCP_RMV L_BOUND a s)
          else do { s1 \<leftarrow> TCP_PCB_REMOVE_ACTIVE env a s; Some (reset, s1) });
       p1 \<leftarrow> lw_pcbs s1 a;
       s2 \<leftarrow> tcp_segs_free (pcb_unacked p1) s1;
       s3 \<leftarrow> tcp_segs_free (pcb_unsent p1) s2;
       s4 \<leftarrow> tcp_segs_free (pcb_ooseq p1) s3;
       s5 \<leftarrow> (if send_rst then tcp_rst env (pcb_snd_nxt p) (pcb_rcv_nxt p) (pcb_remote_ip p1)
                (pcb_connid1 p1, pcb_connid2 p1) (pcb_remote_udp_port p1) s4 else Some s4);
       TCP_EVENT_ERR app (pcb_errf p) (pcb_callback_arg p) ERR_ABRT (pcb_free a s5)
     }
   }"

definition tcp_abort :: "env \<Rightarrow> app \<Rightarrow> nat \<Rightarrow> lw \<Rightarrow> lw option" where
  "tcp_abort env app a s = tcp_abandon env app a True s"

section \<open>Receive window\<close>

definition tcp_update_rcv_ann_wnd :: "tcp_pcb \<Rightarrow> (u32 \<times> tcp_pcb) option" where
  "tcp_update_rcv_ann_wnd pcb =
     (let new_right_edge = pcb_rcv_nxt pcb + ucast (pcb_rcv_wnd pcb) in
      if TCP_SEQ_GEQ new_right_edge (pcb_rcv_ann_right_edge pcb + ucast (min (TCP_WND div 2) (pcb_mss pcb)))
      then Some (new_right_edge - pcb_rcv_ann_right_edge pcb, pcb\<lparr>pcb_rcv_ann_wnd := pcb_rcv_wnd pcb\<rparr>)
      else if TCP_SEQ_GT (pcb_rcv_nxt pcb) (pcb_rcv_ann_right_edge pcb)
      then Some (0, pcb\<lparr>pcb_rcv_ann_wnd := 0\<rparr>)
      else do {
        let new_rcv_ann_wnd = pcb_rcv_ann_right_edge pcb - pcb_rcv_nxt pcb;
        lwip_assert (new_rcv_ann_wnd \<le> 0xffff);
        Some (0, pcb\<lparr>pcb_rcv_ann_wnd := ucast new_rcv_ann_wnd\<rparr>)
      })"

definition tcp_recved :: "env \<Rightarrow> u16 \<Rightarrow> tcp_pcb \<Rightarrow> 'a sys_scheme \<Rightarrow> (unit \<times> tcp_pcb \<times> 'a sys_scheme) option" where
  "tcp_recved env len pcb s = do {
     lwip_assert (pcb_state pcb \<noteq> LISTEN);
     let wnd = pcb_rcv_wnd pcb + len;
     wnd' \<leftarrow> (if TCP_WND < wnd then Some TCP_WND
             else if wnd = 0 then do {
               lwip_assert (pcb_state pcb = CLOSE_WAIT \<or> pcb_state pcb = LAST_ACK);
               Some TCP_WND
             } else Some wnd);
     (wnd_inflation, pcb1) \<leftarrow> tcp_update_rcv_ann_wnd (pcb\<lparr>pcb_rcv_wnd := wnd'\<rparr>);
     if TCP_WND_UPDATE_THRESHOLD \<le> sint wnd_inflation then do {
       (_, pcb2, s1) \<leftarrow> tcp_output env (tcp_ack_now pcb1) s;
       Some ((), pcb2, s1)
     }
     else Some ((), pcb1, s)
   }"

definition tcp_recv_null :: "env \<Rightarrow> nat \<Rightarrow> pbuf list \<Rightarrow> err_t \<Rightarrow> lw \<Rightarrow> (err_t \<times> lw) option" where
  "tcp_recv_null env a p err s =
     (case p of
        q # _ \<Rightarrow> do {
          (_, s1) \<leftarrow> at_pcb a (tcp_recved env (pb_tot_len q)) s;
          (_, s2) \<leftarrow> pbuf_free p s1;
          Some (ERR_OK, s2)
        }
      | [] \<Rightarrow> if err = ERR_OK then tcp_close env a s else Some (ERR_OK, s))"

definition TCP_EVENT_RECV :: "env \<Rightarrow> app \<Rightarrow> nat \<Rightarrow> pbuf list \<Rightarrow> err_t \<Rightarrow> lw \<Rightarrow> (err_t \<times> lw) option" where
  "TCP_EVENT_RECV env app a p err s = do {
     pcb \<leftarrow> lw_pcbs s a;
     (case pcb_recv pcb of
        Some f \<Rightarrow> if f = 0 then tcp_recv_null env a p err s
                  else app_recv app f (pcb_callback_arg pcb) a p err s
      | None \<Rightarrow> tcp_recv_null env a p err s)
   }"

definition TCP_EVENT_CLOSED :: "env \<Rightarrow> app \<Rightarrow> nat \<Rightarrow> lw \<Rightarrow> (err_t \<times> lw) option" where
  "TCP_EVENT_CLOSED env app a s = do {
     pcb \<leftarrow> lw_pcbs s a;
     (case pcb_recv pcb of
        Some f \<Rightarrow> if f = 0 then tcp_recv_null env a [] ERR_OK s
                  else app_recv app f (pcb_callback_arg pcb) a [] ERR_OK s
      | None \<Rightarrow> Some (ERR_OK, s))
   }"

definition TCP_EVENT_POLL :: "app \<Rightarrow> nat \<Rightarrow> lw \<Rightarrow> (err_t \<times> lw) option" where
  "TCP_EVENT_POLL app a s = do {
     pcb \<leftarrow> lw_pcbs s a;
     (case pcb_poll pcb of Some f \<Rightarrow> app_poll app f (pcb_callback_arg pcb) a s | None \<Rightarrow> Some (ERR_OK, s))
   }"

definition tcp_process_refused_data :: "env \<Rightarrow> app \<Rightarrow> nat \<Rightarrow> lw \<Rightarrow> (err_t \<times> lw) option" where
  "tcp_process_refused_data env app a s = do {
     pcb \<leftarrow> lw_pcbs s a;
     let refused_data = pcb_refused_data pcb;
     lwip_assert (refused_data \<noteq> []);
     let refused_flags = pb_flags (hd refused_data);
     (err, s1) \<leftarrow> TCP_EVENT_RECV env app a refused_data ERR_OK (pcb_put (pcb\<lparr>pcb_refused_data := []\<rparr>) s);
     if err = ERR_OK then
       (if refused_flags AND PBUF_FLAG_TCP_FIN \<noteq> 0 then do {
          p1 \<leftarrow> lw_pcbs s1 a;
          let p2 = (if pcb_rcv_wnd p1 \<noteq> TCP_WND then p1\<lparr>pcb_rcv_wnd := pcb_rcv_wnd p1 + 1\<rparr> else p1);
          (err2, s2) \<leftarrow> TCP_EVENT_CLOSED env app a (pcb_put p2 s1);
          if err2 = ERR_ABRT then Some (ERR_ABRT, s2) else Some (ERR_OK, s2)
        }
        else Some (ERR_OK, s1))
     else if err = ERR_ABRT then Some (ERR_ABRT, s1)
     else do {
       p1 \<leftarrow> lw_pcbs s1 a;
       Some (ERR_INPROGRESS, pcb_put (p1\<lparr>pcb_refused_data := refused_data\<rparr>) s1)
     }
   }"

section \<open>Ports, identifiers and sequence numbers\<close>

abbreviation TCP_LOCAL_PORT_RANGE_START :: u16 where "TCP_LOCAL_PORT_RANGE_START \<equiv> 0xc000"
abbreviation TCP_LOCAL_PORT_RANGE_END :: u16 where "TCP_LOCAL_PORT_RANGE_END \<equiv> 0xffff"

definition list_ports :: "pcb_list \<Rightarrow> lw \<Rightarrow> u16 list option" where
  "list_ports l s = those (map (\<lambda>a. if l = L_LISTEN then map_option lpcb_local_port (lw_lpcbs s a)
                                    else map_option pcb_local_port (lw_pcbs s a)) (lw_lists s l))"

text \<open>The local ports on all four lists.\<close>

definition used_ports :: "lw \<Rightarrow> u16 list option" where
  "used_ports s = do {
     a \<leftarrow> list_ports L_LISTEN s;
     b \<leftarrow> list_ports L_BOUND s;
     c \<leftarrow> list_ports L_ACTIVE s;
     d \<leftarrow> list_ports L_TW s;
     Some (a @ b @ c @ d)
   }"

definition port_next :: "u16 \<Rightarrow> u16" where
  "port_next port = (if port = TCP_LOCAL_PORT_RANGE_END then TCP_LOCAL_PORT_RANGE_START else port + 1)"

text \<open>
  \<open>again:\<close> in \<open>tcp_new_port\<close>: \<open>n\<close> counts the ports found in use, \<open>port\<close> is \<open>tcp_port\<close>; the result
  is the returned port and the new value of \<open>tcp_port\<close>.
\<close>

function tcp_new_port_loop :: "u16 list \<Rightarrow> nat \<Rightarrow> u16 \<Rightarrow> u16 \<times> u16" where
  "tcp_new_port_loop used n port =
     (let port' = port_next port in
      if port' \<in> set used then
        (if n + 1 > unat (TCP_LOCAL_PORT_RANGE_END - TCP_LOCAL_PORT_RANGE_START) then (0, port')
         else tcp_new_port_loop used (n + 1) port')
      else (port', port'))"
  by pat_completeness auto
termination
  by (relation "measure (\<lambda>(used, n, port). unat (TCP_LOCAL_PORT_RANGE_END - TCP_LOCAL_PORT_RANGE_START) - n)") auto

definition tcp_new_port :: "lw \<Rightarrow> (u16 \<times> lw) option" where
  "tcp_new_port s = do {
     used \<leftarrow> used_ports s;
     let (port, last) = tcp_new_port_loop used 0 (lw_port s);
     Some (port, s\<lparr>lw_port := last\<rparr>)
   }"

text \<open>
  \<open>tcp_new_server_id\<close> reads \<open>conn_id\<close> of listening control blocks too, which do not have that
  member: \<open>beyond\<close> is what lies in the memory behind such a block.
\<close>

definition list_conn_ids :: "(nat \<Rightarrow> u32) \<Rightarrow> pcb_list \<Rightarrow> lw \<Rightarrow> u32 list option" where
  "list_conn_ids beyond l s = those (map (\<lambda>a. if l = L_LISTEN then Some (beyond a)
                                      else map_option pcb_connid2 (lw_pcbs s a)) (lw_lists s l))"

definition used_server_ids :: "(nat \<Rightarrow> u32) \<Rightarrow> lw \<Rightarrow> u32 list option" where
  "used_server_ids beyond s = do {
     a \<leftarrow> list_conn_ids beyond L_LISTEN s;
     b \<leftarrow> list_conn_ids beyond L_BOUND s;
     c \<leftarrow> list_conn_ids beyond L_ACTIVE s;
     d \<leftarrow> list_conn_ids beyond L_TW s;
     Some (a @ b @ c @ d)
   }"

partial_function (option) tcp_new_server_id_loop :: "u32 list \<Rightarrow> u32 \<Rightarrow> u32 option" where
  "tcp_new_server_id_loop used server_id =
     (let id1 = (if server_id + 1 = 0 then 1 else server_id + 1) in
      if id1 \<in> set used then tcp_new_server_id_loop used id1
      else Some (id1 + 1))"

definition tcp_new_server_id :: "(nat \<Rightarrow> u32) \<Rightarrow> lw \<Rightarrow> (u32 \<times> lw) option" where
  "tcp_new_server_id beyond s = do {
     used \<leftarrow> used_server_ids beyond s;
     server_id \<leftarrow> tcp_new_server_id_loop used (lw_server_id s);
     Some (server_id, s\<lparr>lw_server_id := server_id\<rparr>)
   }"

definition tcp_next_iss :: "lw \<Rightarrow> u32 \<times> lw" where
  "tcp_next_iss s = (let iss = lw_iss s + sy_ticks s in (iss, s\<lparr>lw_iss := iss\<rparr>))"

section \<open>Opening\<close>

definition tcp_bind :: "nat option \<Rightarrow> u16 \<Rightarrow> lw \<Rightarrow> (err_t \<times> lw) option" where
  "tcp_bind ao port s =
     (case ao of
        None \<Rightarrow> Some (ERR_VAL, s)
      | Some a \<Rightarrow> do {
          pcb \<leftarrow> lw_pcbs s a;
          lwip_assert (pcb_state pcb = CLOSED);
          (port', s1) \<leftarrow> (if port = 0 then tcp_new_port s else Some (port, s));
          if port' = 0 then Some (ERR_BUF, s1)
          else Some (ERR_OK, TCP_REG L_BOUND a (pcb_put (pcb\<lparr>pcb_local_port := port'\<rparr>) s1))
        })"

definition tcp_listen_with_backlog :: "nat \<Rightarrow> lw \<Rightarrow> (nat option \<times> lw) option" where
  "tcp_listen_with_backlog a s = do {
     pcb \<leftarrow> lw_pcbs s a;
     lwip_assert (pcb_state pcb = CLOSED);
     (case memp_malloc MEMP_TCP_PCB_LISTEN s of
        (None, s1) \<Rightarrow> Some (None, s1)
      | (Some l, s1) \<Rightarrow> do {
          let lpcb = \<lparr>lpcb_addr = l, lpcb_callback_arg = pcb_callback_arg pcb, lpcb_accept = Some 0,
                      lpcb_state = LISTEN, lpcb_prio = pcb_prio pcb, lpcb_local_port = pcb_local_port pcb\<rparr>;
          let s2 = (if pcb_local_port pcb \<noteq> 0 then TCP_RMV L_BOUND a s1 else s1);
          let s3 = pcb_free a s2;
          Some (Some l, TCP_REG L_LISTEN l (s3\<lparr>lw_lpcbs := (lw_lpcbs s3)(l \<mapsto> lpcb)\<rparr>))
        })
   }"

text \<open>The fields \<open>tcp_connect\<close> sets before it queues the SYN.\<close>

definition connect_init :: "u32 \<Rightarrow> u16 \<Rightarrow> u16 \<Rightarrow> u32 \<Rightarrow> nat option \<Rightarrow> tcp_pcb \<Rightarrow> tcp_pcb" where
  "connect_init ip port local_port iss connected pcb =
     pcb\<lparr>pcb_remote_ip := ip, pcb_remote_port := port, pcb_remote_udp_port := port,
         pcb_local_port := local_port, pcb_connid1 := ucast local_port, pcb_connid2 := 0,
         pcb_rcv_nxt := 0, pcb_snd_nxt := iss, pcb_lastack := iss - 1, pcb_snd_lbb := iss - 1,
         pcb_rcv_wnd := TCP_WND, pcb_rcv_ann_wnd := TCP_WND, pcb_rcv_ann_right_edge := 0,
         pcb_snd_wnd := TCP_WND, pcb_mss := TCP_MSS, pcb_cwnd := 1, pcb_ssthresh := TCP_WND,
         pcb_connected := connected\<rparr>"

definition tcp_connect :: "env \<Rightarrow> nat option \<Rightarrow> u32 option \<Rightarrow> u16 \<Rightarrow> nat option \<Rightarrow> lw \<Rightarrow> (err_t \<times> lw) option" where
  "tcp_connect env ao ipaddr port connected s =
     (case ao of
        None \<Rightarrow> Some (ERR_VAL, s)
      | Some a \<Rightarrow> do {
          pcb \<leftarrow> lw_pcbs s a;
          lwip_assert (pcb_state pcb = CLOSED);
          (case ipaddr of
             None \<Rightarrow> Some (ERR_VAL, s)
           | Some ip \<Rightarrow> do {
               let old_local_port = pcb_local_port pcb;
               (local_port, s1) \<leftarrow> (if old_local_port = 0 then tcp_new_port s else Some (old_local_port, s));
               if local_port = 0 then
                 Some (ERR_BUF, pcb_put (pcb\<lparr>pcb_remote_ip := ip, pcb_remote_port := port,
                                            pcb_remote_udp_port := port\<rparr>) s1)
               else do {
                 let (iss, s2) = tcp_next_iss s1;
                 (ret, s3) \<leftarrow> at_pcb a (\<lambda>p s. tcp_enqueue_flags env p TCP_SYN s)
                               (pcb_put (connect_init ip port local_port iss connected pcb) s2);
                 if ret = ERR_OK then do {
                   p \<leftarrow> lw_pcbs s3 a;
                   let s4 = pcb_put (p\<lparr>pcb_state := SYN_SENT\<rparr>) s3;
                   let s5 = (if old_local_port \<noteq> 0 then TCP_RMV L_BOUND a s4 else s4);
                   (_, s6) \<leftarrow> at_pcb a (tcp_output env) (TCP_REG_ACTIVE a s5);
                   Some (ERR_OK, s6)
                 }
                 else Some (ret, s3)
               }
             })
        })"

section \<open>Allocation of control blocks\<close>

text \<open>
  The victim of \<open>tcp_kill_prio\<close>, \<open>tcp_kill_state\<close> and \<open>tcp_kill_timewait\<close>: each passes once over
  a list and keeps the last control block that was inactive at least as long as the one before.
\<close>

fun kill_prio_scan :: "u32 \<Rightarrow> u8 \<Rightarrow> tcp_pcb list \<Rightarrow> u8 \<Rightarrow> u32 \<Rightarrow> nat option \<Rightarrow> nat option" where
  "kill_prio_scan ticks prio [] mprio inactivity inactive = inactive"
| "kill_prio_scan ticks prio (p # ps) mprio inactivity inactive =
     (if pcb_prio p \<le> prio \<and> pcb_prio p \<le> mprio \<and> inactivity \<le> ticks - pcb_tmr p
      then kill_prio_scan ticks prio ps (pcb_prio p) (ticks - pcb_tmr p) (Some (pcb_addr p))
      else kill_prio_scan ticks prio ps mprio inactivity inactive)"

fun kill_oldest_scan :: "u32 \<Rightarrow> (tcp_pcb \<Rightarrow> bool) \<Rightarrow> tcp_pcb list \<Rightarrow> u32 \<Rightarrow> nat option \<Rightarrow> nat option" where
  "kill_oldest_scan ticks sel [] inactivity inactive = inactive"
| "kill_oldest_scan ticks sel (p # ps) inactivity inactive =
     (if sel p \<and> inactivity \<le> ticks - pcb_tmr p
      then kill_oldest_scan ticks sel ps (ticks - pcb_tmr p) (Some (pcb_addr p))
      else kill_oldest_scan ticks sel ps inactivity inactive)"

definition list_pcbs :: "pcb_list \<Rightarrow> lw \<Rightarrow> tcp_pcb list option" where
  "list_pcbs l s = those (map (lw_pcbs s) (lw_lists s l))"

abbreviation TCP_PRIO_MAX :: u8 where "TCP_PRIO_MAX \<equiv> 127"
abbreviation TCP_PRIO_NORMAL :: u8 where "TCP_PRIO_NORMAL \<equiv> 64"

definition tcp_kill_prio :: "env \<Rightarrow> app \<Rightarrow> u8 \<Rightarrow> lw \<Rightarrow> lw option" where
  "tcp_kill_prio env app prio s = do {
     ps \<leftarrow> list_pcbs L_ACTIVE s;
     (case kill_prio_scan (sy_ticks s) prio ps TCP_PRIO_MAX 0 None of
        Some a \<Rightarrow> tcp_abort env app a s
      | None \<Rightarrow> Some s)
   }"

definition tcp_kill_state :: "env \<Rightarrow> app \<Rightarrow> tcp_state \<Rightarrow> lw \<Rightarrow> lw option" where
  "tcp_kill_state env app state s = do {
     lwip_assert (state = CLOSING \<or> state = LAST_ACK);
     ps \<leftarrow> list_pcbs L_ACTIVE s;
     (case kill_oldest_scan (sy_ticks s) (\<lambda>p. pcb_state p = state) ps 0 None of
        Some a \<Rightarrow> tcp_abandon env app a False s
      | None \<Rightarrow> Some s)
   }"

definition tcp_kill_timewait :: "env \<Rightarrow> app \<Rightarrow> lw \<Rightarrow> lw option" where
  "tcp_kill_timewait env app s = do {
     ps \<leftarrow> list_pcbs L_TW s;
     (case kill_oldest_scan (sy_ticks s) (\<lambda>p. True) ps 0 None of
        Some a \<Rightarrow> tcp_abort env app a s
      | None \<Rightarrow> Some s)
   }"

text \<open>
  The attempts of \<open>tcp_alloc\<close>: allocate, and if that fails make room and try the next, one memory
  error being taken back from the statistics for each attempt that failed once one succeeds.
\<close>

fun alloc_attempts :: "(lw \<Rightarrow> lw option) list \<Rightarrow> lw \<Rightarrow> (nat option \<times> lw) option" where
  "alloc_attempts [] s = Some (memp_malloc MEMP_TCP_PCB s)"
| "alloc_attempts (make_room # later) s =
     (case memp_malloc MEMP_TCP_PCB s of
        (Some a, s1) \<Rightarrow> Some (Some a, s1)
      | (None, s1) \<Rightarrow> do {
          s2 \<leftarrow> make_room s1;
          (ao, s3) \<leftarrow> alloc_attempts later s2;
          Some (ao, if ao \<noteq> None then memp_stats_dec_err MEMP_TCP_PCB s3 else s3)
        })"

text \<open>\<open>memset\<close> to 0 followed by the initial values.\<close>

definition tcp_pcb_new :: "nat \<Rightarrow> u8 \<Rightarrow> u32 \<Rightarrow> u32 \<Rightarrow> u8 \<Rightarrow> tcp_pcb" where
  "tcp_pcb_new a prio iss ticks timer_ctr =
     \<lparr>pcb_addr = a, pcb_remote_ip = 0, pcb_callback_arg = 0, pcb_accept = None, pcb_state = CLOSED,
      pcb_prio = prio, pcb_local_port = 0, pcb_remote_port = 0, pcb_remote_udp_port = 0,
      pcb_connid1 = 0, pcb_connid2 = 0, pcb_flags = 0, pcb_polltmr = 0, pcb_pollinterval = 0,
      pcb_last_timer = timer_ctr, pcb_tmr = ticks, pcb_rcv_nxt = 0, pcb_rcv_wnd = TCP_WND,
      pcb_rcv_ann_wnd = TCP_WND, pcb_rcv_ann_right_edge = 0, pcb_rtime = - 1, pcb_mss = TCP_MSS,
      pcb_rttest = 0, pcb_rtseq = 0, pcb_sa = 0, pcb_sv = 6, pcb_rto = 6, pcb_nrtx = 0, pcb_dupacks = 0,
      pcb_lastack = iss, pcb_cwnd = 1, pcb_ssthresh = 0, pcb_snd_nxt = iss, pcb_snd_wl1 = 0,
      pcb_snd_wl2 = iss, pcb_snd_lbb = iss, pcb_snd_wnd = 0, pcb_snd_wnd_max = 0, pcb_acked = 0,
      pcb_snd_buf = TCP_SND_BUF, pcb_snd_queuelen = 0, pcb_unsent_oversize = 0, pcb_unsent = [],
      pcb_unacked = [], pcb_ooseq = [], pcb_refused_data = [], pcb_sent = None, pcb_recv = Some 0,
      pcb_connected = None, pcb_poll = None, pcb_errf = None, pcb_keep_idle = 7200000,
      pcb_persist_cnt = 0, pcb_persist_backoff = 0, pcb_keep_cnt_sent = 0\<rparr>"

definition tcp_alloc :: "env \<Rightarrow> app \<Rightarrow> u8 \<Rightarrow> lw \<Rightarrow> (nat option \<times> lw) option" where
  "tcp_alloc env app prio s = do {
     (ao, s1) \<leftarrow> alloc_attempts
       [tcp_kill_timewait env app, tcp_kill_state env app LAST_ACK, tcp_kill_state env app CLOSING,
        tcp_kill_prio env app prio] s;
     (case ao of
        None \<Rightarrow> Some (None, s1)
      | Some a \<Rightarrow>
          (let (iss, s2) = tcp_next_iss s1
           in Some (Some a, pcb_put (tcp_pcb_new a prio iss (sy_ticks s2) (lw_timer_ctr s2)) s2)))
   }"

definition tcp_new :: "env \<Rightarrow> app \<Rightarrow> lw \<Rightarrow> (nat option \<times> lw) option" where
  "tcp_new env app s = tcp_alloc env app TCP_PRIO_NORMAL s"

section \<open>Setting callbacks and options\<close>

definition tcp_setprio :: "nat \<Rightarrow> u8 \<Rightarrow> lw \<Rightarrow> lw option" where
  "tcp_setprio a prio s =
     (case lw_lpcbs s a of
        Some l \<Rightarrow> Some (s\<lparr>lw_lpcbs := (lw_lpcbs s)(a \<mapsto> l\<lparr>lpcb_prio := prio\<rparr>)\<rparr>)
      | None \<Rightarrow> do { p \<leftarrow> lw_pcbs s a; Some (pcb_put (p\<lparr>pcb_prio := prio\<rparr>) s) })"

definition tcp_arg :: "nat \<Rightarrow> nat \<Rightarrow> lw \<Rightarrow> lw option" where
  "tcp_arg a arg s =
     (case lw_lpcbs s a of
        Some l \<Rightarrow> Some (s\<lparr>lw_lpcbs := (lw_lpcbs s)(a \<mapsto> l\<lparr>lpcb_callback_arg := arg\<rparr>)\<rparr>)
      | None \<Rightarrow> do { p \<leftarrow> lw_pcbs s a; Some (pcb_put (p\<lparr>pcb_callback_arg := arg\<rparr>) s) })"

definition tcp_accept :: "nat \<Rightarrow> nat option \<Rightarrow> lw \<Rightarrow> lw option" where
  "tcp_accept a f s =
     (case lw_lpcbs s a of
        Some l \<Rightarrow> Some (s\<lparr>lw_lpcbs := (lw_lpcbs s)(a \<mapsto> l\<lparr>lpcb_accept := f\<rparr>)\<rparr>)
      | None \<Rightarrow> do { p \<leftarrow> lw_pcbs s a; Some (pcb_put (p\<lparr>pcb_accept := f\<rparr>) s) })"

definition tcp_recv :: "nat \<Rightarrow> nat option \<Rightarrow> lw \<Rightarrow> lw option" where
  "tcp_recv a f s = do {
     lwip_assert (lw_lpcbs s a = None);
     p \<leftarrow> lw_pcbs s a;
     Some (pcb_put (p\<lparr>pcb_recv := f\<rparr>) s)
   }"

definition tcp_sent :: "nat \<Rightarrow> nat option \<Rightarrow> lw \<Rightarrow> lw option" where
  "tcp_sent a f s = do {
     lwip_assert (lw_lpcbs s a = None);
     p \<leftarrow> lw_pcbs s a;
     Some (pcb_put (p\<lparr>pcb_sent := f\<rparr>) s)
   }"

definition tcp_err :: "nat \<Rightarrow> nat option \<Rightarrow> lw \<Rightarrow> lw option" where
  "tcp_err a f s = do {
     lwip_assert (lw_lpcbs s a = None);
     p \<leftarrow> lw_pcbs s a;
     Some (pcb_put (p\<lparr>pcb_errf := f\<rparr>) s)
   }"

definition tcp_poll :: "nat \<Rightarrow> nat option \<Rightarrow> u8 \<Rightarrow> lw \<Rightarrow> lw option" where
  "tcp_poll a f interval s = do {
     lwip_assert (lw_lpcbs s a = None);
     p \<leftarrow> lw_pcbs s a;
     Some (pcb_put (p\<lparr>pcb_poll := f, pcb_pollinterval := interval\<rparr>) s)
   }"

section \<open>The slow timer\<close>

definition tcp_backoff :: "nat list" where
  "tcp_backoff = [1, 2, 3, 4, 5, 6, 7, 7, 7, 7, 7, 7, 7]"

definition tcp_persist_backoff :: "u8 list" where
  "tcp_persist_backoff = [3, 6, 12, 24, 48, 96, 120]"

text \<open>A read of an array; outside its bounds it is undefined.\<close>

definition array_get :: "'b list \<Rightarrow> nat \<Rightarrow> 'b option" where
  "array_get xs i = (if i < length xs then Some (xs ! i) else None)"

text \<open>The persist timer: a probe of the zero window, less and less often.\<close>

definition slowtmr_persist :: "env \<Rightarrow> tcp_pcb \<Rightarrow> 'a sys_scheme \<Rightarrow> (tcp_pcb \<times> 'a sys_scheme) option" where
  "slowtmr_persist env pcb s = do {
     backoff_cnt \<leftarrow> array_get tcp_persist_backoff (unat (pcb_persist_backoff pcb) - 1);
     let pcb1 = (if pcb_persist_cnt pcb < backoff_cnt then pcb\<lparr>pcb_persist_cnt := pcb_persist_cnt pcb + 1\<rparr> else pcb);
     if backoff_cnt \<le> pcb_persist_cnt pcb1 then do {
       (err, pcb2, s1) \<leftarrow> tcp_zero_window_probe env pcb1 s;
       if err = ERR_OK then
         Some ((if unat (pcb_persist_backoff pcb2) < 7
                then pcb2\<lparr>pcb_persist_cnt := 0, pcb_persist_backoff := pcb_persist_backoff pcb2 + 1\<rparr>
                else pcb2\<lparr>pcb_persist_cnt := 0\<rparr>), s1)
       else Some (pcb2, s1)
     }
     else Some (pcb1, s)
   }"

text \<open>The retransmission timer; the intermediate values are of type \<open>int\<close>.\<close>

definition slowtmr_rto :: "tcp_pcb \<Rightarrow> tcp_pcb option" where
  "slowtmr_rto pcb = do {
     rto \<leftarrow> (if pcb_state pcb \<noteq> SYN_SENT then do {
              k \<leftarrow> array_get tcp_backoff (unat (pcb_nrtx pcb));
              Some (of_int ((sint (pcb_sa pcb) div 8 + sint (pcb_sv pcb)) * 2 ^ k))
            } else Some (pcb_rto pcb));
     let eff_wnd = min (pcb_cwnd pcb) (pcb_snd_wnd pcb);
     let half = eff_wnd div 2;
     let ssthresh = (if half < push_bit 1 (pcb_mss pcb) then push_bit 1 (pcb_mss pcb) else half);
     Some (pcb\<lparr>pcb_rto := rto, pcb_rtime := 0, pcb_ssthresh := ssthresh, pcb_cwnd := pcb_mss pcb\<rparr>)
   }"

definition slowtmr_rexmit :: "env \<Rightarrow> tcp_pcb \<Rightarrow> 'a sys_scheme \<Rightarrow> (tcp_pcb \<times> 'a sys_scheme) option" where
  "slowtmr_rexmit env pcb s = do {
     let pcb1 = (if 0 \<le> sint (pcb_rtime pcb) then pcb\<lparr>pcb_rtime := pcb_rtime pcb + 1\<rparr> else pcb);
     if pcb_unacked pcb1 \<noteq> [] \<and> sint (pcb_rto pcb1) \<le> sint (pcb_rtime pcb1) then do {
       pcb2 \<leftarrow> slowtmr_rto pcb1;
       tcp_rexmit_rto env pcb2 s
     }
     else Some (pcb1, s)
   }"

text \<open>
  The checks of one active connection: whether it is to be removed, whether with a reset, and what
  was sent meanwhile. Times are in ticks of 500 ms.
\<close>

definition idle_ticks :: "tcp_pcb \<Rightarrow> 'a sys_scheme \<Rightarrow> u32" where
  "idle_ticks pcb s = sy_ticks s - pcb_tmr pcb"

definition slowtmr_keepalive :: "env \<Rightarrow> tcp_pcb \<Rightarrow> 'a sys_scheme \<Rightarrow> (bool \<times> tcp_pcb \<times> 'a sys_scheme) option" where
  "slowtmr_keepalive env pcb s =
     (if pcb_state pcb = ESTABLISHED \<or> pcb_state pcb = CLOSE_WAIT then
        (if (unat (pcb_keep_idle pcb) + 675000) div 500 < unat (idle_ticks pcb s) then Some (True, pcb, s)
         else if (unat (pcb_keep_idle pcb) + unat (pcb_keep_cnt_sent pcb) * 75000) div 500 < unat (idle_ticks pcb s)
         then do {
           (err, pcb1, s1) \<leftarrow> tcp_keepalive env pcb s;
           Some (False, if err = ERR_OK then pcb1\<lparr>pcb_keep_cnt_sent := pcb_keep_cnt_sent pcb1 + 1\<rparr> else pcb1, s1)
         }
         else Some (False, pcb, s))
      else Some (False, pcb, s))"

definition slowtmr_ooseq :: "tcp_pcb \<Rightarrow> 'a sys_scheme \<Rightarrow> (tcp_pcb \<times> 'a sys_scheme) option" where
  "slowtmr_ooseq pcb s =
     (if pcb_ooseq pcb \<noteq> [] \<and> of_int (sint (pcb_rto pcb)) * 6 \<le> idle_ticks pcb s then do {
        s1 \<leftarrow> tcp_segs_free (pcb_ooseq pcb) s;
        Some (pcb\<lparr>pcb_ooseq := []\<rparr>, s1)
      }
      else Some (pcb, s))"

definition slowtmr_check :: "env \<Rightarrow> tcp_pcb \<Rightarrow> 'a sys_scheme \<Rightarrow> ((bool \<times> bool) \<times> tcp_pcb \<times> 'a sys_scheme) option" where
  "slowtmr_check env pcb s = do {
     let given_up = (pcb_state pcb = SYN_SENT \<and> pcb_nrtx pcb = TCP_SYNMAXRTX \<or> pcb_nrtx pcb = TCP_MAXRTX);
     (pcb1, s1) \<leftarrow> (if given_up then Some (pcb, s)
                   else if pcb_persist_backoff pcb > 0 then slowtmr_persist env pcb s
                   else slowtmr_rexmit env pcb s);
     let fin_wait = (pcb_state pcb1 = FIN_WAIT_2 \<and> has_flag TF_RXCLOSED pcb1 \<and> 40 < idle_ticks pcb1 s1);
     (dead, pcb2, s2) \<leftarrow> slowtmr_keepalive env pcb1 s1;
     (pcb3, s3) \<leftarrow> slowtmr_ooseq pcb2 s2;
     let syn_rcvd = (pcb_state pcb3 = SYN_RCVD \<and> 40 < idle_ticks pcb3 s3);
     let last_ack = (pcb_state pcb3 = LAST_ACK \<and> 240 < idle_ticks pcb3 s3);
     Some ((given_up \<or> fin_wait \<or> dead \<or> syn_rcvd \<or> last_ack, dead), pcb3, s3)
   }"

text \<open>
  How a connection \<open>a\<close> leaves the active list in this loop: \<open>prev->next\<close> becomes the rest of the list behind \<open>a\<close>,
  so whatever stands between \<open>prev\<close> and \<open>a\<close> leaves the list as well. \<open>prev\<close> is not always the predecessor of \<open>a\<close>: the
  loop does not advance it over the connections it skips.
\<close>

fun unlink_after :: "nat \<Rightarrow> nat \<Rightarrow> nat list \<Rightarrow> nat list" where
  "unlink_after b a [] = []"
| "unlink_after b a (c # cs) = (if c = b then c # tl (dropWhile (\<lambda>x. x \<noteq> a) cs) else c # unlink_after b a cs)"

definition active_unlink :: "nat option \<Rightarrow> nat \<Rightarrow> lw \<Rightarrow> lw" where
  "active_unlink prev a s =
     s\<lparr>lw_lists := (lw_lists s)(L_ACTIVE := (case prev of Some b \<Rightarrow> unlink_after b a (lw_lists s L_ACTIVE)
                                                 | None \<Rightarrow> tl (lw_lists s L_ACTIVE)))\<rparr>"

text \<open>
  The removal: the connection is purged, unlinked, reset if asked for, freed, and then its error callback is called. The assertions say
  that it is the first of the list exactly when there is no \<open>prev\<close>.
\<close>

definition slowtmr_remove :: "env \<Rightarrow> app \<Rightarrow> nat option \<Rightarrow> bool \<Rightarrow> nat \<Rightarrow> tcp_pcb \<Rightarrow> lw \<Rightarrow> lw option" where
  "slowtmr_remove env app prev reset a p s = do {
     (p1, s1) \<leftarrow> tcp_pcb_purge p s;
     lwip_assert ((prev \<noteq> None) \<noteq> (hd (lw_lists s1 L_ACTIVE) = a));
     let s2 = active_unlink prev a s1;
     s3 \<leftarrow> (if reset then pcb_rst env p1 s2 else Some s2);
     TCP_EVENT_ERR app (pcb_errf p1) (pcb_callback_arg p1) ERR_ABRT ((pcb_free a s3)\<lparr>lw_active_changed := False\<rparr>)
   }"

text \<open>
  The loop over the active connections. \<open>prev\<close> is the last one that was processed and kept and \<open>todo\<close> the rest
  of the list; a callback that changes the list restarts the loop, which skips what it has seen.
\<close>

partial_function (option) slowtmr_active :: "env \<Rightarrow> app \<Rightarrow> nat option \<Rightarrow> nat list \<Rightarrow> lw \<Rightarrow> lw option" where
  "slowtmr_active env app prev todo s =
     (case todo of
        [] \<Rightarrow> Some s
      | a # rest \<Rightarrow>
          Option.bind (lw_pcbs s a) (\<lambda>p.
          if pcb_state p = CLOSED \<or> pcb_state p = LISTEN \<or> pcb_state p = TIME_WAIT then None
          else if pcb_last_timer p = lw_timer_ctr s then slowtmr_active env app prev rest s
          else
            Option.bind (slowtmr_check env (p\<lparr>pcb_last_timer := lw_timer_ctr s\<rparr>) s) (\<lambda>((remove, reset), p1, s1).
            if remove then
              Option.bind (slowtmr_remove env app prev reset a p1 s1) (\<lambda>s2.
              if lw_active_changed s2 then slowtmr_active env app None (lw_lists s2 L_ACTIVE) s2
              else slowtmr_active env app prev rest s2)
            else
              (let p2 = p1\<lparr>pcb_polltmr := pcb_polltmr p1 + 1\<rparr> in
               if pcb_pollinterval p2 \<le> pcb_polltmr p2 then
                 Option.bind (TCP_EVENT_POLL app a ((pcb_put (p2\<lparr>pcb_polltmr := 0\<rparr>) s1)\<lparr>lw_active_changed := False\<rparr>)) (\<lambda>(err, s2).
                 if lw_active_changed s2 then slowtmr_active env app None (lw_lists s2 L_ACTIVE) s2
                 else if err = ERR_OK then
                   Option.bind (at_pcb a (tcp_output env) s2) (\<lambda>(_, s3). slowtmr_active env app (Some a) rest s3)
                 else slowtmr_active env app (Some a) rest s2)
               else slowtmr_active env app (Some a) rest (pcb_put p2 s1)))))"

text \<open>The second loop removes the connections that have been in TIME-WAIT long enough.\<close>

fun slowtmr_tw :: "nat option \<Rightarrow> nat list \<Rightarrow> lw \<Rightarrow> lw option" where
  "slowtmr_tw prev [] s = Some s"
| "slowtmr_tw prev (a # rest) s = do {
     p \<leftarrow> lw_pcbs s a;
     lwip_assert (pcb_state p = TIME_WAIT);
     if 240 < idle_ticks p s then do {
       (p1, s1) \<leftarrow> tcp_pcb_purge p s;
       lwip_assert ((prev \<noteq> None) \<noteq> (hd (lw_lists s1 L_TW) = a));
       slowtmr_tw prev rest (pcb_free a (TCP_RMV L_TW a s1))
     }
     else slowtmr_tw (Some a) rest s
   }"

definition tcp_slowtmr :: "env \<Rightarrow> app \<Rightarrow> lw \<Rightarrow> lw option" where
  "tcp_slowtmr env app s = do {
     let s1 = s\<lparr>sy_ticks := sy_ticks s + 1, lw_timer_ctr := lw_timer_ctr s + 1\<rparr>;
     s2 \<leftarrow> slowtmr_active env app None (lw_lists s1 L_ACTIVE) s1;
     slowtmr_tw None (lw_lists s2 L_TW) s2
   }"

section \<open>The fast timer\<close>

partial_function (option) fasttmr_active :: "env \<Rightarrow> app \<Rightarrow> nat list \<Rightarrow> lw \<Rightarrow> lw option" where
  "fasttmr_active env app todo s =
     (case todo of
        [] \<Rightarrow> Some s
      | a # rest \<Rightarrow>
          Option.bind (lw_pcbs s a) (\<lambda>p.
          if pcb_last_timer p = lw_timer_ctr s then fasttmr_active env app rest s
          else
            (let p1 = p\<lparr>pcb_last_timer := lw_timer_ctr s\<rparr> in
             Option.bind
               (if has_flag TF_ACK_DELAY p1 then
                  map_option (\<lambda>(_, p2, s2). (clear_flag (TF_ACK_DELAY OR TF_ACK_NOW) p2, s2))
                    (tcp_output env (tcp_ack_now p1) s)
                else Some (p1, s)) (\<lambda>(p2, s2).
             if pcb_refused_data p2 \<noteq> [] then
               Option.bind (tcp_process_refused_data env app a ((pcb_put p2 s2)\<lparr>lw_active_changed := False\<rparr>)) (\<lambda>(_, s3).
               if lw_active_changed s3 then fasttmr_active env app (lw_lists s3 L_ACTIVE) s3
               else fasttmr_active env app rest s3)
             else fasttmr_active env app rest (pcb_put p2 s2)))))"

definition tcp_fasttmr :: "env \<Rightarrow> app \<Rightarrow> lw \<Rightarrow> lw option" where
  "tcp_fasttmr env app s =
     (let s1 = s\<lparr>lw_timer_ctr := lw_timer_ctr s + 1\<rparr> in fasttmr_active env app (lw_lists s1 L_ACTIVE) s1)"

fun txnow_loop :: "env \<Rightarrow> nat list \<Rightarrow> lw \<Rightarrow> lw option" where
  "txnow_loop env [] s = Some s"
| "txnow_loop env (a # rest) s = do {
     p \<leftarrow> lw_pcbs s a;
     s1 \<leftarrow> (if has_flag TF_NAGLEMEMERR p then map_option snd (at_pcb a (tcp_output env) s) else Some s);
     txnow_loop env rest s1
   }"

definition tcp_txnow :: "env \<Rightarrow> lw \<Rightarrow> lw option" where
  "tcp_txnow env s = txnow_loop env (lw_lists s L_ACTIVE) s"

definition tcp_tmr :: "env \<Rightarrow> app \<Rightarrow> lw \<Rightarrow> lw option" where
  "tcp_tmr env app s = do {
     s1 \<leftarrow> tcp_fasttmr env app s;
     let s2 = s1\<lparr>lw_timer := lw_timer s1 + 1\<rparr>;
     if lw_timer s2 AND 1 \<noteq> 0 then tcp_slowtmr env app s2 else Some s2
   }"

end
