(* ===== verification/Tcp_In.thy ===== *)
theory Tcp_In
  imports Tcp
begin

text \<open>
  \<^verbatim>\<open>src/tcp_in.c\<close>: parsing of the header and its options, demultiplexing, the state machine,
  acknowledgement processing, reassembly, and the delivery to the application.
\<close>

section \<open>The segment being processed\<close>

text \<open>
  The static variables of \<^verbatim>\<open>src/tcp_in.c\<close>, except \<open>recv_flags\<close>, which is \<open>lw_recv_flags\<close>. \<open>ti_hdr\<close> is
  the structure \<open>tcphdr\<close> points to (it is \<open>inseg.tcphdr\<close> as well), \<open>ti_p\<close> and \<open>ti_len\<close> are the members of
  \<open>inseg\<close>, \<open>ti_opts\<close> is the memory from \<open>tcphdr + TCP_HLEN\<close> on and \<open>ti_opt2\<close> what \<open>tcphdr_opt2\<close> points to.
\<close>

record tin =
  ti_hdr :: tcp_hdr
  ti_p :: "pbuf list"
  ti_len :: u16
  ti_hdroff :: int
  ti_opt1len :: u16
  ti_opts :: "u8 list"
  ti_opt2 :: "u8 list option"
  ti_seqno :: u32
  ti_ackno :: u32
  ti_flags :: u8
  ti_tcplen :: u16
  ti_recv_data :: "pbuf list"

definition inseg :: "tin \<Rightarrow> tcp_seg" where
  "inseg t = \<lparr>sg_addr = 0, sg_p = ti_p t, sg_len = ti_len t, sg_oversize_left = 0, sg_flags = 0,
              sg_hdr = ti_hdr t, sg_hdroff = ti_hdroff t\<rparr>"

definition in_flag :: "u8 \<Rightarrow> tin \<Rightarrow> bool" where
  "in_flag f t \<longleftrightarrow> ti_flags t AND f \<noteq> 0"

text \<open>\<open>TCPH_FLAGS(inseg.tcphdr)\<close>, which trimming may change while \<open>flags\<close> stays.\<close>

definition inseg_flag :: "u8 \<Rightarrow> tin \<Rightarrow> bool" where
  "inseg_flag f t \<longleftrightarrow> TCPH_FLAGS (ti_hdr t) AND f \<noteq> 0"

definition set_tcplen :: "tin \<Rightarrow> tin" where
  "set_tcplen t = t\<lparr>ti_tcplen := ucast (TCP_TCPLEN (inseg t))\<rparr>"

section \<open>Options\<close>

definition tcp_getoptbyte :: "tin \<Rightarrow> u16 \<Rightarrow> u8 option" where
  "tcp_getoptbyte t optidx =
     (case ti_opt2 t of
        None \<Rightarrow> array_get (ti_opts t) (unat optidx)
      | Some opt2 \<Rightarrow>
          if optidx < ti_opt1len t then array_get (ti_opts t) (unat optidx)
          else array_get opt2 (unat (ucast (optidx - ti_opt1len t) :: u8)))"

text \<open>The loop over the options; \<open>optidx\<close> is \<open>tcp_optidx\<close>.\<close>

partial_function (option) parseopt_loop :: "tin \<Rightarrow> u16 \<Rightarrow> u16 \<Rightarrow> tcp_pcb \<Rightarrow> tcp_pcb option" where
  "parseopt_loop t max_c optidx pcb =
     (if optidx < max_c then
        Option.bind (tcp_getoptbyte t optidx) (\<lambda>opt.
        if opt = 0 then Some pcb
        else if opt = 1 then parseopt_loop t max_c (optidx + 1) pcb
        else if opt = 2 then
          Option.bind (tcp_getoptbyte t (optidx + 1)) (\<lambda>len.
          if len \<noteq> 4 \<or> int (unat max_c) < int (unat (optidx + 2)) - 2 + 4 then Some pcb
          else
            Option.bind (tcp_getoptbyte t (optidx + 2)) (\<lambda>hi.
            Option.bind (tcp_getoptbyte t (optidx + 3)) (\<lambda>lo.
            let mss = (push_bit 8 (ucast hi) OR ucast lo :: u16)
            in parseopt_loop t max_c (optidx + 4)
                 (pcb\<lparr>pcb_mss := if TCP_MSS < mss \<or> mss = 0 then TCP_MSS else mss\<rparr>))))
        else
          Option.bind (tcp_getoptbyte t (optidx + 1)) (\<lambda>data.
          if data < 2 then Some pcb
          else parseopt_loop t max_c (optidx + 2 + (ucast data - 2)) pcb))
      else Some pcb)"

definition tcp_parseopt :: "tin \<Rightarrow> tcp_pcb \<Rightarrow> tcp_pcb option" where
  "tcp_parseopt t pcb =
     (if 5 < TCPH_HDRLEN (ti_hdr t)
      then parseopt_loop t (push_bit 2 (TCPH_HDRLEN (ti_hdr t) - 5)) 0 pcb
      else Some pcb)"

section \<open>Acknowledgements\<close>

text \<open>The update of the send window, with the persist timer.\<close>

definition receive_window :: "tin \<Rightarrow> tcp_pcb \<Rightarrow> tcp_pcb" where
  "receive_window t pcb =
     (let seqno = ti_seqno t; ackno = ti_ackno t; wnd = th_wnd (ti_hdr t) in
      if TCP_SEQ_LT (pcb_snd_wl1 pcb) seqno \<or>
         (pcb_snd_wl1 pcb = seqno \<and> TCP_SEQ_LT (pcb_snd_wl2 pcb) ackno) \<or>
         (pcb_snd_wl2 pcb = ackno \<and> pcb_snd_wnd pcb < wnd)
      then
        (let pcb1 = pcb\<lparr>pcb_snd_wnd := wnd,
                        pcb_snd_wnd_max := if pcb_snd_wnd_max pcb < wnd then wnd else pcb_snd_wnd_max pcb,
                        pcb_snd_wl1 := seqno, pcb_snd_wl2 := ackno\<rparr>
         in if wnd = 0 then
              (if pcb_persist_backoff pcb1 = 0 then pcb1\<lparr>pcb_persist_cnt := 0, pcb_persist_backoff := 1\<rparr> else pcb1)
            else if pcb_persist_backoff pcb1 > 0 then pcb1\<lparr>pcb_persist_backoff := 0\<rparr>
            else pcb1)
      else pcb)"

definition cwnd_grow :: "tcp_pcb \<Rightarrow> tcp_pcb" where
  "cwnd_grow pcb = (if pcb_cwnd pcb < pcb_cwnd pcb + pcb_mss pcb then pcb\<lparr>pcb_cwnd := pcb_cwnd pcb + pcb_mss pcb\<rparr> else pcb)"

text \<open>An acknowledgement of nothing new; \<open>right_wnd_edge\<close> is the edge before the update.\<close>

definition receive_dupack :: "tin \<Rightarrow> u32 \<Rightarrow> tcp_pcb \<Rightarrow> tcp_pcb" where
  "receive_dupack t right_wnd_edge pcb =
     (if ti_tcplen t = 0 \<and> pcb_snd_wl2 pcb + ucast (pcb_snd_wnd pcb) = right_wnd_edge \<and>
         0 \<le> sint (pcb_rtime pcb) \<and> pcb_lastack pcb = ti_ackno t
      then
        (let pcb1 = (if pcb_dupacks pcb < pcb_dupacks pcb + 1 then pcb\<lparr>pcb_dupacks := pcb_dupacks pcb + 1\<rparr> else pcb)
         in if 3 < pcb_dupacks pcb1 then cwnd_grow pcb1
            else if pcb_dupacks pcb1 = 3 then tcp_rexmit_fast pcb1
            else pcb1)
      else pcb\<lparr>pcb_dupacks := 0\<rparr>)"

text \<open>
  The congestion window when new data is acknowledged: slow start, then congestion avoidance. The
  division by a window of 0 is undefined.
\<close>

definition cwnd_on_ack :: "tcp_pcb \<Rightarrow> tcp_pcb option" where
  "cwnd_on_ack pcb =
     (if ESTABLISHED \<le> pcb_state pcb then
        (if pcb_cwnd pcb < pcb_ssthresh pcb then Some (cwnd_grow pcb)
         else do {
           lwip_assert (pcb_cwnd pcb \<noteq> 0);
           let new_cwnd = of_nat (unat (pcb_cwnd pcb) + unat (pcb_mss pcb) * unat (pcb_mss pcb) div unat (pcb_cwnd pcb));
           Some (if pcb_cwnd pcb < new_cwnd then pcb\<lparr>pcb_cwnd := new_cwnd\<rparr> else pcb)
         })
      else Some pcb)"

text \<open>Removal of an acknowledged segment that was just taken off its queue.\<close>

definition ack_seg :: "tcp_seg \<Rightarrow> tcp_pcb \<Rightarrow> 'a sys_scheme \<Rightarrow> (tcp_pcb \<times> 'a sys_scheme) option" where
  "ack_seg seg pcb s = do {
     lwip_assert (ucast (pbuf_clen (sg_p seg)) \<le> pcb_snd_queuelen pcb);
     let pcb1 = (if pcb_acked pcb \<noteq> 0 \<and> TCPH_FLAGS (sg_hdr seg) AND TCP_FIN \<noteq> 0
                 then pcb\<lparr>pcb_acked := pcb_acked pcb - 1\<rparr> else pcb);
     let pcb2 = pcb1\<lparr>pcb_snd_queuelen := pcb_snd_queuelen pcb1 - ucast (pbuf_clen (sg_p seg))\<rparr>;
     s1 \<leftarrow> tcp_seg_free seg s;
     lwip_assert (pcb_snd_queuelen pcb2 \<noteq> 0 \<longrightarrow> pcb_unacked pcb2 \<noteq> [] \<or> pcb_unsent pcb2 \<noteq> []);
     Some (pcb2, s1)
   }"

fun ack_unacked :: "u32 \<Rightarrow> tcp_seg list \<Rightarrow> tcp_pcb \<Rightarrow> 'a sys_scheme \<Rightarrow> (tcp_pcb \<times> 'a sys_scheme) option" where
  "ack_unacked ackno [] pcb s = Some (pcb, s)"
| "ack_unacked ackno (seg # rest) pcb s =
     (if TCP_SEQ_LEQ (seg_seqno seg + TCP_TCPLEN seg) ackno then do {
        (pcb1, s1) \<leftarrow> ack_seg seg (pcb\<lparr>pcb_unacked := rest\<rparr>) s;
        ack_unacked ackno rest pcb1 s1
      }
      else Some (pcb, s))"

fun ack_unsent :: "u32 \<Rightarrow> tcp_seg list \<Rightarrow> tcp_pcb \<Rightarrow> 'a sys_scheme \<Rightarrow> (tcp_pcb \<times> 'a sys_scheme) option" where
  "ack_unsent ackno [] pcb s = Some (pcb, s)"
| "ack_unsent ackno (seg # rest) pcb s =
     (if TCP_SEQ_BETWEEN ackno (seg_seqno seg + TCP_TCPLEN seg) (pcb_snd_nxt pcb) then do {
        let pcb1 = pcb\<lparr>pcb_unsent := rest,
                       pcb_unsent_oversize := if rest = [] then 0 else pcb_unsent_oversize pcb\<rparr>;
        (pcb2, s1) \<leftarrow> ack_seg seg pcb1 s;
        ack_unsent ackno rest pcb2 s1
      }
      else Some (pcb, s))"

text \<open>An acknowledgement of new data.\<close>

definition receive_new_ack :: "tin \<Rightarrow> tcp_pcb \<Rightarrow> 'a sys_scheme \<Rightarrow> (tcp_pcb \<times> 'a sys_scheme) option" where
  "receive_new_ack t pcb s = do {
     let pcb1 = (if has_flag TF_INFR pcb then (clear_flag TF_INFR pcb)\<lparr>pcb_cwnd := pcb_ssthresh pcb\<rparr> else pcb);
     let acked = ucast (ti_ackno t - pcb_lastack pcb1);
     let pcb2 = pcb1\<lparr>pcb_nrtx := 0, pcb_rto := of_int (sint (pcb_sa pcb1) div 8) + pcb_sv pcb1,
                     pcb_acked := acked, pcb_snd_buf := pcb_snd_buf pcb1 + acked, pcb_dupacks := 0,
                     pcb_lastack := ti_ackno t\<rparr>;
     pcb3 \<leftarrow> cwnd_on_ack pcb2;
     (pcb4, s1) \<leftarrow> ack_unacked (ti_ackno t) (pcb_unacked pcb3) pcb3 s;
     Some (pcb4\<lparr>pcb_rtime := if pcb_unacked pcb4 = [] then - 1 else 0, pcb_polltmr := 0\<rparr>, s1)
   }"

text \<open>Round-trip time estimation after Van Jacobson; all values are of type \<open>s16_t\<close>.\<close>

definition receive_rtt :: "tin \<Rightarrow> u32 \<Rightarrow> tcp_pcb \<Rightarrow> tcp_pcb" where
  "receive_rtt t ticks pcb =
     (if pcb_rttest pcb \<noteq> 0 \<and> TCP_SEQ_LT (pcb_rtseq pcb) (ti_ackno t) then
        (let m0 = (ucast (ticks - pcb_rttest pcb) :: s16);
             m1 = m0 - of_int (sint (pcb_sa pcb) div 8);
             sa = pcb_sa pcb + m1;
             m2 = (if sint m1 < 0 then - m1 else m1);
             m3 = m2 - of_int (sint (pcb_sv pcb) div 4);
             sv = pcb_sv pcb + m3
         in pcb\<lparr>pcb_sa := sa, pcb_sv := sv, pcb_rto := of_int (sint sa div 8) + sv, pcb_rttest := 0\<rparr>)
      else pcb)"

definition receive_ack :: "env \<Rightarrow> tin \<Rightarrow> tcp_pcb \<Rightarrow> 'a sys_scheme \<Rightarrow> (tcp_pcb \<times> 'a sys_scheme) option" where
  "receive_ack env t pcb s =
     (if in_flag TCP_ACK t then do {
        let right_wnd_edge = ucast (pcb_snd_wnd pcb) + pcb_snd_wl2 pcb;
        let pcb1 = receive_window t pcb;
        (pcb2, s1) \<leftarrow>
          (if TCP_SEQ_LEQ (ti_ackno t) (pcb_lastack pcb1) then
             Some (receive_dupack t right_wnd_edge (pcb1\<lparr>pcb_acked := 0\<rparr>), s)
           else if TCP_SEQ_BETWEEN (ti_ackno t) (pcb_lastack pcb1 + 1) (pcb_snd_nxt pcb1) then
             receive_new_ack t pcb1 s
           else do {
             (_, pcb2, s1) \<leftarrow> tcp_send_empty_ack env (pcb1\<lparr>pcb_acked := 0\<rparr>) s;
             Some (pcb2, s1)
           });
        (pcb3, s2) \<leftarrow> ack_unsent (ti_ackno t) (pcb_unsent pcb2) pcb2 s1;
        Some (receive_rtt t (sy_ticks s2) pcb3, s2)
      }
      else Some (pcb, s))"

section \<open>Data\<close>

text \<open>
  Trimming of the left edge: the buffers that hold only old data become empty, and the payload of
  the first other one is moved. \<open>off\<close> is of type \<open>s32_t\<close>.
\<close>

fun trim_left_loop :: "int \<Rightarrow> u16 \<Rightarrow> pbuf list \<Rightarrow> pbuf list option" where
  "trim_left_loop off new_tot_len [] = None"
| "trim_left_loop off new_tot_len (p # ps) =
     (if int (unat (pb_len p)) < off then do {
        ps' \<leftarrow> trim_left_loop (off - int (unat (pb_len p))) new_tot_len ps;
        Some (p\<lparr>pb_tot_len := new_tot_len, pb_len := 0\<rparr> # ps')
      }
      else do {
        (failed, ps') \<leftarrow> pbuf_header (p # ps) (of_int (- off));
        lwip_assert (failed = 0);
        Some ps'
      })"

definition receive_trim_left :: "tin \<Rightarrow> tcp_pcb \<Rightarrow> (tin \<times> tcp_pcb) option" where
  "receive_trim_left t pcb =
     (if TCP_SEQ_BETWEEN (pcb_rcv_nxt pcb) (ti_seqno t + 1) (ti_seqno t + ucast (ti_tcplen t) - 1) then do {
        let off = sint (pcb_rcv_nxt pcb - ti_seqno t);
        lwip_assert (ti_p t \<noteq> []);
        lwip_assert (off < 0x7fff);
        let q = hd (ti_p t);
        lwip_assert (int (unat (pb_len q)) < off \<longrightarrow> off \<le> int (unat (pb_tot_len q)));
        p \<leftarrow> trim_left_loop off (of_int (int (unat (pb_tot_len q)) - off)) (ti_p t);
        Some (t\<lparr>ti_p := p, ti_len := ti_len t - ucast (pcb_rcv_nxt pcb - ti_seqno t),
                ti_hdr := (ti_hdr t)\<lparr>th_seqno := pcb_rcv_nxt pcb\<rparr>, ti_seqno := pcb_rcv_nxt pcb\<rparr>, pcb)
      }
      else Some (t, if TCP_SEQ_LT (ti_seqno t) (pcb_rcv_nxt pcb) then tcp_ack_now pcb else pcb))"

text \<open>Trimming of an in-sequence segment that overruns the receive window.\<close>

definition receive_trim_right :: "tin \<Rightarrow> tcp_pcb \<Rightarrow> 'a sys_scheme \<Rightarrow> (tin \<times> 'a sys_scheme) option" where
  "receive_trim_right t pcb s =
     (if pcb_rcv_wnd pcb < ti_tcplen t then do {
        let t1 = (if inseg_flag TCP_FIN t
                  then t\<lparr>ti_hdr := TCPH_FLAGS_SET (TCPH_FLAGS (ti_hdr t) AND NOT TCP_FIN) (ti_hdr t)\<rparr> else t);
        let len = (if inseg_flag TCP_SYN t1 then pcb_rcv_wnd pcb - 1 else pcb_rcv_wnd pcb);
        (p, s1) \<leftarrow> pbuf_realloc (ti_p t1) len s;
        let t2 = set_tcplen (t1\<lparr>ti_len := len, ti_p := p\<rparr>);
        lwip_assert (ti_seqno t2 + ucast (ti_tcplen t2) = pcb_rcv_nxt pcb + ucast (pcb_rcv_wnd pcb));
        Some (t2, s1)
      }
      else Some (t, s))"

text \<open>Removal of the queued segments that the incoming one covers; a FIN among them is kept.\<close>

fun ooseq_covered :: "tin \<Rightarrow> tcp_seg list \<Rightarrow> 'a sys_scheme \<Rightarrow> (tin \<times> tcp_seg list \<times> 'a sys_scheme) option" where
  "ooseq_covered t [] s = Some (t, [], s)"
| "ooseq_covered t (next # rest) s =
     (if TCP_SEQ_GEQ (ti_seqno t + ucast (ti_tcplen t)) (seg_seqno next + ucast (sg_len next)) then do {
        let t1 = (if TCPH_FLAGS (sg_hdr next) AND TCP_FIN \<noteq> 0 \<and> \<not> inseg_flag TCP_SYN t
                  then set_tcplen (t\<lparr>ti_hdr := TCPH_SET_FLAG TCP_FIN (ti_hdr t)\<rparr>) else t);
        s1 \<leftarrow> tcp_seg_free next s;
        ooseq_covered t1 rest s1
      }
      else Some (t, next # rest, s))"

text \<open>The adjustment of the out-of-sequence queue to an in-sequence segment.\<close>

definition receive_adjust_ooseq :: "tin \<Rightarrow> tcp_pcb \<Rightarrow> 'a sys_scheme \<Rightarrow> (tin \<times> tcp_pcb \<times> 'a sys_scheme) option" where
  "receive_adjust_ooseq t pcb s =
     (if pcb_ooseq pcb = [] then Some (t, pcb, s)
      else if inseg_flag TCP_FIN t then do {
        s1 \<leftarrow> tcp_segs_free (pcb_ooseq pcb) s;
        Some (t, pcb\<lparr>pcb_ooseq := []\<rparr>, s1)
      }
      else do {
        (t1, rest, s1) \<leftarrow> ooseq_covered t (pcb_ooseq pcb) s;
        (case rest of
           [] \<Rightarrow> Some (t1, pcb\<lparr>pcb_ooseq := []\<rparr>, s1)
         | next # _ \<Rightarrow>
             if TCP_SEQ_GT (ti_seqno t1 + ucast (ti_tcplen t1)) (seg_seqno next) then do {
               let len = ucast (seg_seqno next - ti_seqno t1) - (if inseg_flag TCP_SYN t1 then 1 else 0);
               (p, s2) \<leftarrow> pbuf_realloc (ti_p t1) len s1;
               let t2 = set_tcplen (t1\<lparr>ti_len := len, ti_p := p\<rparr>);
               lwip_assert (ti_seqno t2 + ucast (ti_tcplen t2) = seg_seqno next);
               Some (t2, pcb\<lparr>pcb_ooseq := rest\<rparr>, s2)
             }
             else Some (t1, pcb\<lparr>pcb_ooseq := rest\<rparr>, s1))
      })"

definition got_fin :: "lw \<Rightarrow> lw" where
  "got_fin s = s\<lparr>lw_recv_flags := lw_recv_flags s OR TF_GOT_FIN\<rparr>"

text \<open>The advance of the receive window over a segment of \<open>n\<close> sequence numbers.\<close>

definition receive_advance :: "u32 \<Rightarrow> u32 \<Rightarrow> tcp_pcb \<Rightarrow> tcp_pcb option" where
  "receive_advance rcv_nxt n pcb = do {
     lwip_assert (n \<le> ucast (pcb_rcv_wnd pcb));
     (_, pcb1) \<leftarrow> tcp_update_rcv_ann_wnd (pcb\<lparr>pcb_rcv_nxt := rcv_nxt, pcb_rcv_wnd := pcb_rcv_wnd pcb - ucast n\<rparr>);
     Some pcb1
   }"

text \<open>The queued segments that are now in sequence are appended to the data for the application.\<close>

fun ooseq_deliver :: "tcp_seg list \<Rightarrow> tin \<Rightarrow> tcp_pcb \<Rightarrow> lw \<Rightarrow> (tin \<times> tcp_pcb \<times> lw) option" where
  "ooseq_deliver [] t pcb s = Some (t, pcb, s)"
| "ooseq_deliver (cseg # rest) t pcb s =
     (if seg_seqno cseg = pcb_rcv_nxt pcb then do {
        pcb1 \<leftarrow> receive_advance (pcb_rcv_nxt pcb + TCP_TCPLEN cseg) (TCP_TCPLEN cseg) pcb;
        lwip_assert (sg_p cseg \<noteq> []);
        (t1, cseg1) \<leftarrow>
          (if 0 < pb_tot_len (hd (sg_p cseg)) then do {
             d \<leftarrow> (if ti_recv_data t \<noteq> [] then pbuf_cat (ti_recv_data t) (sg_p cseg) else Some (sg_p cseg));
             Some (t\<lparr>ti_recv_data := d, ti_seqno := seg_seqno cseg\<rparr>, cseg\<lparr>sg_p := []\<rparr>)
           } else Some (t\<lparr>ti_seqno := seg_seqno cseg\<rparr>, cseg));
        let fin = (TCPH_FLAGS (sg_hdr cseg) AND TCP_FIN \<noteq> 0);
        let s1 = (if fin then got_fin s else s);
        let pcb2 = (if fin \<and> pcb_state pcb1 = ESTABLISHED then pcb1\<lparr>pcb_state := CLOSE_WAIT\<rparr> else pcb1);
        s2 \<leftarrow> tcp_seg_free cseg1 s1;
        ooseq_deliver rest t1 (pcb2\<lparr>pcb_ooseq := rest\<rparr>) s2
      }
      else Some (t, pcb, s))"

definition receive_in_sequence :: "tin \<Rightarrow> tcp_pcb \<Rightarrow> lw \<Rightarrow> (tin \<times> tcp_pcb \<times> lw) option" where
  "receive_in_sequence t pcb s = do {
     (t1, s1) \<leftarrow> receive_trim_right (set_tcplen t) pcb s;
     (t2, pcb1, s2) \<leftarrow> receive_adjust_ooseq t1 pcb s1;
     pcb2 \<leftarrow> receive_advance (ti_seqno t2 + ucast (ti_tcplen t2)) (ucast (ti_tcplen t2)) pcb1;
     lwip_assert (ti_p t2 \<noteq> []);
     let t3 = (if 0 < pb_tot_len (hd (ti_p t2)) then t2\<lparr>ti_recv_data := ti_p t2, ti_p := []\<rparr> else t2);
     let s3 = (if inseg_flag TCP_FIN t3 then got_fin s2 else s2);
     (t4, pcb3, s4) \<leftarrow> ooseq_deliver (pcb_ooseq pcb2) t3 pcb2 s3;
     Some (t4, tcp_ack pcb3, s4)
   }"

section \<open>The out-of-sequence queue\<close>

text \<open>
  A copy of \<open>inseg\<close> shares its buffers (counted by \<open>pbuf_ref\<close>) and its header. What is done to
  them through the copy is not reflected in \<open>ti_p\<close> and \<open>ti_hdr\<close>: after the insertion these are only used to
  give up the reference to the first buffer.
\<close>

fun oos_cover :: "u32 \<Rightarrow> tcp_seg \<Rightarrow> tcp_seg list \<Rightarrow> 'a sys_scheme \<Rightarrow> (tcp_seg \<times> tcp_seg list \<times> 'a sys_scheme) option" where
  "oos_cover seqno cseg [] s = Some (cseg, [], s)"
| "oos_cover seqno cseg (next # rest) s =
     (if TCP_SEQ_GEQ (seqno + ucast (sg_len cseg)) (seg_seqno next + ucast (sg_len next)) then do {
        let cseg1 = (if TCPH_FLAGS (sg_hdr next) AND TCP_FIN \<noteq> 0 then seg_set_flag TCP_FIN cseg else cseg);
        s1 \<leftarrow> tcp_seg_free next s;
        oos_cover seqno cseg1 rest s1
      }
      else Some (cseg, next # rest, s))"

text \<open>\<open>cseg->len = len; pbuf_realloc(cseg->p, cseg->len)\<close>.\<close>

definition seg_trim :: "u16 \<Rightarrow> tcp_seg \<Rightarrow> 'a sys_scheme \<Rightarrow> (tcp_seg \<times> 'a sys_scheme) option" where
  "seg_trim len seg s = do {
     (p, s1) \<leftarrow> pbuf_realloc (sg_p seg) len s;
     Some (seg\<lparr>sg_len := len, sg_p := p\<rparr>, s1)
   }"

definition tcp_oos_insert_segment :: "u32 \<Rightarrow> tcp_seg \<Rightarrow> tcp_seg list \<Rightarrow> 'a sys_scheme \<Rightarrow> (tcp_seg list \<times> 'a sys_scheme) option" where
  "tcp_oos_insert_segment seqno cseg next s =
     (if TCPH_FLAGS (sg_hdr cseg) AND TCP_FIN \<noteq> 0 then do {
        s1 \<leftarrow> tcp_segs_free next s;
        Some ([cseg], s1)
      }
      else do {
        (cseg1, rest, s1) \<leftarrow> oos_cover seqno cseg next s;
        (case rest of
           [] \<Rightarrow> Some ([cseg1], s1)
         | n # _ \<Rightarrow>
             if TCP_SEQ_GT (seqno + ucast (sg_len cseg1)) (seg_seqno n) then do {
               (cseg2, s2) \<leftarrow> seg_trim (ucast (seg_seqno n - seqno)) cseg1 s1;
               Some (cseg2 # rest, s2)
             }
             else Some (cseg1 # rest, s1))
      })"

text \<open>
  The end of the queue: the incoming segment goes behind \<open>next\<close>, which gives way where they overlap,
  and is cut at \<open>edge\<close>, the right edge of the receive window.
\<close>

definition oos_append :: "tin \<Rightarrow> u32 \<Rightarrow> tcp_seg \<Rightarrow> 'a sys_scheme \<Rightarrow> (tcp_seg list \<times> tin \<times> 'a sys_scheme) option" where
  "oos_append t edge next s =
     (if TCPH_FLAGS (sg_hdr next) AND TCP_FIN \<noteq> 0 then Some ([next], t, s)
      else
        (case tcp_seg_copy (inseg t) s of
           (None, s1) \<Rightarrow> Some ([next], t, s1)
         | (Some cseg, s1) \<Rightarrow> do {
             (next1, s2) \<leftarrow>
               (if TCP_SEQ_GT (seg_seqno next + ucast (sg_len next)) (ti_seqno t)
                then seg_trim (ucast (ti_seqno t - seg_seqno next)) next s1 else Some (next, s1));
             if TCP_SEQ_GT (ucast (ti_tcplen t) + ti_seqno t) edge then do {
               let cseg1 = (if TCPH_FLAGS (sg_hdr cseg) AND TCP_FIN \<noteq> 0
                            then cseg\<lparr>sg_hdr := TCPH_FLAGS_SET (TCPH_FLAGS (sg_hdr cseg) AND NOT TCP_FIN) (sg_hdr cseg)\<rparr>
                            else cseg);
               (cseg2, s3) \<leftarrow> seg_trim (ucast (edge - ti_seqno t)) cseg1 s2;
               let t1 = t\<lparr>ti_tcplen := ucast (TCP_TCPLEN cseg2)\<rparr>;
               lwip_assert (ti_seqno t1 + ucast (ti_tcplen t1) = edge);
               Some ([next1, cseg2], t1, s3)
             }
             else Some ([next1, cseg], t, s2)
           }))"

text \<open>The walk along the queue; \<open>before\<close> has been passed, so its last segment is \<open>prev\<close>.\<close>

fun oos_walk :: "tin \<Rightarrow> u32 \<Rightarrow> tcp_seg list \<Rightarrow> tcp_seg list \<Rightarrow> 'a sys_scheme \<Rightarrow> (tcp_seg list \<times> tin \<times> 'a sys_scheme) option" where
  "oos_walk t edge before [] s = Some (before, t, s)"
| "oos_walk t edge before (next # rest) s =
     (if ti_seqno t = seg_seqno next then
        (if sg_len next < ti_len t then
           (case tcp_seg_copy (inseg t) s of
              (None, s1) \<Rightarrow> Some (before @ next # rest, t, s1)
            | (Some cseg, s1) \<Rightarrow> do {
                (q, s2) \<leftarrow> tcp_oos_insert_segment (ti_seqno t) cseg (next # rest) s1;
                Some (before @ q, t, s2)
              })
         else Some (before @ next # rest, t, s))
      else if before = [] \<and> TCP_SEQ_LT (ti_seqno t) (seg_seqno next) then
        (case tcp_seg_copy (inseg t) s of
           (None, s1) \<Rightarrow> Some (next # rest, t, s1)
         | (Some cseg, s1) \<Rightarrow> do {
             (q, s2) \<leftarrow> tcp_oos_insert_segment (ti_seqno t) cseg (next # rest) s1;
             Some (q, t, s2)
           })
      else if before \<noteq> [] \<and> TCP_SEQ_BETWEEN (ti_seqno t) (seg_seqno (last before) + 1) (seg_seqno next - 1) then
        (case tcp_seg_copy (inseg t) s of
           (None, s1) \<Rightarrow> Some (before @ next # rest, t, s1)
         | (Some cseg, s1) \<Rightarrow> do {
             let prev = last before;
             (prev1, s2) \<leftarrow>
               (if TCP_SEQ_GT (seg_seqno prev + ucast (sg_len prev)) (ti_seqno t)
                then seg_trim (ucast (ti_seqno t - seg_seqno prev)) prev s1 else Some (prev, s1));
             (q, s3) \<leftarrow> tcp_oos_insert_segment (ti_seqno t) cseg (next # rest) s2;
             Some (butlast before @ prev1 # q, t, s3)
           })
      else if rest = [] \<and> TCP_SEQ_GT (ti_seqno t) (seg_seqno next) then do {
        (q, t1, s1) \<leftarrow> oos_append t edge next s;
        Some (before @ q, t1, s1)
      }
      else oos_walk t edge (before @ [next]) rest s)"

definition receive_out_of_sequence :: "env \<Rightarrow> tin \<Rightarrow> tcp_pcb \<Rightarrow> 'a sys_scheme \<Rightarrow> (tin \<times> tcp_pcb \<times> 'a sys_scheme) option" where
  "receive_out_of_sequence env t pcb s = do {
     (_, pcb1, s1) \<leftarrow> tcp_send_empty_ack env pcb s;
     if pcb_ooseq pcb1 = [] then
       (case tcp_seg_copy (inseg t) s1 of
          (None, s2) \<Rightarrow> Some (t, pcb1, s2)
        | (Some cseg, s2) \<Rightarrow> Some (t, pcb1\<lparr>pcb_ooseq := [cseg]\<rparr>, s2))
     else do {
       (q, t1, s2) \<leftarrow> oos_walk t (pcb_rcv_nxt pcb1 + ucast (pcb_rcv_wnd pcb1)) [] (pcb_ooseq pcb1) s1;
       Some (t1, pcb1\<lparr>pcb_ooseq := q\<rparr>, s2)
     }
   }"

section \<open>tcp_receive\<close>

definition in_rcv_window :: "u32 \<Rightarrow> tcp_pcb \<Rightarrow> bool" where
  "in_rcv_window seqno pcb \<longleftrightarrow>
     TCP_SEQ_BETWEEN seqno (pcb_rcv_nxt pcb) (pcb_rcv_nxt pcb + ucast (pcb_rcv_wnd pcb) - 1)"

definition tcp_receive :: "env \<Rightarrow> tin \<Rightarrow> tcp_pcb \<Rightarrow> lw \<Rightarrow> (tin \<times> tcp_pcb \<times> lw) option" where
  "tcp_receive env t pcb s = do {
     lwip_assert (ESTABLISHED \<le> pcb_state pcb);
     (pcb1, s1) \<leftarrow> receive_ack env t pcb s;
     if 0 < ti_tcplen t \<and> pcb_state pcb1 < CLOSE_WAIT then do {
       (t1, pcb2) \<leftarrow> receive_trim_left t pcb1;
       if in_rcv_window (ti_seqno t1) pcb2 then
         (if pcb_rcv_nxt pcb2 = ti_seqno t1 then receive_in_sequence t1 pcb2 s1
          else receive_out_of_sequence env t1 pcb2 s1)
       else do {
         (_, pcb3, s2) \<leftarrow> tcp_send_empty_ack env pcb2 s1;
         Some (t1, pcb3, s2)
       }
     }
     else Some (t, if in_rcv_window (ti_seqno t) pcb1 then pcb1 else tcp_ack_now pcb1, s1)
   }"

section \<open>The state machine\<close>

definition TCP_EVENT_CONNECTED :: "app \<Rightarrow> nat \<Rightarrow> err_t \<Rightarrow> lw \<Rightarrow> (err_t \<times> lw) option" where
  "TCP_EVENT_CONNECTED app a err s = do {
     pcb \<leftarrow> lw_pcbs s a;
     (case pcb_connected pcb of Some f \<Rightarrow> app_connected app f (pcb_callback_arg pcb) a err s | None \<Rightarrow> Some (ERR_OK, s))
   }"

definition TCP_EVENT_SENT :: "app \<Rightarrow> nat \<Rightarrow> u16 \<Rightarrow> lw \<Rightarrow> (err_t \<times> lw) option" where
  "TCP_EVENT_SENT app a space s = do {
     pcb \<leftarrow> lw_pcbs s a;
     (case pcb_sent pcb of Some f \<Rightarrow> app_sent app f (pcb_callback_arg pcb) a space s | None \<Rightarrow> Some (ERR_OK, s))
   }"

text \<open>\<open>tcp_accept_null\<close>, the initial value of \<open>accept\<close>, refuses the connection.\<close>

definition TCP_EVENT_ACCEPT :: "app \<Rightarrow> nat \<Rightarrow> err_t \<Rightarrow> lw \<Rightarrow> (err_t \<times> lw) option" where
  "TCP_EVENT_ACCEPT app a err s = do {
     pcb \<leftarrow> lw_pcbs s a;
     (case pcb_accept pcb of
        Some f \<Rightarrow> if f = 0 then Some (ERR_ABRT, s) else app_accept app f (pcb_callback_arg pcb) a err s
      | None \<Rightarrow> Some (ERR_ARG, s))
   }"

definition LWIP_TCP_CALC_INITIAL_CWND :: "u16 \<Rightarrow> u16" where
  "LWIP_TCP_CALC_INITIAL_CWND mss = ucast (min (4 * ucast mss) (max (2 * ucast mss) (4380 :: u32)))"

text \<open>The reset sent in answer to the segment being processed.\<close>

definition input_rst :: "env \<Rightarrow> tin \<Rightarrow> tcp_pcb \<Rightarrow> 'a sys_scheme \<Rightarrow> 'a sys_scheme option" where
  "input_rst env t p s = tcp_rst env (ti_ackno t) (ti_seqno t + ucast (ti_tcplen t)) (pcb_remote_ip p)
     (pcb_connid1 p, pcb_connid2 p) (pcb_remote_udp_port p) s"

text \<open>The fields set when the SYN was acknowledged; \<open>cwnd\<close> follows from the MSS.\<close>

definition syn_acked :: "tin \<Rightarrow> tcp_pcb \<Rightarrow> tcp_pcb" where
  "syn_acked t p = p\<lparr>pcb_snd_buf := pcb_snd_buf p + 1, pcb_rcv_nxt := ti_seqno t + 1,
     pcb_rcv_ann_right_edge := ti_seqno t + 1, pcb_lastack := ti_ackno t,
     pcb_snd_wnd := th_wnd (ti_hdr t), pcb_snd_wnd_max := th_wnd (ti_hdr t),
     pcb_snd_wl1 := ti_seqno t - 1, pcb_state := ESTABLISHED, pcb_connid2 := th_connid2 (ti_hdr t),
     pcb_ssthresh := th_wnd (ti_hdr t), pcb_cwnd := LWIP_TCP_CALC_INITIAL_CWND (pcb_mss p)\<rparr>"

text \<open>
  The debug message printed first reads the sequence number of the first unacknowledged segment,
  so the queue must not be empty.
\<close>

definition process_syn_sent :: "env \<Rightarrow> app \<Rightarrow> tin \<Rightarrow> nat \<Rightarrow> lw \<Rightarrow> (err_t \<times> lw) option" where
  "process_syn_sent env app t a s = do {
     p \<leftarrow> lw_pcbs s a;
     (case pcb_unacked p of
        [] \<Rightarrow> None
      | rseg # rest \<Rightarrow>
          if in_flag TCP_ACK t \<and> in_flag TCP_SYN t \<and> ti_ackno t = seg_seqno rseg + 1 then do {
            let p1 = syn_acked t p;
            lwip_assert (0 < pcb_snd_queuelen p1);
            s1 \<leftarrow> tcp_seg_free rseg s;
            let p2 = p1\<lparr>pcb_snd_queuelen := pcb_snd_queuelen p1 - 1, pcb_unacked := rest,
                        pcb_rtime := if rest = [] then - 1 else 0,
                        pcb_nrtx := if rest = [] then pcb_nrtx p1 else 0\<rparr>;
            (err, s2) \<leftarrow> TCP_EVENT_CONNECTED app a ERR_OK (pcb_put p2 s1);
            if err = ERR_ABRT then Some (ERR_ABRT, s2)
            else do {
              p3 \<leftarrow> lw_pcbs s2 a;
              Some (ERR_OK, pcb_put (tcp_ack_now p3) s2)
            }
          }
          else if in_flag TCP_ACK t then do { s1 \<leftarrow> input_rst env t p s; Some (ERR_OK, s1) }
          else Some (ERR_OK, s))
   }"

definition process_syn_rcvd :: "env \<Rightarrow> app \<Rightarrow> tin \<Rightarrow> nat \<Rightarrow> lw \<Rightarrow> (err_t \<times> tin \<times> lw) option" where
  "process_syn_rcvd env app t a s = do {
     p \<leftarrow> lw_pcbs s a;
     if in_flag TCP_ACK t then
       (if TCP_SEQ_BETWEEN (ti_ackno t) (pcb_lastack p + 1) (pcb_snd_nxt p) then do {
          lwip_assert (pcb_accept p \<noteq> None);
          (err, s1) \<leftarrow> TCP_EVENT_ACCEPT app a ERR_OK (pcb_put (p\<lparr>pcb_state := ESTABLISHED\<rparr>) s);
          if err \<noteq> ERR_OK then do {
            s2 \<leftarrow> (if err \<noteq> ERR_ABRT then tcp_abort env app a s1 else Some s1);
            Some (ERR_ABRT, t, s2)
          }
          else do {
            (t1, s2) \<leftarrow> at_pcb a (tcp_receive env t) s1;
            p1 \<leftarrow> lw_pcbs s2 a;
            let p2 = p1\<lparr>pcb_ssthresh := pcb_snd_wnd p1,
                        pcb_acked := if pcb_acked p1 \<noteq> 0 then pcb_acked p1 - 1 else 0,
                        pcb_cwnd := LWIP_TCP_CALC_INITIAL_CWND (pcb_mss p1)\<rparr>;
            let p3 = (if lw_recv_flags s2 AND TF_GOT_FIN \<noteq> 0 then (tcp_ack_now p2)\<lparr>pcb_state := CLOSE_WAIT\<rparr> else p2);
            Some (ERR_OK, t1, pcb_put p3 s2)
          }
        }
        else do { s1 \<leftarrow> input_rst env t p s; Some (ERR_OK, t, s1) })
     else if in_flag TCP_SYN t \<and> ti_seqno t = pcb_rcv_nxt p - 1 then Some (ERR_OK, t, pcb_put (tcp_rexmit p) s)
     else Some (ERR_OK, t, s)
   }"

text \<open>The move of a connection from the active list to the TIME-WAIT list.\<close>

definition enter_timewait :: "nat \<Rightarrow> lw \<Rightarrow> lw option" where
  "enter_timewait a s = do {
     p \<leftarrow> lw_pcbs s a;
     (p1, s1) \<leftarrow> tcp_pcb_purge p s;
     Some (TCP_REG L_TW a (pcb_put (p1\<lparr>pcb_state := TIME_WAIT\<rparr>) (TCP_RMV_ACTIVE a s1)))
   }"

text \<open>
  The synchronised states: \<open>tcp_receive\<close>, then the transition for a FIN that was received and for an
  acknowledgement of everything that was sent.
\<close>

definition process_synchronised :: "env \<Rightarrow> tcp_state \<Rightarrow> tin \<Rightarrow> nat \<Rightarrow> lw \<Rightarrow> (tin \<times> lw) option" where
  "process_synchronised env state t a s = do {
     (t1, s1) \<leftarrow> at_pcb a (tcp_receive env t) s;
     p \<leftarrow> lw_pcbs s1 a;
     let fin = (lw_recv_flags s1 AND TF_GOT_FIN \<noteq> 0);
     let all_acked = (in_flag TCP_ACK t1 \<and> ti_ackno t1 = pcb_snd_nxt p);
     s2 \<leftarrow>
       (case state of
          ESTABLISHED \<Rightarrow> Some (if fin then pcb_put ((tcp_ack_now p)\<lparr>pcb_state := CLOSE_WAIT\<rparr>) s1 else s1)
        | CLOSE_WAIT \<Rightarrow> Some (if fin then pcb_put ((tcp_ack_now p)\<lparr>pcb_state := CLOSE_WAIT\<rparr>) s1 else s1)
        | FIN_WAIT_1 \<Rightarrow>
            (if fin then
               (if all_acked then enter_timewait a (pcb_put (tcp_ack_now p) s1)
                else Some (pcb_put ((tcp_ack_now p)\<lparr>pcb_state := CLOSING\<rparr>) s1))
             else Some (if all_acked then pcb_put (p\<lparr>pcb_state := FIN_WAIT_2\<rparr>) s1 else s1))
        | FIN_WAIT_2 \<Rightarrow> if fin then enter_timewait a (pcb_put (tcp_ack_now p) s1) else Some s1
        | CLOSING \<Rightarrow> if all_acked then enter_timewait a s1 else Some s1
        | LAST_ACK \<Rightarrow> Some (if all_acked then tcp_trigger_input_pcb_close s1 else s1)
        | _ \<Rightarrow> Some s1);
     Some (t1, s2)
   }"

text \<open>Whether a received reset is acceptable.\<close>

definition rst_acceptable :: "tin \<Rightarrow> tcp_pcb \<Rightarrow> bool" where
  "rst_acceptable t p \<longleftrightarrow>
     (if pcb_state p = SYN_SENT then ti_ackno t = pcb_snd_nxt p
      else TCP_SEQ_BETWEEN (ti_seqno t) (pcb_rcv_nxt p) (pcb_rcv_nxt p + ucast (pcb_rcv_wnd p)))"

definition tcp_process :: "env \<Rightarrow> app \<Rightarrow> tin \<Rightarrow> nat \<Rightarrow> lw \<Rightarrow> (err_t \<times> tin \<times> lw) option" where
  "tcp_process env app t a s = do {
     p \<leftarrow> lw_pcbs s a;
     if in_flag TCP_RST t then
       (if rst_acceptable t p then do {
          lwip_assert (pcb_state p \<noteq> CLOSED);
          Some (ERR_RST, t, pcb_put (clear_flag TF_ACK_DELAY p) (s\<lparr>lw_recv_flags := lw_recv_flags s OR TF_RESET\<rparr>))
        }
        else Some (ERR_OK, t, s))
     else if in_flag TCP_SYN t \<and> pcb_state p \<noteq> SYN_SENT \<and> pcb_state p \<noteq> SYN_RCVD then
       Some (ERR_OK, t, pcb_put (tcp_ack_now p) s)
     else do {
       let p1 = (if has_flag TF_RXCLOSED p then p else p\<lparr>pcb_tmr := sy_ticks s\<rparr>)\<lparr>pcb_keep_cnt_sent := 0\<rparr>;
       p2 \<leftarrow> tcp_parseopt t p1;
       let s1 = pcb_put p2 s;
       (case pcb_state p2 of
          SYN_SENT \<Rightarrow> do { (err, s2) \<leftarrow> process_syn_sent env app t a s1; Some (err, t, s2) }
        | SYN_RCVD \<Rightarrow> process_syn_rcvd env app t a s1
        | CLOSED \<Rightarrow> Some (ERR_OK, t, s1)
        | LISTEN \<Rightarrow> Some (ERR_OK, t, s1)
        | TIME_WAIT \<Rightarrow> Some (ERR_OK, t, s1)
        | state \<Rightarrow> do { (t1, s2) \<leftarrow> process_synchronised env state t a s1; Some (ERR_OK, t1, s2) })
     }
   }"

section \<open>TIME-WAIT and listening\<close>

definition tcp_timewait_input :: "env \<Rightarrow> tin \<Rightarrow> tcp_pcb \<Rightarrow> 'a sys_scheme \<Rightarrow> (err_t \<times> tcp_pcb \<times> 'a sys_scheme) option" where
  "tcp_timewait_input env t pcb s =
     (if in_flag TCP_RST t then Some (ERR_OK, pcb, s)
      else if in_flag TCP_SYN t \<and>
              TCP_SEQ_BETWEEN (ti_seqno t) (pcb_rcv_nxt pcb) (pcb_rcv_nxt pcb + ucast (pcb_rcv_wnd pcb))
      then do { s1 \<leftarrow> input_rst env t pcb s; Some (ERR_OK, pcb, s1) }
      else do {
        let pcb1 = (if \<not> in_flag TCP_SYN t \<and> in_flag TCP_FIN t then pcb\<lparr>pcb_tmr := sy_ticks s\<rparr> else pcb);
        if 0 < ti_tcplen t then tcp_output env (tcp_ack_now pcb1) s
        else Some (ERR_OK, pcb1, s)
      })"

text \<open>The fields of a connection that a SYN to a listening control block opens.\<close>

definition listen_init :: "tin \<Rightarrow> tcp_pcb_listen \<Rightarrow> u32 \<Rightarrow> u16 \<Rightarrow> u32 \<Rightarrow> tcp_pcb \<Rightarrow> tcp_pcb" where
  "listen_init t l ip udp_port server_id npcb =
     npcb\<lparr>pcb_remote_ip := ip, pcb_local_port := lpcb_local_port l, pcb_remote_port := udp_port,
          pcb_remote_udp_port := udp_port, pcb_connid1 := th_connid1 (ti_hdr t), pcb_connid2 := server_id,
          pcb_state := SYN_RCVD, pcb_rcv_nxt := ti_seqno t + 1, pcb_rcv_ann_right_edge := ti_seqno t + 1,
          pcb_snd_wl1 := ti_seqno t - 1, pcb_callback_arg := lpcb_callback_arg l, pcb_accept := lpcb_accept l\<rparr>"

definition tcp_listen_input :: "env \<Rightarrow> app \<Rightarrow> (nat \<Rightarrow> u32) \<Rightarrow> tin \<Rightarrow> nat \<Rightarrow> u32 \<Rightarrow> u16 \<Rightarrow> lw \<Rightarrow> (err_t \<times> lw) option" where
  "tcp_listen_input env app beyond t la ip udp_port s =
     (if in_flag TCP_RST t then Some (ERR_OK, s)
      else if in_flag TCP_ACK t then do {
        s1 \<leftarrow> tcp_rst env (ti_ackno t) (ti_seqno t + ucast (ti_tcplen t)) ip
               (th_connid1 (ti_hdr t), th_connid2 (ti_hdr t)) udp_port s;
        Some (ERR_OK, s1)
      }
      else if in_flag TCP_SYN t then do {
        l0 \<leftarrow> lw_lpcbs s la;
        (ao, s1) \<leftarrow> tcp_alloc env app (lpcb_prio l0) s;
        (case ao of
           None \<Rightarrow> Some (ERR_MEM, tcp_stats_inc S_MEMERR s1)
         | Some a \<Rightarrow> do {
             l \<leftarrow> lw_lpcbs s1 la;
             (server_id, s2) \<leftarrow> tcp_new_server_id beyond s1;
             npcb \<leftarrow> lw_pcbs s2 a;
             npcb1 \<leftarrow> tcp_parseopt t (listen_init t l ip udp_port server_id npcb);
             let wnd = th_wnd (ti_hdr t);
             let npcb2 = npcb1\<lparr>pcb_snd_wnd := wnd, pcb_snd_wnd_max := wnd, pcb_ssthresh := wnd\<rparr>;
             (rc, s3) \<leftarrow> at_pcb a (\<lambda>p s. tcp_enqueue_flags env p (TCP_SYN OR TCP_ACK) s)
                          (TCP_REG_ACTIVE a (pcb_put npcb2 s2));
             if rc \<noteq> ERR_OK then do {
               s4 \<leftarrow> tcp_abandon env app a False s3;
               Some (rc, s4)
             }
             else at_pcb a (tcp_output env) s3
           })
      }
      else Some (ERR_OK, s))"

section \<open>tcp_input\<close>

text \<open>The options are hidden from the payload; when they do not fit into the first buffer, in the second one too.\<close>

definition input_hide :: "pbuf list \<Rightarrow> u16 \<Rightarrow> (pbuf list) option" where
  "input_hide p n = do { (failed, p1) \<leftarrow> pbuf_header p (- n); Some p1 }"

definition input_options :: "pbuf list \<Rightarrow> u16 \<Rightarrow> (u16 \<times> u8 list option \<times> pbuf list) option" where
  "input_options p hdrlen =
     (let opt1len = hdrlen * 4 - TCP_HLEN in
      if unat (pb_len (hd p)) < unat hdrlen * 4 then do {
        p1 \<leftarrow> input_hide p TCP_HLEN;
        let q1 = hd p1;
        lwip_assert (pb_len q1 \<le> opt1len);
        lwip_assert (tl p1 \<noteq> []);
        (opt2, p2) \<leftarrow>
          (if pb_len q1 < opt1len then do {
             (phret, p2) \<leftarrow> pbuf_header p1 (- pb_len q1);
             lwip_assert (phret = 0);
             let q2 = hd (tl p2);
             let opt2len = opt1len - pb_len q1;
             (phret2, next) \<leftarrow> pbuf_header (tl p2) (- opt2len);
             lwip_assert (phret2 = 0);
             Some (Some (drop (nat (pb_off q2)) (pb_mem q2)),
                   (hd p2)\<lparr>pb_tot_len := pb_tot_len (hd p2) - opt2len\<rparr> # next)
           } else Some (None, p1));
        lwip_assert (pb_len (hd p2) = 0);
        Some (pb_len q1, opt2, p2)
      }
      else do {
        p1 \<leftarrow> input_hide p (hdrlen * 4);
        Some (opt1len, None, p1)
      })"

text \<open>
  The header of a received packet; \<open>Inl\<close> is a packet that is too short for one. The debug output
  reads the 20 bytes even then, so they must exist in memory.
\<close>

definition input_header :: "pbuf list \<Rightarrow> (unit + tin) option" where
  "input_header p =
     (case p of
        [] \<Rightarrow> None
      | q # _ \<Rightarrow> do {
          bytes \<leftarrow> pb_read q 0 20;
          if pb_len q < TCP_HLEN then Some (Inl ())
          else do {
            let hdr = tcp_hdr_read bytes;
            (opt1len, opt2, p1) \<leftarrow> input_options p (TCPH_HDRLEN hdr);
            Some (Inr \<lparr>ti_hdr = hdr, ti_p = p1, ti_len = pb_tot_len (hd p1), ti_hdroff = pb_off q,
                       ti_opt1len = opt1len, ti_opts = drop (nat (pb_off q) + 20) (pb_mem q), ti_opt2 = opt2,
                       ti_seqno = th_seqno hdr, ti_ackno = th_ackno hdr, ti_flags = TCPH_FLAGS hdr,
                       ti_tcplen = pb_tot_len (hd p1) +
                         (if TCPH_FLAGS hdr AND (TCP_FIN OR TCP_SYN) \<noteq> 0 then 1 else 0),
                       ti_recv_data = []\<rparr>)
          }
        })"

text \<open>Demultiplexing by connection id; before the handshake is over only its first half is known.\<close>

definition conn_matches :: "tcp_hdr \<Rightarrow> tcp_pcb \<Rightarrow> bool" where
  "conn_matches h p \<longleftrightarrow> pcb_connid1 p = th_connid1 h \<and> (pcb_state p = SYN_SENT \<or> pcb_connid2 p = th_connid2 h)"

fun find_active :: "tcp_hdr \<Rightarrow> nat list \<Rightarrow> lw \<Rightarrow> nat option option" where
  "find_active h [] s = Some None"
| "find_active h (a # as) s = do {
     p \<leftarrow> lw_pcbs s a;
     lwip_assert (pcb_state p \<noteq> CLOSED \<and> pcb_state p \<noteq> TIME_WAIT \<and> pcb_state p \<noteq> LISTEN);
     if conn_matches h p then Some (Some a) else find_active h as s
   }"

fun find_timewait :: "tcp_hdr \<Rightarrow> nat list \<Rightarrow> lw \<Rightarrow> nat option option" where
  "find_timewait h [] s = Some None"
| "find_timewait h (a # as) s = do {
     p \<leftarrow> lw_pcbs s a;
     lwip_assert (pcb_state p = TIME_WAIT);
     if pcb_connid1 p = th_connid1 h \<and> pcb_connid2 p = th_connid2 h then Some (Some a) else find_timewait h as s
   }"

definition move_to_front :: "nat \<Rightarrow> lw \<Rightarrow> lw" where
  "move_to_front a s = TCP_REG L_ACTIVE a (TCP_RMV L_ACTIVE a s)"

text \<open>Removal of a connection the peer has reset or that is completely closed.\<close>

definition input_remove :: "env \<Rightarrow> nat \<Rightarrow> lw \<Rightarrow> lw option" where
  "input_remove env a s = do {
     s1 \<leftarrow> tcp_pcb_remove env L_ACTIVE a s;
     Some (pcb_free a s1)
   }"

text \<open>The FIN is announced to the application, or left with the data it has refused.\<close>

definition input_fin :: "env \<Rightarrow> app \<Rightarrow> nat \<Rightarrow> lw \<Rightarrow> (err_t \<times> lw) option" where
  "input_fin env app a s = do {
     p \<leftarrow> lw_pcbs s a;
     if lw_recv_flags s AND TF_GOT_FIN \<noteq> 0 then
       (case pcb_refused_data p of
          r # rs \<Rightarrow> Some (ERR_OK, pcb_put (p\<lparr>pcb_refused_data := r\<lparr>pb_flags := pb_flags r OR PBUF_FLAG_TCP_FIN\<rparr> # rs\<rparr>) s)
        | [] \<Rightarrow> TCP_EVENT_CLOSED env app a
                  (pcb_put (if pcb_rcv_wnd p \<noteq> TCP_WND then p\<lparr>pcb_rcv_wnd := pcb_rcv_wnd p + 1\<rparr> else p) s))
     else Some (ERR_OK, s)
   }"

text \<open>
  The delivery of received data. The boolean says that the connection was aborted and must not be
  used any more (\<open>goto aborted\<close>).
\<close>

definition input_data :: "env \<Rightarrow> app \<Rightarrow> pbuf list \<Rightarrow> nat \<Rightarrow> lw \<Rightarrow> (bool \<times> lw) option" where
  "input_data env app recv_data a s =
     (if recv_data = [] then Some (False, s)
      else do {
        p \<leftarrow> lw_pcbs s a;
        lwip_assert (pcb_refused_data p = []);
        if has_flag TF_RXCLOSED p then do {
          (_, s1) \<leftarrow> pbuf_free recv_data s;
          s2 \<leftarrow> tcp_abort env app a s1;
          Some (True, s2)
        }
        else do {
          (err, s1) \<leftarrow> TCP_EVENT_RECV env app a recv_data ERR_OK s;
          if err = ERR_ABRT then Some (True, s1)
          else if err \<noteq> ERR_OK then do {
            p1 \<leftarrow> lw_pcbs s1 a;
            Some (False, pcb_put (p1\<lparr>pcb_refused_data := recv_data\<rparr>) s1)
          }
          else Some (False, s1)
        }
      })"

definition input_deliver :: "env \<Rightarrow> app \<Rightarrow> tin \<Rightarrow> nat \<Rightarrow> lw \<Rightarrow> lw option" where
  "input_deliver env app t a s = do {
     p \<leftarrow> lw_pcbs s a;
     (err, s1) \<leftarrow> (if 0 < pcb_acked p then TCP_EVENT_SENT app a (pcb_acked p) s else Some (ERR_OK, s));
     if err = ERR_ABRT then Some s1
     else if lw_recv_flags s1 AND TF_CLOSED \<noteq> 0 then do {
       p1 \<leftarrow> lw_pcbs s1 a;
       s2 \<leftarrow> (if has_flag TF_RXCLOSED p1 then Some s1
             else TCP_EVENT_ERR app (pcb_errf p1) (pcb_callback_arg p1) ERR_CLSD s1);
       input_remove env a s2
     }
     else do {
       (aborted, s2) \<leftarrow> input_data env app (ti_recv_data t) a s1;
       if aborted then Some s2
       else do {
         (err2, s3) \<leftarrow> input_fin env app a s2;
         if err2 = ERR_ABRT then Some s3
         else do {
           (_, s4) \<leftarrow> at_pcb a (tcp_output env) (s3\<lparr>sy_input_pcb := None\<rparr>);
           Some s4
         }
       }
     }
   }"

text \<open>A segment for the active connection at \<open>a\<close>, up to the label \<open>aborted\<close>.\<close>

definition input_active :: "env \<Rightarrow> app \<Rightarrow> tin \<Rightarrow> nat \<Rightarrow> lw \<Rightarrow> (tin \<times> lw) option" where
  "input_active env app t a s = do {
     p \<leftarrow> lw_pcbs s a;
     (drop_it, s1) \<leftarrow>
       (if pcb_refused_data p \<noteq> [] then do {
          (err, s1) \<leftarrow> tcp_process_refused_data env app a s;
          if err = ERR_ABRT then Some (True, s1)
          else do {
            p1 \<leftarrow> lw_pcbs s1 a;
            Some (pcb_refused_data p1 \<noteq> [] \<and> 0 < ti_tcplen t, s1)
          }
        } else Some (False, s));
     if drop_it then Some (t, tcp_stats_inc S_DROP s1)
     else do {
       (err, t1, s2) \<leftarrow> tcp_process env app t a (s1\<lparr>sy_input_pcb := Some a\<rparr>);
       if err = ERR_ABRT then Some (t1, s2)
       else if lw_recv_flags s2 AND TF_RESET \<noteq> 0 then do {
         p2 \<leftarrow> lw_pcbs s2 a;
         s3 \<leftarrow> TCP_EVENT_ERR app (pcb_errf p2) (pcb_callback_arg p2) ERR_RST s2;
         s4 \<leftarrow> input_remove env a s3;
         Some (t1, s4)
       }
       else do {
         s3 \<leftarrow> input_deliver env app t1 a s2;
         Some (t1, s3)
       }
     }
   }"

definition input_connection :: "env \<Rightarrow> app \<Rightarrow> tin \<Rightarrow> nat \<Rightarrow> lw \<Rightarrow> lw option" where
  "input_connection env app t a s = do {
     let p = (case ti_p t of [] \<Rightarrow> [] | q # qs \<Rightarrow>
                (if in_flag TCP_PSH t then q\<lparr>pb_flags := pb_flags q OR PBUF_FLAG_PUSH\<rparr> else q) # qs);
     (t1, s1) \<leftarrow> input_active env app (t\<lparr>ti_p := p, ti_recv_data := []\<rparr>) a (s\<lparr>lw_recv_flags := 0\<rparr>);
     let s2 = s1\<lparr>sy_input_pcb := None\<rparr>;
     s3 \<leftarrow> (if ti_p t1 \<noteq> [] then do { (_, s3) \<leftarrow> pbuf_free (ti_p t1) s2; Some s3 } else Some s2);
     lwip_assert (tcp_pcbs_sane s3);
     Some s3
   }"

text \<open>
  No connection: the reset is to carry \<open>pcb->conn_id\<close>, but \<open>pcb\<close> is \<open>NULL\<close> here, so \<open>tcp_rst\<close> reads
  through a null pointer once it has a buffer for the segment.
\<close>

definition input_no_match :: "env \<Rightarrow> tin \<Rightarrow> lw \<Rightarrow> lw option" where
  "input_no_match env t s = do {
     s1 \<leftarrow> (if inseg_flag TCP_RST t then Some s
           else do {
             (q, s1) \<leftarrow> pbuf_alloc env PBUF_IP TCP_HLEN PBUF_RAM (tcp_stats_inc S_DROP (tcp_stats_inc S_PROTERR s));
             if q = [] then Some s1 else None
           });
     (_, s2) \<leftarrow> pbuf_free (ti_p t) s1;
     lwip_assert (tcp_pcbs_sane s2);
     Some s2
   }"

definition tcp_input :: "env \<Rightarrow> app \<Rightarrow> (nat \<Rightarrow> u32) \<Rightarrow> u32 \<Rightarrow> u16 \<Rightarrow> pbuf list \<Rightarrow> lw \<Rightarrow> lw option" where
  "tcp_input env app beyond ip udp_port p s0 = do {
     let s = tcp_stats_inc S_RECV s0;
     r \<leftarrow> input_header p;
     (case r of
        Inl _ \<Rightarrow> do {
          (_, s1) \<leftarrow> pbuf_free p (tcp_stats_inc S_DROP (tcp_stats_inc S_LENERR s));
          Some s1
        }
      | Inr t \<Rightarrow> do {
          active \<leftarrow> find_active (ti_hdr t) (lw_lists s L_ACTIVE) s;
          (case active of
             Some a \<Rightarrow> input_connection env app t a (move_to_front a s)
           | None \<Rightarrow> do {
               tw \<leftarrow> find_timewait (ti_hdr t) (lw_lists s L_TW) s;
               (case tw of
                  Some a \<Rightarrow> do {
                    (_, s1) \<leftarrow> at_pcb a (tcp_timewait_input env t) s;
                    (_, s2) \<leftarrow> pbuf_free (ti_p t) s1;
                    Some s2
                  }
                | None \<Rightarrow>
                    (case lw_lists s L_LISTEN of
                       l # _ \<Rightarrow> do {
                         (_, s1) \<leftarrow> tcp_listen_input env app beyond t l ip udp_port s;
                         (_, s2) \<leftarrow> pbuf_free (ti_p t) s1;
                         Some s2
                       }
                     | [] \<Rightarrow> input_no_match env t s))
             })
        })
   }"

end
