(* ===== verification/Tcp_Examples.thy ===== *)
theory Tcp_Examples
  imports Tcp
begin

text \<open>
  A small connection, its segments and the state of the stack around it: the concrete values at which
  the properties of the TCP theories are applied.
\<close>

text \<open>A segment with room for its header in front of the data.\<close>

definition ex_seg :: "nat \<Rightarrow> u32 \<Rightarrow> u8 list \<Rightarrow> tcp_seg" where
  "ex_seg a n bs =
     \<lparr>sg_addr = a,
      sg_p = [\<lparr>pb_addr = 100 + a, pb_mem = replicate 20 0 @ bs, pb_off = 0, pb_tot_len = 20 + of_nat (length bs),
              pb_len = 20 + of_nat (length bs), pb_type = PBUF_RAM, pb_flags = 0\<rparr>],
      sg_len = of_nat (length bs), sg_oversize_left = 0, sg_flags = 0,
      sg_hdr = \<lparr>th_connid1 = 7, th_connid2 = 9, th_seqno = n, th_ackno = 0, th_hdrlen_rsvd_flags = 0x5000, th_wnd = 0\<rparr>,
      sg_hdroff = 0\<rparr>"

text \<open>An established connection with one segment in flight and two to be sent.\<close>

definition ex_pcb :: tcp_pcb where
  "ex_pcb = (tcp_pcb_new 50 TCP_PRIO_NORMAL 1000 3 0)
     \<lparr>pcb_state := ESTABLISHED, pcb_local_port := 80, pcb_connid1 := 7, pcb_connid2 := 9, pcb_rcv_nxt := 500,
      pcb_rcv_ann_right_edge := 5860, pcb_lastack := 1000, pcb_snd_nxt := 1003, pcb_snd_lbb := 1008,
      pcb_snd_wnd := 100, pcb_snd_wnd_max := 100, pcb_cwnd := 1072, pcb_ssthresh := 100, pcb_snd_buf := 6424,
      pcb_snd_queuelen := 3, pcb_snd_wl1 := 499, pcb_snd_wl2 := 1000, pcb_rtime := 0,
      pcb_unacked := [ex_seg 1 1000 [1, 2, 3]],
      pcb_unsent := [ex_seg 2 1003 [4, 5], ex_seg 3 1005 [6, 7, 8]]\<rparr>"

definition ex_sys :: sys where
  "ex_sys = mem_state.extend (ex_mem\<lparr>memp_tab := (\<lambda>t. [200, 201, 202])\<rparr>)
     (sys.fields [] (\<lambda>_. 0) 10 None)"

definition ex_lw :: lw where
  "ex_lw = sys.extend ex_sys
     (lw.fields (Map.empty(50 \<mapsto> ex_pcb)) Map.empty (\<lambda>l. if l = L_ACTIVE then [50] else []) False 0 0 0xc000 0 6510 0 Map.empty)"

text \<open>An application that accepts everything and does nothing.\<close>

definition ex_app :: app where
  "ex_app = \<lparr>app_accept = (\<lambda>f arg a e s. Some (ERR_OK, s)), app_recv = (\<lambda>f arg a p e s. Some (ERR_OK, s)),
     app_sent = (\<lambda>f arg a n s. Some (ERR_OK, s)), app_connected = (\<lambda>f arg a e s. Some (ERR_OK, s)),
     app_poll = (\<lambda>f arg a s. Some (ERR_OK, s)), app_err = (\<lambda>f arg e s. Some s)\<rparr>"

lemmas ex_defs = ex_seg_def ex_pcb_def tcp_pcb_new_def ex_sys_def ex_mem_def ex_env_def
  mem_state.extend_def sys.fields_def sys.extend_def lw.fields_def

end
