(* ===== verification/Tcp_Queue.thy ===== *)
theory Tcp_Queue
  imports Tcp_Examples
begin

text \<open>
  The segment queues of a connection: their order by sequence number, the contract of the operations
  that insert into them, and what \<open>tcp_output\<close> and the retransmission functions do to them.
\<close>

section \<open>Order\<close>

text \<open>What identifies a segment: its memory, its place in the sequence and its length.\<close>

definition seg_id :: "tcp_seg \<Rightarrow> nat \<times> u32 \<times> u16" where
  "seg_id seg = (sg_addr seg, seg_seqno seg, sg_len seg)"

definition seg_rank :: "u32 \<Rightarrow> tcp_seg \<Rightarrow> nat" where
  "seg_rank b seg = seq_rank b (seg_seqno seg)"

text \<open>A queue within one half of the number circle, in sequence order.\<close>

definition segs_in :: "u32 \<Rightarrow> tcp_seg list \<Rightarrow> bool" where
  "segs_in b q \<longleftrightarrow> list_all (\<lambda>seg. seq_win b (seg_seqno seg)) q"

definition segs_sorted :: "u32 \<Rightarrow> tcp_seg list \<Rightarrow> bool" where
  "segs_sorted b q \<longleftrightarrow> segs_in b q \<and> sorted (map (seg_rank b) q)"

lemma segs_in_simps [simp]:
  "segs_in b []"
  "segs_in b (x # q) \<longleftrightarrow> seq_win b (seg_seqno x) \<and> segs_in b q"
  "segs_in b (p @ q) \<longleftrightarrow> segs_in b p \<and> segs_in b q"
  by (simp_all add: segs_in_def)

lemma segs_in_mem: "segs_in b q \<Longrightarrow> x \<in> set q \<Longrightarrow> seq_win b (seg_seqno x)"
  by (auto simp: segs_in_def list_all_iff)

lemma segs_in_mset: "mset p = mset q \<Longrightarrow> segs_in b p = segs_in b q"
  by (auto simp: segs_in_def list_all_iff dest: mset_eq_setD)

lemma seg_LT_rank:
  "seq_win b (seg_seqno x) \<Longrightarrow> seq_win b (seg_seqno y) \<Longrightarrow>
     TCP_SEQ_LT (seg_seqno x) (seg_seqno y) \<longleftrightarrow> seg_rank b x < seg_rank b y"
  by (simp add: TCP_SEQ_LT_rank seg_rank_def)

lemma seg_id_rank: "seg_id x = seg_id y \<Longrightarrow> seg_rank b x = seg_rank b y \<and> seg_seqno x = seg_seqno y"
  by (simp add: seg_id_def seg_rank_def)

lemma segs_sorted_ids:
  assumes "map seg_id p = map seg_id q"
  shows "segs_sorted b p = segs_sorted b q"
proof -
  have "map seg_seqno p = map (fst \<circ> snd) (map seg_id p)" "map seg_seqno q = map (fst \<circ> snd) (map seg_id q)"
    by (simp_all add: seg_id_def)
  then have e: "map seg_seqno p = map seg_seqno q" using assms by simp
  have "map (seg_rank b) r = map (seq_rank b) (map seg_seqno r)" "segs_in b r = list_all (seq_win b) (map seg_seqno r)" for r
    by (simp_all add: seg_rank_def segs_in_def list_all_length)
  then show ?thesis by (simp only: segs_sorted_def e)
qed

section \<open>Insertion\<close>

text \<open>The contract of an operation that puts a segment into an ordered queue.\<close>

locale queue_insert =
  fixes ins :: "tcp_seg \<Rightarrow> tcp_seg list \<Rightarrow> tcp_seg list"
  assumes ins_mset: "mset (ins x q) = add_mset x (mset q)"
    and ins_sorted: "segs_sorted b q \<Longrightarrow> seq_win b (seg_seqno x) \<Longrightarrow> segs_sorted b (ins x q)"
begin

lemma ins_ids: "mset (map seg_id (ins x q)) = add_mset (seg_id x) (mset (map seg_id q))"
  by (simp add: ins_mset)

lemma ins_not_Nil: "ins x q \<noteq> []"
  using ins_mset [of x q] by auto

text \<open>Segments that are inserted one after the other end up in order, none lost or doubled.\<close>

lemma fold_ins:
  "mset (fold ins xs q) = mset xs + mset q \<and>
   (segs_sorted b q \<longrightarrow> segs_in b xs \<longrightarrow> segs_sorted b (fold ins xs q))"
proof (induction xs arbitrary: q)
  case Nil
  then show ?case by simp
next
  case (Cons x xs)
  then show ?case by (auto simp: ins_mset ins_sorted)
qed

end

lemma seg_insert_mset: "mset (seg_insert x q) = add_mset x (mset q)"
  by (induction q) simp_all

lemma seg_insert_set [simp]: "set (seg_insert x q) = insert x (set q)"
  by (induction q) auto

lemma seg_insert_sorted:
  "segs_sorted b q \<Longrightarrow> seq_win b (seg_seqno x) \<Longrightarrow> segs_sorted b (seg_insert x q)"
proof (induction q)
  case Nil
  then show ?case by (simp add: segs_sorted_def)
next
  case (Cons c cs)
  have c: "seq_win b (seg_seqno c)" "segs_sorted b cs" "\<forall>y \<in> set cs. seg_rank b c \<le> seg_rank b y"
    using Cons.prems(1) by (auto simp: segs_sorted_def)
  show ?case
  proof (cases "TCP_SEQ_LT (seg_seqno c) (seg_seqno x)")
    case True
    then have "seg_rank b c < seg_rank b x" using c Cons.prems by (simp add: seg_LT_rank)
    then show ?thesis
      using True Cons.IH [OF c(2) Cons.prems(2)] c by (auto simp: segs_sorted_def)
  next
    case False
    then have "seg_rank b x \<le> seg_rank b c" using c Cons.prems by (simp add: seg_LT_rank)
    then show ?thesis using False Cons.prems c by (auto simp: segs_sorted_def)
  qed
qed

lemma segs_sorted_snoc:
  "segs_sorted b q \<Longrightarrow> seq_win b (seg_seqno x) \<Longrightarrow> q = [] \<or> \<not> TCP_SEQ_LT (seg_seqno x) (seg_seqno (last q)) \<Longrightarrow>
     segs_sorted b (q @ [x])"
proof (cases "q = []")
  case False
  assume s: "segs_sorted b q" and x: "seq_win b (seg_seqno x)"
    and n: "q = [] \<or> \<not> TCP_SEQ_LT (seg_seqno x) (seg_seqno (last q))"
  obtain ys y where q: "q = ys @ [y]" using False by (metis rev_exhaust)
  have "seg_rank b y \<le> seg_rank b x"
    using n s x unfolding q by (simp add: segs_sorted_def seg_LT_rank)
  then show ?thesis using s x unfolding q
    by (auto simp: segs_sorted_def sorted_append)
qed (simp add: segs_sorted_def)

interpretation rexmit_queue: queue_insert seg_insert
  by unfold_locales (simp_all add: seg_insert_mset seg_insert_sorted)

interpretation unacked_queue: queue_insert unacked_add
proof unfold_locales
  fix x q and b
  show "mset (unacked_add x q) = add_mset x (mset q)"
    by (simp add: unacked_add_def seg_insert_mset)
  show "segs_sorted b (unacked_add x q)" if "segs_sorted b q" "seq_win b (seg_seqno x)"
    using that seg_insert_sorted [OF that] segs_sorted_snoc [OF that]
    by (simp add: unacked_add_def) (simp add: segs_sorted_def)
qed

section \<open>Transmission\<close>

lemma seg_set_flag_simps [simp]:
  "seg_id (seg_set_flag f seg) = seg_id seg" "sg_p (seg_set_flag f seg) = sg_p seg"
  by (simp_all add: seg_set_flag_def seg_id_def TCPH_SET_FLAG_def)

lemma TCP_TCPLEN_oversize [simp]: "TCP_TCPLEN (seg\<lparr>sg_oversize_left := n\<rparr>) = TCP_TCPLEN seg"
  by (simp add: TCP_TCPLEN_def)

lemma TCP_TCPLEN_ack [simp]: "TCP_TCPLEN (seg_set_flag TCP_ACK seg) = TCP_TCPLEN seg"
proof -
  have "(TCPH_FLAGS (sg_hdr seg) OR (TCP_ACK AND 0x3f)) AND (TCP_FIN OR TCP_SYN) = TCPH_FLAGS (sg_hdr seg) AND (TCP_FIN OR TCP_SYN)"
    by (simp add: bit.conj_disj_distrib2)
  then show ?thesis by (simp add: TCP_TCPLEN_def seg_set_flag_def)
qed

text \<open>What the transmission of one segment leaves alone.\<close>

definition same_queues :: "tcp_pcb \<Rightarrow> tcp_pcb \<Rightarrow> bool" where
  "same_queues p p' \<longleftrightarrow>
     pcb_unsent p' = pcb_unsent p \<and> pcb_unacked p' = pcb_unacked p \<and> pcb_lastack p' = pcb_lastack p \<and>
     pcb_snd_nxt p' = pcb_snd_nxt p \<and> pcb_snd_lbb p' = pcb_snd_lbb p \<and> pcb_snd_queuelen p' = pcb_snd_queuelen p \<and>
     pcb_snd_buf p' = pcb_snd_buf p \<and> pcb_state p' = pcb_state p \<and> pcb_flags p' = pcb_flags p \<and>
     pcb_mss p' = pcb_mss p \<and> pcb_snd_wnd p' = pcb_snd_wnd p \<and> pcb_cwnd p' = pcb_cwnd p \<and>
     pcb_addr p' = pcb_addr p \<and> pcb_remote_ip p' = pcb_remote_ip p \<and> pcb_remote_udp_port p' = pcb_remote_udp_port p"

text \<open>
  A packet that was handed to \<open>ip_output_if\<close> carries a segment: it consists of the buffers of the segment, begins with a header that has its sequence
  number, and goes to the peer of the connection.
\<close>

fun carries :: "tcp_pcb \<Rightarrow> pbuf list \<times> u32 \<times> u16 \<Rightarrow> tcp_seg \<Rightarrow> bool" where
  "carries pcb (p, ip, port) seg \<longleftrightarrow> p \<noteq> [] \<and> map pb_addr p = map pb_addr (sg_p seg) \<and>
     (\<exists>h. pb_read (hd p) 0 20 = Some (tcp_hdr_bytes h) \<and> th_seqno h = seg_seqno seg) \<and>
     ip = pcb_remote_ip pcb \<and> port = pcb_remote_udp_port pcb"

lemma pb_write_read: "pb_write p 0 (bs @ cs) = Some p' \<Longrightarrow> length bs = n \<Longrightarrow> pb_read p' 0 n = Some bs"
  by (auto simp: pb_write_def pb_read_def min_def split: if_split_asm)

lemma tcp_output_segment_carries:
  assumes "tcp_output_segment env seg pcb s = Some (err, seg', pcb', s')"
  shows "carries pcb (sg_p seg', pcb_remote_ip pcb, pcb_remote_udp_port pcb) seg"
proof -
  define seg1 where "seg1 = seg\<lparr>sg_hdr := (sg_hdr seg)\<lparr>th_ackno := pcb_rcv_nxt pcb, th_wnd := pcb_rcv_ann_wnd pcb\<rparr>\<rparr>"
  obtain q qs where q: "sg_p seg = q # qs"
    using assms by (cases "sg_p seg") (auto simp: tcp_output_segment_def Let_def)
  have q1: "sg_p seg1 = q # qs" by (simp add: seg1_def q)
  define len where "len = (of_int (sg_hdroff seg1) - of_int (pb_off q) :: u16)"
  define q0 where "q0 = q\<lparr>pb_off := sg_hdroff seg1, pb_len := pb_len q - len, pb_tot_len := pb_tot_len q - len\<rparr>"
  obtain q' where w: "pb_write q0 0 (seg_header_bytes seg1) = Some q'"
    using assms by (cases "pb_write q0 0 (seg_header_bytes seg1)")
      (simp_all add: tcp_output_segment_def Let_def seg1_def [symmetric] q1 len_def [symmetric] q0_def [symmetric])
  have s': "sg_p seg' = q' # qs"
    using assms w by (simp add: tcp_output_segment_def Let_def seg1_def [symmetric] q1 len_def [symmetric] q0_def [symmetric] split: prod.split_asm) auto
  have "pb_addr q' = pb_addr q" using w q0_def by (auto simp: pb_write_def split: if_split_asm)
  moreover have "pb_read q' 0 20 = Some (tcp_hdr_bytes (sg_hdr seg1))"
    by (rule pb_write_read [OF w [unfolded seg_header_bytes_def]]) simp
  moreover have "th_seqno (sg_hdr seg1) = seg_seqno seg" by (simp add: seg1_def)
  ultimately show ?thesis using q s' by auto
qed

lemma carries_cong:
  "pcb_remote_ip p' = pcb_remote_ip p \<Longrightarrow> pcb_remote_udp_port p' = pcb_remote_udp_port p \<Longrightarrow> carries p' = carries p"
  by (intro ext) (auto elim!: carries.elims)

lemma tcp_output_segment_spec:
  assumes "tcp_output_segment env seg pcb s = Some (err, seg', pcb', s')"
  shows "seg_id seg' = seg_id seg" and "TCP_TCPLEN seg' = TCP_TCPLEN seg" and "same_queues pcb pcb'"
    and "sy_sent s' = (sg_p seg', pcb_remote_ip pcb, pcb_remote_udp_port pcb) # sy_sent s"
    and "sg_hdr seg' = (sg_hdr seg)\<lparr>th_ackno := pcb_rcv_nxt pcb, th_wnd := pcb_rcv_ann_wnd pcb\<rparr>"
  using assms
  by (auto simp: tcp_output_segment_def Let_def seg_id_def TCP_TCPLEN_def TCPH_FLAGS_def same_queues_def
        ip_output_if_def tcp_stats_inc_def bind_Some_iff split: list.splits if_splits)

definition may_send :: "tcp_pcb \<Rightarrow> bool" where
  "may_send pcb \<longleftrightarrow> tcp_do_output_nagle pcb \<or> has_flag (TF_NAGLEMEMERR OR TF_FIN) pcb"

lemma seg_in_window_cong:
  "seg_id seg' = seg_id seg \<Longrightarrow> pcb_lastack p' = pcb_lastack p \<Longrightarrow> seg_in_window p' wnd seg' = seg_in_window p wnd seg"
  by (simp add: seg_in_window_def seg_id_def)

text \<open>
  The loop moves a prefix \<open>sent\<close> of the unsent queue, all within the window, and stops in front of a
  segment outside of it or held back by Nagle's algorithm, unless a transmission fails.
\<close>

definition loop_result :: "u32 \<Rightarrow> tcp_seg list \<Rightarrow> tcp_pcb \<Rightarrow> 'a sys_scheme \<Rightarrow> err_t \<Rightarrow> tcp_pcb \<Rightarrow> 'a sys_scheme \<Rightarrow> tcp_seg list \<Rightarrow> tcp_seg list \<Rightarrow> bool" where
  "loop_result wnd q pcb s err pcb' s' sent rest \<longleftrightarrow>
     q = sent @ rest \<and> map seg_id (pcb_unsent pcb') = map seg_id rest \<and>
     pcb_lastack pcb' = pcb_lastack pcb \<and>
     list_all (seg_in_window pcb wnd) sent \<and>
     (\<exists>pkts. sy_sent s' = rev pkts @ sy_sent s \<and> list_all2 (carries pcb) pkts (sent @ (if err = ERR_OK then [] else [hd rest]))) \<and>
     (err \<noteq> ERR_OK \<longrightarrow> rest \<noteq> [] \<and> seg_in_window pcb wnd (hd rest)) \<and>
     (err = ERR_OK \<longrightarrow> pcb_unsent pcb' = rest \<and>
        (rest \<noteq> [] \<longrightarrow> \<not> seg_in_window pcb wnd (hd rest) \<or> \<not> may_send pcb')) \<and>
     (list_all (\<lambda>seg. 0 < TCP_TCPLEN seg) q \<longrightarrow>
        mset (map seg_id (pcb_unacked pcb')) = mset (map seg_id (pcb_unacked pcb)) + mset (map seg_id sent)) \<and>
     (\<forall>b. segs_sorted b (pcb_unacked pcb) \<longrightarrow> segs_in b q \<longrightarrow> segs_sorted b (pcb_unacked pcb'))"

lemma loop_result_Nil:
  "pcb_unsent pcb = q \<Longrightarrow> q = [] \<or> \<not> seg_in_window pcb wnd (hd q) \<or> \<not> may_send pcb \<Longrightarrow>
     loop_result wnd q pcb s ERR_OK pcb s [] q"
  by (auto simp: loop_result_def)

lemma same_queues_may_send: "same_queues p p' \<Longrightarrow> may_send p' = may_send p"
  by (simp add: same_queues_def may_send_def tcp_do_output_nagle_def has_flag_def)

lemma tcp_seg_free_sent: "tcp_seg_free seg s = Some s' \<Longrightarrow> sy_sent s' = sy_sent s" for s :: "'a sys_scheme"
  by (drule tcp_seg_free_frame) (rule mem_frame_sys)

lemma tcp_output_loop_spec:
  assumes "tcp_output_loop env wnd q pcb s = Some (err, pcb', s')" and "pcb_unsent pcb = q"
  shows "\<exists>sent rest. loop_result wnd q pcb s err pcb' s' sent rest"
  using assms
proof (induction q arbitrary: pcb s)
  case Nil
  then have "err = ERR_OK \<and> pcb' = pcb \<and> s' = s" by auto
  with loop_result_Nil [OF Nil.prems(2), of wnd s] show ?case by blast
next
  case (Cons seg rest)
  have stop: "loop_result wnd (seg # rest) pcb s ERR_OK pcb s [] (seg # rest)"
    if "\<not> seg_in_window pcb wnd seg \<or> \<not> may_send pcb"
    using loop_result_Nil [OF Cons.prems(2), of wnd s] that by simp
  show ?case
  proof (cases "seg_in_window pcb wnd seg \<and> may_send pcb")
    case False
    then have "err = ERR_OK \<and> pcb' = pcb \<and> s' = s"
      using Cons.prems(1) by (auto simp: may_send_def split: if_splits)
    with stop False show ?thesis by blast
  next
    case True
    define seg1 where "seg1 = (if pcb_state pcb \<noteq> SYN_SENT then seg_set_flag TCP_ACK seg else seg)\<lparr>sg_oversize_left := 0\<rparr>"
    have seg1: "seg_id seg1 = seg_id seg" "TCP_TCPLEN seg1 = TCP_TCPLEN seg"
      by (cases "pcb_state pcb = SYN_SENT"; simp add: seg1_def; simp add: seg_id_def seg_set_flag_def TCPH_SET_FLAG_def)+
    obtain e seg2 pcb1 s1 where out: "tcp_output_segment env seg1 pcb s = Some (e, seg2, pcb1, s1)"
      using Cons.prems(1) True
      by (auto simp: seg1_def may_send_def bind_Some_iff Let_def split: if_splits)
    note o = tcp_output_segment_spec [OF out]
    have car: "carries pcb (sg_p seg2, pcb_remote_ip pcb, pcb_remote_udp_port pcb) seg"
      using tcp_output_segment_carries [OF out] by (cases "pcb_state pcb = SYN_SENT") (auto simp: seg1_def seg_set_flag_def TCPH_SET_FLAG_def)
    show ?thesis
    proof (cases "e = ERR_OK")
      case False
      then have "err = e" "pcb' = set_flag TF_NAGLEMEMERR (pcb1\<lparr>pcb_unsent := seg2 # rest\<rparr>)" "s' = s1"
        using Cons.prems(1) True out
        by (auto simp: seg1_def may_send_def bind_Some_iff Let_def split: if_splits)
      then have "loop_result wnd (seg # rest) pcb s err pcb' s' [] (seg # rest)"
        using False o seg1 car True
        by (simp add: loop_result_def same_queues_def set_flag_def)
      then show ?thesis by blast
    next
      case e: True
      define pcb4 where "pcb4 =
        (let pcb2 = pcb1\<lparr>pcb_unsent := rest\<rparr>;
             pcb3 = (if pcb_state pcb2 \<noteq> SYN_SENT then clear_flag (TF_ACK_DELAY OR TF_ACK_NOW) pcb2 else pcb2);
             snd_nxt = seg_seqno seg2 + TCP_TCPLEN seg2
         in if TCP_SEQ_LT (pcb_snd_nxt pcb3) snd_nxt then pcb3\<lparr>pcb_snd_nxt := snd_nxt\<rparr> else pcb3)"
      define pcb5 where "pcb5 = (if 0 < TCP_TCPLEN seg then pcb4\<lparr>pcb_unacked := unacked_add seg2 (pcb_unacked pcb4)\<rparr> else pcb4)"
      have p4: "pcb_unsent pcb4 = rest" "pcb_unacked pcb4 = pcb_unacked pcb" "pcb_lastack pcb4 = pcb_lastack pcb"
        using o(3) by (auto simp: pcb4_def Let_def same_queues_def clear_flag_def)
      obtain s2 where rec: "tcp_output_loop env wnd rest pcb5 s2 = Some (err, pcb', s')"
        and s2: "sy_sent s2 = sy_sent s1"
        using Cons.prems(1) True out e o(2) seg1(2)
        by (cases "0 < TCP_TCPLEN seg")
          (auto simp: seg1_def [symmetric] pcb4_def pcb5_def may_send_def bind_Some_iff Let_def tcp_seg_free_sent simp del: tcp_output_loop.simps
             simp: tcp_output_loop.simps(2) split: if_splits)
      have p5: "pcb_unsent pcb5 = rest" "pcb_lastack pcb5 = pcb_lastack pcb"
        using p4 by (simp_all add: pcb5_def)
      obtain sent rest' where r: "loop_result wnd rest pcb5 s2 err pcb' s' sent rest'"
        using Cons.IH [OF rec p5(1)] by blast
      have id2: "seg_id seg2 = seg_id seg" "seg_seqno seg2 = seg_seqno seg"
        using o(1) seg1(1) seg_id_rank [of seg2 seg] by simp_all
      have un: "mset (map seg_id (pcb_unacked pcb5)) = mset (map seg_id (pcb_unacked pcb)) + {#seg_id seg#}"
        if "0 < TCP_TCPLEN seg"
        using that p4 id2 unacked_queue.ins_ids [of seg2 "pcb_unacked pcb"] by (simp add: pcb5_def)
      have so: "segs_sorted b (pcb_unacked pcb5)" if "segs_sorted b (pcb_unacked pcb)" "seq_win b (seg_seqno seg)" for b
        using that p4 id2 unacked_queue.ins_sorted by (simp add: pcb5_def)
      have cc: "carries pcb5 = carries pcb"
        by (rule carries_cong) (use o(3) in \<open>simp_all add: pcb5_def pcb4_def Let_def same_queues_def clear_flag_def\<close>)
      obtain pkts where pk: "sy_sent s' = rev pkts @ sy_sent s2"
        "list_all2 (carries pcb) pkts (sent @ (if err = ERR_OK then [] else [hd rest']))"
        using r by (auto simp: loop_result_def cc)
      have "\<exists>pkts. sy_sent s' = rev pkts @ sy_sent s \<and>
          list_all2 (carries pcb) pkts ((seg # sent) @ (if err = ERR_OK then [] else [hd rest']))"
        using pk car s2 o(4) by (intro exI [of _ "(sg_p seg2, pcb_remote_ip pcb, pcb_remote_udp_port pcb) # pkts"]) simp
      note pkts = this
      have "seg_in_window pcb5 wnd = seg_in_window pcb wnd"
        by (rule ext) (rule seg_in_window_cong [OF refl p5(2)])
      then have "loop_result wnd (seg # rest) pcb s err pcb' s' (seg # sent) rest'"
        using r un so True p5 pkts
        by (simp add: loop_result_def)
      then show ?thesis by blast
    qed
  qed
qed

lemma tcp_output_alloc_header_frame:
  assumes "tcp_output_alloc_header env pcb optlen datalen seqno s = Some (p, hdr, pcb', s')"
  shows "same_queues pcb pcb'" and "mem_frame s s'"
proof -
  obtain p0 where a: "pbuf_alloc env PBUF_IP (TCP_HLEN + optlen + datalen) PBUF_RAM s = Some (p0, s')"
    and q: "same_queues pcb pcb'"
  proof -
    obtain p0 s1 where a: "pbuf_alloc env PBUF_IP (TCP_HLEN + optlen + datalen) PBUF_RAM s = Some (p0, s1)"
      using assms by (cases "pbuf_alloc env PBUF_IP (TCP_HLEN + optlen + datalen) PBUF_RAM s")
        (auto simp: tcp_output_alloc_header_def)
    show ?thesis
      using assms a that [of p0]
      by (cases p0) (auto simp: tcp_output_alloc_header_def Let_def bind_Some_iff same_queues_def)
  qed
  show "same_queues pcb pcb'" by (rule q)
  show "mem_frame s s'" by (rule pbuf_alloc_frame [OF a])
qed

lemma tcp_send_empty_ack_queues:
  assumes "tcp_send_empty_ack env pcb s = Some (err, pcb', s')"
  shows "pcb_unsent pcb' = pcb_unsent pcb" and "pcb_unacked pcb' = pcb_unacked pcb" and "pcb_lastack pcb' = pcb_lastack pcb"
  using assms
  by (auto simp: tcp_send_empty_ack_def Let_def bind_Some_iff case_prod_beta set_flag_def clear_flag_def
      dest!: tcp_output_alloc_header_frame(1) simp: same_queues_def split: if_splits)

lemma may_send_clear: "may_send (clear_flag f pcb) \<Longrightarrow> may_send pcb"
proof -
  have "(pcb_flags pcb AND NOT f) AND g = (pcb_flags pcb AND g) AND NOT f" for g
    by (simp add: ac_simps)
  then have "has_flag g (clear_flag f pcb) \<Longrightarrow> has_flag g pcb" for g
    by (auto simp: has_flag_def clear_flag_def)
  then show "may_send (clear_flag f pcb) \<Longrightarrow> may_send pcb"
    by (auto simp: may_send_def tcp_do_output_nagle_def) (simp_all add: clear_flag_def)
qed

text \<open>An empty acknowledgement is a bare header.\<close>

lemma tcp_send_empty_ack_sent:
  assumes "tcp_send_empty_ack env pcb s = Some (err, pcb', s')"
  shows "\<exists>pkts. sy_sent s' = rev pkts @ sy_sent s \<and> length pkts \<le> 1 \<and> (\<forall>pkt \<in> set pkts. \<exists>q. fst pkt = [q] \<and> pb_len q = TCP_HLEN)"
proof -
  obtain p h pcb1 s1 where a: "tcp_output_alloc_header env pcb 0 0 (pcb_snd_nxt pcb) s = Some (p, h, pcb1, s1)"
    using assms by (auto simp: tcp_send_empty_ack_def bind_Some_iff)
  have s1: "sy_sent s1 = sy_sent s" by (rule mem_frame_sys [OF tcp_output_alloc_header_frame(2) [OF a]])
  obtain p0 s0 where al: "pbuf_alloc env PBUF_IP TCP_HLEN PBUF_RAM s = Some (p0, s0)"
    using a by (auto simp: tcp_output_alloc_header_def bind_Some_iff)
  then have p0: "p0 = [] \<or> (\<exists>q. p0 = [q] \<and> pb_len q = TCP_HLEN)" by (auto simp: pbuf_alloc_def Let_def split: prod.split_asm option.split_asm)
  show ?thesis
  proof (cases "p = []")
    case True
    then have "s' = s1" using assms a by (auto simp: tcp_send_empty_ack_def)
    then show ?thesis using s1 by (intro exI [of _ "[]"]) simp
  next
    case False
    then obtain q where q: "p = [q]" "pb_len q = TCP_HLEN"
      using a al p0 by (auto simp: tcp_output_alloc_header_def bind_Some_iff Let_def pb_write_def split: if_split_asm)
    obtain e s2 where o: "ip_output_if env p (pcb_remote_ip pcb1) (pcb_remote_udp_port pcb1) s1 = (e, s2)" by fastforce
    obtain n where f: "pbuf_free p s2 = Some (n, s')"
      using assms a False o by (cases "pbuf_free p s2") (auto simp: tcp_send_empty_ack_def)
    have "sy_sent s' = sy_sent s2" by (rule mem_frame_sys [OF pbuf_free_frame [OF f]])
    then show ?thesis using o s1 q
      by (intro exI [of _ "[(p, pcb_remote_ip pcb1, pcb_remote_udp_port pcb1)]"]) (auto simp: ip_output_if_def)
  qed
qed

definition send_window :: "tcp_pcb \<Rightarrow> u32" where
  "send_window pcb = ucast (min (pcb_snd_wnd pcb) (pcb_cwnd pcb))"

lemma tcp_output_spec:
  assumes "tcp_output env pcb s = Some (err, pcb', s')" and "sy_input_pcb s \<noteq> Some (pcb_addr pcb)"
  shows "\<exists>sent rest.
     pcb_unsent pcb = sent @ rest \<and> map seg_id (pcb_unsent pcb') = map seg_id rest \<and>
     list_all (seg_in_window pcb (send_window pcb)) sent \<and>
     (err = ERR_OK \<longrightarrow> rest \<noteq> [] \<longrightarrow> \<not> seg_in_window pcb (send_window pcb) (hd rest) \<or> \<not> may_send pcb') \<and>
     (list_all (\<lambda>seg. 0 < TCP_TCPLEN seg) (pcb_unsent pcb) \<longrightarrow>
        mset (map seg_id (pcb_unacked pcb')) = mset (map seg_id (pcb_unacked pcb)) + mset (map seg_id sent)) \<and>
     (\<forall>b. segs_sorted b (pcb_unacked pcb) \<longrightarrow> segs_in b (pcb_unsent pcb) \<longrightarrow> segs_sorted b (pcb_unacked pcb')) \<and>
     (\<exists>pkts. sy_sent s' = rev pkts @ sy_sent s \<and>
       (if has_flag TF_ACK_NOW pcb \<and> (pcb_unsent pcb = [] \<or> \<not> seg_in_window pcb (send_window pcb) (hd (pcb_unsent pcb)))
        then sent = [] \<and> length pkts \<le> 1 \<and> (\<forall>pkt \<in> set pkts. \<exists>q. fst pkt = [q] \<and> pb_len q = TCP_HLEN)
        else list_all2 (carries pcb) pkts (sent @ (if err = ERR_OK then [] else [hd rest])) \<and>
          (err \<noteq> ERR_OK \<longrightarrow> rest \<noteq> [] \<and> seg_in_window pcb (send_window pcb) (hd rest))))"
proof (cases "has_flag TF_ACK_NOW pcb \<and>
    (pcb_unsent pcb = [] \<or> \<not> seg_in_window pcb (send_window pcb) (hd (pcb_unsent pcb)))")
  case True
  then have "tcp_send_empty_ack env pcb s = Some (err, pcb', s')"
    using assms by (simp add: tcp_output_def send_window_def)
  note e = tcp_send_empty_ack_queues [OF this] tcp_send_empty_ack_sent [OF this]
  show ?thesis
    by (rule exI [of _ "[]"], rule exI [of _ "pcb_unsent pcb"]) (use e True in auto)
next
  case False
  then have e: "Option.bind (tcp_output_loop env (send_window pcb) (pcb_unsent pcb) pcb s) (\<lambda>(err, pcb1, s1).
      if err \<noteq> ERR_OK then Some (err, pcb1, s1)
      else Some (ERR_OK, clear_flag TF_NAGLEMEMERR (if pcb_unsent pcb1 = [] then pcb1\<lparr>pcb_unsent_oversize := 0\<rparr> else pcb1), s1))
    = Some (err, pcb', s')"
    using assms unfolding tcp_output_def send_window_def Let_def by (simp split: if_split_asm)
  then obtain e1 pcb1 s1 where l1: "tcp_output_loop env (send_window pcb) (pcb_unsent pcb) pcb s = Some (e1, pcb1, s1)"
    by (auto simp: bind_Some_iff)
  then have l: "tcp_output_loop env (send_window pcb) (pcb_unsent pcb) pcb s = Some (err, pcb1, s')"
    and p': "pcb' = (if err \<noteq> ERR_OK then pcb1
                     else clear_flag TF_NAGLEMEMERR (if pcb_unsent pcb1 = [] then pcb1\<lparr>pcb_unsent_oversize := 0\<rparr> else pcb1))"
    using e by (simp_all split: if_splits)
  obtain sent rest where r: "loop_result (send_window pcb) (pcb_unsent pcb) pcb s err pcb1 s' sent rest"
    using tcp_output_loop_spec [OF l refl] by blast
  have q: "pcb_unsent pcb' = pcb_unsent pcb1" "pcb_unacked pcb' = pcb_unacked pcb1"
    unfolding p' by (auto simp: clear_flag_def)
  have m: "may_send pcb' \<Longrightarrow> pcb_unsent pcb1 \<noteq> [] \<Longrightarrow> may_send pcb1"
    unfolding p' by (auto split: if_splits dest: may_send_clear)
  have order: "\<And>b. segs_sorted b (pcb_unacked pcb) \<Longrightarrow> segs_in b (pcb_unsent pcb) \<Longrightarrow> segs_sorted b (pcb_unacked pcb')"
    and held: "err = ERR_OK \<Longrightarrow> rest \<noteq> [] \<Longrightarrow> \<not> seg_in_window pcb (send_window pcb) (hd rest) \<or> \<not> may_send pcb'"
    using r q m by (auto simp: loop_result_def)
  show ?thesis unfolding if_not_P [OF False]
    by (rule exI [of _ sent], rule exI [of _ rest]) (use r q order held in \<open>simp add: loop_result_def\<close>)
qed

text \<open>
  C10: \<open>tcp_output\<close> moves a prefix of the unsent queue to the unacked queue and touches nothing else:
  no segment is lost, doubled or reordered on the unsent queue. Each segment it sends ends within the smaller of
  the peer's window and the congestion window, counted from the last acknowledgement, and when it
  returns \<open>ERR_OK\<close> what it leaves is outside of that window or held back by Nagle's algorithm. Nothing else is
  handed to \<open>ip_output_if\<close>: the packets, in order, carry exactly these segments and, when a transmission fails, the one that failed, which lies within
  the window too; or there is nothing to send and an acknowledgement is due, and at most one bare header goes out.
\<close>

theorem tcp_output_in_window:
  assumes "tcp_output env pcb s = Some (err, pcb', s')" and "sy_input_pcb s \<noteq> Some (pcb_addr pcb)"
    and "list_all (\<lambda>seg. 0 < TCP_TCPLEN seg) (pcb_unsent pcb)"
  shows "\<exists>sent rest pkts.
     pcb_unsent pcb = sent @ rest \<and> map seg_id (pcb_unsent pcb') = map seg_id rest \<and>
     mset (map seg_id (pcb_unacked pcb')) = mset (map seg_id (pcb_unacked pcb)) + mset (map seg_id sent) \<and>
     list_all (\<lambda>seg. seg_seqno seg - pcb_lastack pcb + ucast (sg_len seg)
                       \<le> ucast (min (pcb_snd_wnd pcb) (pcb_cwnd pcb))) sent \<and>
     (err = ERR_OK \<longrightarrow> rest \<noteq> [] \<longrightarrow>
        \<not> seg_seqno (hd rest) - pcb_lastack pcb + ucast (sg_len (hd rest)) \<le> ucast (min (pcb_snd_wnd pcb) (pcb_cwnd pcb)) \<or>
        \<not> (tcp_do_output_nagle pcb' \<or> has_flag (TF_NAGLEMEMERR OR TF_FIN) pcb')) \<and>
     sy_sent s' = rev pkts @ sy_sent s \<and>
     (if has_flag TF_ACK_NOW pcb \<and> (pcb_unsent pcb = [] \<or>
           \<not> seg_seqno (hd (pcb_unsent pcb)) - pcb_lastack pcb + ucast (sg_len (hd (pcb_unsent pcb))) \<le> ucast (min (pcb_snd_wnd pcb) (pcb_cwnd pcb)))
      then sent = [] \<and> length pkts \<le> 1 \<and> (\<forall>pkt \<in> set pkts. \<exists>q. fst pkt = [q] \<and> pb_len q = TCP_HLEN)
      else list_all2 (carries pcb) pkts (sent @ (if err = ERR_OK then [] else [hd rest])) \<and>
        (err \<noteq> ERR_OK \<longrightarrow> rest \<noteq> [] \<and>
           seg_seqno (hd rest) - pcb_lastack pcb + ucast (sg_len (hd rest)) \<le> ucast (min (pcb_snd_wnd pcb) (pcb_cwnd pcb))))"
  using tcp_output_spec [OF assms(1,2)] assms(3) unfolding seg_in_window_def [abs_def] send_window_def may_send_def
  by (elim exE conjE) (intro exI conjI; (assumption | erule (1) mp))

text \<open>
  C11: The unacked queue stays in sequence order through \<open>tcp_output\<close>, as long as the segments of the
  connection lie within one half of the number circle. The unsent queue stays in order too.
\<close>

theorem tcp_output_keeps_order:
  assumes "tcp_output env pcb s = Some (err, pcb', s')" and "sy_input_pcb s \<noteq> Some (pcb_addr pcb)"
    and "segs_sorted b (pcb_unacked pcb)" and "segs_sorted b (pcb_unsent pcb)"
  shows "segs_sorted b (pcb_unacked pcb') \<and> segs_sorted b (pcb_unsent pcb')"
proof -
  obtain sent rest where r: "pcb_unsent pcb = sent @ rest" "map seg_id (pcb_unsent pcb') = map seg_id rest"
    "\<forall>b. segs_sorted b (pcb_unacked pcb) \<longrightarrow> segs_in b (pcb_unsent pcb) \<longrightarrow> segs_sorted b (pcb_unacked pcb')"
    using tcp_output_spec [OF assms(1,2)] by blast
  have "segs_sorted b rest" using assms(4) r(1) by (simp add: segs_sorted_def sorted_append)
  then show ?thesis
    using r assms(3,4) segs_sorted_ids [OF r(2)] by (auto simp: segs_sorted_def)
qed

section \<open>Retransmission\<close>

lemma segs_sorted_append:
  "segs_sorted b (p @ q) \<longleftrightarrow> segs_sorted b p \<and> segs_sorted b q \<and> (\<forall>x \<in> set p. \<forall>y \<in> set q. seg_rank b x \<le> seg_rank b y)"
  by (auto simp: segs_sorted_def sorted_append)

text \<open>
  C12: A retransmission loses no segment and keeps the order. \<open>tcp_rexmit\<close> moves the first unacknowledged
  segment to its place in the unsent queue; \<open>rexmit_rto_queues\<close> puts the whole unacked queue in front
  of the unsent queue, which is in order when the last acknowledged data was sent before it.
\<close>

theorem tcp_rexmit_order:
  assumes "segs_sorted b (pcb_unacked pcb)" and "segs_sorted b (pcb_unsent pcb)"
  shows "mset (pcb_unsent (tcp_rexmit pcb) @ pcb_unacked (tcp_rexmit pcb)) = mset (pcb_unsent pcb @ pcb_unacked pcb) \<and>
    segs_sorted b (pcb_unsent (tcp_rexmit pcb)) \<and> segs_sorted b (pcb_unacked (tcp_rexmit pcb)) \<and>
    mset (pcb_unsent (rexmit_rto_queues pcb) @ pcb_unacked (rexmit_rto_queues pcb)) = mset (pcb_unsent pcb @ pcb_unacked pcb) \<and>
    (segs_sorted b (pcb_unacked pcb @ pcb_unsent pcb) \<longrightarrow> segs_sorted b (pcb_unsent (rexmit_rto_queues pcb)))"
proof (cases "pcb_unacked pcb")
  case Nil
  then show ?thesis using assms by (simp add: tcp_rexmit_def rexmit_rto_queues_def Let_def)
next
  case (Cons seg rest)
  have "seq_win b (seg_seqno seg)" "segs_sorted b rest"
    using assms(1) Cons by (simp_all add: segs_sorted_def)
  then show ?thesis
    using assms Cons rexmit_queue.ins_sorted [of b "pcb_unsent pcb" seg]
    by (simp add: tcp_rexmit_def rexmit_rto_queues_def Let_def rexmit_queue.ins_mset)
qed

text \<open>
  C18: Fast retransmit reduces the windows. The slow start threshold becomes
  half of the smaller of congestion and send window (RFC 2581 has half of the data in flight here), but at least two segments, and the
  congestion window is that and three segments; all of it once per loss. With a segment size of at most \<open>TCP_MSS\<close>, which
  \<open>tcp_parseopt\<close> ensures, none of the sums wraps around, whatever the windows are.
\<close>

theorem tcp_rexmit_fast_window:
  assumes "pcb_unacked pcb \<noteq> []" and "\<not> has_flag TF_INFR pcb" and "pcb_mss pcb \<le> TCP_MSS"
  shows "unat (pcb_ssthresh (tcp_rexmit_fast pcb)) =
           max (min (unat (pcb_cwnd pcb)) (unat (pcb_snd_wnd pcb)) div 2) (2 * unat (pcb_mss pcb)) \<and>
         unat (pcb_cwnd (tcp_rexmit_fast pcb)) = unat (pcb_ssthresh (tcp_rexmit_fast pcb)) + 3 * unat (pcb_mss pcb) \<and>
         pcb_nrtx (tcp_rexmit_fast pcb) = pcb_nrtx pcb + 1 \<and>
         tcp_rexmit_fast (tcp_rexmit_fast pcb) = tcp_rexmit_fast pcb"
proof -
  obtain seg rest where u: "pcb_unacked pcb = seg # rest" using assms(1) by (cases "pcb_unacked pcb") auto
  let ?half = "if pcb_snd_wnd pcb < pcb_cwnd pcb then pcb_snd_wnd pcb div 2 else pcb_cwnd pcb div 2"
  define th where "th = (if unat ?half < 2 * unat (pcb_mss pcb) then 2 * pcb_mss pcb else ?half)"
  have half: "unat ?half = min (unat (pcb_cwnd pcb)) (unat (pcb_snd_wnd pcb)) div 2"
    by (auto simp: unat_div word_less_nat_alt min_def)
  have mss: "unat (pcb_mss pcb) \<le> 536" using assms(3) by (simp add: word_le_nat_alt)
  have fits: "max (min (unat (pcb_cwnd pcb)) (unat (pcb_snd_wnd pcb)) div 2) (2 * unat (pcb_mss pcb)) + 3 * unat (pcb_mss pcb) < 65536"
    using mss u16_bound [of "pcb_cwnd pcb"] by linarith
  have m: "2 * unat (pcb_mss pcb) < 65536" "3 * unat (pcb_mss pcb) < 65536" using mss by linarith+
  then have two: "unat (2 * pcb_mss pcb) = 2 * unat (pcb_mss pcb)" "unat (3 * pcb_mss pcb) = 3 * unat (pcb_mss pcb)"
    by (simp_all add: unat_word_ariths)
  have th: "unat th = max (min (unat (pcb_cwnd pcb)) (unat (pcb_snd_wnd pcb)) div 2) (2 * unat (pcb_mss pcb))"
    using half two(1) by (auto simp: th_def max_def)
  have sum: "unat (th + 3 * pcb_mss pcb) = unat th + 3 * unat (pcb_mss pcb)"
    using th two(2) fits by (simp add: unat_word_ariths)
  have p: "pcb_ssthresh (tcp_rexmit_fast pcb) = th" "pcb_cwnd (tcp_rexmit_fast pcb) = th + 3 * pcb_mss pcb"
    "pcb_nrtx (tcp_rexmit_fast pcb) = pcb_nrtx pcb + 1" "has_flag TF_INFR (tcp_rexmit_fast pcb)"
    using assms(1,2) u
    by (simp_all add: tcp_rexmit_fast_def tcp_rexmit_def Let_def set_flag_def th_def has_flag_def bit.conj_disj_distrib2)
  have "tcp_rexmit_fast (tcp_rexmit_fast pcb) = tcp_rexmit_fast pcb"
    using p(4) by (simp add: tcp_rexmit_fast_def [of "tcp_rexmit_fast pcb"])
  then show ?thesis using p sum th by simp
qed

section \<open>Instances\<close>

lemma ex_output:
  "map_option (\<lambda>(err, p, s). (err, map seg_id (pcb_unsent p))) (tcp_output ex_env ex_pcb ex_sys)
     = Some (ERR_OK, [(3, 1005, 3)])"
  "sy_input_pcb ex_sys \<noteq> Some (pcb_addr ex_pcb)" "list_all (\<lambda>seg. 0 < TCP_TCPLEN seg) (pcb_unsent ex_pcb)"
  "map seg_id (pcb_unacked ex_pcb) = [(1, 1000, 3)]" "map seg_id (pcb_unsent ex_pcb) = [(2, 1003, 2), (3, 1005, 3)]"
  by code_simp+

lemma ex_order:
  "segs_sorted 1000 (pcb_unacked ex_pcb)" "segs_sorted 1000 (pcb_unsent ex_pcb)"
  by (simp_all add: segs_sorted_def seg_rank_def seq_rank_def seq_win_def ex_defs)

theorem tcp_output_in_window_witness:
  "\<exists>err p s. tcp_output ex_env ex_pcb ex_sys = Some (err, p, s) \<and>
     mset (map seg_id (pcb_unacked p)) = {#(1, 1000, 3), (2, 1003, 2)#}"
proof -
  obtain err p s where o: "tcp_output ex_env ex_pcb ex_sys = Some (err, p, s)"
    and u: "map seg_id (pcb_unsent p) = [(3, 1005, 3)]"
    using ex_output(1) by auto
  obtain sent rest where r: "pcb_unsent ex_pcb = sent @ rest" "map seg_id (pcb_unsent p) = map seg_id rest"
    "mset (map seg_id (pcb_unacked p)) = mset (map seg_id (pcb_unacked ex_pcb)) + mset (map seg_id sent)"
    using tcp_output_in_window [OF o ex_output(2,3)] by (elim exE conjE)
  have "map seg_id sent @ [(3, 1005, 3)] = [(2, 1003, 2), (3, 1005, 3)]"
    using r(1,2) u ex_output(5) by (metis map_append)
  then have "map seg_id sent = [(2, 1003, 2)]" by simp
  then show ?thesis using o r(3) ex_output(4) by auto
qed

theorem tcp_output_keeps_order_witness:
  "\<exists>err p s. tcp_output ex_env ex_pcb ex_sys = Some (err, p, s) \<and> segs_sorted 1000 (pcb_unacked p)"
proof -
  obtain err p s where o: "tcp_output ex_env ex_pcb ex_sys = Some (err, p, s)"
    using ex_output(1) by auto
  then show ?thesis using tcp_output_keeps_order [OF o ex_output(2) ex_order] by blast
qed

theorem tcp_rexmit_order_witness:
  "segs_sorted 1000 (pcb_unsent (tcp_rexmit ex_pcb)) \<and> size (mset (pcb_unsent (tcp_rexmit ex_pcb))) = 3"
  using tcp_rexmit_order [OF ex_order] by (simp add: ex_defs tcp_rexmit_def Let_def)

theorem tcp_rexmit_fast_window_witness:
  "unat (pcb_ssthresh (tcp_rexmit_fast ex_pcb)) = 1072 \<and> unat (pcb_cwnd (tcp_rexmit_fast ex_pcb)) = 2680"
  using tcp_rexmit_fast_window [of ex_pcb] by (simp add: ex_defs has_flag_def)

end
