(* ===== verification/Tcp_Ack.thy ===== *)
theory Tcp_Ack
  imports Tcp_In Tcp_Queue
begin

text \<open>
  The acknowledgement part of \<open>tcp_receive\<close> (src/tcp_in.c): what an acknowledgement removes from the queues of
  sent segments and how it changes the counters and windows of the connection.
\<close>

section \<open>Acknowledgements\<close>

text \<open>The segments an acknowledgement covers, and the buffers they hold.\<close>

definition acked_by :: "u32 \<Rightarrow> tcp_seg \<Rightarrow> bool" where
  "acked_by ackno seg \<longleftrightarrow> TCP_SEQ_LEQ (seg_seqno seg + TCP_TCPLEN seg) ackno"

definition queue_pbufs :: "tcp_seg list \<Rightarrow> nat" where
  "queue_pbufs q = sum_list (map (\<lambda>seg. unat (ucast (pbuf_clen (sg_p seg)) :: u16)) q)"

lemma queue_pbufs_simps [simp]:
  "queue_pbufs [] = 0" "queue_pbufs (x # q) = unat (ucast (pbuf_clen (sg_p x)) :: u16) + queue_pbufs q"
  "queue_pbufs (p @ q) = queue_pbufs p + queue_pbufs q"
  by (simp_all add: queue_pbufs_def)

text \<open>The members of a control block that the removal of segments leaves alone.\<close>

definition ack_frame :: "tcp_pcb \<Rightarrow> tcp_pcb \<Rightarrow> bool" where
  "ack_frame p p' \<longleftrightarrow> pcb_lastack p' = pcb_lastack p \<and> pcb_snd_nxt p' = pcb_snd_nxt p \<and> pcb_snd_lbb p' = pcb_snd_lbb p \<and>
     pcb_snd_buf p' = pcb_snd_buf p \<and> pcb_state p' = pcb_state p \<and> pcb_cwnd p' = pcb_cwnd p \<and> pcb_snd_wnd p' = pcb_snd_wnd p \<and>
     pcb_rcv_nxt p' = pcb_rcv_nxt p \<and> pcb_addr p' = pcb_addr p \<and> pcb_nrtx p' = pcb_nrtx p \<and> pcb_dupacks p' = pcb_dupacks p \<and>
     pcb_mss p' = pcb_mss p \<and> pcb_rtime p' = pcb_rtime p \<and> pcb_ooseq p' = pcb_ooseq p \<and> pcb_rcv_wnd p' = pcb_rcv_wnd p"

lemma ack_frame_refl [simp]: "ack_frame p p"
  by (simp add: ack_frame_def)

lemma ack_frame_trans: "ack_frame p q \<Longrightarrow> ack_frame q r \<Longrightarrow> ack_frame p r"
  by (simp add: ack_frame_def)

lemma ack_seg_spec:
  assumes "ack_seg seg pcb s = Some (pcb', s')"
  shows "pcb_unacked pcb' = pcb_unacked pcb \<and> pcb_unsent pcb' = pcb_unsent pcb \<and> ack_frame pcb pcb' \<and>
    unat (pcb_snd_queuelen pcb) = unat (pcb_snd_queuelen pcb') + unat (ucast (pbuf_clen (sg_p seg)) :: u16)"
  using assms
  by (auto simp: ack_seg_def bind_Some_iff Let_def ack_frame_def unat_sub word_le_nat_alt split: if_split_asm)

lemma ack_unacked_spec:
  assumes "ack_unacked ackno q pcb s = Some (pcb', s')" and "pcb_unacked pcb = q"
  shows "pcb_unacked pcb' = dropWhile (acked_by ackno) q \<and> pcb_unsent pcb' = pcb_unsent pcb \<and> ack_frame pcb pcb' \<and>
    unat (pcb_snd_queuelen pcb) = unat (pcb_snd_queuelen pcb') + queue_pbufs (takeWhile (acked_by ackno) q)"
  using assms
proof (induction q arbitrary: pcb s)
  case (Cons seg rest)
  show ?case
  proof (cases "acked_by ackno seg")
    case False
    then show ?thesis using Cons.prems by (auto simp: acked_by_def)
  next
    case True
    obtain pcb1 s1 where a: "ack_seg seg (pcb\<lparr>pcb_unacked := rest\<rparr>) s = Some (pcb1, s1)"
      and rec: "ack_unacked ackno rest pcb1 s1 = Some (pcb', s')"
      using Cons.prems(1) True by (auto simp: acked_by_def bind_Some_iff)
    note k = ack_seg_spec [OF a]
    then have "pcb_unacked pcb1 = rest" by simp
    note ih = Cons.IH [OF rec this]
    show ?thesis using ih k True by (auto simp: ack_frame_def)
  qed
qed auto

definition sent_and_acked :: "u32 \<Rightarrow> u32 \<Rightarrow> tcp_seg \<Rightarrow> bool" where
  "sent_and_acked ackno nxt seg \<longleftrightarrow> TCP_SEQ_BETWEEN ackno (seg_seqno seg + TCP_TCPLEN seg) nxt"

lemma ack_unsent_spec:
  assumes "ack_unsent ackno q pcb s = Some (pcb', s')" and "pcb_unsent pcb = q"
  shows "pcb_unsent pcb' = dropWhile (sent_and_acked ackno (pcb_snd_nxt pcb)) q \<and> pcb_unacked pcb' = pcb_unacked pcb \<and> ack_frame pcb pcb' \<and>
    unat (pcb_snd_queuelen pcb) = unat (pcb_snd_queuelen pcb') + queue_pbufs (takeWhile (sent_and_acked ackno (pcb_snd_nxt pcb)) q)"
  using assms
proof (induction q arbitrary: pcb s)
  case (Cons seg rest)
  show ?case
  proof (cases "sent_and_acked ackno (pcb_snd_nxt pcb) seg")
    case False
    then show ?thesis using Cons.prems by (auto simp: sent_and_acked_def)
  next
    case True
    obtain pcb1 s1 where a: "ack_seg seg (pcb\<lparr>pcb_unsent := rest, pcb_unsent_oversize := if rest = [] then 0 else pcb_unsent_oversize pcb\<rparr>) s = Some (pcb1, s1)"
      and rec: "ack_unsent ackno rest pcb1 s1 = Some (pcb', s')"
      using Cons.prems(1) True unfolding ack_unsent.simps Let_def sent_and_acked_def by (auto simp: bind_Some_iff simp del: if_split)
    note k = ack_seg_spec [OF a]
    then have u: "pcb_unsent pcb1 = rest" by simp
    note ih = Cons.IH [OF rec u]
    show ?thesis using ih k True by (auto simp: ack_frame_def)
  qed
qed auto

lemma cwnd_on_ack_spec:
  "cwnd_on_ack pcb = Some pcb' \<Longrightarrow> pcb' = pcb\<lparr>pcb_cwnd := pcb_cwnd pcb'\<rparr> \<and> pcb_cwnd pcb \<le> pcb_cwnd pcb'"
  by (auto simp: cwnd_on_ack_def cwnd_grow_def Let_def bind_Some_iff less_imp_le split: if_split_asm)

lemma receive_new_ack_spec:
  assumes "receive_new_ack t pcb s = Some (pcb', s')"
  shows "pcb_unacked pcb' = dropWhile (acked_by (ti_ackno t)) (pcb_unacked pcb) \<and> pcb_unsent pcb' = pcb_unsent pcb \<and>
    pcb_lastack pcb' = ti_ackno t \<and> pcb_snd_buf pcb' = pcb_snd_buf pcb + ucast (ti_ackno t - pcb_lastack pcb) \<and>
    pcb_nrtx pcb' = 0 \<and> pcb_dupacks pcb' = 0 \<and> pcb_snd_nxt pcb' = pcb_snd_nxt pcb \<and> pcb_state pcb' = pcb_state pcb \<and>
    pcb_rtime pcb' = (if pcb_unacked pcb' = [] then - 1 else 0) \<and>
    (if has_flag TF_INFR pcb then pcb_ssthresh pcb else pcb_cwnd pcb) \<le> pcb_cwnd pcb' \<and>
    unat (pcb_snd_queuelen pcb) = unat (pcb_snd_queuelen pcb') + queue_pbufs (takeWhile (acked_by (ti_ackno t)) (pcb_unacked pcb))"
proof -
  define pcb1 where "pcb1 = (if has_flag TF_INFR pcb then (clear_flag TF_INFR pcb)\<lparr>pcb_cwnd := pcb_ssthresh pcb\<rparr> else pcb)"
  define pcb2 where "pcb2 = (let acked = ucast (ti_ackno t - pcb_lastack pcb1) in
    pcb1\<lparr>pcb_nrtx := 0, pcb_rto := of_int (sint (pcb_sa pcb1) div 8) + pcb_sv pcb1,
         pcb_acked := acked, pcb_snd_buf := pcb_snd_buf pcb1 + acked, pcb_dupacks := 0,
         pcb_lastack := ti_ackno t\<rparr>)"
  obtain pcb3 pcb4 where c: "cwnd_on_ack pcb2 = Some pcb3"
    and u: "ack_unacked (ti_ackno t) (pcb_unacked pcb3) pcb3 s = Some (pcb4, s')"
    and p': "pcb' = pcb4\<lparr>pcb_rtime := if pcb_unacked pcb4 = [] then - 1 else 0, pcb_polltmr := 0\<rparr>"
    using assms unfolding receive_new_ack_def pcb1_def [symmetric] Let_def
    by (auto simp: pcb2_def Let_def bind_Some_iff simp del: if_split)
  have p1: "pcb_unacked pcb1 = pcb_unacked pcb" "pcb_unsent pcb1 = pcb_unsent pcb" "pcb_lastack pcb1 = pcb_lastack pcb"
    "pcb_snd_buf pcb1 = pcb_snd_buf pcb" "pcb_snd_nxt pcb1 = pcb_snd_nxt pcb" "pcb_state pcb1 = pcb_state pcb"
    "pcb_snd_queuelen pcb1 = pcb_snd_queuelen pcb" "pcb_cwnd pcb1 = (if has_flag TF_INFR pcb then pcb_ssthresh pcb else pcb_cwnd pcb)"
    by (simp_all add: pcb1_def clear_flag_def)
  have p2: "pcb_unacked pcb2 = pcb_unacked pcb" "pcb_unsent pcb2 = pcb_unsent pcb" "pcb_lastack pcb2 = ti_ackno t"
    "pcb_snd_buf pcb2 = pcb_snd_buf pcb + ucast (ti_ackno t - pcb_lastack pcb)" "pcb_snd_nxt pcb2 = pcb_snd_nxt pcb"
    "pcb_state pcb2 = pcb_state pcb" "pcb_snd_queuelen pcb2 = pcb_snd_queuelen pcb" "pcb_nrtx pcb2 = 0" "pcb_dupacks pcb2 = 0"
    "pcb_cwnd pcb2 = (if has_flag TF_INFR pcb then pcb_ssthresh pcb else pcb_cwnd pcb)"
    using p1 by (simp_all add: pcb2_def Let_def)
  have p3: "pcb3 = pcb2\<lparr>pcb_cwnd := pcb_cwnd pcb3\<rparr>" "pcb_cwnd pcb2 \<le> pcb_cwnd pcb3" using cwnd_on_ack_spec [OF c] by simp_all
  have e3: "pcb_unacked pcb3 = pcb_unacked pcb2" "pcb_unsent pcb3 = pcb_unsent pcb2" "pcb_lastack pcb3 = pcb_lastack pcb2"
    "pcb_snd_buf pcb3 = pcb_snd_buf pcb2" "pcb_snd_nxt pcb3 = pcb_snd_nxt pcb2" "pcb_state pcb3 = pcb_state pcb2"
    "pcb_snd_queuelen pcb3 = pcb_snd_queuelen pcb2" "pcb_nrtx pcb3 = pcb_nrtx pcb2" "pcb_dupacks pcb3 = pcb_dupacks pcb2"
    by (subst p3(1), simp)+
  show ?thesis
    using ack_unacked_spec [OF u refl] p' p2 p3(2) e3 by (auto simp: ack_frame_def)
qed


lemma receive_window_keeps:
  "pcb_unacked (receive_window t pcb) = pcb_unacked pcb" "pcb_unsent (receive_window t pcb) = pcb_unsent pcb"
  "pcb_lastack (receive_window t pcb) = pcb_lastack pcb" "pcb_snd_nxt (receive_window t pcb) = pcb_snd_nxt pcb"
  "pcb_snd_buf (receive_window t pcb) = pcb_snd_buf pcb" "pcb_snd_queuelen (receive_window t pcb) = pcb_snd_queuelen pcb"
  "pcb_state (receive_window t pcb) = pcb_state pcb" "pcb_flags (receive_window t pcb) = pcb_flags pcb"
  "pcb_rcv_nxt (receive_window t pcb) = pcb_rcv_nxt pcb" "pcb_rcv_wnd (receive_window t pcb) = pcb_rcv_wnd pcb"
  "pcb_ooseq (receive_window t pcb) = pcb_ooseq pcb" "pcb_mss (receive_window t pcb) = pcb_mss pcb"
  "pcb_cwnd (receive_window t pcb) = pcb_cwnd pcb" "pcb_ssthresh (receive_window t pcb) = pcb_ssthresh pcb"
  by (simp_all add: receive_window_def Let_def)

lemma receive_rtt_keeps:
  "ack_frame (receive_rtt t n pcb) p' = ack_frame pcb p'" "ack_frame p' (receive_rtt t n pcb) = ack_frame p' pcb"
  "pcb_unacked (receive_rtt t n pcb) = pcb_unacked pcb" "pcb_unsent (receive_rtt t n pcb) = pcb_unsent pcb"
  "pcb_snd_queuelen (receive_rtt t n pcb) = pcb_snd_queuelen pcb"
  by (simp_all add: receive_rtt_def Let_def ack_frame_def)

text \<open>
  C4: An acknowledgement of new data removes exactly what it covers. If the segment carries \<open>ACK\<close> and its
  number lies in \<open>lastack + 1 .. snd_nxt\<close>, then the unacked queue loses its leading segments that
  end at or before it, the unsent queue those that end between it and \<open>snd_nxt\<close> (segments that were put back for
  retransmission), and nothing else; \<open>lastack\<close> becomes the acknowledged number, \<open>snd_buf\<close> grows by the
  newly acknowledged bytes, the queue length shrinks by exactly the buffers of the removed segments
  without underflow, the retransmission and duplicate counters are cleared, and the congestion window does not shrink
  (after a fast recovery it starts from \<open>ssthresh\<close>).
\<close>

theorem receive_ack_removes_acked:
  assumes "receive_ack env t pcb s = Some (pcb', s')" and "in_flag TCP_ACK t"
    and "\<not> TCP_SEQ_LEQ (ti_ackno t) (pcb_lastack pcb)"
    and "TCP_SEQ_BETWEEN (ti_ackno t) (pcb_lastack pcb + 1) (pcb_snd_nxt pcb)"
  shows "pcb_unacked pcb' = dropWhile (acked_by (ti_ackno t)) (pcb_unacked pcb) \<and>
    pcb_unsent pcb' = dropWhile (sent_and_acked (ti_ackno t) (pcb_snd_nxt pcb)) (pcb_unsent pcb) \<and>
    pcb_lastack pcb' = ti_ackno t \<and> pcb_snd_buf pcb' = pcb_snd_buf pcb + ucast (ti_ackno t - pcb_lastack pcb) \<and>
    pcb_nrtx pcb' = 0 \<and> pcb_dupacks pcb' = 0 \<and> pcb_state pcb' = pcb_state pcb \<and>
    (if has_flag TF_INFR pcb then pcb_ssthresh pcb else pcb_cwnd pcb) \<le> pcb_cwnd pcb' \<and>
    unat (pcb_snd_queuelen pcb) = unat (pcb_snd_queuelen pcb') +
      queue_pbufs (takeWhile (acked_by (ti_ackno t)) (pcb_unacked pcb)) +
      queue_pbufs (takeWhile (sent_and_acked (ti_ackno t) (pcb_snd_nxt pcb)) (pcb_unsent pcb))"
proof -
  let ?w = "receive_window t pcb"
  obtain pcb2 s1 pcb3 s2 where n: "receive_new_ack t ?w s = Some (pcb2, s1)"
    and u: "ack_unsent (ti_ackno t) (pcb_unsent pcb2) pcb2 s1 = Some (pcb3, s2)"
    and p': "pcb' = receive_rtt t (sy_ticks s2) pcb3"
    using assms by (auto simp: receive_ack_def receive_window_keeps Let_def bind_Some_iff)
  note x = receive_new_ack_spec [OF n, unfolded receive_window_keeps]
  note y = ack_unsent_spec [OF u refl]
  have h: "has_flag TF_INFR ?w = has_flag TF_INFR pcb" by (simp add: has_flag_def receive_window_keeps)
  have "ack_frame pcb2 pcb'" using y p' by (simp add: receive_rtt_keeps)
  note a = this [unfolded ack_frame_def]
  have q: "pcb_unacked pcb' = pcb_unacked pcb3" "pcb_unsent pcb' = pcb_unsent pcb3" "pcb_snd_queuelen pcb' = pcb_snd_queuelen pcb3"
    using p' by (simp_all add: receive_rtt_keeps)
  show ?thesis using x [unfolded h] y a by (simp add: q)
qed

section \<open>The properties at concrete values\<close>

text \<open>A segment with sequence number, acknowledged number, flags and data for the connection of the examples.\<close>

definition ex_tin :: "u32 \<Rightarrow> u32 \<Rightarrow> u8 \<Rightarrow> u8 list \<Rightarrow> tin" where
  "ex_tin n ack flags bs = \<lparr>ti_hdr = \<lparr>th_connid1 = 7, th_connid2 = 9, th_seqno = n, th_ackno = ack,
       th_hdrlen_rsvd_flags = 0x5000 OR ucast flags, th_wnd = 100\<rparr>,
     ti_p = [\<lparr>pb_addr = 300, pb_mem = bs, pb_off = 0, pb_tot_len = of_nat (length bs), pb_len = of_nat (length bs),
              pb_type = PBUF_RAM, pb_flags = 0\<rparr>],
     ti_len = of_nat (length bs), ti_hdroff = -20, ti_opt1len = 0, ti_opts = [], ti_opt2 = None,
     ti_seqno = n, ti_ackno = ack, ti_flags = flags, ti_tcplen = of_nat (length bs), ti_recv_data = []\<rparr>"

lemma ex_ack:
  "case receive_ack ex_env (ex_tin 500 1003 TCP_ACK []) ex_pcb ex_sys of None \<Rightarrow> False | Some (p, s) \<Rightarrow> pcb_lastack p = 1003"
  by (simp add: receive_ack_def receive_rtt_def receive_window_def in_flag_def TCP_SEQ_LT_def TCP_SEQ_GEQ_def
      TCP_SEQ_BETWEEN_def sent_and_acked_def TCP_SEQ_GT_def ex_tin_def ex_defs receive_new_ack_def Let_def has_flag_def
      clear_flag_def TCP_SEQ_LEQ_def ack_seg_def tcp_seg_free_def pbuf_free_def cwnd_on_ack_def TCP_TCPLEN_def
      TCPH_FLAGS_def pbuf_dealloc_def mem_free_def pbuf_ref_of_def pbuf_set_ref_def pbuf_clen_def memp_free_def
      memp_stats_upd_def)

lemma ex_ack_new:
  "in_flag TCP_ACK (ex_tin 500 1003 TCP_ACK [])"
  "\<not> TCP_SEQ_LEQ (ti_ackno (ex_tin 500 1003 TCP_ACK [])) (pcb_lastack ex_pcb)"
  "TCP_SEQ_BETWEEN (ti_ackno (ex_tin 500 1003 TCP_ACK [])) (pcb_lastack ex_pcb + 1) (pcb_snd_nxt ex_pcb)"
  by (simp_all add: in_flag_def ex_tin_def ex_defs TCP_SEQ_LEQ_def TCP_SEQ_GEQ_def TCP_SEQ_BETWEEN_def)

lemma ex_ack_queue:
  "dropWhile (acked_by 1003) (pcb_unacked ex_pcb) = []"
  "queue_pbufs (takeWhile (acked_by 1003) (pcb_unacked ex_pcb)) = 1"
  "takeWhile (sent_and_acked 1003 (pcb_snd_nxt ex_pcb)) (pcb_unsent ex_pcb) = []"
  "unat (pcb_snd_queuelen ex_pcb) = 3"
  by code_simp+

theorem receive_ack_removes_acked_witness:
  "\<exists>p s. receive_ack ex_env (ex_tin 500 1003 TCP_ACK []) ex_pcb ex_sys = Some (p, s) \<and> pcb_unacked p = [] \<and> unat (pcb_snd_queuelen p) = 2"
proof -
  obtain p s where r: "receive_ack ex_env (ex_tin 500 1003 TCP_ACK []) ex_pcb ex_sys = Some (p, s)"
    using ex_ack by (auto split: option.splits)
  have n: "ti_ackno (ex_tin 500 1003 TCP_ACK []) = 1003" by (simp add: ex_tin_def)
  show ?thesis
    using receive_ack_removes_acked [OF r ex_ack_new] r by (auto simp: n ex_ack_queue)
qed

end
