(* ===== verification/Tcp_Write.thy ===== *)
theory Tcp_Write
  imports Tcp_Queue
begin

text \<open>
  Data on its way out: what bytes the segments of a queue hold, and that \<open>tcp_write\<close> appends exactly
  the application's bytes to the unsent queue, in segments that follow one another without a gap,
  or leaves the data alone.
\<close>

section \<open>The data of a queue\<close>

definition seg_optlen :: "tcp_seg \<Rightarrow> nat" where
  "seg_optlen seg = unat (LWIP_TCP_OPT_LENGTH (sg_flags seg))"

text \<open>Unused memory behind the data of the last buffer.\<close>

definition seg_spare :: "pbuf list \<Rightarrow> nat" where
  "seg_spare ps = length (pb_mem (last ps)) - (nat (pb_off (last ps)) + unat (pb_len (last ps)))"

text \<open>
  A segment as it lies on the unsent queue: a well-formed chain that holds the header, the options and
  \<open>sg_len\<close> bytes of data, with the memory that \<open>oversize_left\<close> promises.
\<close>

definition seg_ok :: "tcp_seg \<Rightarrow> bool" where
  "seg_ok seg \<longleftrightarrow> chain_ok (sg_p seg) \<and> sg_p seg \<noteq> [] \<and>
     chain_len (sg_p seg) = 20 + seg_optlen seg + unat (sg_len seg) \<and>
     unat (sg_oversize_left seg) \<le> seg_spare (sg_p seg)"

definition seg_data :: "tcp_seg \<Rightarrow> u8 list" where
  "seg_data seg = drop (20 + seg_optlen seg) (chain_bytes (sg_p seg))"

definition queue_data :: "tcp_seg list \<Rightarrow> u8 list" where
  "queue_data q = concat (map seg_data q)"

lemma queue_data_simps [simp]:
  "queue_data [] = []" "queue_data (x # q) = seg_data x @ queue_data q" "queue_data (p @ q) = queue_data p @ queue_data q"
  by (simp_all add: queue_data_def)

lemma seg_data_length: "seg_ok seg \<Longrightarrow> length (seg_data seg) = unat (sg_len seg)"
  by (simp add: seg_ok_def seg_data_def)

text \<open>The segments of a queue follow one another from sequence number \<open>n\<close> on, and where they end.\<close>

fun contiguous :: "u32 \<Rightarrow> tcp_seg list \<Rightarrow> bool" where
  "contiguous n [] \<longleftrightarrow> True"
| "contiguous n (seg # q) \<longleftrightarrow> seg_seqno seg = n \<and> contiguous (n + TCP_TCPLEN seg) q"

fun queue_end :: "u32 \<Rightarrow> tcp_seg list \<Rightarrow> u32" where
  "queue_end n [] = n"
| "queue_end n (seg # q) = queue_end (n + TCP_TCPLEN seg) q"

lemma contiguous_append [simp]: "contiguous n (p @ q) \<longleftrightarrow> contiguous n p \<and> contiguous (queue_end n p) q"
  by (induction p arbitrary: n) auto

lemma queue_end_append [simp]: "queue_end n (p @ q) = queue_end (queue_end n p) q"
  by (induction p arbitrary: n) auto

section \<open>Memory for segments\<close>

lemma pbuf_alloc_RAM:
  assumes "pbuf_alloc env layer n PBUF_RAM s = Some (p, s')" and "p \<noteq> []"
  obtains q where "p = [q]" and "pb_off q = int (pbuf_layer_offset layer)" and "pb_len q = n" and "pb_tot_len q = n"
    and "length (pb_mem q) = pbuf_layer_offset layer + unat n" and "pb_type q = PBUF_RAM"
  using assms by (auto simp: pbuf_alloc_def Let_def split: option.splits prod.splits)

lemma pbuf_alloc_ROM:
  assumes "pbuf_alloc env layer n PBUF_ROM s = Some (p, s')" and "p \<noteq> []"
  obtains q where "p = [q]" and "pb_len q = n" and "pb_tot_len q = n" and "pb_type q = PBUF_ROM"
  using assms by (auto simp: pbuf_alloc_def Let_def split: option.splits prod.splits)

lemma prealloc_spec:
  assumes "tcp_pbuf_prealloc env layer len max_length ov pcb fl first s = Some (p, ov', s')" and "p \<noteq> []"
    and "len \<le> max_length"
  obtains q where "p = [q]" and "pb_ok q" and "pb_len q = len" and "pb_tot_len q = len" and "pb_type q = PBUF_RAM"
    and "pb_off q = int (pbuf_layer_offset layer)" and "unat ov' \<le> seg_spare [q]"
    and "unat len + unat ov' \<le> unat max_length"
proof -
  define alloc where "alloc = (if len < max_length \<and> (fl AND TCP_WRITE_FLAG_MORE \<noteq> 0 \<or>
      (\<not> has_flag TF_NODELAY pcb \<and> (\<not> first \<or> pcb_unsent pcb \<noteq> [] \<or> pcb_unacked pcb \<noteq> [])))
    then (if unat max_length < unat len + unat TCP_OVERSIZE then max_length else len + TCP_OVERSIZE) else len)"
  have le: "len \<le> alloc"
  proof -
    have "unat (len + 536) = unat len + 536" if "\<not> unat max_length < unat len + 536"
      using that u16_bound [of max_length] by (simp add: unat_word_ariths)
    then show ?thesis using assms(3) by (auto simp: alloc_def word_le_nat_alt)
  qed
  have top: "alloc \<le> max_length"
  proof -
    have "unat (len + 536) = unat len + 536" if "\<not> unat max_length < unat len + 536"
      using that u16_bound [of max_length] by (simp add: unat_word_ariths)
    then show ?thesis using assms(3) by (auto simp: alloc_def word_le_nat_alt)
  qed
  have e: "Option.bind (pbuf_alloc env layer alloc PBUF_RAM s) (\<lambda>(p, s1). case p of [] \<Rightarrow> Some ([], ov, s1)
      | q # qs \<Rightarrow> Option.bind (lwip_assert (qs = [])) (\<lambda>_. Some ([q\<lparr>pb_len := len, pb_tot_len := len\<rparr>], pb_len q - len, s1)))
    = Some (p, ov', s')"
    using assms(1) unfolding tcp_pbuf_prealloc_def Let_def alloc_def .
  then obtain p0 s0 where a: "pbuf_alloc env layer alloc PBUF_RAM s = Some (p0, s0)"
    by (auto simp: bind_Some_iff)
  have "p0 \<noteq> []" using e a assms(2) by auto
  from pbuf_alloc_RAM [OF a this] obtain q where q: "p0 = [q]" "pb_off q = int (pbuf_layer_offset layer)"
    "pb_len q = alloc" "length (pb_mem q) = pbuf_layer_offset layer + unat alloc" "pb_type q = PBUF_RAM" .
  have r: "p = [q\<lparr>pb_len := len, pb_tot_len := len\<rparr>]" "ov' = alloc - len"
    using e a q by simp_all
  have "unat (alloc - len) = unat alloc - unat len" using le by (simp add: unat_sub)
  then show ?thesis
    using r q le top by (intro that [of "q\<lparr>pb_len := len, pb_tot_len := len\<rparr>"]) (auto simp: pb_ok_def seg_spare_def word_le_nat_alt)
qed

text \<open>A buffer that is filled from its beginning.\<close>

lemma pb_write_all:
  assumes "pb_ok q" and "unat (pb_len q) = length bs"
  obtains q' where "pb_write q 0 bs = Some q'" and "pb_bytes q' = bs" and "same_shape q q'" and "pb_ok q'"
proof -
  have "unat (0 :: u16) + length bs \<le> unat (pb_len q)" using assms(2) by simp
  from pb_write_shape [OF assms(1) this] obtain q' where "pb_write q 0 bs = Some q'" "pb_ok q'" "same_shape q q'"
    "pb_bytes q' = splice_at 0 bs (pb_bytes q)" by auto
  moreover have "splice_at 0 bs (pb_bytes q) = bs" using assms by (simp add: splice_at_def)
  ultimately show ?thesis using that by simp
qed

lemma seg_spare_shape: "same_shape q q' \<Longrightarrow> seg_spare [q'] = seg_spare [q]"
  by (simp add: same_shape_def seg_spare_def)

lemma buf_read_length: "buf_read b i n = Some bs \<Longrightarrow> length bs = n \<and> bs = take n (drop i b) \<and> i + n \<le> length b"
  by (auto simp: buf_read_def split: if_splits)

section \<open>Creating a segment\<close>

lemma create_segment_spec:
  assumes c: "tcp_create_segment pcb p flags seqno optflags s = Some (Some seg, s')"
    and ok: "chain_ok p" and len: "chain_len p + 20 < 65536"
  shows "seg_ok seg" and "sg_flags seg = optflags" and "unat (sg_len seg) = chain_len p - seg_optlen seg"
    and "seg_data seg = drop (seg_optlen seg) (chain_bytes p)" and "seg_seqno seg = seqno"
    and "TCPH_FLAGS (sg_hdr seg) = flags AND 0x3f" and "seg_spare (sg_p seg) = seg_spare p"
    and "sg_oversize_left seg = 0" and "th_connid1 (sg_hdr seg) = pcb_connid1 pcb" and "th_connid2 (sg_hdr seg) = pcb_connid2 pcb"
proof -
  let ?optlen = "LWIP_TCP_OPT_LENGTH optflags"
  obtain ao s1 where m0: "memp_malloc MEMP_TCP_SEG s = (ao, s1)" by fastforce
  then obtain a where m: "memp_malloc MEMP_TCP_SEG s = (Some a, s1)"
    using c by (cases ao) (auto simp: tcp_create_segment_def bind_Some_iff)
  have ne: "p \<noteq> []" "?optlen \<le> pb_tot_len (hd p)"
    using c m by (auto simp: tcp_create_segment_def Let_def)
  then obtain q qs where p: "p = q # qs" by (cases p) auto
  obtain failed p' where h: "pbuf_header p TCP_HLEN = Some (failed, p')"
    using c m ne by (auto simp: tcp_create_segment_def Let_def bind_Some_iff)
  have f: "failed = 0"
    using c m ne h by (auto simp: tcp_create_segment_def Let_def bind_Some_iff split: if_splits)
  have tot: "unat (pb_tot_len q) = chain_len p" using ok p by simp
  have off: "20 \<le> pb_off q" and p': "p' = q\<lparr>pb_off := pb_off q - 20, pb_len := pb_len q + 20, pb_tot_len := pb_tot_len q + 20\<rparr> # qs"
    using h f p by (auto simp: pbuf_header_def pbuf_header_impl_def sint_s16_small Let_def bind_Some_iff split: if_splits)
  have seg: "sg_p seg = p'" "sg_len seg = pb_tot_len q - ?optlen" "sg_oversize_left seg = 0" "sg_flags seg = optflags"
    "sg_hdr seg = TCPH_HDRLEN_FLAGS_SET (5 + ?optlen div 4) flags
       ((tcp_hdr_read (drop (nat (pb_off (hd p'))) (pb_mem (hd p'))))\<lparr>th_connid1 := pcb_connid1 pcb, th_connid2 := pcb_connid2 pcb, th_seqno := seqno\<rparr>)"
    using c m ne h f p p' by (auto simp: tcp_create_segment_def Let_def)
  have o: "seg_optlen seg = unat ?optlen" using seg by (simp add: seg_optlen_def)
  have qb: "unat (pb_len q) + 20 < 65536" "unat (pb_tot_len q) + 20 < 65536" using len tot ok p by auto
  have add: "unat (pb_len q + 20) = unat (pb_len q) + 20" "unat (pb_tot_len q + 20) = unat (pb_tot_len q) + 20"
    using qb by (simp_all add: unat_word_ariths)
  have qok: "pb_ok q" using ok p by simp
  let ?q' = "hd p'"
  have q'ok: "pb_ok ?q'" using qok off add(1) p' by (auto simp: pb_ok_def nat_diff_distrib)
  have "drop (nat (pb_off q) - 20) (pb_mem q) = take 20 (drop (nat (pb_off q) - 20) (pb_mem q)) @ drop (nat (pb_off q)) (pb_mem q)"
    using off append_take_drop_id [of 20 "drop (nat (pb_off q) - 20) (pb_mem q)"] by (simp add: nat_le_iff le_nat_iff)
  then have bytes: "drop 20 (pb_bytes ?q') = pb_bytes q"
    using p' add(1) off by (simp add: pb_bytes_def nat_diff_distrib drop_take le_nat_iff)
  have l20: "20 \<le> length (pb_bytes ?q')" using q'ok p' add(1) by simp
  have ok': "chain_ok p'" using q'ok ok p p' add tot by simp
  have len': "chain_len p' = chain_len p + 20" using p p' add by simp
  have ol: "unat ?optlen \<le> chain_len p" using ne(2) p tot by (simp add: word_le_nat_alt)
  have sl: "unat (sg_len seg) = chain_len p - seg_optlen seg"
    using ne(2) p tot seg(2) o by (simp add: unat_sub)
  show "unat (sg_len seg) = chain_len p - seg_optlen seg" by (rule sl)
  show "seg_ok seg"
    using ok' len' sl ol seg(1,3) o p' by (simp add: seg_ok_def)
  have "chain_bytes p' = pb_bytes ?q' @ chain_bytes qs" using p' by simp
  then have "drop 20 (chain_bytes p') = chain_bytes p" using bytes l20 p by simp
  then have "drop (seg_optlen seg) (drop 20 (chain_bytes p')) = drop (seg_optlen seg) (chain_bytes p)" by simp
  then show "seg_data seg = drop (seg_optlen seg) (chain_bytes p)"
    using seg(1) by (simp add: seg_data_def add.commute)
  show "seg_spare (sg_p seg) = seg_spare p"
    using seg(1) p p' add(1) off by (auto simp: seg_spare_def nat_diff_distrib le_nat_iff)
  show "sg_flags seg = optflags" "sg_oversize_left seg = 0" by (fact seg)+
  show "seg_seqno seg = seqno" "th_connid1 (sg_hdr seg) = pcb_connid1 pcb" "th_connid2 (sg_hdr seg) = pcb_connid2 pcb"
    using seg(5) by (simp_all add: TCPH_HDRLEN_FLAGS_SET_def)
  show "TCPH_FLAGS (sg_hdr seg) = flags AND 0x3f" using seg(5) by simp
qed

section \<open>The phases of tcp_write\<close>

lemma pbuf_cat_loop_last: "pbuf_cat_loop h t = Some r \<Longrightarrow> t \<noteq> [] \<Longrightarrow> last r = last t \<and> r \<noteq> []"
  by (induction h t arbitrary: r rule: pbuf_cat_loop.induct) (auto simp: bind_Some_iff)

lemma pbuf_cat_spec:
  assumes "pbuf_cat h t = Some r" and "chain_ok h" and "chain_ok t" and "chain_len h + chain_len t < 65536"
  shows "chain_ok r" and "chain_bytes r = chain_bytes h @ chain_bytes t" and "seg_spare r = seg_spare t" and "r \<noteq> []"
    and "chain_len r = chain_len h + chain_len t"
proof -
  have ne: "h \<noteq> []" "t \<noteq> []" and l: "pbuf_cat_loop h t = Some r"
    using assms(1) by (auto simp: pbuf_cat_def)
  obtain r' where "pbuf_cat_loop h t = Some r'" "chain_ok r'" "chain_bytes r' = chain_bytes h @ chain_bytes t"
    using pbuf_cat_loop_bytes [OF assms(2,3) ne assms(4)] by blast
  with l show r: "chain_ok r" "chain_bytes r = chain_bytes h @ chain_bytes t" by simp_all
  then show "chain_len r = chain_len h + chain_len t"
    using assms(2,3) by (metis chain_ok_length length_append)
  show "seg_spare r = seg_spare t" "r \<noteq> []"
    using pbuf_cat_loop_last [OF l ne(2)] by (simp_all add: seg_spare_def)
qed

lemma write_seg_pbuf_spec:
  assumes e: "write_seg_pbuf env pcb arg fl mss_local seglen w s = Some (p, ov, s')" and ne: "p \<noteq> []"
    and le: "seglen \<le> mss_local"
  shows "chain_ok p \<and> chain_bytes p = take (unat seglen) (drop (unat (w_pos w)) arg) \<and> chain_len p = unat seglen \<and>
    unat ov \<le> seg_spare p \<and> unat (w_pos w) + unat seglen \<le> length arg \<and> unat seglen + unat ov \<le> unat mss_local"
proof -
  obtain bs where bs: "buf_read arg (unat (w_pos w)) (unat seglen) = Some bs"
    using e by (auto simp: write_seg_pbuf_def Let_def bind_Some_iff)
  note b = buf_read_length [OF bs]
  show ?thesis
  proof (cases "fl AND TCP_WRITE_FLAG_COPY \<noteq> 0")
    case True
    then obtain p0 ov0 s0 where a: "tcp_pbuf_prealloc env PBUF_TRANSPORT seglen mss_local (w_oversize w) pcb fl (w_queue w = []) s
        = Some (p0, ov0, s0)"
      using e bs by (auto simp: write_seg_pbuf_def Let_def bind_Some_iff)
    have "p0 \<noteq> []" using e bs True a ne by (auto simp: write_seg_pbuf_def Let_def)
    from prealloc_spec [OF a this le] obtain q where q: "p0 = [q]" "pb_ok q" "pb_len q = seglen" "pb_tot_len q = seglen"
      "unat ov0 \<le> seg_spare [q]" "unat seglen + unat ov0 \<le> unat mss_local" by metis
    obtain q' where q': "pb_write q 0 bs = Some q'" "pb_bytes q' = bs" "same_shape q q'" "pb_ok q'"
      using pb_write_all [OF q(2), of bs] q(3) b by metis
    have "p = [q']" "ov = ov0" using e bs True a q q' by (auto simp: write_seg_pbuf_def Let_def)
    then show ?thesis using q q' b seg_spare_shape [OF q'(3)] by (auto simp: same_shape_def)
  next
    case False
    have o: "w_oversize w = 0" using e bs False by (auto simp: write_seg_pbuf_def Let_def)
    obtain p2 s1 where a: "pbuf_alloc env PBUF_TRANSPORT seglen PBUF_ROM s = Some (p2, s1)"
      using e bs False o by (auto simp: write_seg_pbuf_def Let_def bind_Some_iff)
    have "p2 \<noteq> []" using e bs False o a ne by (auto simp: write_seg_pbuf_def Let_def)
    from pbuf_alloc_ROM [OF a this] obtain q2 where q2: "p2 = [q2]" "pb_len q2 = seglen" "pb_tot_len q2 = seglen" .
    let ?t = "[q2\<lparr>pb_mem := bs, pb_off := 0\<rparr>]"
    obtain h s2 where h: "pbuf_alloc env PBUF_TRANSPORT 0 PBUF_RAM s1 = Some (h, s2)"
      using e bs False o a q2 by (auto simp: write_seg_pbuf_def Let_def bind_Some_iff)
    have "h \<noteq> []" using e bs False o a q2 h ne by (auto simp: write_seg_pbuf_def Let_def bind_Some_iff split: if_splits)
    from pbuf_alloc_RAM [OF h this] obtain q where q: "h = [q]" "pb_off q = int (pbuf_layer_offset PBUF_TRANSPORT)" "pb_len q = 0"
      "pb_tot_len q = 0" "length (pb_mem q) = pbuf_layer_offset PBUF_TRANSPORT + unat (0 :: u16)" .
    have c: "pbuf_cat h ?t = Some p" "ov = w_oversize w"
      using e bs False o a q2 h q(1) by (auto simp: write_seg_pbuf_def Let_def bind_Some_iff)
    have ok: "chain_ok h" "chain_ok ?t" "chain_bytes ?t = bs" "chain_bytes h = []" "chain_len ?t = unat seglen" "chain_len h = 0"
      using q q2 b [THEN conjunct1] by (simp_all add: pb_ok_def pb_bytes_def)
    have "chain_len h + chain_len ?t < 65536" using ok u16_bound [of seglen] by simp
    note r = pbuf_cat_spec [OF c(1) ok(1,2) this]
    show ?thesis using r ok b c o le by (simp add: word_le_nat_alt)
  qed
qed

lemma TCP_TCPLEN_data: "TCPH_FLAGS (sg_hdr seg) AND 3 = 0 \<Longrightarrow> TCP_TCPLEN seg = ucast (sg_len seg)"
  by (simp add: TCP_TCPLEN_def)

text \<open>What phase 3 adds: whole segments that hold the rest of the data, one behind the other.\<close>

definition new_segs :: "tcp_pcb \<Rightarrow> u16 \<Rightarrow> u8 list \<Rightarrow> u16 \<Rightarrow> u16 \<Rightarrow> tcp_seg list \<Rightarrow> bool" where
  "new_segs pcb m arg pos pos' q \<longleftrightarrow> pos \<le> pos' \<and> list_all seg_ok q \<and>
     queue_data q = take (unat pos' - unat pos) (drop (unat pos) arg) \<and>
     contiguous (pcb_snd_lbb pcb + ucast pos) q \<and> queue_end (pcb_snd_lbb pcb + ucast pos) q = pcb_snd_lbb pcb + ucast pos' \<and>
     list_all (\<lambda>seg. unat (sg_len seg) + unat (sg_oversize_left seg) \<le> unat m) q \<and>
     list_all (\<lambda>seg. 0 < sg_len seg \<and> sg_flags seg = 0 \<and> TCPH_FLAGS (sg_hdr seg) = 0) q"

lemma new_segs_Nil: "new_segs pcb m arg pos pos []"
  by (simp add: new_segs_def)

lemma new_segs_Cons:
  assumes seg: "seg_ok seg" "sg_flags seg = 0" "TCPH_FLAGS (sg_hdr seg) = 0" "0 < sg_len seg"
    and d: "seg_data seg = take (unat (sg_len seg)) (drop (unat pos) arg)" and n: "seg_seqno seg = pcb_snd_lbb pcb + ucast pos"
    and fits: "unat (sg_len seg) + unat (sg_oversize_left seg) \<le> unat m"
    and b: "unat pos + unat (sg_len seg) < 65536" and q: "new_segs pcb m arg (pos + sg_len seg) pos' q"
  shows "new_segs pcb m arg pos pos' (seg # q)"
proof -
  have a: "unat (pos + sg_len seg) = unat pos + unat (sg_len seg)" using b by (simp add: unat_word_ariths)
  have u: "ucast (pos + sg_len seg) = (ucast pos + ucast (sg_len seg) :: u32)"
    using a b by (simp add: word_unat_eq_iff unat_word_ariths)
  have t: "TCP_TCPLEN seg = ucast (sg_len seg)" using seg by (simp add: TCP_TCPLEN_data)
  have le: "unat pos + unat (sg_len seg) \<le> unat pos'" using q a by (simp add: new_segs_def word_le_nat_alt)
  have "take (unat pos' - unat pos) (drop (unat pos) arg) =
      take (unat (sg_len seg)) (drop (unat pos) arg) @ take (unat pos' - (unat pos + unat (sg_len seg))) (drop (unat pos + unat (sg_len seg)) arg)"
    using le take_add [of "unat (sg_len seg)" "unat pos' - (unat pos + unat (sg_len seg))" "drop (unat pos) arg"]
    by (simp add: add.commute)
  then show ?thesis
    using seg d n q a u t le fits by (simp add: new_segs_def word_le_nat_alt add.assoc)
qed


lemma write_phase3_spec:
  assumes "write_phase3 env pcb arg len fl mss_local w s = Some (False, w', s')" and "w_pos w \<le> len"
    and "mss_local \<noteq> 0" and "unat mss_local + 20 < 65536"
  shows "\<exists>segs. w_queue w' = w_queue w @ segs \<and> new_segs pcb mss_local arg (w_pos w) len segs \<and> w_pos w' = len \<and>
    unat len \<le> max (unat (w_pos w)) (length arg) \<and>
    w_oversize w' = (if segs = [] then w_oversize w else sg_oversize_left (last segs)) \<and>
    w_concat_p w' = w_concat_p w \<and> w_last_unsent w' = w_last_unsent w \<and> w_oversize_used w' = w_oversize_used w \<and>
    w_seg_last w' = w_seg_last w"
  using assms(1,2)
proof (induction "unat len - unat (w_pos w)" arbitrary: w s rule: less_induct)
  case less
  show ?case
  proof (cases "w_pos w < len")
    case False
    then have "w_pos w = len" "w' = w"
      using less.prems by (auto simp: write_phase3.simps [of env pcb arg len fl mss_local w])
    then show ?thesis by (intro exI [of _ "[]"]) (simp add: new_segs_Nil)
  next
    case True
    define seglen where "seglen = (if mss_local < len - w_pos w then mss_local else len - w_pos w)"
    have left: "unat (len - w_pos w) = unat len - unat (w_pos w)" using less.prems(2) by (simp add: unat_sub)
    have sl: "seglen \<le> mss_local" "0 < seglen" "unat (w_pos w) + unat seglen \<le> unat len"
    proof -
      show "seglen \<le> mss_local" by (auto simp: seglen_def)
      show "0 < seglen" using assms(3) True left
        by (auto simp: seglen_def word_less_nat_alt unat_gt_0 [symmetric] simp del: unat_gt_0)
      show "unat (w_pos w) + unat seglen \<le> unat len"
        using left True by (auto simp: seglen_def word_less_nat_alt)
    qed
    note e = less.prems(1) [unfolded write_phase3.simps [of env pcb arg len fl mss_local w] Let_def seglen_def [symmetric]]
    obtain p ov s1 where p: "write_seg_pbuf env pcb arg fl mss_local seglen w s = Some (p, ov, s1)"
      using e True by (auto simp: bind_Some_iff)
    have ne: "p \<noteq> []" using e True p by auto
    note ps = write_seg_pbuf_spec [OF p ne sl(1)]
    define ql where "ql = w_queuelen w + ucast (pbuf_clen p)"
    have nq: "\<not> (TCP_SND_QUEUELEN < ql \<or> TCP_SNDQUEUELEN_OVERFLOW < ql)"
      using e True p ne by (auto simp: ql_def bind_Some_iff split: if_splits)
    obtain so s2 where c: "tcp_create_segment pcb p 0 (pcb_snd_lbb pcb + ucast (w_pos w)) 0 s1 = Some (so, s2)"
      using e True p ne nq by (auto simp: ql_def bind_Some_iff)
    obtain sg where sg: "so = Some sg" using e True p ne nq c by (cases so) (auto simp: ql_def)
    have cl: "chain_len p + 20 < 65536" using ps sl(1) assms(4) by (simp add: word_le_nat_alt)
    note cs = create_segment_spec [OF c [unfolded sg] conjunct1 [OF ps] cl]
    have o0: "seg_optlen sg = 0" using cs(2) by (simp add: seg_optlen_def LWIP_TCP_OPT_LENGTH_def)
    define w1 where "w1 = w\<lparr>w_pos := w_pos w + seglen, w_queuelen := ql, w_oversize := ov,
                          w_queue := w_queue w @ [sg\<lparr>sg_oversize_left := ov\<rparr>]\<rparr>"
    have rec: "write_phase3 env pcb arg len fl mss_local w1 s2 = Some (False, w', s')"
      using e True p ne nq c sg by (simp add: ql_def w1_def)
    have pos1: "unat (w_pos w1) = unat (w_pos w) + unat seglen"
      using sl(3) u16_bound [of len] by (simp add: w1_def unat_word_ariths)
    have "0 < unat seglen" using sl(2) by (simp add: word_less_nat_alt)
    then have "unat len - unat (w_pos w1) < unat len - unat (w_pos w)" "w_pos w1 \<le> len"
      using pos1 sl(3) by (auto simp: word_le_nat_alt)
    from less.hyps [OF this(1) rec this(2)] obtain segs where r: "w_queue w' = w_queue w1 @ segs"
      "new_segs pcb mss_local arg (w_pos w1) len segs" "w_pos w' = len" "unat len \<le> max (unat (w_pos w1)) (length arg)"
      "w_oversize w' = (if segs = [] then w_oversize w1 else sg_oversize_left (last segs))"
      "w_concat_p w' = w_concat_p w1" "w_last_unsent w' = w_last_unsent w1" "w_oversize_used w' = w_oversize_used w1" "w_seg_last w' = w_seg_last w1" by blast
    let ?sg = "sg\<lparr>sg_oversize_left := ov\<rparr>"
    have len: "sg_len sg = seglen" using cs(3) o0 ps by (simp add: word_unat_eq_iff)
    have "new_segs pcb mss_local arg (w_pos w) len (?sg # segs)"
    proof (rule new_segs_Cons)
      show "seg_ok ?sg" using cs(1,7) ps by (simp add: seg_ok_def seg_optlen_def)
      show "seg_data ?sg = take (unat (sg_len ?sg)) (drop (unat (w_pos w)) arg)"
        using cs(4) ps len o0 by (simp add: seg_data_def seg_optlen_def)
      show "unat (sg_len ?sg) + unat (sg_oversize_left ?sg) \<le> unat mss_local" using ps len by simp
      show "new_segs pcb mss_local arg (w_pos w + sg_len ?sg) len segs" using r(2) len by (simp add: w1_def)
    qed (use cs len sl u16_bound [of len] in \<open>simp_all add: word_less_nat_alt\<close>)
    moreover have "unat len \<le> max (unat (w_pos w)) (length arg)" using r(4) ps pos1 by auto
    ultimately show ?thesis
      using r by (intro exI [of _ "?sg # segs"]) (auto simp: w1_def)
  qed
qed

text \<open>The tail of the last unsent segment: bytes behind its data.\<close>

lemma pb_extend:
  assumes "pb_ok p" and "length bs = unat used" and "unat used \<le> seg_spare [p]" and "unat (pb_len p) + unat used < 65536"
    and "pb_write p (uint (pb_len p)) bs = Some p'" and "pb_len p' = pb_len p"
  shows "pb_ok (p'\<lparr>pb_tot_len := t, pb_len := pb_len p + used\<rparr>)"
    and "pb_bytes (p'\<lparr>pb_tot_len := t, pb_len := pb_len p + used\<rparr>) = pb_bytes p @ bs"
    and "seg_spare [p'\<lparr>pb_tot_len := t, pb_len := pb_len p + used\<rparr>] = seg_spare [p] - unat used"
proof -
  define m where "m = nat (pb_off p)"
  have off: "0 \<le> pb_off p" and fit: "m + unat (pb_len p) + unat used \<le> length (pb_mem p)"
    using assms(1,3) by (auto simp: pb_ok_def seg_spare_def m_def)
  have mem: "pb_mem p' = take (m + unat (pb_len p)) (pb_mem p) @ bs @ drop (m + unat (pb_len p) + unat used) (pb_mem p)"
    and off': "pb_off p' = pb_off p"
    using assms(2,5) off fit by (auto simp: pb_write_def m_def uint_add_nat split: if_splits)
  have len: "unat (pb_len p + used) = unat (pb_len p) + unat used" using assms(4) by (simp add: unat_word_ariths)
  show "pb_ok (p'\<lparr>pb_tot_len := t, pb_len := pb_len p + used\<rparr>)"
    using off off' fit mem len assms(2) by (simp add: pb_ok_def m_def)
  show "seg_spare [p'\<lparr>pb_tot_len := t, pb_len := pb_len p + used\<rparr>] = seg_spare [p] - unat used"
    using off' mem len fit assms(2) by (simp add: seg_spare_def m_def)
  have "drop m (pb_mem p') = pb_bytes p @ bs @ drop (m + unat (pb_len p) + unat used) (pb_mem p)"
    using fit by (simp add: mem pb_bytes_def m_def [symmetric] drop_take)
  then show "pb_bytes (p'\<lparr>pb_tot_len := t, pb_len := pb_len p + used\<rparr>) = pb_bytes p @ bs"
    using off' len assms(1,2) by (simp add: pb_bytes_def [of "p'\<lparr>pb_tot_len := t, pb_len := pb_len p + used\<rparr>"] m_def [symmetric])
qed

lemma write_extend_spec:
  assumes "write_extend ps bs used = Some r" and "chain_ok ps" and "ps \<noteq> []" and "length bs = unat used"
    and "unat used \<le> seg_spare ps" and "chain_len ps + unat used < 65536"
  shows "chain_ok r \<and> chain_bytes r = chain_bytes ps @ bs \<and> seg_spare r = seg_spare ps - unat used \<and> r \<noteq> [] \<and>
    chain_len r = chain_len ps + unat used"
  using assms
proof (induction ps bs used arbitrary: r rule: write_extend.induct)
  case (1 bs used)
  then show ?case by simp
next
  case (2 p bs used)
  then obtain p' where w: "pb_write p (uint (pb_len p)) bs = Some p'"
    and r: "r = [p'\<lparr>pb_tot_len := pb_tot_len p + used, pb_len := pb_len p + used\<rparr>]"
    by (auto simp: bind_Some_iff)
  have ok: "pb_ok p" "unat (pb_tot_len p) = unat (pb_len p)" "unat (pb_len p) + unat used < 65536" using "2.prems" by auto
  note x = pb_extend [OF ok(1) "2.prems"(4,5) ok(3) w, of "pb_tot_len p + used"]
  have l: "pb_len p' = pb_len p" using pb_write_len [OF w] by simp
  have "unat (pb_tot_len p + used) = unat (pb_len p) + unat used" "unat (pb_len p + used) = unat (pb_len p) + unat used"
    using ok by (simp_all add: unat_word_ariths)
  then show ?case using x [OF l] r by simp
next
  case (3 p q ps bs used)
  then obtain r' where w: "write_extend (q # ps) bs used = Some r'" and r: "r = p\<lparr>pb_tot_len := pb_tot_len p + used\<rparr> # r'"
    by (auto simp: bind_Some_iff)
  have "chain_ok r' \<and> chain_bytes r' = chain_bytes (q # ps) @ bs \<and> seg_spare r' = seg_spare (q # ps) - unat used \<and> r' \<noteq> [] \<and>
    chain_len r' = chain_len (q # ps) + unat used"
    using "3.prems" by (intro "3.IH" [OF w]) (auto simp: seg_spare_def)
  moreover have "unat (pb_tot_len p + used) = unat (pb_tot_len p) + unat used"
    using "3.prems" by (simp add: unat_word_ariths)
  ultimately show ?case using r "3.prems"(2) by (auto simp: seg_spare_def)
qed

text \<open>
  What phases 1 and 2 plan for the last unsent segment: \<open>oversize_used\<close> bytes behind its last buffer,
  then the buffers \<open>concat_p\<close>.
\<close>

definition tail_plan :: "u8 list \<Rightarrow> u16 \<Rightarrow> u16 \<Rightarrow> tcp_seg \<Rightarrow> write_locals \<Rightarrow> bool" where
  "tail_plan arg len mss_local l w \<longleftrightarrow> w_queue w = [] \<and> w_pos w \<le> len \<and>
     (\<exists>ov. w_last_unsent w = Some (l\<lparr>sg_oversize_left := sg_oversize_left l + ov\<rparr>) \<and>
        (w_concat_p w = [] \<longrightarrow> ov = 0 \<and> w_oversize w = sg_oversize_left l - w_oversize_used w) \<and>
        (w_concat_p w \<noteq> [] \<longrightarrow> w_oversize_used w = sg_oversize_left l \<and> w_oversize w = ov \<and> unat ov \<le> seg_spare (w_concat_p w))) \<and>
     w_oversize_used w \<le> sg_oversize_left l \<and> chain_ok (w_concat_p w) \<and>
     unat (w_pos w) = unat (w_oversize_used w) + chain_len (w_concat_p w) \<and>
     (w_concat_p w \<noteq> [] \<longrightarrow> chain_bytes (w_concat_p w) = take (chain_len (w_concat_p w)) (drop (unat (w_oversize_used w)) arg) \<and>
        unat (w_pos w) \<le> length arg) \<and>
     unat (sg_len l) + seg_optlen l + unat (w_pos w) + unat (w_oversize w) \<le> unat mss_local"

lemma write_phase1_spec:
  assumes e: "write_phase1 pcb len mss_local l w0 = Some (space, w)" and w0: "w0 = write_start pcb"
    and fits: "unat (sg_len l) + seg_optlen l + unat (sg_oversize_left l) \<le> unat mss_local"
  shows "tail_plan arg len mss_local l w \<and> w_concat_p w = [] \<and> (w_oversize w = 0 \<or> w_pos w = len) \<and>
    unat space + unat (w_pos w) + unat (sg_len l) + seg_optlen l = unat mss_local"
proof -
  define used where "used = (if sg_oversize_left l < len then sg_oversize_left l else len)"
  define sp where "sp = mss_local - (sg_len l + LWIP_TCP_OPT_LENGTH (sg_flags l))"
  have o: "pcb_unsent_oversize pcb = sg_oversize_left l"
    using e by (simp add: write_phase1_def Let_def)
  have u: "used \<le> sg_oversize_left l" "used \<le> len" by (auto simp: used_def)
  have "unat (sg_len l + LWIP_TCP_OPT_LENGTH (sg_flags l)) = unat (sg_len l) + seg_optlen l"
    using fits u16_bound [of mss_local] by (simp add: unat_word_ariths seg_optlen_def)
  then have sp: "unat sp = unat mss_local - (unat (sg_len l) + seg_optlen l)"
    using fits by (simp add: sp_def unat_sub word_le_nat_alt)
  have us: "unat (sp - used) = unat sp - unat used"
    using sp u(1) fits by (intro unat_sub) (simp add: word_le_nat_alt)
  have ov: "unat (sg_oversize_left l - used) = unat (sg_oversize_left l) - unat used" using u(1) by (simp add: unat_sub)
  show ?thesis
  proof (cases "0 < sg_oversize_left l")
    case True
    then have "space = sp - used" "w = w0\<lparr>w_last_unsent := Some l, w_oversize := sg_oversize_left l - used, w_seg_last := True,
        w_oversize_used := used, w_pos := used\<rparr>" "sg_oversize_left l - used = 0 \<or> used = len"
      using e w0 o by (auto simp: write_phase1_def Let_def used_def [symmetric] sp_def [symmetric] write_start_def)
    then show ?thesis
      using w0 u us sp ov fits by (auto simp: tail_plan_def write_start_def word_le_nat_alt)
  next
    case False
    then have z: "sg_oversize_left l = 0" by (simp add: word_gt_0)
    then have "space = sp" "w = w0\<lparr>w_last_unsent := Some l, w_oversize := 0\<rparr>"
      using e w0 o by (auto simp: write_phase1_def Let_def sp_def [symmetric] write_start_def)
    then show ?thesis
      using w0 sp z fits by (auto simp: tail_plan_def write_start_def)
  qed
qed

lemma write_phase2_spec:
  assumes e: "write_phase2 env pcb arg len fl l space w s = Some (False, w', s')"
    and w: "tail_plan arg len mss_local l w" "w_concat_p w = []" "w_oversize w = 0 \<or> w_pos w = len"
    and sp: "unat space + unat (w_pos w) + unat (sg_len l) + seg_optlen l = unat mss_local"
  shows "tail_plan arg len mss_local l w'"
proof (cases "w_pos w < len \<and> 0 < space \<and> 0 < sg_len l")
  case False
  then show ?thesis using e w(1) by (auto simp: write_phase2_def split: if_splits)
next
  case True
  define seglen where "seglen = (if space < len - w_pos w then space else len - w_pos w)"
  have left: "unat (len - w_pos w) = unat len - unat (w_pos w)" using True by (simp add: unat_sub less_imp_le)
  have sl: "seglen \<le> space" "unat (w_pos w) + unat seglen \<le> unat len"
    using left True by (auto simp: seglen_def word_less_nat_alt word_le_nat_alt)
  have pos: "unat (w_pos w + seglen) = unat (w_pos w) + unat seglen"
    using sl(2) u16_bound [of len] by (simp add: unat_word_ariths)
  have o0: "w_oversize w = 0" using w(3) True by auto
  have u: "w_pos w = w_oversize_used w" "w_oversize_used w = sg_oversize_left l" "w_queue w = []" "w_last_unsent w = Some l"
  proof -
    have "w_last_unsent w = Some (l\<lparr>sg_oversize_left := sg_oversize_left l + 0\<rparr>)"
      "w_oversize w = sg_oversize_left l - w_oversize_used w" "unat (w_pos w) = unat (w_oversize_used w)" "w_queue w = []"
      using w(1,2) by (auto simp: tail_plan_def)
    then show "w_pos w = w_oversize_used w" "w_oversize_used w = sg_oversize_left l" "w_queue w = []" "w_last_unsent w = Some l"
      using o0 by (simp_all add: word_unat_eq_iff [of "w_pos w"])
  qed
  obtain bs where bs: "buf_read arg (unat (w_pos w)) (unat seglen) = Some bs"
    using e True by (auto simp: write_phase2_def Let_def seglen_def [symmetric] bind_Some_iff)
  note b = buf_read_length [OF bs]
  note e' = e [unfolded write_phase2_def Let_def seglen_def [symmetric]]
  show ?thesis
  proof (cases "fl AND TCP_WRITE_FLAG_COPY \<noteq> 0")
    case c: True
    obtain p ov s1 where a: "tcp_pbuf_prealloc env PBUF_RAW seglen space (w_oversize w) pcb fl True s = Some (p, ov, s1)"
      using e' True bs c by (auto simp: bind_Some_iff)
    have "p \<noteq> []" using e' True bs c a by auto
    from prealloc_spec [OF a this sl(1)] obtain q where q: "p = [q]" "pb_ok q" "pb_len q = seglen" "pb_tot_len q = seglen"
      "unat ov \<le> seg_spare [q]" "unat seglen + unat ov \<le> unat space" by metis
    obtain q' where q': "pb_write q 0 bs = Some q'" "pb_bytes q' = bs" "same_shape q q'" "pb_ok q'"
      using pb_write_all [OF q(2), of bs] q(3) b by metis
    have w': "w' = w\<lparr>w_seg_last := True, w_oversize := ov, w_concat_p := [q'],
        w_last_unsent := Some (l\<lparr>sg_oversize_left := sg_oversize_left l + ov\<rparr>), w_pos := w_pos w + seglen,
        w_queuelen := w_queuelen w + ucast (pbuf_clen [q'])\<rparr>"
      using e' True bs c a q(1) q'(1) by auto
    show ?thesis
      using w' w(1) u q q' b pos sl sp seg_spare_shape [OF q'(3)]
      by (auto simp: tail_plan_def same_shape_def word_le_nat_alt)
  next
    case c: False
    obtain p s1 where a: "pbuf_alloc env PBUF_RAW seglen PBUF_ROM s = Some (p, s1)"
      using e' True bs c by (auto simp: bind_Some_iff)
    have "p \<noteq> []" using e' True bs c a by auto
    from pbuf_alloc_ROM [OF a this] obtain q where q: "p = [q]" "pb_len q = seglen" "pb_tot_len q = seglen" .
    have w': "\<exists>n. w' = w\<lparr>w_seg_last := True, w_concat_p := [q\<lparr>pb_mem := bs, pb_off := 0\<rparr>], w_pos := w_pos w + seglen, w_queuelen := n\<rparr>"
      using e' True bs c a q(1) by auto
    have "pb_ok (q\<lparr>pb_mem := bs, pb_off := 0\<rparr>)" "pb_bytes (q\<lparr>pb_mem := bs, pb_off := 0\<rparr>) = bs"
      using q b [THEN conjunct1] by (simp_all add: pb_ok_def pb_bytes_def)
    then show ?thesis
      using w' w(1) u q b pos sl sp o0 by (auto simp: tail_plan_def word_le_nat_alt)
  qed
qed

section \<open>The commit\<close>

lemma write_commit_last_spec:
  assumes e: "write_commit_last arg w l0 = Some l'" and w: "tail_plan arg len mss_local l w" "w_last_unsent w = Some l0"
    and l: "seg_ok l" and m: "unat mss_local + 20 < 65536"
  shows "seg_ok l' \<and> seg_data l' = seg_data l @ take (unat (w_pos w)) arg \<and> sg_flags l' = sg_flags l \<and> sg_hdr l' = sg_hdr l \<and>
    sg_oversize_left l' = w_oversize w \<and> unat (sg_len l') = unat (sg_len l) + unat (w_pos w) \<and> sg_addr l' = sg_addr l"
proof -
  define used where "used = w_oversize_used w"
  define c where "c = w_concat_p w"
  obtain ov where l0: "l0 = l\<lparr>sg_oversize_left := sg_oversize_left l + ov\<rparr>"
    and cn: "c = [] \<longrightarrow> ov = 0 \<and> w_oversize w = sg_oversize_left l - used"
    and cc: "c \<noteq> [] \<longrightarrow> used = sg_oversize_left l \<and> w_oversize w = ov \<and> unat ov \<le> seg_spare c"
    using w by (auto simp: tail_plan_def used_def c_def)
  have p: "used \<le> sg_oversize_left l" "chain_ok c" "unat (w_pos w) = unat used + chain_len c"
    "c \<noteq> [] \<longrightarrow> chain_bytes c = take (chain_len c) (drop (unat used) arg) \<and> unat (w_pos w) \<le> length arg"
    "unat (sg_len l) + seg_optlen l + unat (w_pos w) \<le> unat mss_local"
    using w(1) by (auto simp: tail_plan_def used_def c_def)
  have k: "chain_ok (sg_p l)" "sg_p l \<noteq> []" "chain_len (sg_p l) = 20 + seg_optlen l + unat (sg_len l)"
    "unat (sg_oversize_left l) \<le> seg_spare (sg_p l)"
    using l by (auto simp: seg_ok_def)
  have ule: "unat used \<le> unat (sg_oversize_left l)" using p(1) by (simp add: word_le_nat_alt)
  obtain last1 where last1: "(if used > 0 then do {
          bs \<leftarrow> buf_read arg 0 (unat used);
          p \<leftarrow> write_extend (sg_p l0) bs used;
          lwip_assert (used \<le> sg_oversize_left l0);
          Some (l0\<lparr>sg_p := p, sg_len := sg_len l0 + used, sg_oversize_left := sg_oversize_left l0 - used\<rparr>)
        } else Some l0) = Some last1"
    and cat: "(if c \<noteq> [] then do {
       p \<leftarrow> pbuf_cat (sg_p last1) c;
       Some (last1\<lparr>sg_p := p, sg_len := sg_len last1 + pb_tot_len (hd c)\<rparr>)
     } else Some last1) = Some l'"
    using e unfolding write_commit_last_def used_def c_def by (auto simp: bind_Some_iff)
  have lenu: "unat (sg_len l + used) = unat (sg_len l) + unat used"
    using p(3,5) m by (simp add: unat_word_ariths)
  have one: "chain_ok (sg_p last1) \<and> chain_bytes (sg_p last1) = chain_bytes (sg_p l) @ take (unat used) arg \<and>
      seg_spare (sg_p last1) = seg_spare (sg_p l) - unat used \<and> sg_p last1 \<noteq> [] \<and>
      chain_len (sg_p last1) = chain_len (sg_p l) + unat used \<and> sg_len last1 = sg_len l + used \<and>
      sg_oversize_left last1 = sg_oversize_left l + ov - used \<and> sg_flags last1 = sg_flags l \<and> sg_hdr last1 = sg_hdr l \<and>
      sg_addr last1 = sg_addr l \<and> unat used \<le> length arg"
  proof (cases "used > 0")
    case False
    then have "used = 0" by (simp add: word_gt_0)
    then show ?thesis using last1 l0 k by auto
  next
    case True
    obtain bs r where bs: "buf_read arg 0 (unat used) = Some bs" and r: "write_extend (sg_p l) bs used = Some r"
      and l1: "last1 = l0\<lparr>sg_p := r, sg_len := sg_len l0 + used, sg_oversize_left := sg_oversize_left l0 - used\<rparr>"
      using last1 True l0 by (auto simp: bind_Some_iff)
    note b = buf_read_length [OF bs]
    have "chain_ok r \<and> chain_bytes r = chain_bytes (sg_p l) @ bs \<and> seg_spare r = seg_spare (sg_p l) - unat used \<and> r \<noteq> [] \<and>
        chain_len r = chain_len (sg_p l) + unat used"
      by (rule write_extend_spec [OF r k(1,2)]) (use b ule k p m in auto)
    then show ?thesis using l1 l0 b by simp
  qed
  show ?thesis
  proof (cases "c = []")
    case True
    then have l': "l' = last1" using cat by simp
    have "ov = 0" "w_oversize w = sg_oversize_left l - used" "chain_len c = 0" using True cn by auto
    moreover have "unat (sg_oversize_left l - used) = unat (sg_oversize_left l) - unat used" using p(1) by (simp add: unat_sub)
    ultimately show ?thesis
      using one k lenu l' p(3) ule by (auto simp: seg_ok_def seg_data_def seg_optlen_def)
  next
    case False
    obtain r where r: "pbuf_cat (sg_p last1) c = Some r" and l': "l' = last1\<lparr>sg_p := r, sg_len := sg_len last1 + pb_tot_len (hd c)\<rparr>"
      using cat False by (auto simp: bind_Some_iff)
    have cl: "chain_len (sg_p last1) + chain_len c < 65536" using one k(3) p(3,5) m by linarith
    note x = pbuf_cat_spec [OF r conjunct1 [OF one] p(2) cl]
    have tot: "unat (pb_tot_len (hd c)) = chain_len c" using p(2) False by (rule chain_ok_tot)
    have len': "unat (sg_len l + used + pb_tot_len (hd c)) = unat (sg_len l) + unat used + chain_len c"
      using lenu tot cl one k(3) by (simp add: unat_word_ariths)
    have "take (unat used) arg @ take (chain_len c) (drop (unat used) arg) = take (unat (w_pos w)) arg"
      using p(3) by (simp add: take_add)
    then have "chain_bytes r = chain_bytes (sg_p l) @ take (unat (w_pos w)) arg" using x(2) one p(4) False by simp
    moreover have "sg_oversize_left l' = w_oversize w" using l' one cc False by simp
    ultimately show ?thesis
      using x one k len' l' p(3) cc False by (auto simp: seg_ok_def seg_data_def seg_optlen_def)
  qed
qed

lemma write_commit_last_cong:
  "w_oversize_used w' = w_oversize_used w \<Longrightarrow> w_concat_p w' = w_concat_p w \<Longrightarrow> write_commit_last arg w' l = write_commit_last arg w l"
  by (simp add: write_commit_last_def)

lemma seg_set_flag_keeps:
  "seg_ok (seg_set_flag f seg) = seg_ok seg" "seg_data (seg_set_flag f seg) = seg_data seg"
  "sg_oversize_left (seg_set_flag f seg) = sg_oversize_left seg" "sg_len (seg_set_flag f seg) = sg_len seg"
  "seg_optlen (seg_set_flag f seg) = seg_optlen seg" "seg_seqno (seg_set_flag f seg) = seg_seqno seg"
  by (simp_all add: seg_set_flag_def seg_ok_def seg_data_def seg_optlen_def TCPH_SET_FLAG_def)

lemma TCP_TCPLEN_psh [simp]: "TCP_TCPLEN (seg_set_flag TCP_PSH seg) = TCP_TCPLEN seg"
proof -
  have "(TCPH_FLAGS (sg_hdr seg) OR (TCP_PSH AND 0x3f)) AND (TCP_FIN OR TCP_SYN) = TCPH_FLAGS (sg_hdr seg) AND (TCP_FIN OR TCP_SYN)"
    by (simp add: bit.conj_disj_distrib2)
  then show ?thesis by (simp add: TCP_TCPLEN_def seg_set_flag_def)
qed

text \<open>
  The queue of a connection that may be written to: every segment is well formed, they follow one
  another up to \<open>snd_lbb\<close>, and the two records of unused space in the last one agree and fit the MSS.
\<close>

definition write_inv :: "u32 \<Rightarrow> tcp_pcb \<Rightarrow> bool" where
  "write_inv n pcb \<longleftrightarrow> list_all seg_ok (pcb_unsent pcb) \<and>
     contiguous n (pcb_unsent pcb) \<and> queue_end n (pcb_unsent pcb) = pcb_snd_lbb pcb \<and>
     (if pcb_unsent pcb = [] then pcb_unsent_oversize pcb = 0
      else pcb_unsent_oversize pcb = sg_oversize_left (last (pcb_unsent pcb)) \<and>
        unat (sg_len (last (pcb_unsent pcb))) + seg_optlen (last (pcb_unsent pcb)) + unat (pcb_unsent_oversize pcb)
          \<le> unat (write_mss_local pcb))"

lemma write_mss_local_cong:
  "pcb_mss p' = pcb_mss p \<Longrightarrow> pcb_snd_wnd_max p' = pcb_snd_wnd_max p \<Longrightarrow> write_mss_local p' = write_mss_local p"
  by (auto simp: write_mss_local_def Let_def)

lemma write_mss_local_unsent [simp]: "write_mss_local (pcb\<lparr>pcb_unsent := u\<rparr>) = write_mss_local pcb"
  by (rule write_mss_local_cong) simp_all

lemma write_inv_psh:
  assumes "unsent \<noteq> []" and "write_inv n (pcb\<lparr>pcb_unsent := unsent\<rparr>)"
  shows "write_inv n (pcb\<lparr>pcb_unsent := butlast unsent @ [seg_set_flag TCP_PSH (last unsent)]\<rparr>)"
    and "queue_data (butlast unsent @ [seg_set_flag TCP_PSH (last unsent)]) = queue_data unsent"
proof -
  obtain q x where u: "unsent = q @ [x]" using assms(1) by (metis rev_exhaust)
  show "queue_data (butlast unsent @ [seg_set_flag TCP_PSH (last unsent)]) = queue_data unsent"
    by (simp add: u seg_set_flag_keeps)
  show "write_inv n (pcb\<lparr>pcb_unsent := butlast unsent @ [seg_set_flag TCP_PSH (last unsent)]\<rparr>)"
    using assms(2) by (auto simp: u write_inv_def seg_set_flag_keeps)
qed


lemma TCP_TCPLEN_grow:
  assumes "sg_hdr l' = sg_hdr l" and "unat (sg_len l') = unat (sg_len l) + unat (d :: u16)"
  shows "TCP_TCPLEN l' = TCP_TCPLEN l + ucast d"
proof -
  have "unat (ucast (sg_len l') :: u32) = unat (ucast (sg_len l) + ucast d :: u32)"
    using assms(2) u16_bound [of "sg_len l'"] by (simp add: unat_word_ariths)
  then have "(ucast (sg_len l') :: u32) = ucast (sg_len l) + ucast d" by (simp add: word_unat_eq_iff)
  then show ?thesis using assms(1) by (simp add: TCP_TCPLEN_def)
qed

lemma new_segs_take:
  assumes "new_segs pcb m arg pos len q"
  shows "take (unat pos) arg @ queue_data q = take (unat len) arg"
proof -
  have "unat pos \<le> unat len" using assms by (simp add: new_segs_def word_le_nat_alt)
  then show ?thesis
    using assms take_add [of "unat pos" "unat len - unat pos" arg] by (simp add: new_segs_def)
qed

text \<open>What \<open>tcp_write\<close> leaves when it succeeds, before the \<open>PSH\<close> flag is set.\<close>

definition written :: "u32 \<Rightarrow> tcp_pcb \<Rightarrow> u8 list \<Rightarrow> u16 \<Rightarrow> tcp_pcb \<Rightarrow> bool" where
  "written n pcb arg len pcb' \<longleftrightarrow> write_inv n pcb' \<and>
     queue_data (pcb_unsent pcb') = queue_data (pcb_unsent pcb) @ take (unat len) arg \<and>
     pcb_snd_lbb pcb' = pcb_snd_lbb pcb + ucast len \<and> pcb_snd_buf pcb' = pcb_snd_buf pcb - len \<and>
     pcb_unacked pcb' = pcb_unacked pcb \<and> pcb_state pcb' = pcb_state pcb \<and> pcb_snd_nxt pcb' = pcb_snd_nxt pcb"

lemma write_mss_local_bounds:
  "pcb_mss pcb \<noteq> 0 \<Longrightarrow> write_mss_local pcb \<noteq> 0 \<and> unat (write_mss_local pcb) \<le> unat (pcb_mss pcb)"
  by (auto simp: write_mss_local_def Let_def min_def word_le_nat_alt)

lemma write_finish:
  assumes c: "write_commit pcb arg len fl w' = Some pcb'" and inv: "write_inv n pcb"
    and segs: "new_segs pcb (write_mss_local pcb) arg pos len segs"
    and sl: "w_seg_last w' \<longrightarrow> w_last_unsent w' \<noteq> None"
    and ov: "w_oversize w' = (if segs = [] then ov0 else sg_oversize_left (last segs))"
    and q: "if pcb_unsent pcb = [] then w_last_unsent w' = None \<and> w_queue w' = segs \<and> pos = 0 \<and> ov0 = 0
      else (\<exists>l0 l'. w_last_unsent w' = Some l0 \<and> write_commit_last arg w' l0 = Some l' \<and> w_queue w' = segs \<and>
        seg_ok l' \<and> seg_data l' = seg_data (last (pcb_unsent pcb)) @ take (unat pos) arg \<and>
        sg_hdr l' = sg_hdr (last (pcb_unsent pcb)) \<and> sg_flags l' = sg_flags (last (pcb_unsent pcb)) \<and> sg_oversize_left l' = ov0 \<and>
        unat (sg_len l') = unat (sg_len (last (pcb_unsent pcb))) + unat pos \<and>
        unat (sg_len l') + seg_optlen l' + unat ov0 \<le> unat (write_mss_local pcb))"
  shows "written n pcb arg len pcb'"
proof -
  define old where "old = pcb_unsent pcb"
  define head where "head = (if old = [] then [] else butlast old @ [the (write_commit_last arg w' (the (w_last_unsent w')))])"
  define pcb1 where "pcb1 = pcb\<lparr>pcb_unsent_oversize := w_oversize w', pcb_unsent := head @ segs,
      pcb_snd_lbb := pcb_snd_lbb pcb + ucast len, pcb_snd_buf := pcb_snd_buf pcb - len, pcb_snd_queuelen := w_queuelen w'\<rparr>"
  have p': "pcb' = pcb1 \<or> (head @ segs \<noteq> [] \<and> pcb' = pcb1\<lparr>pcb_unsent := butlast (head @ segs) @ [seg_set_flag TCP_PSH (last (head @ segs))]\<rparr>)"
  proof -
    obtain un where un: "(case w_last_unsent w' of
          None \<Rightarrow> do { lwip_assert (w_concat_p w' = []); Some (w_queue w') }
        | Some l \<Rightarrow> do { l' \<leftarrow> write_commit_last arg w' l; Some (butlast (pcb_unsent pcb) @ [l'] @ w_queue w') }) = Some un"
      and r: "pcb' = (let pcb1 = pcb\<lparr>pcb_unsent_oversize := w_oversize w', pcb_unsent := un, pcb_snd_lbb := pcb_snd_lbb pcb + ucast len,
             pcb_snd_buf := pcb_snd_buf pcb - len, pcb_snd_queuelen := w_queuelen w'\<rparr>
          in if (w_seg_last w' \<or> w_queue w' \<noteq> []) \<and> fl AND TCP_WRITE_FLAG_MORE = 0
             then pcb1\<lparr>pcb_unsent := butlast un @ [seg_set_flag TCP_PSH (last un)]\<rparr> else pcb1)"
      and sl: "w_seg_last w' \<longrightarrow> w_last_unsent w' \<noteq> None"
      using c sl unfolding write_commit_def Let_def by (auto simp: bind_Some_iff)
    have "un = head @ segs"
      using un q by (cases "old = []") (auto simp: head_def old_def)
    then show ?thesis
      using r q sl by (cases "old = []") (auto simp: Let_def pcb1_def head_def old_def)
  qed
  have seg_facts: "list_all seg_ok segs" "contiguous (pcb_snd_lbb pcb + ucast pos) segs"
    "queue_end (pcb_snd_lbb pcb + ucast pos) segs = pcb_snd_lbb pcb + ucast len"
    "list_all (\<lambda>seg. unat (sg_len seg) + unat (sg_oversize_left seg) \<le> unat (write_mss_local pcb)) segs"
    "list_all (\<lambda>seg. sg_flags seg = 0) segs"
    using segs by (auto simp: new_segs_def list_all_iff)
  have mss: "write_mss_local pcb1 = write_mss_local pcb" by (rule write_mss_local_cong) (simp_all add: pcb1_def)
  have last_segs: "unat (sg_len (last segs)) + seg_optlen (last segs) + unat (sg_oversize_left (last segs)) \<le> unat (write_mss_local pcb)"
    if "segs \<noteq> []"
  proof -
    have "last segs \<in> set segs" using that by simp
    then have "sg_flags (last segs) = 0" "unat (sg_len (last segs)) + unat (sg_oversize_left (last segs)) \<le> unat (write_mss_local pcb)"
      using seg_facts(4,5) by (auto simp: list_all_iff)
    then show ?thesis by (simp add: seg_optlen_def LWIP_TCP_OPT_LENGTH_def)
  qed
  have hd: "list_all seg_ok head \<and> contiguous n head \<and> queue_end n head = pcb_snd_lbb pcb + ucast pos \<and>
      queue_data head = queue_data old @ take (unat pos) arg \<and>
      (head \<noteq> [] \<longrightarrow> sg_oversize_left (last head) = ov0 \<and>
         unat (sg_len (last head)) + seg_optlen (last head) + unat ov0 \<le> unat (write_mss_local pcb)) \<and> (head = [] \<longrightarrow> ov0 = 0)"
  proof (cases "old = []")
    case True
    then show ?thesis using inv q by (simp add: head_def old_def write_inv_def)
  next
    case False
    obtain qs l where old: "old = qs @ [l]" using False by (metis rev_exhaust)
    then obtain l0 l' where l': "w_last_unsent w' = Some l0" "write_commit_last arg w' l0 = Some l'" "seg_ok l'"
      "seg_data l' = seg_data l @ take (unat pos) arg" "sg_hdr l' = sg_hdr l" "sg_flags l' = sg_flags l" "sg_oversize_left l' = ov0"
      "unat (sg_len l') = unat (sg_len l) + unat pos"
      "unat (sg_len l') + seg_optlen l' + unat ov0 \<le> unat (write_mss_local pcb)"
      using q by (auto simp: old_def)
    have "head = qs @ [l']" using old l' by (simp add: head_def)
    moreover have "TCP_TCPLEN l' = TCP_TCPLEN l + ucast pos" by (rule TCP_TCPLEN_grow) (fact l')+
    ultimately show ?thesis
      using inv old l' by (simp add: write_inv_def old_def [symmetric] add.assoc [symmetric])
  qed
  have "write_inv n pcb1"
  proof -
    have "pcb_unsent_oversize pcb1 = w_oversize w'" "pcb_unsent pcb1 = head @ segs" by (simp_all add: pcb1_def)
    then show ?thesis
      using hd seg_facts ov last_segs mss
      by (cases "segs = []") (auto simp: write_inv_def pcb1_def)
  qed
  moreover have "queue_data (head @ segs) = queue_data old @ take (unat len) arg"
    using hd new_segs_take [OF segs] by simp
  ultimately have w1: "written n pcb arg len pcb1"
    by (simp add: written_def pcb1_def old_def)
  show ?thesis
  proof (cases "pcb' = pcb1")
    case False
    then have ne: "head @ segs \<noteq> []" and p2: "pcb' = pcb1\<lparr>pcb_unsent := butlast (head @ segs) @ [seg_set_flag TCP_PSH (last (head @ segs))]\<rparr>"
      using p' by auto
    have "pcb1 = pcb1\<lparr>pcb_unsent := head @ segs\<rparr>" by (simp add: pcb1_def)
    then have "write_inv n (pcb1\<lparr>pcb_unsent := head @ segs\<rparr>)" using w1 by (simp add: written_def)
    from write_inv_psh [OF ne this] show ?thesis
      using w1 p2 by (simp add: written_def) (simp add: pcb1_def)
  qed (simp add: w1)
qed

lemma tcp_write_ok:
  assumes e: "tcp_write env pcb (Some arg) len fl s = Some (ERR_OK, pcb', s')" and inv: "write_inv n pcb"
    and mss: "pcb_mss pcb \<noteq> 0" "pcb_mss pcb \<le> TCP_MSS"
  shows "written n pcb arg len pcb' \<and> (unat len \<le> length arg \<or> pcb_unsent pcb \<noteq> [])"
proof -
  let ?m = "write_mss_local pcb"
  have m: "?m \<noteq> 0" "unat ?m + 20 < 65536"
    using write_mss_local_bounds [OF mss(1)] mss(2) by (auto simp: word_le_nat_alt)
  have ck: "tcp_write_checks pcb len s = Some (ERR_OK, pcb, s)"
  proof -
    obtain e1 p1 s1 where k: "tcp_write_checks pcb len s = Some (e1, p1, s1)"
      using e by (auto simp: tcp_write_def Let_def bind_Some_iff)
    have "e1 = ERR_OK" using e k by (auto simp: tcp_write_def Let_def bind_Some_iff split: if_splits)
    then show ?thesis using k by (auto simp: tcp_write_checks_def bind_Some_iff split: if_splits)
  qed
  have fin: "written n pcb arg len pcb'"
    if c: "write_commit pcb arg len fl w' = Some pcb'" and p3: "write_phase3 env pcb arg len fl ?m w s2 = Some (False, w', s')"
      and w: "w_pos w \<le> len" "w_queue w = []"
      and sl: "w_seg_last w \<longrightarrow> w_last_unsent w \<noteq> None"
      and q: "if pcb_unsent pcb = [] then w = write_start pcb else tail_plan arg len ?m (last (pcb_unsent pcb)) w"
    for w w' s2
  proof -
    obtain segs where r: "w_queue w' = w_queue w @ segs" "new_segs pcb ?m arg (w_pos w) len segs"
      "w_oversize w' = (if segs = [] then w_oversize w else sg_oversize_left (last segs))"
      "w_concat_p w' = w_concat_p w" "w_last_unsent w' = w_last_unsent w" "w_oversize_used w' = w_oversize_used w"
      "w_seg_last w' = w_seg_last w"
      using write_phase3_spec [OF p3 w(1) m] by blast
    show ?thesis
    proof (rule write_finish [OF c inv r(2) _ r(3)])
      show "w_seg_last w' \<longrightarrow> w_last_unsent w' \<noteq> None" using sl r by simp
      show "if pcb_unsent pcb = [] then w_last_unsent w' = None \<and> w_queue w' = segs \<and> w_pos w = 0 \<and> w_oversize w = 0
      else (\<exists>l0 l'. w_last_unsent w' = Some l0 \<and> write_commit_last arg w' l0 = Some l' \<and> w_queue w' = segs \<and>
        seg_ok l' \<and> seg_data l' = seg_data (last (pcb_unsent pcb)) @ take (unat (w_pos w)) arg \<and>
        sg_hdr l' = sg_hdr (last (pcb_unsent pcb)) \<and> sg_flags l' = sg_flags (last (pcb_unsent pcb)) \<and> sg_oversize_left l' = w_oversize w \<and>
        unat (sg_len l') = unat (sg_len (last (pcb_unsent pcb))) + unat (w_pos w) \<and>
        unat (sg_len l') + seg_optlen l' + unat (w_oversize w) \<le> unat ?m)"
      proof (cases "pcb_unsent pcb = []")
        case True
        then show ?thesis using q r by (simp add: write_start_def)
      next
        case False
        let ?l = "last (pcb_unsent pcb)"
        have tp: "tail_plan arg len ?m ?l w" using q False by simp
        then obtain l0 where l0: "w_last_unsent w = Some l0" by (auto simp: tail_plan_def)
        obtain l' where l': "write_commit_last arg w' l0 = Some l'"
          using c l0 r(5) by (auto simp: write_commit_def bind_Some_iff)
        have "write_commit_last arg w l0 = Some l'" using l' r write_commit_last_cong [of w' w] by simp
        moreover have "seg_ok ?l" using inv False by (auto simp: write_inv_def list_all_iff)
        ultimately have x: "seg_ok l' \<and> seg_data l' = seg_data ?l @ take (unat (w_pos w)) arg \<and> sg_flags l' = sg_flags ?l \<and>
            sg_hdr l' = sg_hdr ?l \<and> sg_oversize_left l' = w_oversize w \<and> unat (sg_len l') = unat (sg_len ?l) + unat (w_pos w) \<and>
            sg_addr l' = sg_addr ?l"
          by (intro write_commit_last_spec [OF _ tp l0 _ m(2)])
        moreover have "unat (sg_len ?l) + seg_optlen ?l + unat (w_pos w) + unat (w_oversize w) \<le> unat ?m"
          using tp by (simp add: tail_plan_def)
        ultimately show ?thesis using False l0 r w l' by (simp add: seg_optlen_def)
      qed
    qed
  qed
  show ?thesis
  proof (cases "pcb_unsent pcb = []")
    case True
    obtain w' where p3: "write_phase3 env pcb arg len fl ?m (write_start pcb) s = Some (False, w', s')"
      and c: "write_commit pcb arg len fl w' = Some pcb'"
      using e ck True by (auto simp: tcp_write_def Let_def bind_Some_iff write_memerr_def split: if_splits)
    have "unat len \<le> length arg" using write_phase3_spec [OF p3 _ m] by (auto simp: write_start_def)
    then show ?thesis using fin [OF c p3] True by (simp add: write_start_def)
  next
    case False
    let ?l = "last (pcb_unsent pcb)"
    obtain space w1 w2 s2 w' where p1: "write_phase1 pcb len ?m ?l (write_start pcb) = Some (space, w1)"
      and p2: "write_phase2 env pcb arg len fl ?l space w1 s = Some (False, w2, s2)"
      and p3: "write_phase3 env pcb arg len fl ?m w2 s2 = Some (False, w', s')"
      and c: "write_commit pcb arg len fl w' = Some pcb'"
      using e ck False by (auto simp: tcp_write_def Let_def bind_Some_iff write_memerr_def split: if_splits)
    have fits: "unat (sg_len ?l) + seg_optlen ?l + unat (sg_oversize_left ?l) \<le> unat ?m"
      using inv False by (auto simp: write_inv_def)
    note a1 = write_phase1_spec [OF p1 refl fits, of arg]
    have tp: "tail_plan arg len ?m ?l w2"
      using write_phase2_spec [OF p2] a1 by blast
    then have "w_pos w2 \<le> len" "w_queue w2 = []" "w_last_unsent w2 \<noteq> None" by (auto simp: tail_plan_def)
    then show ?thesis using fin [OF c p3] tp False by simp
  qed
qed

lemma write_phase3_keeps:
  assumes "write_phase3 env pcb arg len fl mss_local w s = Some (b, w', s')"
  shows "w_last_unsent w' = w_last_unsent w \<and> w_concat_p w' = w_concat_p w \<and> (b \<longrightarrow> w_pos w < len)"
proof -
  have "(\<lambda>(b, w', s'). w_last_unsent w' = w_last_unsent w \<and> w_concat_p w' = w_concat_p w \<and> (b \<longrightarrow> w_pos w < len)) (b, w', s')"
  proof (rule write_phase3.raw_induct [of "\<lambda>env pcb arg len fl mss_local w s y.
      (\<lambda>(b, w', s'). w_last_unsent w' = w_last_unsent w \<and> w_concat_p w' = w_concat_p w \<and> (b \<longrightarrow> w_pos w < len)) y", OF _ assms])
    fix f :: "env \<Rightarrow> tcp_pcb \<Rightarrow> u8 list \<Rightarrow> u16 \<Rightarrow> u8 \<Rightarrow> u16 \<Rightarrow> write_locals \<Rightarrow> 'a sys_scheme \<Rightarrow> (bool \<times> write_locals \<times> 'a sys_scheme) option"
      and env pcb arg len fl mss_local w s y
    assume ih: "\<And>env pcb arg len fl mss_local w s y. f env pcb arg len fl mss_local w s = Some y \<Longrightarrow>
      (case y of (b, w', s') \<Rightarrow> w_last_unsent w' = w_last_unsent w \<and> w_concat_p w' = w_concat_p w \<and> (b \<longrightarrow> w_pos w < len))"
    show "(if w_pos w < len then
        (let left = len - w_pos w;
             seglen = (if mss_local < left then mss_local else left)
         in Option.bind (write_seg_pbuf env pcb arg fl mss_local seglen w s)
          (\<lambda>(p, oversize, s1).
             if p = [] then Some (True, w\<lparr>w_oversize := oversize\<rparr>, s1)
             else
               (let queuelen = w_queuelen w + ucast (pbuf_clen p) in
                if TCP_SND_QUEUELEN < queuelen \<or> TCP_SNDQUEUELEN_OVERFLOW < queuelen then
                  Option.bind (pbuf_free p s1) (\<lambda>(_, s2). Some (True, w, s2))
                else
                  Option.bind (tcp_create_segment pcb p 0 (pcb_snd_lbb pcb + ucast (w_pos w)) 0 s1)
                    (\<lambda>(seg, s2).
                       case seg of
                         None \<Rightarrow> Some (True, w, s2)
                       | Some sg \<Rightarrow>
                           f env pcb arg len fl mss_local
                             (w\<lparr>w_pos := w_pos w + seglen, w_queuelen := queuelen, w_oversize := oversize,
                                w_queue := w_queue w @ [sg\<lparr>sg_oversize_left := oversize\<rparr>]\<rparr>) s2))))
      else Some (False, w, s)) = Some y \<Longrightarrow> (case y of (b, w', s') \<Rightarrow> w_last_unsent w' = w_last_unsent w \<and> w_concat_p w' = w_concat_p w \<and> (b \<longrightarrow> w_pos w < len))"
      unfolding Let_def
      by (auto simp: bind_Some_iff split: if_splits option.splits list.splits dest!: ih)
  qed
  then show ?thesis by simp
qed

lemma write_phase2_last:
  assumes e: "write_phase2 env pcb arg len fl l space w s = Some (b, w', s')" and w: "w_last_unsent w = Some l" "w_concat_p w = []"
    and more: "w_pos w' < len"
  shows "w_last_unsent w' = Some l"
proof (cases "w_pos w < len \<and> 0 < space \<and> 0 < sg_len l \<and> fl AND TCP_WRITE_FLAG_COPY \<noteq> 0 \<and> \<not> b")
  case False
  then show ?thesis using e w by (auto simp: write_phase2_def Let_def bind_Some_iff neq_Nil_conv split: if_split_asm list.split_asm)
next
  case True
  define seglen where "seglen = (if space < len - w_pos w then space else len - w_pos w)"
  obtain bs p ov s1 where a: "tcp_pbuf_prealloc env PBUF_RAW seglen space (w_oversize w) pcb fl True s = Some (p, ov, s1)"
    and bs: "buf_read arg (unat (w_pos w)) (unat seglen) = Some bs"
    using e True by (auto simp: write_phase2_def Let_def seglen_def [symmetric] bind_Some_iff)
  have ne: "p \<noteq> []" using e True a bs by (auto simp: write_phase2_def Let_def seglen_def [symmetric] bind_Some_iff)
  have sl: "seglen \<le> space" by (auto simp: seglen_def)
  have ov: "unat seglen + unat ov \<le> unat space" using prealloc_spec [OF a ne sl] by metis
  have w': "w_last_unsent w' = Some (l\<lparr>sg_oversize_left := sg_oversize_left l + ov\<rparr>)" "w_pos w' = w_pos w + seglen"
    using e True a bs ne by (auto simp: write_phase2_def Let_def seglen_def [symmetric] bind_Some_iff split: list.splits)
  have "seglen \<noteq> len - w_pos w" using more w' by auto
  then have "seglen = space" by (auto simp: seglen_def split: if_splits)
  then have "ov = 0" using ov by (simp add: word_unat_eq_iff)
  then show ?thesis using w' by simp
qed

lemma tcp_write_fails:
  assumes e: "tcp_write env pcb arg len fl s = Some (err, pcb', s')" and err: "err \<noteq> ERR_OK"
  shows "(err = ERR_CONN \<and> pcb' = pcb) \<or> (err = ERR_MEM \<and> pcb' = set_flag TF_NAGLEMEMERR pcb)"
proof -
  obtain bs e1 p1 s1 where arg: "arg = Some bs" and k: "tcp_write_checks pcb len s = Some (e1, p1, s1)"
    using e by (auto simp: tcp_write_def Let_def bind_Some_iff)
  show ?thesis
  proof (cases "e1 = ERR_OK")
    case False
    then show ?thesis using e arg k by (auto simp: tcp_write_def tcp_write_checks_def bind_Some_iff Let_def split: if_splits)
  next
    case True
    then have p1: "p1 = pcb" using k by (auto simp: tcp_write_checks_def bind_Some_iff split: if_splits)
    let ?m = "write_mss_local pcb"
    have keep: "pcb\<lparr>pcb_unsent := butlast (pcb_unsent pcb) @ [last (pcb_unsent pcb)]\<rparr> = pcb" if "pcb_unsent pcb \<noteq> []"
      using that by simp
    have mem: "err = ERR_MEM \<and> pcb' = set_flag TF_NAGLEMEMERR pcb"
      if "write_memerr pcb w s3 = Some (err, pcb', s')"
        and "w_last_unsent w = None \<or> (pcb_unsent pcb \<noteq> [] \<and> w_last_unsent w = Some (last (pcb_unsent pcb)))" for w s3
      using that by (auto simp: write_memerr_def Let_def bind_Some_iff set_flag_def)
    show ?thesis
    proof (cases "pcb_unsent pcb = []")
      case True
      obtain w' s3 where p3: "write_phase3 env pcb bs len fl ?m (write_start pcb) s1 = Some (True, w', s3)"
        and m: "write_memerr pcb w' s3 = Some (err, pcb', s')"
        using e err k p1 arg \<open>e1 = ERR_OK\<close> True by (auto simp: tcp_write_def Let_def bind_Some_iff split: if_splits)
      have "w_last_unsent w' = None" using write_phase3_keeps [OF p3] by (simp add: write_start_def)
      then show ?thesis using mem [OF m] by simp
    next
      case False
      let ?l = "last (pcb_unsent pcb)"
      obtain space w1 b2 w2 s2 where ph1: "write_phase1 pcb len ?m ?l (write_start pcb) = Some (space, w1)"
        and ph2: "write_phase2 env pcb bs len fl ?l space w1 s1 = Some (b2, w2, s2)"
        and rest: "Option.bind (if b2 then Some (True, w2, s2) else write_phase3 env pcb bs len fl ?m w2 s2)
          (\<lambda>(mem', w', s3). if mem' then write_memerr pcb w' s3
              else Option.bind (write_commit pcb bs len fl w') (\<lambda>pcb2. Some (ERR_OK, pcb2, s3))) = Some (err, pcb', s')"
        using e k p1 arg \<open>e1 = ERR_OK\<close> False by (auto simp: tcp_write_def Let_def bind_Some_iff)
      obtain w' s3 where r: "(if b2 then Some (True, w2, s2) else write_phase3 env pcb bs len fl ?m w2 s2) = Some (True, w', s3)"
        and m: "write_memerr pcb w' s3 = Some (err, pcb', s')"
        using rest err by (auto simp: bind_Some_iff split: if_splits)
      have w1: "w_last_unsent w1 = Some ?l" "w_concat_p w1 = []"
        using ph1 by (auto simp: write_phase1_def Let_def bind_Some_iff write_start_def split: if_splits)
      have "w_last_unsent w' = Some ?l"
      proof (cases b2)
        case True
        then have "w_last_unsent w2 = w_last_unsent w1"
          using ph2 by (auto simp: write_phase2_def Let_def bind_Some_iff neq_Nil_conv split: if_split_asm list.split_asm)
        then show ?thesis using r True w1 by simp
      next
        case False
        then have "write_phase3 env pcb bs len fl ?m w2 s2 = Some (True, w', s3)" using r by simp
        from write_phase3_keeps [OF this] show ?thesis using write_phase2_last [OF ph2 w1] by simp
      qed
      then show ?thesis using mem [OF m] False by simp
    qed
  qed
qed

section \<open>Properties\<close>

text \<open>
  C2: A successful \<open>tcp_write\<close> appends exactly the \<open>len\<close> bytes of the application to the unsent data,
  in well-formed segments that follow one another from \<open>n\<close> to the new \<open>snd_lbb\<close> (\<open>write_inv\<close>), with the two
  records of unused space in agreement. \<open>snd_lbb\<close> advances and \<open>snd_buf\<close> shrinks by \<open>len\<close>, and
  what is in flight, the state and \<open>snd_nxt\<close> stay. This covers all three phases (the tail of the last
  segment, a buffer chained to it, new segments), copied or referenced data and wrapped sequence numbers.
\<close>

theorem tcp_write_appends:
  assumes "tcp_write env pcb (Some arg) len fl s = Some (ERR_OK, pcb', s')" and "write_inv n pcb"
    and "pcb_mss pcb \<noteq> 0" and "pcb_mss pcb \<le> TCP_MSS"
  shows "queue_data (pcb_unsent pcb') = queue_data (pcb_unsent pcb) @ take (unat len) arg \<and> write_inv n pcb' \<and>
    pcb_snd_lbb pcb' = pcb_snd_lbb pcb + ucast len \<and> pcb_snd_buf pcb' = pcb_snd_buf pcb - len \<and>
    pcb_unacked pcb' = pcb_unacked pcb \<and> pcb_state pcb' = pcb_state pcb \<and> pcb_snd_nxt pcb' = pcb_snd_nxt pcb"
  using tcp_write_ok [OF assms] by (simp add: written_def)

text \<open>
  C13: A \<open>tcp_write\<close> that fails changes no data: whichever phase ran out of memory, the connection is as it was, with
  \<open>TF_NAGLEMEMERR\<close> set for \<open>ERR_MEM\<close> and not even that for \<open>ERR_CONN\<close>; there is no other error.
\<close>

theorem tcp_write_error:
  assumes "tcp_write env pcb arg len fl s = Some (err, pcb', s')" and "err \<noteq> ERR_OK"
  shows "(err = ERR_CONN \<and> pcb' = pcb) \<or> (err = ERR_MEM \<and> pcb' = set_flag TF_NAGLEMEMERR pcb)"
  by (rule tcp_write_fails [OF assms])

text \<open>Four bytes, copied, on the example connection: the last segment has no spare room, so they are chained to it.\<close>

declare write_phase3.simps [code]

lemma ex_write_inv: "write_inv 1003 ex_pcb"
  by code_simp

lemma ex_write:
  "map_option (\<lambda>(err, p, s). err) (tcp_write ex_env ex_pcb (Some [9, 10, 11, 12]) 4 TCP_WRITE_FLAG_COPY ex_sys) = Some ERR_OK"
  "queue_data (pcb_unsent ex_pcb) = [4, 5, 6, 7, 8]" "pcb_mss ex_pcb \<noteq> 0 \<and> pcb_mss ex_pcb \<le> TCP_MSS"
  "map_option (\<lambda>(err, p, s). err) (tcp_write ex_env (ex_pcb\<lparr>pcb_snd_buf := 3\<rparr>) (Some [9, 10, 11, 12]) 4 TCP_WRITE_FLAG_COPY ex_sys)
     = Some ERR_MEM"
  by code_simp+

theorem tcp_write_appends_witness:
  "\<exists>p s. tcp_write ex_env ex_pcb (Some [9, 10, 11, 12]) 4 TCP_WRITE_FLAG_COPY ex_sys = Some (ERR_OK, p, s) \<and>
     queue_data (pcb_unsent p) = [4, 5, 6, 7, 8, 9, 10, 11, 12] \<and> write_inv 1003 p"
proof -
  obtain p s where o: "tcp_write ex_env ex_pcb (Some [9, 10, 11, 12]) 4 TCP_WRITE_FLAG_COPY ex_sys = Some (ERR_OK, p, s)"
    using ex_write(1) by auto
  then show ?thesis
    using tcp_write_appends [OF o ex_write_inv] ex_write(2,3) by simp
qed

theorem tcp_write_error_witness:
  "\<exists>p s. tcp_write ex_env (ex_pcb\<lparr>pcb_snd_buf := 3\<rparr>) (Some [9, 10, 11, 12]) 4 TCP_WRITE_FLAG_COPY ex_sys = Some (ERR_MEM, p, s) \<and>
     pcb_unsent p = pcb_unsent ex_pcb"
proof -
  obtain p s where o: "tcp_write ex_env (ex_pcb\<lparr>pcb_snd_buf := 3\<rparr>) (Some [9, 10, 11, 12]) 4 TCP_WRITE_FLAG_COPY ex_sys
      = Some (ERR_MEM, p, s)"
    using ex_write(4) by auto
  then show ?thesis using tcp_write_error [OF o] by (auto simp: set_flag_def)
qed

end
