(* ===== verification/Tcp_Receive.thy ===== *)
theory Tcp_Receive
  imports Tcp_Ack Tcp_Write
begin

text \<open>
  The data part of \<open>tcp_receive\<close> (src/tcp_in.c): reassembly. The byte stream of the peer is a function
  from places behind \<open>rcv_nxt\<close> to bytes; queued segments hold their part of it, and what is delivered to the
  application is the stream, piece by piece.
\<close>

section \<open>The out-of-sequence queue\<close>

lemma realloc_loop_cut:
  assumes "pbuf_realloc_loop grow rem_len ps s = Some (ps', s')" and "chain_ok ps" and "unat rem_len \<le> chain_len ps"
    and "grow = int (unat rem_len) - int (chain_len ps)"
  shows "chain_ok ps' \<and> chain_bytes ps' = take (unat rem_len) (chain_bytes ps) \<and> chain_len ps' = unat rem_len \<and> ps' \<noteq> []"
  using assms
proof (induction ps arbitrary: rem_len ps' s')
  case (Cons q qs)
  have okq: "pb_ok q" and okqs: "chain_ok qs" using Cons.prems(2) by simp_all
  show ?case
  proof (cases "pb_len q < rem_len")
    case True
    have sub: "unat (rem_len - pb_len q) = unat rem_len - unat (pb_len q)" "unat (pb_len q) < unat rem_len"
      using True by (simp_all add: unat_sub word_le_nat_alt word_less_nat_alt)
    obtain qs' where r: "pbuf_realloc_loop grow (rem_len - pb_len q) qs s = Some (qs', s')"
      and ps': "ps' = q\<lparr>pb_tot_len := pb_tot_len q + of_int grow\<rparr> # qs'"
      using Cons.prems(1) True by (auto simp: bind_Some_iff)
    have ih: "chain_ok qs' \<and> chain_bytes qs' = take (unat (rem_len - pb_len q)) (chain_bytes qs) \<and> chain_len qs' = unat (rem_len - pb_len q) \<and> qs' \<noteq> []"
      by (rule Cons.IH [OF r okqs]) (use Cons.prems sub in \<open>auto simp del: of_nat_unat\<close>)
    have "unat (pb_tot_len q) = chain_len (q # qs)" using Cons.prems(2) by simp
    then have "of_nat (unat (pb_tot_len q)) = (of_nat (chain_len (q # qs)) :: u16)" by (rule arg_cong)
    then have "pb_tot_len q = of_nat (chain_len (q # qs))" by simp
    then have "pb_tot_len q + of_int grow = of_int (int (chain_len (q # qs)) + grow)" by simp
    also have "\<dots> = rem_len" using Cons.prems(4) by simp
    finally have tot: "pb_tot_len q + of_int grow = rem_len" .
    show ?thesis using ps' ih sub okq tot by simp
  next
    case False
    then have le: "unat rem_len \<le> unat (pb_len q)" by (simp add: word_less_nat_alt not_less)
    have "ps' = [q\<lparr>pb_len := rem_len, pb_tot_len := rem_len\<rparr>]"
      using Cons.prems(1) False by (auto simp: bind_Some_iff Let_def split: if_split_asm)
    then show ?thesis
      using okq le pb_bytes_length [OF okq] by (auto simp add: pb_ok_def pb_bytes_def min_def)
  qed
qed simp

lemma pbuf_realloc_cut:
  assumes "pbuf_realloc ps n s = Some (ps', s')" and "chain_ok ps"
  shows "chain_ok ps' \<and> chain_bytes ps' = take (unat n) (chain_bytes ps) \<and> ps' \<noteq> []"
proof -
  obtain p q where ps: "ps = p # q" using assms(1) by (cases ps) (auto simp: pbuf_realloc_def)
  have tot: "unat (pb_tot_len p) = chain_len ps" using assms(2) ps by simp
  show ?thesis
  proof (cases "pb_tot_len p \<le> n")
    case True
    then have "ps' = ps" "length (chain_bytes ps) \<le> unat n"
      using assms ps tot by (auto simp: pbuf_realloc_def word_le_nat_alt)
    then show ?thesis using assms(2) ps by simp
  next
    case False
    then have "pbuf_realloc_loop (uint n - uint (pb_tot_len p)) n ps s = Some (ps', s')" "unat n \<le> chain_len ps"
      using assms(1) ps tot by (simp_all add: pbuf_realloc_def word_le_nat_alt)
    moreover have "uint n - uint (pb_tot_len p) = int (unat n) - int (chain_len ps)" using tot by (metis uint_nat)
    ultimately show ?thesis using realloc_loop_cut assms(2) by blast
  qed
qed

text \<open>
  A segment that holds its part of a byte stream: \<open>f i\<close> is the byte \<open>i\<close> places behind sequence number \<open>b\<close>.
  The queue is in order from place \<open>n\<close> on, its segments do not overlap, and each holds its part of the stream.
\<close>

definition seg_holds :: "(nat \<Rightarrow> u8) \<Rightarrow> u32 \<Rightarrow> tcp_seg \<Rightarrow> bool" where
  "seg_holds f b seg \<longleftrightarrow> chain_ok (sg_p seg) \<and> sg_p seg \<noteq> [] \<and>
     seg_rank b seg + unat (sg_len seg) < 2147483648 \<and>
     chain_bytes (sg_p seg) = map f [seg_rank b seg ..< seg_rank b seg + unat (sg_len seg)]"

fun oos_ok :: "(nat \<Rightarrow> u8) \<Rightarrow> u32 \<Rightarrow> nat \<Rightarrow> tcp_seg list \<Rightarrow> bool" where
  "oos_ok f b n [] \<longleftrightarrow> True"
| "oos_ok f b n (seg # q) \<longleftrightarrow> n \<le> seg_rank b seg \<and> seg_holds f b seg \<and> oos_ok f b (seg_rank b seg + unat (sg_len seg)) q"

lemma oos_ok_mono: "oos_ok f b n q \<Longrightarrow> m \<le> n \<Longrightarrow> oos_ok f b m q"
  by (cases q) auto

fun oos_end :: "u32 \<Rightarrow> nat \<Rightarrow> tcp_seg list \<Rightarrow> nat" where
  "oos_end b n [] = n"
| "oos_end b n (seg # q) = oos_end b (seg_rank b seg + unat (sg_len seg)) q"

text \<open>
  Up to where the stream is known, when its first \<open>m\<close> bytes are and the segments of the queue are at hand: the end of the bytes
  that are there without a gap.
\<close>

fun stream_end :: "u32 \<Rightarrow> nat \<Rightarrow> tcp_seg list \<Rightarrow> nat" where
  "stream_end b m [] = m"
| "stream_end b m (seg # q) =
     (if seg_rank b seg \<le> m then stream_end b (max m (seg_rank b seg + unat (sg_len seg))) q else m)"

lemma stream_end_ge: "m \<le> stream_end b m q"
  by (induction q arbitrary: m) (auto intro: le_trans [OF max.cobounded1])

lemma oos_ok_append [simp]: "oos_ok f b n (p @ q) \<longleftrightarrow> oos_ok f b n p \<and> oos_ok f b (oos_end b n p) q"
  by (induction p arbitrary: n) auto

lemma oos_end_append [simp]: "oos_end b n (p @ q) = oos_end b (oos_end b n p) q"
  by (induction p arbitrary: n) auto

lemma seg_holds_win: "seg_holds f b seg \<Longrightarrow> seq_win b (seg_seqno seg)"
  by (simp add: seg_holds_def seg_rank_def seq_rank_def seq_win_def)

lemma seg_holds_end:
  assumes "seg_holds f b seg"
  shows "seq_rank b (seg_seqno seg + ucast (sg_len seg)) = seg_rank b seg + unat (sg_len seg) \<and>
    seq_win b (seg_seqno seg + ucast (sg_len seg))"
  using seq_rank_add [of b "seg_seqno seg" "ucast (sg_len seg)"] assms by (simp add: seg_holds_def seg_rank_def)

text \<open>Flags and the length of unused memory do not matter.\<close>

lemma seg_holds_flag [simp]: "seg_holds f b (seg_set_flag g seg) = seg_holds f b seg"
  by (simp add: seg_holds_def seg_set_flag_def TCPH_SET_FLAG_def seg_rank_def)

lemma seg_trim_holds:
  assumes "seg_trim len seg s = Some (seg', s')" and "seg_holds f b seg" and "unat len \<le> unat (sg_len seg)"
  shows "seg_holds f b seg' \<and> sg_len seg' = len \<and> sg_hdr seg' = sg_hdr seg"
proof -
  obtain p where p: "pbuf_realloc (sg_p seg) len s = Some (p, s')" and seg': "seg' = seg\<lparr>sg_len := len, sg_p := p\<rparr>"
    using assms(1) by (auto simp: seg_trim_def bind_Some_iff)
  have "take (unat len) (map f [seg_rank b seg ..< seg_rank b seg + unat (sg_len seg)]) = map f [seg_rank b seg ..< seg_rank b seg + unat len]"
    using assms(3) by (simp add: take_map take_upt)
  then show ?thesis
    using pbuf_realloc_cut [OF p] assms(2,3) seg' by (auto simp: seg_holds_def seg_rank_def)
qed

lemma unat_ucast_diff:
  assumes "seq_rank b y \<le> seq_rank b (x :: u32)" and "seq_rank b x - seq_rank b y < 65536"
  shows "unat (ucast (x - y) :: u16) = seq_rank b x - seq_rank b y"
proof -
  have "unat (x - y) = unat ((x - b) - (y - b))" by simp
  also have "\<dots> = unat (x - b) - unat (y - b)" using assms(1) by (intro unat_sub) (simp add: seq_rank_def word_le_nat_alt)
  finally have "unat (x - y) = seq_rank b x - seq_rank b y" by (simp add: seq_rank_def)
  then show ?thesis using assms(2) by (simp add: unsigned_ucast_eq take_bit_nat_eq_self)
qed

lemma oos_cover_spec:
  assumes "oos_cover (seg_seqno cseg) cseg q s = Some (cseg', rest, s')" and "oos_ok f b n q" and "seg_holds f b cseg"
    and "\<forall>x \<in> set q. seg_rank b cseg \<le> seg_rank b x"
  shows "seg_holds f b cseg' \<and> seg_rank b cseg' = seg_rank b cseg \<and> seg_seqno cseg' = seg_seqno cseg \<and> sg_len cseg' = sg_len cseg \<and>
    (\<exists>m. oos_ok f b m rest) \<and> (\<forall>x \<in> set rest. seg_rank b cseg \<le> seg_rank b x) \<and>
    (rest \<noteq> [] \<longrightarrow> seg_rank b cseg + unat (sg_len cseg) < seg_rank b (hd rest) + unat (sg_len (hd rest)))"
  using assms
proof (induction q arbitrary: cseg s n)
  case (Cons x q)
  have x: "seg_holds f b x" using Cons.prems(2) by simp
  show ?case
  proof (cases "TCP_SEQ_GEQ (seg_seqno cseg + ucast (sg_len cseg)) (seg_seqno x + ucast (sg_len x))")
    case False
    then have "seg_rank b cseg + unat (sg_len cseg) < seg_rank b x + unat (sg_len x)"
      using TCP_SEQ_GEQ_rank [of b] seg_holds_end [OF x] seg_holds_end [OF Cons.prems(3)] by simp
    then show ?thesis using Cons.prems False by auto
  next
    case True
    define c1 where "c1 = (if TCPH_FLAGS (sg_hdr x) AND TCP_FIN \<noteq> 0 then seg_set_flag TCP_FIN cseg else cseg)"
    obtain s1 where rec: "oos_cover (seg_seqno cseg) c1 q s1 = Some (cseg', rest, s')"
      using Cons.prems(1) True unfolding oos_cover.simps Let_def c1_def by (auto simp: bind_Some_iff simp del: if_split)
    have c1: "seg_holds f b c1" "seg_rank b c1 = seg_rank b cseg" "seg_seqno c1 = seg_seqno cseg" "sg_len c1 = sg_len cseg"
      using Cons.prems(3) by (simp_all add: c1_def seg_rank_def seg_set_flag_def TCPH_SET_FLAG_def seg_holds_def)
    have "oos_ok f b (seg_rank b x + unat (sg_len x)) q" using Cons.prems(2) by simp
    then show ?thesis
      using Cons.IH [of c1 s1] rec c1 Cons.prems(4) by simp
  qed
qed auto

lemma insert_segment_spec:
  assumes e: "tcp_oos_insert_segment (seg_seqno cseg) cseg q s = Some (q', s')" and q: "oos_ok f b n q" and c: "seg_holds f b cseg"
    and le: "\<forall>x \<in> set q. seg_rank b cseg \<le> seg_rank b x"
  shows "oos_ok f b (seg_rank b cseg) q' \<and> q' \<noteq> []"
proof (cases "TCPH_FLAGS (sg_hdr cseg) AND TCP_FIN \<noteq> 0")
  case True
  then have "q' = [cseg]" using e by (auto simp: tcp_oos_insert_segment_def bind_Some_iff)
  then show ?thesis using c by simp
next
  case False
  obtain c1 rest s1 where cv: "oos_cover (seg_seqno cseg) cseg q s = Some (c1, rest, s1)"
    using e False by (auto simp: tcp_oos_insert_segment_def bind_Some_iff)
  note k = oos_cover_spec [OF cv q c le]
  show ?thesis
  proof (cases rest)
    case Nil
    then have "q' = [c1]" using e False cv by (simp add: tcp_oos_insert_segment_def)
    then show ?thesis using k by simp
  next
    case (Cons x xs)
    obtain m where m: "oos_ok f b m (x # xs)" using k Cons by auto
    have x: "seg_holds f b x" using m by simp
    have gt: "TCP_SEQ_GT (seg_seqno cseg + ucast (sg_len c1)) (seg_seqno x) \<longleftrightarrow> seg_rank b x < seg_rank b cseg + unat (sg_len cseg)"
      using k seg_holds_end [OF c] seg_holds_win [OF x] TCP_SEQ_GT_rank [of b] by (simp add: seg_rank_def)
    show ?thesis
    proof (cases "TCP_SEQ_GT (seg_seqno cseg + ucast (sg_len c1)) (seg_seqno x)")
      case False
      then have "q' = c1 # x # xs" using e cv Cons \<open>\<not> TCPH_FLAGS (sg_hdr cseg) AND TCP_FIN \<noteq> 0\<close> by (simp add: tcp_oos_insert_segment_def)
      then show ?thesis using k m gt False by simp
    next
      case True
      obtain c2 s2 where t: "seg_trim (ucast (seg_seqno x - seg_seqno cseg)) c1 s1 = Some (c2, s2)" and q': "q' = c2 # x # xs"
        using e cv Cons True \<open>\<not> TCPH_FLAGS (sg_hdr cseg) AND TCP_FIN \<noteq> 0\<close> by (auto simp: tcp_oos_insert_segment_def bind_Some_iff)
      have r: "seg_rank b cseg \<le> seg_rank b x" "seg_rank b x < seg_rank b cseg + unat (sg_len cseg)"
        using k Cons gt True by simp_all
      have l: "unat (ucast (seg_seqno x - seg_seqno cseg) :: u16) = seg_rank b x - seg_rank b cseg"
        using unat_ucast_diff [of b "seg_seqno cseg" "seg_seqno x"] r u16_bound [of "sg_len cseg"] by (simp add: seg_rank_def)
      have "seg_holds f b c2 \<and> sg_len c2 = ucast (seg_seqno x - seg_seqno cseg) \<and> sg_hdr c2 = sg_hdr c1"
        by (rule seg_trim_holds [OF t]) (use k l r in simp_all)
      then show ?thesis using q' m k l r by (auto simp: seg_rank_def)
    qed
  qed
qed


lemma oos_ok_ge: "oos_ok f b n q \<Longrightarrow> x \<in> set q \<Longrightarrow> n \<le> seg_rank b x"
proof (induction q arbitrary: n)
  case (Cons a q)
  show ?case
  proof (cases "x = a")
    case False
    then have "seg_rank b a + unat (sg_len a) \<le> seg_rank b x" using Cons.IH Cons.prems by simp
    then show ?thesis using Cons.prems(1) by simp
  qed (use Cons.prems in simp)
qed simp

lemma tcp_seg_copy_holds:
  assumes "tcp_seg_copy seg s = (Some cseg, s')"
  shows "seg_holds f b cseg = seg_holds f b seg" and "seg_seqno cseg = seg_seqno seg" and "sg_len cseg = sg_len seg"
    and "sg_hdr cseg = sg_hdr seg"
  using assms by (auto simp: tcp_seg_copy_def seg_holds_def seg_rank_def split: prod.splits option.splits)

text \<open>A segment as \<open>tcp_receive\<close> queues it: its header and the copy of the sequence number agree, and it lies in the window that ends at \<open>edge\<close>.\<close>

definition fresh_seg :: "(nat \<Rightarrow> u8) \<Rightarrow> u32 \<Rightarrow> u32 \<Rightarrow> tin \<Rightarrow> bool" where
  "fresh_seg f b edge t \<longleftrightarrow> seg_holds f b (inseg t) \<and> th_seqno (ti_hdr t) = ti_seqno t \<and>
     unat (ti_tcplen t) \<le> unat (ti_len t) + 1 \<and> seq_rank b (ti_seqno t) + unat (ti_tcplen t) < 2147483648 \<and>
     0 < seq_rank b (ti_seqno t) \<and> seq_win b edge \<and> seq_rank b (ti_seqno t) \<le> seq_rank b edge"

lemma fresh_seg_rank: "fresh_seg f b edge t \<Longrightarrow> seg_rank b (inseg t) = seq_rank b (ti_seqno t) \<and> seq_win b (ti_seqno t)"
  by (auto simp: fresh_seg_def seg_rank_def inseg_def seq_win_def seq_rank_def)

lemma seg_trim_left:
  assumes "(if TCP_SEQ_GT (seg_seqno x + ucast (sg_len x)) n then seg_trim (ucast (n - seg_seqno x)) x s else Some (x, s)) = Some (x', s')"
    and "seg_holds f b x" and "seq_win b n" and "seg_rank b x \<le> seq_rank b n"
  shows "seg_holds f b x' \<and> seg_rank b x' = seg_rank b x \<and> seg_rank b x + unat (sg_len x') \<le> seq_rank b n"
proof -
  have gt: "TCP_SEQ_GT (seg_seqno x + ucast (sg_len x)) n \<longleftrightarrow> seq_rank b n < seg_rank b x + unat (sg_len x)"
    using seg_holds_end [OF assms(2)] assms(3) TCP_SEQ_GT_rank [of b] by simp
  show ?thesis
  proof (cases "TCP_SEQ_GT (seg_seqno x + ucast (sg_len x)) n")
    case False
    then show ?thesis using assms gt by simp
  next
    case True
    then have t: "seg_trim (ucast (n - seg_seqno x)) x s = Some (x', s')" using assms(1) by simp
    have l: "unat (ucast (n - seg_seqno x) :: u16) = seq_rank b n - seg_rank b x"
      using unat_ucast_diff [of b "seg_seqno x" n] assms(4) gt True u16_bound [of "sg_len x"] by (simp add: seg_rank_def)
    have "seg_holds f b x' \<and> sg_len x' = ucast (n - seg_seqno x) \<and> sg_hdr x' = sg_hdr x"
      by (rule seg_trim_holds [OF t assms(2)]) (use l gt True in simp)
    then show ?thesis using l assms(4) by (auto simp: seg_rank_def)
  qed
qed

lemma oos_append_spec:
  assumes e: "oos_append t edge next s = Some (q, t', s')" and x: "seg_holds f b next" and t: "fresh_seg f b edge t"
    and lt: "seg_rank b next < seq_rank b (ti_seqno t)"
  shows "oos_ok f b (seg_rank b next) q"
proof (cases "TCPH_FLAGS (sg_hdr next) AND TCP_FIN \<noteq> 0")
  case True
  then show ?thesis using e x by (auto simp: oos_append_def)
next
  case no_fin: False
  obtain co s1 where cp: "tcp_seg_copy (inseg t) s = (co, s1)" by fastforce
  show ?thesis
  proof (cases co)
    case None
    then show ?thesis using e x cp no_fin by (auto simp: oos_append_def)
  next
    case (Some cseg)
    note c = tcp_seg_copy_holds [OF cp [unfolded Some]]
    note r = fresh_seg_rank [OF t]
    have seqc: "seg_seqno cseg = ti_seqno t" "sg_len cseg = ti_len t"
      using c t by (simp_all add: fresh_seg_def inseg_def)
    have hc: "seg_holds f b cseg" using c t by (simp add: fresh_seg_def)
    obtain next1 s2 where n1: "(if TCP_SEQ_GT (seg_seqno next + ucast (sg_len next)) (ti_seqno t)
                then seg_trim (ucast (ti_seqno t - seg_seqno next)) next s1 else Some (next, s1)) = Some (next1, s2)"
      using e no_fin cp Some by (auto simp: oos_append_def bind_Some_iff simp del: if_split)
    have k: "seg_holds f b next1 \<and> seg_rank b next1 = seg_rank b next \<and> seg_rank b next + unat (sg_len next1) \<le> seq_rank b (ti_seqno t)"
      by (rule seg_trim_left [OF n1 x]) (use r lt in simp_all)
    have e2: "seq_rank b (ti_seqno t + ucast (ti_tcplen t)) = seq_rank b (ti_seqno t) + unat (ti_tcplen t) \<and> seq_win b (ti_seqno t + ucast (ti_tcplen t))"
      using seq_rank_add [of b "ti_seqno t" "ucast (ti_tcplen t)"] t by (simp add: fresh_seg_def)
    have gt: "TCP_SEQ_GT (ucast (ti_tcplen t) + ti_seqno t) edge \<longleftrightarrow> seq_rank b edge < seq_rank b (ti_seqno t) + unat (ti_tcplen t)"
      using e2 t TCP_SEQ_GT_rank [of b] by (simp add: fresh_seg_def add.commute)
    show ?thesis
    proof (cases "TCP_SEQ_GT (ucast (ti_tcplen t) + ti_seqno t) edge")
      case False
      then have "q = [next1, cseg]" using e no_fin cp Some n1 by (simp add: oos_append_def bind_Some_iff)
      then show ?thesis using k hc seqc by (simp add: seg_rank_def)
    next
      case True
      define c1 where "c1 = (if TCPH_FLAGS (sg_hdr cseg) AND TCP_FIN \<noteq> 0
                            then cseg\<lparr>sg_hdr := TCPH_FLAGS_SET (TCPH_FLAGS (sg_hdr cseg) AND NOT TCP_FIN) (sg_hdr cseg)\<rparr>
                            else cseg)"
      obtain c2 s3 where tr: "seg_trim (ucast (edge - ti_seqno t)) c1 s2 = Some (c2, s3)" and q: "q = [next1, c2]"
        using e no_fin cp Some n1 True unfolding oos_append_def Let_def c1_def by (auto simp: bind_Some_iff simp del: if_split)
      have h1: "seg_holds f b c1" "seg_seqno c1 = ti_seqno t" "sg_len c1 = ti_len t"
        using hc seqc by (auto simp: c1_def TCPH_FLAGS_SET_def seg_holds_def seg_rank_def)
      have rr: "seq_rank b (ti_seqno t) \<le> seq_rank b edge" "seq_rank b edge < seq_rank b (ti_seqno t) + unat (ti_tcplen t)"
        using gt True t by (simp_all add: fresh_seg_def)
      have l: "unat (ucast (edge - ti_seqno t) :: u16) = seq_rank b edge - seq_rank b (ti_seqno t)"
        by (rule unat_ucast_diff) (use rr u16_bound [of "ti_tcplen t"] in simp_all)
      have "unat (ti_tcplen t) \<le> unat (ti_len t) + 1" using t by (simp add: fresh_seg_def)
      then have "unat (ucast (edge - ti_seqno t) :: u16) \<le> unat (sg_len c1)" unfolding h1(3) using l rr by linarith
      then have "seg_holds f b c2 \<and> sg_len c2 = ucast (edge - ti_seqno t) \<and> sg_hdr c2 = sg_hdr c1"
        by (rule seg_trim_holds [OF tr h1(1)])
      then show ?thesis using q k h1 by (simp add: seg_rank_def)
    qed
  qed
qed


lemma oos_end_le:
  assumes "oos_ok f b n q" and "q \<noteq> []"
  shows "oos_end b n q = seg_rank b (last q) + unat (sg_len (last q))"
  using assms by (induction q arbitrary: n) auto

lemma oos_walk_spec:
  assumes "oos_walk t edge before q s = Some (q', t', s')" and "oos_ok f b n (before @ q)" and t: "fresh_seg f b edge t"
    and "0 < n" and "n \<le> seq_rank b (ti_seqno t)" and "\<forall>x \<in> set before. seg_rank b x < seq_rank b (ti_seqno t)"
  shows "oos_ok f b n q'"
  using assms(1,2,6)
proof (induction q arbitrary: before s)
  case Nil
  then show ?case by simp
next
  case (Cons x rest)
  note r = fresh_seg_rank [OF t]
  have ts: "th_seqno (ti_hdr t) = ti_seqno t" "seg_holds f b (inseg t)" using t by (simp_all add: fresh_seg_def)
  have ok: "oos_ok f b n before" "oos_ok f b (oos_end b n before) (x # rest)" using Cons.prems(2) by simp_all
  have x: "seg_holds f b x" "seq_win b (seg_seqno x)" "oos_end b n before \<le> seg_rank b x" "0 < seg_rank b x"
  proof -
    show "seg_holds f b x" "seq_win b (seg_seqno x)" "oos_end b n before \<le> seg_rank b x" using ok seg_holds_win [of f b x] by simp_all
    show "0 < seg_rank b x" using oos_ok_ge [OF Cons.prems(2), of x] assms(4) by simp
  qed
  have copy: "seg_holds f b cseg \<and> seg_seqno cseg = ti_seqno t \<and> seg_rank b cseg = seq_rank b (ti_seqno t)"
    if "tcp_seg_copy (inseg t) s = (Some cseg, s1)" for cseg s1
    using tcp_seg_copy_holds [OF that] ts by (simp add: seg_rank_def inseg_def)
  have ins: "oos_ok f b (seq_rank b (ti_seqno t)) qq"
    if "tcp_oos_insert_segment (ti_seqno t) cseg (x # rest) s1 = Some (qq, s2)" "tcp_seg_copy (inseg t) s = (Some cseg, s3)"
      "seq_rank b (ti_seqno t) \<le> seg_rank b x" for cseg qq s1 s2 s3
  proof -
    have "\<forall>y \<in> set (x # rest). seg_rank b cseg \<le> seg_rank b y"
      using oos_ok_ge [of f b "seg_rank b x" "x # rest"] ok(2) that(3) copy [OF that(2)] by (auto intro: order_trans)
    then show ?thesis using insert_segment_spec [of cseg "x # rest" s1 qq s2 f b] that(1) ok(2) copy [OF that(2)] by auto
  qed
  have keep: "oos_ok f b n (before @ x # rest)" by (fact Cons.prems(2))
  obtain co s1 where cp: "tcp_seg_copy (inseg t) s = (co, s1)" by fastforce
  show ?case
  proof (cases "ti_seqno t = seg_seqno x")
    case same: True
    show ?thesis
    proof (cases "sg_len x < ti_len t")
      case False
      then have "q' = before @ x # rest" using Cons.prems(1) same by auto
      then show ?thesis using keep by simp
    next
      case True
      show ?thesis
      proof (cases co)
        case None
        then have "q' = before @ x # rest" using Cons.prems(1) same True cp by auto
        then show ?thesis using keep by simp
      next
        case (Some cseg)
        then obtain qq s2 where i: "tcp_oos_insert_segment (ti_seqno t) cseg (x # rest) s1 = Some (qq, s2)" and q': "q' = before @ qq"
          using Cons.prems(1) same True cp by (auto simp: bind_Some_iff)
        have "seq_rank b (ti_seqno t) = seg_rank b x" using same by (simp add: seg_rank_def)
        then have "oos_ok f b (seg_rank b x) qq" using ins [OF i cp [unfolded Some]] by simp
        then show ?thesis using q' ok(1) x(3) oos_ok_mono by auto
      qed
    qed
  next
    case ne: False
    have rne: "seq_rank b (ti_seqno t) \<noteq> seg_rank b x" using ne by (simp add: seg_rank_def seq_rank_eq_iff)
    have lt_iff: "TCP_SEQ_LT (ti_seqno t) (seg_seqno x) \<longleftrightarrow> seq_rank b (ti_seqno t) < seg_rank b x"
      using TCP_SEQ_LT_rank [of b] r x(2) by (simp add: seg_rank_def)
    have gt_iff: "TCP_SEQ_GT (ti_seqno t) (seg_seqno x) \<longleftrightarrow> seg_rank b x < seq_rank b (ti_seqno t)"
      using TCP_SEQ_GT_rank [of b] r x(2) by (simp add: seg_rank_def)
    have btw_iff: "TCP_SEQ_BETWEEN (ti_seqno t) (seg_seqno (last before) + 1) (seg_seqno x - 1) \<longleftrightarrow> seq_rank b (ti_seqno t) < seg_rank b x"
      if "before \<noteq> []"
    proof -
      have l: "seg_rank b (last before) < seq_rank b (ti_seqno t)" using Cons.prems(3) that by simp
      have "seq_rank b (ti_seqno t) < 2147483648" using r by (simp add: seq_win_def seq_rank_def)
      then have p: "seq_rank b (seg_seqno (last before) + 1) = seg_rank b (last before) + 1 \<and> seq_win b (seg_seqno (last before) + 1)"
        using seq_rank_add [of b "seg_seqno (last before)" 1] l by (simp add: seg_rank_def)
      have "unat (seg_seqno x - 1 - b) = unat ((seg_seqno x - b) - 1)" by (simp add: algebra_simps)
      also have "\<dots> = unat (seg_seqno x - b) - 1" using x(4) unat_sub [of 1 "seg_seqno x - b"]
        by (simp add: seg_rank_def seq_rank_def word_le_nat_alt del: unat_gt_0)
      finally have m: "seq_rank b (seg_seqno x - 1) = seg_rank b x - 1 \<and> seq_win b (seg_seqno x - 1)"
        using x(2) by (simp add: seg_rank_def seq_rank_def seq_win_def)
      show ?thesis
        using TCP_SEQ_GEQ_rank [of b "ti_seqno t"] TCP_SEQ_LEQ_rank [of b "ti_seqno t"] p m r l x(4)
        by (auto simp: TCP_SEQ_BETWEEN_def)
    qed
    show ?thesis
    proof (cases "seq_rank b (ti_seqno t) < seg_rank b x")
      case lt: True
      show ?thesis
      proof (cases co)
        case None
        then have "q' = before @ x # rest"
          using Cons.prems(1) ne lt lt_iff btw_iff cp by (cases "before = []") auto
        then show ?thesis using keep by simp
      next
        case (Some cseg)
        show ?thesis
        proof (cases "before = []")
          case True
          then obtain s2 where i: "tcp_oos_insert_segment (ti_seqno t) cseg (x # rest) s1 = Some (q', s2)"
            using Cons.prems(1) ne lt lt_iff cp Some by (auto simp: bind_Some_iff)
          then show ?thesis using ins [OF i cp [unfolded Some]] lt assms(5) oos_ok_mono by auto
        next
          case False
          obtain ys y where b: "before = ys @ [y]" using False by (metis rev_exhaust)
          have y: "seg_holds f b y" "oos_ok f b n ys" "oos_end b n ys \<le> seg_rank b y" "seg_rank b y < seq_rank b (ti_seqno t)"
            using ok(1) Cons.prems(3) b by auto
          obtain y1 s2 qq s3 where n1: "(if TCP_SEQ_GT (seg_seqno y + ucast (sg_len y)) (ti_seqno t)
                then seg_trim (ucast (ti_seqno t - seg_seqno y)) y s1 else Some (y, s1)) = Some (y1, s2)"
            and i: "tcp_oos_insert_segment (ti_seqno t) cseg (x # rest) s2 = Some (qq, s3)" and q': "q' = ys @ y1 # qq"
            using Cons.prems(1) ne lt lt_iff btw_iff [OF False] cp Some False b
            by (auto simp: bind_Some_iff Let_def simp del: if_split)
          have "seg_holds f b y1 \<and> seg_rank b y1 = seg_rank b y \<and> seg_rank b y + unat (sg_len y1) \<le> seq_rank b (ti_seqno t)"
            by (rule seg_trim_left [OF n1 y(1)]) (use r y in simp_all)
          moreover have "oos_ok f b (seq_rank b (ti_seqno t)) qq" using ins [OF i cp [unfolded Some]] lt by simp
          ultimately show ?thesis using q' y oos_ok_mono by auto
        qed
      qed
    next
      case False
      then have gt: "seg_rank b x < seq_rank b (ti_seqno t)" using rne by simp
      show ?thesis
      proof (cases "rest = []")
        case True
        obtain qq s2 where a: "oos_append t edge x s = Some (qq, t', s2)" and q': "q' = before @ qq"
          using Cons.prems(1) ne False lt_iff btw_iff gt gt_iff True by (cases "before = []") (auto simp: bind_Some_iff)
        have "oos_ok f b (seg_rank b x) qq" by (rule oos_append_spec [OF a x(1) t gt])
        then show ?thesis using q' ok(1) x(3) oos_ok_mono by auto
      next
        case more: False
        have "oos_walk t edge (before @ [x]) rest s = Some (q', t', s')"
          using Cons.prems(1) ne False lt_iff btw_iff more by (cases "before = []") auto
        then show ?thesis by (rule Cons.IH) (use Cons.prems gt in auto)
      qed
    qed
  qed
qed

section \<open>Data in sequence\<close>

text \<open>A change of the base of the stream.\<close>

lemma seg_rank_shift:
  assumes "n \<le> seg_rank b seg" and "n < 4294967296"
  shows "seg_rank (b + of_nat n) seg = seg_rank b seg - n"
proof -
  have n: "unat (of_nat n :: u32) = n" using assms(2) by (simp add: unat_of_nat)
  have "unat (seg_seqno seg - (b + of_nat n)) = unat ((seg_seqno seg - b) - of_nat n)" by (simp add: algebra_simps)
  also have "\<dots> = unat (seg_seqno seg - b) - n"
    using assms(1) n unat_sub [of "of_nat n :: u32" "seg_seqno seg - b"] by (simp add: seg_rank_def seq_rank_def word_le_nat_alt)
  finally show ?thesis by (simp add: seg_rank_def seq_rank_def)
qed

lemma seg_holds_shift:
  assumes "seg_holds f b seg" and "n \<le> seg_rank b seg" and "n < 4294967296"
  shows "seg_holds (\<lambda>i. f (n + i)) (b + of_nat n) seg"
proof -
  obtain k where k: "seg_rank b seg = n + k" using assms(2) le_iff_add by blast
  then have r: "seg_rank (b + of_nat n) seg = k" using seg_rank_shift [OF assms(2,3)] by simp
  have "map f [n + k ..< n + k + l] = map (\<lambda>i. f (n + i)) [k ..< k + l]" for l
    by (rule nth_equalityI) (simp_all add: add.assoc)
  then show ?thesis using assms(1) k r by (simp add: seg_holds_def)
qed

lemma oos_ok_shift:
  assumes "oos_ok f b m q" and "n \<le> m" and "n < 4294967296"
  shows "oos_ok (\<lambda>i. f (n + i)) (b + of_nat n) (m - n) q"
  using assms(1,2)
proof (induction q arbitrary: m)
  case (Cons x q)
  have x: "m \<le> seg_rank b x" "seg_holds f b x" "oos_ok f b (seg_rank b x + unat (sg_len x)) q" using Cons.prems(1) by simp_all
  then have r: "seg_rank (b + of_nat n) x = seg_rank b x - n" using seg_rank_shift [of n b x] Cons.prems(2) assms(3) by simp
  have "oos_ok (\<lambda>i. f (n + i)) (b + of_nat n) (seg_rank b x + unat (sg_len x) - n) q"
    by (rule Cons.IH [OF x(3)]) (use Cons.prems(2) x(1) in simp)
  moreover have "seg_rank b x + unat (sg_len x) - n = seg_rank b x - n + unat (sg_len x)" using x(1) Cons.prems(2) by simp
  moreover have "seg_holds (\<lambda>i. f (n + i)) (b + of_nat n) x"
    by (rule seg_holds_shift [OF x(2) _ assms(3)]) (use x(1) Cons.prems(2) in simp)
  moreover have "m - n \<le> seg_rank b x - n" using x(1) by (rule diff_le_mono)
  ultimately show ?case unfolding oos_ok.simps r by metis
qed simp

text \<open>No segment of the queue, and not the incoming one, carries a SYN or a FIN.\<close>

abbreviation plain :: "tcp_hdr \<Rightarrow> bool" where
  "plain h \<equiv> TCPH_FLAGS h AND (TCP_FIN OR TCP_SYN) = 0"

lemma plain_flags:
  assumes "plain h"
  shows "TCPH_FLAGS h AND TCP_FIN = 0" and "TCPH_FLAGS h AND TCP_SYN = 0"
proof -
  have "TCPH_FLAGS h AND TCP_FIN = (TCPH_FLAGS h AND (TCP_FIN OR TCP_SYN)) AND TCP_FIN"
    "TCPH_FLAGS h AND TCP_SYN = (TCPH_FLAGS h AND (TCP_FIN OR TCP_SYN)) AND TCP_SYN"
    by (simp_all add: and.assoc)
  then show "TCPH_FLAGS h AND TCP_FIN = 0" "TCPH_FLAGS h AND TCP_SYN = 0" using assms by simp_all
qed


lemma receive_advance_spec:
  assumes "receive_advance nxt n pcb = Some pcb'"
  shows "pcb_rcv_nxt pcb' = nxt" and "unat n \<le> unat (pcb_rcv_wnd pcb)" and "unat (pcb_rcv_wnd pcb') = unat (pcb_rcv_wnd pcb) - unat n"
    and "pcb_ooseq pcb' = pcb_ooseq pcb" and "pcb_state pcb' = pcb_state pcb"
proof -
  have le: "n \<le> ucast (pcb_rcv_wnd pcb)" using assms by (simp add: receive_advance_def)
  then show n: "unat n \<le> unat (pcb_rcv_wnd pcb)" by (simp add: word_le_nat_alt)
  have "unat (ucast n :: u16) = unat n" using n u16_bound [of "pcb_rcv_wnd pcb"] by (simp add: unsigned_ucast_eq take_bit_nat_eq_self)
  then have "unat (pcb_rcv_wnd pcb - ucast n) = unat (pcb_rcv_wnd pcb) - unat n" using n by (subst unat_sub) (simp_all add: word_le_nat_alt)
  then show "pcb_rcv_nxt pcb' = nxt" "unat (pcb_rcv_wnd pcb') = unat (pcb_rcv_wnd pcb) - unat n"
    "pcb_ooseq pcb' = pcb_ooseq pcb" "pcb_state pcb' = pcb_state pcb"
    using assms by (auto simp: receive_advance_def tcp_update_rcv_ann_wnd_def Let_def bind_Some_iff split: if_split_asm)
qed

lemma of_nat_add_ucast: "b + of_nat n + ucast (l :: u16) = (b + of_nat (n + unat l) :: u32)"
proof -
  have "(ucast l :: u32) = of_nat (unat l)" by (simp add: word_unat_eq_iff unat_of_nat u16_bound [THEN order_less_trans])
  then show ?thesis by (simp add: add.assoc)
qed

text \<open>What has been delivered: the first \<open>n\<close> bytes of the stream, and the window that is left.\<close>

definition delivered :: "(nat \<Rightarrow> u8) \<Rightarrow> u32 \<Rightarrow> nat \<Rightarrow> nat \<Rightarrow> pbuf list \<Rightarrow> tcp_pcb \<Rightarrow> bool" where
  "delivered f b w n rd pcb \<longleftrightarrow> pcb_rcv_nxt pcb = b + of_nat n \<and> chain_ok rd \<and> chain_bytes rd = map f [0 ..< n] \<and>
     n + unat (pcb_rcv_wnd pcb) = w \<and> w < 65536"

lemma ooseq_deliver_spec:
  assumes "ooseq_deliver q t pcb s = Some (t', pcb', s')" and "pcb_ooseq pcb = q" and "oos_ok f b n q"
    and "delivered f b w n (ti_recv_data t) pcb" and "list_all (\<lambda>seg. plain (sg_hdr seg)) q"
  shows "delivered f b w (stream_end b n q) (ti_recv_data t') pcb' \<and> oos_ok f b (stream_end b n q + 1) (pcb_ooseq pcb') \<and>
    list_all (\<lambda>seg. plain (sg_hdr seg)) (pcb_ooseq pcb') \<and> pcb_state pcb' = pcb_state pcb"
  using assms
proof (induction q arbitrary: t pcb s n)
  case Nil
  then show ?case by auto
next
  case (Cons x rest)
  have x: "n \<le> seg_rank b x" "seg_holds f b x" "oos_ok f b (seg_rank b x + unat (sg_len x)) rest" using Cons.prems(3) by simp_all
  have pl: "plain (sg_hdr x)" "list_all (\<lambda>seg. plain (sg_hdr seg)) rest" using Cons.prems(5) by simp_all
  have d: "pcb_rcv_nxt pcb = b + of_nat n" "chain_ok (ti_recv_data t)" "chain_bytes (ti_recv_data t) = map f [0 ..< n]"
    "n + unat (pcb_rcv_wnd pcb) = w" "w < 65536" using Cons.prems(4) by (simp_all add: delivered_def)
  have rk: "seg_seqno x = pcb_rcv_nxt pcb \<longleftrightarrow> seg_rank b x = n"
  proof -
    have "seq_rank b (b + of_nat n) = n" using d(4,5) by (simp add: seq_rank_def unat_of_nat)
    then show ?thesis unfolding d(1) seg_rank_def using seq_rank_eq_iff [of b "seg_seqno x" "b + of_nat n"] by simp
  qed
  show ?case
  proof (cases "seg_seqno x = pcb_rcv_nxt pcb")
    case False
    then have "t' = t" "pcb' = pcb" using Cons.prems(1) by auto
    moreover have "n + 1 \<le> seg_rank b x" using False rk x(1) by simp
    ultimately show ?thesis using Cons.prems x by auto
  next
    case True
    have tl: "TCP_TCPLEN x = ucast (sg_len x)" using pl(1) by (simp add: TCP_TCPLEN_def)
    note fl = plain_flags [OF pl(1)]
    obtain pcb1 t1 x1 s2 where adv: "receive_advance (pcb_rcv_nxt pcb + ucast (sg_len x)) (ucast (sg_len x)) pcb = Some pcb1"
      and mv: "(if 0 < pb_tot_len (hd (sg_p x)) then do {
             d \<leftarrow> (if ti_recv_data t \<noteq> [] then pbuf_cat (ti_recv_data t) (sg_p x) else Some (sg_p x));
             Some (t\<lparr>ti_recv_data := d, ti_seqno := seg_seqno x\<rparr>, x\<lparr>sg_p := []\<rparr>)
           } else Some (t\<lparr>ti_seqno := seg_seqno x\<rparr>, x)) = Some (t1, x1)"
      and rec: "ooseq_deliver rest t1 (pcb1\<lparr>pcb_ooseq := rest\<rparr>) s2 = Some (t', pcb', s')"
      using Cons.prems(1) True fl unfolding ooseq_deliver.simps tl Let_def
      by (auto simp: bind_Some_iff simp del: if_split)
    note a = receive_advance_spec [OF adv]
    define l where "l = unat (sg_len x)"
    have hx: "chain_ok (sg_p x)" "sg_p x \<noteq> []" "chain_bytes (sg_p x) = map f [n ..< n + l]" "seg_rank b x = n"
      using x(2) rk True by (auto simp: seg_holds_def l_def)
    have tot: "unat (pb_tot_len (hd (sg_p x))) = l"
      using chain_ok_tot [OF hx(1,2)] arg_cong [OF hx(3), of length] hx(1) by simp
    have rd: "chain_ok (ti_recv_data t1) \<and> chain_bytes (ti_recv_data t1) = map f [0 ..< n + l]"
    proof (cases "0 < pb_tot_len (hd (sg_p x))")
      case False
      then have "l = 0" using tot by (simp add: word_gt_0)
      moreover have "ti_recv_data t1 = ti_recv_data t" using mv False by auto
      ultimately show ?thesis using d by simp
    next
      case pos: True
      show ?thesis
      proof (cases "ti_recv_data t = []")
        case True
        then have "n = 0" "ti_recv_data t1 = sg_p x" using d(3) mv pos by (auto simp: bind_Some_iff)
        then show ?thesis using hx by simp
      next
        case False
        then obtain r where r: "pbuf_cat (ti_recv_data t) (sg_p x) = Some r" and t1: "ti_recv_data t1 = r"
          using mv pos by (auto simp: bind_Some_iff)
        have cl: "chain_len (ti_recv_data t) = n" "chain_len (sg_p x) = l"
          using arg_cong [OF d(3), of length] arg_cong [OF hx(3), of length] d(2) hx(1) by simp_all
        have "l \<le> unat (pcb_rcv_wnd pcb)" using a(2) by (simp add: l_def)
        then have "chain_len (ti_recv_data t) + chain_len (sg_p x) < 65536" using cl d(4,5) by simp
        from pbuf_cat_spec [OF r d(2) hx(1) this] have "chain_ok r" "chain_bytes r = map f [0 ..< n] @ map f [n ..< n + l]"
          using d(3) hx(3) by simp_all
        then show ?thesis using t1 upt_add_eq_append [of 0 n l] by simp
      qed
    qed
    have dl: "delivered f b w (n + l) (ti_recv_data t1) (pcb1\<lparr>pcb_ooseq := rest\<rparr>)"
      using rd a(1-3) d(1,4,5) of_nat_add_ucast [of b n "sg_len x"] by (simp add: delivered_def l_def)
    have ok: "oos_ok f b (n + l) rest" using x(3) hx(4) by (simp add: l_def)
    have "stream_end b n (x # rest) = stream_end b (n + l) rest" using hx(4) by (simp add: l_def)
    then show ?thesis using Cons.IH [OF rec _ ok dl pl(2)] a(5) by simp
  qed
qed


text \<open>An in-sequence segment that carries no SYN and no FIN.\<close>

definition plain_seg :: "(nat \<Rightarrow> u8) \<Rightarrow> u32 \<Rightarrow> tin \<Rightarrow> bool" where
  "plain_seg f b t \<longleftrightarrow> seg_holds f b (inseg t) \<and> plain (ti_hdr t) \<and> th_seqno (ti_hdr t) = b \<and> ti_seqno t = b \<and> ti_tcplen t = ti_len t"

lemma ucast_u16_u32_u16 [simp]: "ucast (ucast (x :: u16) :: u32) = x"
  by (simp add: word_unat_eq_iff unsigned_ucast_eq take_bit_nat_eq_self take_bit_word_eq_self u16_bound)

lemma set_tcplen_plain: "plain (ti_hdr t) \<Longrightarrow> set_tcplen t = t\<lparr>ti_tcplen := ti_len t\<rparr>"
  by (simp add: set_tcplen_def TCP_TCPLEN_def inseg_def)

lemma inseg_tcplen [simp]: "inseg (t\<lparr>ti_tcplen := n\<rparr>) = inseg t" "inseg (t\<lparr>ti_recv_data := d\<rparr>) = inseg t"
  by (simp_all add: inseg_def)

lemma plain_seg_cut:
  assumes "pbuf_realloc (ti_p t) n s = Some (p, s' :: 'a sys_scheme)" and "plain_seg f b t" and "unat n \<le> unat (ti_len t)"
  shows "plain_seg f b (set_tcplen (t\<lparr>ti_len := n, ti_p := p\<rparr>))"
proof -
  have "seg_trim n (inseg t) s = Some ((inseg t)\<lparr>sg_len := n, sg_p := p\<rparr>, s')"
    using assms(1) by (simp add: seg_trim_def inseg_def)
  then have "seg_holds f b ((inseg t)\<lparr>sg_len := n, sg_p := p\<rparr>)"
    by (rule seg_trim_holds [THEN conjunct1]) (use assms(2,3) in \<open>simp_all add: plain_seg_def inseg_def\<close>)
  moreover have "inseg (t\<lparr>ti_len := n, ti_p := p\<rparr>) = (inseg t)\<lparr>sg_len := n, sg_p := p\<rparr>" by (simp add: inseg_def)
  ultimately show ?thesis using assms(2) by (simp add: plain_seg_def set_tcplen_plain)
qed

lemma receive_trim_right_plain:
  assumes "receive_trim_right t pcb s = Some (t', s')" and "plain_seg f b t"
  shows "plain_seg f b t' \<and> ti_recv_data t' = ti_recv_data t \<and> unat (ti_len t') = min (unat (ti_len t)) (unat (pcb_rcv_wnd pcb))"
proof (cases "pcb_rcv_wnd pcb < ti_tcplen t")
  case False
  then have "unat (ti_len t) \<le> unat (pcb_rcv_wnd pcb)" using assms(2) by (simp add: plain_seg_def word_less_nat_alt)
  then show ?thesis using False assms by (simp add: receive_trim_right_def)
next
  case True
  have fl: "\<not> inseg_flag TCP_FIN t" "\<not> inseg_flag TCP_SYN t"
    using assms(2) plain_flags [of "ti_hdr t"] by (simp_all add: plain_seg_def inseg_flag_def)
  obtain p where p: "pbuf_realloc (ti_p t) (pcb_rcv_wnd pcb) s = Some (p, s')"
    and t': "t' = set_tcplen (t\<lparr>ti_len := pcb_rcv_wnd pcb, ti_p := p\<rparr>)"
    using assms(1) True fl by (auto simp: receive_trim_right_def bind_Some_iff Let_def)
  have "unat (pcb_rcv_wnd pcb) \<le> unat (ti_len t)"
    using True assms(2) by (simp add: plain_seg_def word_less_nat_alt)
  then show ?thesis using plain_seg_cut [OF p assms(2)] t' by (simp add: set_tcplen_def)
qed

lemma plain_seg_end:
  assumes "plain_seg f b t"
  shows "seq_rank b (ti_seqno t + ucast (ti_tcplen t)) = unat (ti_len t) \<and> seq_win b (ti_seqno t + ucast (ti_tcplen t))"
  using seg_holds_end [of f b "inseg t"] assms by (simp add: plain_seg_def inseg_def seg_rank_def)

lemma ooseq_covered_plain:
  assumes "ooseq_covered t q s = Some (t', rest, s')" and "plain_seg f b t" and "oos_ok f b n q" and "list_all (\<lambda>seg. plain (sg_hdr seg)) q"
  shows "t' = t \<and> list_all (\<lambda>seg. plain (sg_hdr seg)) rest \<and> (\<exists>m \<ge> n. oos_ok f b m rest) \<and>
    (rest \<noteq> [] \<longrightarrow> unat (ti_len t) < seg_rank b (hd rest) + unat (sg_len (hd rest))) \<and>
    stream_end b (unat (ti_len t)) q = stream_end b (unat (ti_len t)) rest"
  using assms(1,3,4)
proof (induction q arbitrary: s n)
  case (Cons x q)
  have x: "seg_holds f b x" using Cons.prems(2) by simp
  show ?case
  proof (cases "TCP_SEQ_GEQ (ti_seqno t + ucast (ti_tcplen t)) (seg_seqno x + ucast (sg_len x))")
    case False
    then have "unat (ti_len t) < seg_rank b x + unat (sg_len x)"
      using TCP_SEQ_GEQ_rank [of b] seg_holds_end [OF x] plain_seg_end [OF assms(2)] by simp
    then show ?thesis using Cons.prems False by auto
  next
    case True
    have "TCPH_FLAGS (sg_hdr x) AND TCP_FIN = 0" using plain_flags [of "sg_hdr x"] Cons.prems(3) by simp
    then obtain s1 where rec: "ooseq_covered t q s1 = Some (t', rest, s')"
      using Cons.prems(1) True by (auto simp: bind_Some_iff)
    have "oos_ok f b (seg_rank b x + unat (sg_len x)) q" "n \<le> seg_rank b x" using Cons.prems(2) by simp_all
    note k = this
    have "list_all (\<lambda>seg. plain (sg_hdr seg)) q" using Cons.prems(3) by simp
    note ih = Cons.IH [OF rec k(1) this]
    have le: "seg_rank b x + unat (sg_len x) \<le> unat (ti_len t)"
      using True TCP_SEQ_GEQ_rank [of b] seg_holds_end [OF x] plain_seg_end [OF assms(2)] by simp
    have "stream_end b (unat (ti_len t)) (x # q) = stream_end b (unat (ti_len t)) q" using le by (simp add: max_absorb1)
    moreover have "\<exists>m \<ge> n. oos_ok f b m rest" using ih k(2) by (meson le_add1 order_trans)
    ultimately show ?thesis using ih by simp
  qed
qed auto

lemma receive_adjust_plain:
  assumes "receive_adjust_ooseq t pcb s = Some (t', pcb', s')" and "plain_seg f b t" and "oos_ok f b 1 (pcb_ooseq pcb)"
    and "list_all (\<lambda>seg. plain (sg_hdr seg)) (pcb_ooseq pcb)"
  shows "plain_seg f b t' \<and> ti_recv_data t' = ti_recv_data t \<and> pcb' = pcb\<lparr>pcb_ooseq := pcb_ooseq pcb'\<rparr> \<and>
    oos_ok f b (unat (ti_len t')) (pcb_ooseq pcb') \<and> list_all (\<lambda>seg. plain (sg_hdr seg)) (pcb_ooseq pcb') \<and>
    stream_end b (unat (ti_len t')) (pcb_ooseq pcb') = stream_end b (unat (ti_len t)) (pcb_ooseq pcb)"
proof (cases "pcb_ooseq pcb = []")
  case True
  then show ?thesis using assms by (auto simp: receive_adjust_ooseq_def)
next
  case False
  have fl: "\<not> inseg_flag TCP_FIN t" "\<not> inseg_flag TCP_SYN t"
    using assms(2) plain_flags [of "ti_hdr t"] by (simp_all add: plain_seg_def inseg_flag_def)
  obtain t1 rest s1 where cv: "ooseq_covered t (pcb_ooseq pcb) s = Some (t1, rest, s1)"
    using assms(1) False fl by (auto simp: receive_adjust_ooseq_def bind_Some_iff)
  note k = ooseq_covered_plain [OF cv assms(2-4)]
  note e = assms(1) [unfolded receive_adjust_ooseq_def cv Option.bind.bind_lunit prod.case if_not_P [OF False] if_not_P [OF fl(1)]]
  show ?thesis
  proof (cases rest)
    case Nil
    then show ?thesis using e k assms(2) by auto
  next
    case (Cons x xs)
    obtain m where m: "1 \<le> m" "oos_ok f b m (x # xs)" using k Cons by auto
    have x: "seg_holds f b x" using m by simp
    have gt: "TCP_SEQ_GT (ti_seqno t + ucast (ti_tcplen t)) (seg_seqno x) \<longleftrightarrow> seg_rank b x < unat (ti_len t)"
      using plain_seg_end [OF assms(2)] seg_holds_win [OF x] TCP_SEQ_GT_rank [of b] by (simp add: seg_rank_def)
    show ?thesis
    proof (cases "TCP_SEQ_GT (ti_seqno t + ucast (ti_tcplen t)) (seg_seqno x)")
      case False
      then have "t' = t" "pcb' = pcb\<lparr>pcb_ooseq := x # xs\<rparr>" using e k Cons by auto
      then show ?thesis using k Cons m(2) gt False assms(2) by simp
    next
      case True
      let ?n = "ucast (seg_seqno x - ti_seqno t) :: u16"
      obtain p s2 where p: "pbuf_realloc (ti_p t) ?n s1 = Some (p, s2)" and t': "t' = set_tcplen (t\<lparr>ti_len := ?n, ti_p := p\<rparr>)"
        and p': "pcb' = pcb\<lparr>pcb_ooseq := x # xs\<rparr>"
        using e k Cons True fl by (auto simp: bind_Some_iff Let_def)
      have b: "ti_seqno t = b" using assms(2) by (simp add: plain_seg_def)
      have n: "unat ?n = seg_rank b x"
        using unat_ucast_diff [of b b "seg_seqno x"] gt True u16_bound [of "ti_len t"] b by (simp add: seg_rank_def)
      have "plain_seg f b t'" unfolding t' by (rule plain_seg_cut [OF p assms(2)]) (use n gt True in simp)
      moreover have "ti_len t' = ?n" "ti_recv_data t' = ti_recv_data t" by (simp_all add: t' set_tcplen_def)
      moreover have "stream_end b (seg_rank b x) (x # xs) = stream_end b (unat (ti_len t)) (x # xs)"
        using k Cons gt True by (simp add: max_absorb2)
      ultimately show ?thesis using p' k Cons m(2) n by simp
    qed
  qed
qed

section \<open>What tcp_receive does with data\<close>

lemma tcp_output_alloc_header_rcv:
  assumes "tcp_output_alloc_header env pcb optlen datalen seqno s = Some (p, h, pcb1, s1)"
  shows "pcb_rcv_nxt pcb1 = pcb_rcv_nxt pcb \<and> pcb_rcv_wnd pcb1 = pcb_rcv_wnd pcb \<and> pcb_ooseq pcb1 = pcb_ooseq pcb"
proof -
  obtain q s2 where "pbuf_alloc env PBUF_IP (TCP_HLEN + optlen + datalen) PBUF_RAM s = Some (q, s2)"
    using assms by (auto simp: tcp_output_alloc_header_def bind_Some_iff)
  then show ?thesis
    using assms by (cases q) (auto simp: tcp_output_alloc_header_def Let_def bind_Some_iff)
qed

lemma tcp_send_empty_ack_rcv:
  assumes "tcp_send_empty_ack env pcb s = Some (err, pcb', s')"
  shows "pcb_rcv_nxt pcb' = pcb_rcv_nxt pcb" and "pcb_rcv_wnd pcb' = pcb_rcv_wnd pcb" and "pcb_ooseq pcb' = pcb_ooseq pcb"
proof -
  obtain p h pcb1 s1 where a: "tcp_output_alloc_header env pcb 0 0 (pcb_snd_nxt pcb) s = Some (p, h, pcb1, s1)"
    using assms by (auto simp: tcp_send_empty_ack_def bind_Some_iff)
  then have "\<exists>f. pcb' = pcb1\<lparr>pcb_flags := f\<rparr>"
    using assms unfolding tcp_send_empty_ack_def Let_def set_flag_def clear_flag_def
    by (cases "p = []") (simp add: a, blast, simp add: a case_prod_beta bind_Some_iff split: if_split_asm, blast+)
  then obtain f where "pcb' = pcb1\<lparr>pcb_flags := f\<rparr>" ..
  then show "pcb_rcv_nxt pcb' = pcb_rcv_nxt pcb" "pcb_rcv_wnd pcb' = pcb_rcv_wnd pcb" "pcb_ooseq pcb' = pcb_ooseq pcb"
    using tcp_output_alloc_header_rcv [OF a] by simp_all
qed

lemma in_window_fresh:
  assumes "in_rcv_window (ti_seqno t) pcb" and "ti_seqno t \<noteq> pcb_rcv_nxt pcb" and "0 < pcb_rcv_wnd pcb"
    and "seg_holds f (pcb_rcv_nxt pcb) (inseg t)" and "th_seqno (ti_hdr t) = ti_seqno t" and "unat (ti_tcplen t) \<le> unat (ti_len t) + 1"
  shows "fresh_seg f (pcb_rcv_nxt pcb) (pcb_rcv_nxt pcb + ucast (pcb_rcv_wnd pcb)) t"
proof -
  let ?b = "pcb_rcv_nxt pcb"
  let ?w = "pcb_rcv_wnd pcb"
  have h: "seg_holds f ?b (inseg t)" by (rule assms(4))
  have s: "seg_seqno (inseg t) = ti_seqno t" "sg_len (inseg t) = ti_len t" using assms(5) by (simp_all add: inseg_def)
  have win: "seq_win ?b (ti_seqno t)" using seg_holds_win [OF h] s by simp
  have edge: "seq_rank ?b (?b + ucast ?w) = unat ?w" "seq_win ?b (?b + ucast ?w)"
    using seq_rank_add [of ?b ?b "ucast ?w"] u16_bound [of ?w] by simp_all
  have w1: "0 < unat ?w" using assms(3) by (simp add: word_less_nat_alt)
  have u: "unat (?w - 1) = unat ?w - 1" using unat_sub [of 1 ?w] w1 by (simp add: word_le_nat_alt)
  have "?b + ucast ?w - 1 = ?b + ucast (?w - 1)"
  proof -
    have "(ucast ?w - 1 :: u32) = ucast (?w - 1)"
      using u w1 unat_sub [of 1 "ucast ?w :: u32"] by (simp add: word_unat_eq_iff word_le_nat_alt)
    then show ?thesis by (metis add_diff_eq)
  qed
  moreover have "seq_rank ?b (?b + ucast (?w - 1)) = unat (?w - 1)" "seq_win ?b (?b + ucast (?w - 1))"
    using seq_rank_add [of ?b ?b "ucast (?w - 1)"] u16_bound [of "?w - 1"] by simp_all
  ultimately have top: "?b + ucast ?w - 1 = ?b + ucast (?w - 1)" "seq_rank ?b (?b + ucast (?w - 1)) = unat ?w - 1"
    "seq_win ?b (?b + ucast (?w - 1))"
    by (simp_all add: u)
  have "TCP_SEQ_LEQ (ti_seqno t) (?b + ucast (?w - 1))"
    using assms(1) unfolding in_rcv_window_def TCP_SEQ_BETWEEN_def top(1) by blast
  then have "seq_rank ?b (ti_seqno t) \<le> unat ?w - 1"
    using TCP_SEQ_LEQ_rank [OF win top(3)] top(2) by simp
  then have r: "seq_rank ?b (ti_seqno t) < unat ?w" using w1 by linarith
  have "0 < seq_rank ?b (ti_seqno t)" using assms(2) seq_rank_eq_iff [of ?b "ti_seqno t" ?b] by simp
  moreover have "unat (ti_tcplen t) < 65536" by (rule u16_bound)
  moreover have "unat ?w < 65536" by (rule u16_bound)
  ultimately show ?thesis using h assms(5,6) r edge by (simp add: fresh_seg_def)
qed

text \<open>
  C8: Reassembly keeps the stream. Let \<open>f i\<close> be the byte \<open>i\<close> places behind \<open>rcv_nxt\<close>, let the queue of
  out-of-sequence segments be in order, without overlap, every segment holding its part of \<open>f\<close> (\<open>oos_ok\<close>), and let a
  segment arrive that lies in the window and holds its own part of \<open>f\<close>. Then the queue that
  \<open>tcp_receive\<close> leaves is again in order, without overlap, and every segment holds its part
  of \<open>f\<close>: whatever is inserted, replaced or trimmed on either side, no byte is damaged, moved or
  duplicated. This covers all cases of the walk, running out of memory for the copy, the cut at the edge of the window, FIN flags and wrapped sequence numbers.
\<close>

theorem out_of_sequence_keeps_stream:
  assumes "receive_out_of_sequence env t pcb s = Some (t', pcb', s')" and "oos_ok f (pcb_rcv_nxt pcb) 1 (pcb_ooseq pcb)"
    and "in_rcv_window (ti_seqno t) pcb" and "ti_seqno t \<noteq> pcb_rcv_nxt pcb" and "0 < pcb_rcv_wnd pcb"
    and "seg_holds f (pcb_rcv_nxt pcb) (inseg t)" and "th_seqno (ti_hdr t) = ti_seqno t" and "unat (ti_tcplen t) \<le> unat (ti_len t) + 1"
  shows "oos_ok f (pcb_rcv_nxt pcb') 1 (pcb_ooseq pcb') \<and> pcb_rcv_nxt pcb' = pcb_rcv_nxt pcb \<and> pcb_rcv_wnd pcb' = pcb_rcv_wnd pcb"
proof -
  let ?b = "pcb_rcv_nxt pcb"
  note fr = in_window_fresh [OF assms(3-8)]
  obtain e p1 s1 where a: "tcp_send_empty_ack env pcb s = Some (e, p1, s1)"
    using assms(1) by (auto simp: receive_out_of_sequence_def bind_Some_iff)
  note k = tcp_send_empty_ack_rcv [OF a]
  note e = assms(1) [unfolded receive_out_of_sequence_def a Option.bind.bind_lunit prod.case k]
  have r: "1 \<le> seq_rank ?b (ti_seqno t)" using fr by (simp add: fresh_seg_def)
  show ?thesis
  proof (cases "pcb_ooseq pcb = []")
    case True
    obtain co s2 where cp: "tcp_seg_copy (inseg t) s1 = (co, s2)" by fastforce
    show ?thesis
    proof (cases co)
      case None
      then have "pcb' = p1" using e True cp by simp
      then show ?thesis using k True by simp
    next
      case (Some c)
      then have "pcb' = p1\<lparr>pcb_ooseq := [c]\<rparr>" using e True cp by simp
      then show ?thesis
        using k tcp_seg_copy_holds [OF cp [unfolded Some]] assms(6) r fresh_seg_rank [OF fr] by (simp add: seg_rank_def)
    qed
  next
    case False
    then obtain q s2 where w: "oos_walk t (?b + ucast (pcb_rcv_wnd pcb)) [] (pcb_ooseq pcb) s1 = Some (q, t', s2)"
      and p': "pcb' = p1\<lparr>pcb_ooseq := q\<rparr>"
      using e by (auto simp: bind_Some_iff)
    have "oos_ok f ?b 1 q" by (rule oos_walk_spec [OF w _ fr]) (use assms(2) r in simp_all)
    then show ?thesis using p' k by simp
  qed
qed

lemma seq_shift: "pcb_rcv_nxt pcb' = b + of_nat m \<Longrightarrow> m < 65536 \<Longrightarrow> unat (pcb_rcv_nxt pcb' - b) = m"
  by (simp add: unat_of_nat)

text \<open>
  C1: Data in sequence is delivered as one piece of the stream, all of it that is there. Let \<open>f i\<close> be the byte \<open>i\<close> places behind
  \<open>rcv_nxt\<close>, let a segment begin at \<open>rcv_nxt\<close> and hold its part of \<open>f\<close>, and the queue of out-of-sequence
  segments theirs, none with SYN or FIN. When \<open>tcp_receive\<close> has processed the segment, the data for the
  application is exactly the bytes \<open>f 0 .. f (n - 1)\<close>, where \<open>n\<close>, the advance of \<open>rcv_nxt\<close>, is the end of what is there without a gap
  (\<open>stream_end\<close>): the segment as far as the window reaches, which is delivered in any case, and every queued segment that it makes contiguous. The
  window shrinks by \<open>n\<close>, and what remains queued lies strictly behind the new \<open>rcv_nxt\<close>, in order, holding its
  part of the stream.
\<close>

theorem in_sequence_delivers_stream:
  assumes "receive_in_sequence t pcb s = Some (t', pcb', s')" and "ti_seqno t = pcb_rcv_nxt pcb" and "th_seqno (ti_hdr t) = ti_seqno t"
    and "seg_holds f (pcb_rcv_nxt pcb) (inseg t)" and "plain (ti_hdr t)" and "ti_recv_data t = []"
    and "oos_ok f (pcb_rcv_nxt pcb) 1 (pcb_ooseq pcb)" and "list_all (\<lambda>seg. plain (sg_hdr seg)) (pcb_ooseq pcb)"
  shows "\<exists>n. n = stream_end (pcb_rcv_nxt pcb) (min (unat (ti_len t)) (unat (pcb_rcv_wnd pcb))) (pcb_ooseq pcb) \<and>
    min (unat (ti_len t)) (unat (pcb_rcv_wnd pcb)) \<le> n \<and>
    pcb_rcv_nxt pcb' = pcb_rcv_nxt pcb + of_nat n \<and> n \<le> unat (pcb_rcv_wnd pcb) \<and>
    unat (pcb_rcv_wnd pcb') = unat (pcb_rcv_wnd pcb) - n \<and>
    chain_ok (ti_recv_data t') \<and> chain_bytes (ti_recv_data t') = map f [0 ..< n] \<and>
    oos_ok (\<lambda>i. f (n + i)) (pcb_rcv_nxt pcb') 1 (pcb_ooseq pcb')"
proof -
  let ?b = "pcb_rcv_nxt pcb"
  have ps: "plain_seg f ?b (set_tcplen t)"
    using assms(2-5) by (simp add: plain_seg_def set_tcplen_plain)
  obtain t1 s1 t2 pcb1 s2 pcb2 where tr: "receive_trim_right (set_tcplen t) pcb s = Some (t1, s1)"
    and ad: "receive_adjust_ooseq t1 pcb s1 = Some (t2, pcb1, s2)"
    and adv: "receive_advance (ti_seqno t2 + ucast (ti_tcplen t2)) (ucast (ti_tcplen t2)) pcb1 = Some pcb2"
    using assms(1) by (auto simp: receive_in_sequence_def bind_Some_iff)
  note k1 = receive_trim_right_plain [OF tr ps]
  note k2 = receive_adjust_plain [OF ad conjunct1 [OF k1] assms(7,8)]
  have t2: "ti_seqno t2 = ?b" "ti_tcplen t2 = ti_len t2" "seg_holds f ?b (inseg t2)" "plain (ti_hdr t2)" "th_seqno (ti_hdr t2) = ?b"
    using k2 by (simp_all add: plain_seg_def)
  have rd0: "ti_recv_data t2 = []" using k1 k2 assms(6) by (simp add: set_tcplen_def)
  note a = receive_advance_spec [OF adv]
  define l where "l = unat (ti_len t2)"
  define t3 where "t3 = (if 0 < pb_tot_len (hd (ti_p t2)) then t2\<lparr>ti_recv_data := ti_p t2, ti_p := []\<rparr> else t2)"
  define s3 where "s3 = (if inseg_flag TCP_FIN t3 then got_fin s2 else s2)"
  obtain pcb3 where dv: "ooseq_deliver (pcb_ooseq pcb2) t3 pcb2 s3 = Some (t', pcb3, s')" and p': "pcb' = tcp_ack pcb3"
    using assms(1) tr ad adv by (auto simp: receive_in_sequence_def bind_Some_iff t3_def s3_def Let_def simp del: if_split)
  have hp: "chain_ok (ti_p t2)" "ti_p t2 \<noteq> []" "chain_bytes (ti_p t2) = map f [0 ..< l]"
    using t2(3,5) by (simp_all add: seg_holds_def inseg_def seg_rank_def l_def)
  have tot: "unat (pb_tot_len (hd (ti_p t2))) = l"
    using chain_ok_tot [OF hp(1,2)] arg_cong [OF hp(3), of length] hp(1) by simp
  have rd: "chain_ok (ti_recv_data t3) \<and> chain_bytes (ti_recv_data t3) = map f [0 ..< l]"
  proof (cases "l = 0")
    case True
    then have "\<not> 0 < pb_tot_len (hd (ti_p t2))" using tot by (simp add: word_less_nat_alt)
    then show ?thesis using True rd0 by (simp add: t3_def)
  next
    case False
    then have "0 < pb_tot_len (hd (ti_p t2))" using tot by (simp add: word_less_nat_alt)
    then show ?thesis using hp by (simp add: t3_def)
  qed
  have w1: "pcb_rcv_wnd pcb1 = pcb_rcv_wnd pcb" by (subst k2 [THEN conjunct2, THEN conjunct2, THEN conjunct1]) simp
  have "delivered f ?b (unat (pcb_rcv_wnd pcb)) l (ti_recv_data t3) pcb2"
    using rd a(1-3) t2(1,2) w1 of_nat_add_ucast [of ?b 0 "ti_len t2"] u16_bound [of "pcb_rcv_wnd pcb"]
    by (simp add: delivered_def l_def)
  moreover have "oos_ok f ?b l (pcb_ooseq pcb2)" "list_all (\<lambda>seg. plain (sg_hdr seg)) (pcb_ooseq pcb2)"
    using k2 a(4) by (simp_all add: l_def)
  moreover define m where "m = stream_end ?b l (pcb_ooseq pcb2)"
  ultimately have m: "delivered f ?b (unat (pcb_rcv_wnd pcb)) m (ti_recv_data t') pcb3" "oos_ok f ?b (m + 1) (pcb_ooseq pcb3)"
    using ooseq_deliver_spec [OF dv refl] by blast+
  have len: "unat (ti_len t1) = min (unat (ti_len t)) (unat (pcb_rcv_wnd pcb))" using k1 by (simp add: set_tcplen_def)
  have n: "m = stream_end ?b (min (unat (ti_len t)) (unat (pcb_rcv_wnd pcb))) (pcb_ooseq pcb)"
    using k2 a(4) unfolding m_def l_def len [symmetric] by simp
  have ack: "pcb_rcv_nxt pcb' = pcb_rcv_nxt pcb3" "pcb_rcv_wnd pcb' = pcb_rcv_wnd pcb3" "pcb_ooseq pcb' = pcb_ooseq pcb3"
    by (simp_all add: p' tcp_ack_def set_flag_def clear_flag_def)
  have lim: "m \<le> unat (pcb_rcv_wnd pcb)" "m < 4294967296" using m(1) by (simp_all add: delivered_def)
  have "oos_ok (\<lambda>i. f (m + i)) (?b + of_nat m) (m + 1 - m) (pcb_ooseq pcb3)"
    by (rule oos_ok_shift [OF m(2) _ lim(2)]) simp
  then show ?thesis using m(1) ack lim n stream_end_ge by (intro exI [of _ m]) (auto simp: delivered_def)
qed

section \<open>The properties at concrete values\<close>

lemmas ex_tin_defs = ex_tin_def ex_defs inseg_def seg_holds_def seg_rank_def seq_rank_def pb_ok_def pb_bytes_def

text \<open>The bytes of the stream behind \<open>rcv_nxt\<close>: the byte at place \<open>i\<close> is \<open>i\<close>.\<close>

definition ex_byte :: "nat \<Rightarrow> u8" where "ex_byte i = of_nat i"

text \<open>A connection that has the bytes at places 4 and 5 queued.\<close>

definition ex_oos :: tcp_pcb where
  "ex_oos = ex_pcb\<lparr>pcb_ooseq := [inseg (ex_tin 504 1003 TCP_ACK [4, 5])]\<rparr>"

lemma ex_oos_ok:
  "oos_ok ex_byte (pcb_rcv_nxt ex_oos) 1 (pcb_ooseq ex_oos)" "list_all (\<lambda>seg. plain (sg_hdr seg)) (pcb_ooseq ex_oos)"
  by (simp_all add: ex_oos_def ex_byte_def ex_tin_defs upt_rec, code_simp)

lemma ex_gap:
  "case receive_out_of_sequence ex_env (ex_tin 502 1003 TCP_ACK [2, 3, 4]) ex_oos ex_sys of None \<Rightarrow> False
   | Some (t, p, s) \<Rightarrow> map (\<lambda>seg. (seg_seqno seg, sg_len seg)) (pcb_ooseq p) = [(502, 2), (504, 2)]"
  "in_rcv_window (ti_seqno (ex_tin 502 1003 TCP_ACK [2, 3, 4])) ex_oos"
  "ti_seqno (ex_tin 502 1003 TCP_ACK [2, 3, 4]) \<noteq> pcb_rcv_nxt ex_oos" "0 < pcb_rcv_wnd ex_oos"
  "th_seqno (ti_hdr (ex_tin 502 1003 TCP_ACK [2, 3, 4])) = ti_seqno (ex_tin 502 1003 TCP_ACK [2, 3, 4])"
  "unat (ti_tcplen (ex_tin 502 1003 TCP_ACK [2, 3, 4])) \<le> unat (ti_len (ex_tin 502 1003 TCP_ACK [2, 3, 4])) + 1"
  by code_simp+

lemma ex_gap_holds: "seg_holds ex_byte (pcb_rcv_nxt ex_oos) (inseg (ex_tin 502 1003 TCP_ACK [2, 3, 4]))"
  by (simp add: ex_oos_def ex_byte_def ex_tin_defs upt_rec)

theorem out_of_sequence_keeps_stream_witness:
  "\<exists>t p s. receive_out_of_sequence ex_env (ex_tin 502 1003 TCP_ACK [2, 3, 4]) ex_oos ex_sys = Some (t, p, s) \<and>
     oos_ok ex_byte 500 1 (pcb_ooseq p)"
proof -
  obtain t p s where r: "receive_out_of_sequence ex_env (ex_tin 502 1003 TCP_ACK [2, 3, 4]) ex_oos ex_sys = Some (t, p, s)"
    using ex_gap(1) by (auto split: option.splits)
  have n: "pcb_rcv_nxt ex_oos = 500" by (simp add: ex_oos_def ex_defs)
  show ?thesis
    using out_of_sequence_keeps_stream [OF r ex_oos_ok(1) ex_gap(2-4) ex_gap_holds ex_gap(5,6)] r n by metis
qed

lemma ex_next:
  "case receive_in_sequence (ex_tin 500 1003 TCP_ACK [0, 1, 2, 3]) ex_oos ex_lw of None \<Rightarrow> False
   | Some (t, p, s) \<Rightarrow> pcb_rcv_nxt p = 506"
  "ti_seqno (ex_tin 500 1003 TCP_ACK [0, 1, 2, 3]) = pcb_rcv_nxt ex_oos"
  "th_seqno (ti_hdr (ex_tin 500 1003 TCP_ACK [0, 1, 2, 3])) = ti_seqno (ex_tin 500 1003 TCP_ACK [0, 1, 2, 3])"
  "plain (ti_hdr (ex_tin 500 1003 TCP_ACK [0, 1, 2, 3]))" "ti_recv_data (ex_tin 500 1003 TCP_ACK [0, 1, 2, 3]) = []"
  by code_simp+

lemma ex_next_holds: "seg_holds ex_byte (pcb_rcv_nxt ex_oos) (inseg (ex_tin 500 1003 TCP_ACK [0, 1, 2, 3]))"
  by (simp add: ex_oos_def ex_byte_def ex_tin_defs upt_rec)

theorem in_sequence_delivers_stream_witness:
  "\<exists>t p s n. receive_in_sequence (ex_tin 500 1003 TCP_ACK [0, 1, 2, 3]) ex_oos ex_lw = Some (t, p, s) \<and>
     pcb_rcv_nxt p = 506 \<and> 506 = 500 + (of_nat n :: u32) \<and> chain_bytes (ti_recv_data t) = map ex_byte [0 ..< n]"
proof -
  obtain t p s where r: "receive_in_sequence (ex_tin 500 1003 TCP_ACK [0, 1, 2, 3]) ex_oos ex_lw = Some (t, p, s)"
    and e: "pcb_rcv_nxt p = 506"
    using ex_next(1) by (auto split: option.splits)
  have n: "pcb_rcv_nxt ex_oos = 500" by (simp add: ex_oos_def ex_defs)
  show ?thesis
    using in_sequence_delivers_stream [OF r ex_next(2,3) ex_next_holds ex_next(4,5) ex_oos_ok] r e n by metis
qed

end
