(* ===== verification/Tcp_Frame.thy ===== *)
theory Tcp_Frame
  imports Tcp_Queue
begin

text \<open>
  What the operations on a control block leave alone: its identity, and the part of the state of the
  stack that holds the control blocks and their lists.
\<close>

definition conn_frame :: "tcp_pcb \<Rightarrow> tcp_pcb \<Rightarrow> bool" where
  "conn_frame p p' \<longleftrightarrow> pcb_addr p' = pcb_addr p \<and> pcb_state p' = pcb_state p \<and> pcb_local_port p' = pcb_local_port p \<and>
     pcb_connid1 p' = pcb_connid1 p \<and> pcb_connid2 p' = pcb_connid2 p \<and> pcb_prio p' = pcb_prio p \<and>
     pcb_errf p' = pcb_errf p \<and> pcb_callback_arg p' = pcb_callback_arg p"

lemma conn_frame_refl [simp]: "conn_frame p p"
  by (simp add: conn_frame_def)

lemma conn_frame_trans: "conn_frame p q \<Longrightarrow> conn_frame q r \<Longrightarrow> conn_frame p r"
  by (simp add: conn_frame_def)

definition sys_frame :: "'a sys_scheme \<Rightarrow> 'a sys_scheme \<Rightarrow> bool" where
  "sys_frame s s' \<longleftrightarrow> sys.more s' = sys.more s \<and> sy_input_pcb s' = sy_input_pcb s \<and> sy_ticks s' = sy_ticks s \<and>
     memp_tab s' MEMP_TCP_PCB = memp_tab s MEMP_TCP_PCB \<and> memp_tab s' MEMP_TCP_PCB_LISTEN = memp_tab s MEMP_TCP_PCB_LISTEN"

lemma sys_frame_refl [simp]: "sys_frame s s"
  by (simp add: sys_frame_def)

lemma sys_frame_trans: "sys_frame s s1 \<Longrightarrow> sys_frame s1 s2 \<Longrightarrow> sys_frame s s2"
  by (simp add: sys_frame_def)

lemma mem_sys_frame: "mem_frame s s' \<Longrightarrow> sys_frame s s'"
  by (simp add: sys_frame_def mem_frame_sys [of s s']) (simp add: mem_frame_def)

lemma ip_output_if_frame: "ip_output_if env p ip port s = (err, s') \<Longrightarrow> sys_frame s s'"
  by (auto simp: ip_output_if_def sys_frame_def)

lemma ip_output_if_snd [simp]: "sys_frame s (snd (ip_output_if env p ip port s')) = sys_frame s s'"
  by (simp add: ip_output_if_def sys_frame_def Let_def)

lemma ip_output_if_fst [simp]: "sys_frame (snd (ip_output_if env p ip port s)) s' = sys_frame s s'"
  by (simp add: ip_output_if_def sys_frame_def Let_def)

lemma tcp_stats_inc_frame [simp]: "sys_frame s (tcp_stats_inc f s)" "sys_frame (tcp_stats_inc f s) s' = sys_frame s s'"
  by (simp_all add: tcp_stats_inc_def sys_frame_def)

lemma tcp_output_segment_frame:
  "tcp_output_segment env seg pcb s = Some (err, seg', pcb', s') \<Longrightarrow> conn_frame pcb pcb' \<and> sys_frame s s'"
  by (auto simp: tcp_output_segment_def Let_def conn_frame_def bind_Some_iff split: list.splits if_splits prod.splits
      dest!: ip_output_if_frame)

lemma conn_frame_upd [simp]:
  "conn_frame p (set_flag f q) = conn_frame p q" "conn_frame p (clear_flag f q) = conn_frame p q"
  "conn_frame (set_flag f p) q = conn_frame p q" "conn_frame (clear_flag f p) q = conn_frame p q"
  "conn_frame p (q\<lparr>pcb_unsent := x0\<rparr>) = conn_frame p q" "conn_frame (p\<lparr>pcb_unsent := x0\<rparr>) q = conn_frame p q"
  "conn_frame p (q\<lparr>pcb_unacked := x1\<rparr>) = conn_frame p q" "conn_frame (p\<lparr>pcb_unacked := x1\<rparr>) q = conn_frame p q"
  "conn_frame p (q\<lparr>pcb_snd_nxt := x2\<rparr>) = conn_frame p q" "conn_frame (p\<lparr>pcb_snd_nxt := x2\<rparr>) q = conn_frame p q"
  "conn_frame p (q\<lparr>pcb_unsent_oversize := x3\<rparr>) = conn_frame p q" "conn_frame (p\<lparr>pcb_unsent_oversize := x3\<rparr>) q = conn_frame p q"
  "conn_frame p (q\<lparr>pcb_snd_lbb := x4\<rparr>) = conn_frame p q" "conn_frame (p\<lparr>pcb_snd_lbb := x4\<rparr>) q = conn_frame p q"
  "conn_frame p (q\<lparr>pcb_snd_buf := x5\<rparr>) = conn_frame p q" "conn_frame (p\<lparr>pcb_snd_buf := x5\<rparr>) q = conn_frame p q"
  "conn_frame p (q\<lparr>pcb_snd_queuelen := x6\<rparr>) = conn_frame p q" "conn_frame (p\<lparr>pcb_snd_queuelen := x6\<rparr>) q = conn_frame p q"
  "conn_frame p (q\<lparr>pcb_rcv_ann_right_edge := x7\<rparr>) = conn_frame p q" "conn_frame (p\<lparr>pcb_rcv_ann_right_edge := x7\<rparr>) q = conn_frame p q"
  "conn_frame p (q\<lparr>pcb_refused_data := x8\<rparr>) = conn_frame p q" "conn_frame (p\<lparr>pcb_refused_data := x8\<rparr>) q = conn_frame p q"
  "conn_frame p (q\<lparr>pcb_ooseq := x9\<rparr>) = conn_frame p q" "conn_frame (p\<lparr>pcb_ooseq := x9\<rparr>) q = conn_frame p q"
  "conn_frame p (q\<lparr>pcb_rtime := x10\<rparr>) = conn_frame p q" "conn_frame (p\<lparr>pcb_rtime := x10\<rparr>) q = conn_frame p q"
  "conn_frame p (q\<lparr>pcb_nrtx := x11\<rparr>) = conn_frame p q" "conn_frame (p\<lparr>pcb_nrtx := x11\<rparr>) q = conn_frame p q"
  "conn_frame p (q\<lparr>pcb_rttest := x12\<rparr>) = conn_frame p q" "conn_frame (p\<lparr>pcb_rttest := x12\<rparr>) q = conn_frame p q"
  "conn_frame p (q\<lparr>pcb_rcv_nxt := x13\<rparr>) = conn_frame p q" "conn_frame (p\<lparr>pcb_rcv_nxt := x13\<rparr>) q = conn_frame p q"
  "conn_frame p (q\<lparr>pcb_rcv_wnd := x14\<rparr>) = conn_frame p q" "conn_frame (p\<lparr>pcb_rcv_wnd := x14\<rparr>) q = conn_frame p q"
  "conn_frame p (q\<lparr>pcb_rcv_ann_wnd := x15\<rparr>) = conn_frame p q" "conn_frame (p\<lparr>pcb_rcv_ann_wnd := x15\<rparr>) q = conn_frame p q"
  by (simp_all add: conn_frame_def set_flag_def clear_flag_def)

lemma tcp_output_loop_frame:
  assumes "tcp_output_loop env wnd q pcb s = Some (err, pcb', s')"
  shows "conn_frame pcb pcb' \<and> sys_frame s s'"
  using assms
proof (induction q arbitrary: pcb s)
  case (Cons seg rest)
  show ?case
    using Cons.prems
    by (auto simp: Let_def bind_Some_iff split: if_split_asm
      dest!: tcp_output_segment_frame Cons.IH tcp_seg_free_frame mem_sys_frame
      intro: conn_frame_trans sys_frame_trans)
qed auto

lemma tcp_send_empty_ack_frame:
  assumes "tcp_send_empty_ack env pcb s = Some (err, pcb', s')"
  shows "conn_frame pcb pcb' \<and> sys_frame s s'"
  using assms
  by (auto simp: tcp_send_empty_ack_def tcp_output_alloc_header_def Let_def bind_Some_iff split: if_split_asm list.split_asm prod.split_asm
      dest!: pbuf_alloc_frame ip_output_if_frame pbuf_free_frame mem_sys_frame intro: conn_frame_trans sys_frame_trans)


lemmas frame_dests = pbuf_alloc_frame [THEN mem_sys_frame] pbuf_free_frame [THEN mem_sys_frame]
  tcp_seg_free_frame [THEN mem_sys_frame] tcp_segs_free_frame [THEN mem_sys_frame]
  memp_malloc_frame [THEN mem_sys_frame] ip_output_if_frame

lemma tcp_output_frame:
  assumes "tcp_output env pcb s = Some (err, pcb', s')"
  shows "conn_frame pcb pcb' \<and> sys_frame s s'"
  using assms
  by (auto simp: tcp_output_def Let_def bind_Some_iff split: if_split_asm
      dest!: tcp_output_loop_frame tcp_send_empty_ack_frame intro: conn_frame_trans sys_frame_trans)

lemma tcp_rst_frame:
  assumes "tcp_rst env seqno ackno ip cid port s = Some s'"
  shows "sys_frame s s'"
  using assms
  by (auto simp: tcp_rst_def Let_def bind_Some_iff list_case_if case_prod_beta split: if_split_asm
      dest!: frame_dests intro: sys_frame_trans)

lemma tcp_create_segment_frame:
  assumes "tcp_create_segment pcb p flags seqno optflags s = Some (sego, s')"
  shows "sys_frame s s'"
  using assms
  by (auto simp: tcp_create_segment_def Let_def bind_Some_iff list_case_if split: prod.split_asm option.split_asm if_split_asm
      dest!: frame_dests intro: sys_frame_trans)

lemma tcp_enqueue_flags_frame:
  assumes "tcp_enqueue_flags env pcb flags s = Some (err, pcb', s')"
  shows "conn_frame pcb pcb' \<and> sys_frame s s'"
  using assms
  by (auto simp: tcp_enqueue_flags_def Let_def bind_Some_iff split: prod.split_asm option.split_asm if_split_asm
      dest!: frame_dests tcp_create_segment_frame intro: sys_frame_trans)

lemma tcp_send_fin_frame:
  assumes "tcp_send_fin env pcb s = Some (err, pcb', s')"
  shows "conn_frame pcb pcb' \<and> sys_frame s s'"
  using assms by (auto simp: tcp_send_fin_def dest!: tcp_enqueue_flags_frame split: if_split_asm)

lemma tcp_pcb_purge_frame:
  assumes "tcp_pcb_purge pcb s = Some (pcb', s')"
  shows "conn_frame pcb pcb' \<and> sys_frame s s'"
  using assms
  by (auto simp: tcp_pcb_purge_def bind_Some_iff split: if_split_asm dest!: frame_dests intro: sys_frame_trans)

lemma tcp_rexmit_rto_frame:
  assumes "tcp_rexmit_rto env pcb s = Some (pcb', s')"
  shows "conn_frame pcb pcb' \<and> sys_frame s s'"
  using assms
  by (auto simp: tcp_rexmit_rto_def rexmit_rto_queues_def Let_def bind_Some_iff split: if_split_asm dest!: tcp_output_frame)

lemma sys_frame_lw:
  assumes "sys_frame s (s' :: lw)"
  shows "lw_pcbs s' = lw_pcbs s" and "lw_lpcbs s' = lw_lpcbs s" and "lw_lists s' = lw_lists s" and "lw_port s' = lw_port s"
    and "lw_iss s' = lw_iss s" and "lw_server_id s' = lw_server_id s" and "lw_recv_flags s' = lw_recv_flags s"
    and "lw_active_changed s' = lw_active_changed s" and "sy_input_pcb s' = sy_input_pcb s"
    and "memp_tab s' MEMP_TCP_PCB = memp_tab s MEMP_TCP_PCB" and "memp_tab s' MEMP_TCP_PCB_LISTEN = memp_tab s MEMP_TCP_PCB_LISTEN"
  using assms by (cases s; cases s'; simp add: sys_frame_def)+

section \<open>Writing and reading\<close>

lemma tcp_pbuf_prealloc_frame:
  "tcp_pbuf_prealloc env layer len mx ov pcb fl first s = Some (p, ov', s') \<Longrightarrow> sys_frame s s'"
  by (auto simp: tcp_pbuf_prealloc_def Let_def bind_Some_iff list_case_if split: if_split_asm dest!: frame_dests)

lemma write_seg_pbuf_frame:
  "write_seg_pbuf env pcb arg fl m seglen w s = Some (p, ov, s') \<Longrightarrow> sys_frame s s'"
  by (auto simp: write_seg_pbuf_def Let_def bind_Some_iff list_case_if split: if_split_asm
      dest!: tcp_pbuf_prealloc_frame frame_dests intro: sys_frame_trans)

lemma write_phase3_frame:
  assumes "write_phase3 env pcb arg len fl mss_local w s = Some (b, w', s')"
  shows "sys_frame s s'"
proof -
  have "(\<lambda>(b, w', s'). sys_frame s s') (b, w', s')"
  proof (rule write_phase3.raw_induct [of "\<lambda>env pcb arg len fl mss_local w s y. (\<lambda>(b, w', s'). sys_frame s s') y", OF _ assms], goal_cases)
    case (1 f env pcb arg len fl mss_local w s y)
    note ih = "1"(1) and e = "1"(2)
    show ?case
    proof (cases "w_pos w < len")
      case False
      then show ?thesis using e by auto
    next
      case True
      define seglen where "seglen = (if mss_local < len - w_pos w then mss_local else len - w_pos w)"
      obtain p ov s1 where p: "write_seg_pbuf env pcb arg fl mss_local seglen w s = Some (p, ov, s1)"
        using e True by (auto simp: seglen_def [symmetric] Let_def bind_Some_iff)
      note f1 = write_seg_pbuf_frame [OF p]
      show ?thesis
        using e True p f1
        by (auto simp: seglen_def [symmetric] Let_def bind_Some_iff split: if_split_asm option.split_asm
            dest!: frame_dests tcp_create_segment_frame ih intro: sys_frame_trans) (blast intro: sys_frame_trans)+
    qed
  qed
  then show ?thesis by simp
qed


lemma conn_frame_self:
  "conn_frame p (p\<lparr>pcb_unsent_oversize := ov, pcb_unsent := u, pcb_snd_lbb := n, pcb_snd_buf := b, pcb_snd_queuelen := l\<rparr>)"
  by simp

lemma write_commit_frame: "write_commit pcb arg len fl w = Some pcb' \<Longrightarrow> conn_frame pcb pcb'"
  unfolding write_commit_def Let_def bind_Some_iff by (elim exE conjE) (simp split: if_split_asm; hypsubst; simp)

lemma write_phase2_frame:
  "write_phase2 env pcb arg len fl l space w s = Some (b, w', s') \<Longrightarrow> sys_frame s s'"
  by (auto simp: write_phase2_def Let_def bind_Some_iff list_case_if split: if_split_asm
      dest!: tcp_pbuf_prealloc_frame frame_dests)

lemma write_memerr_frame: "write_memerr pcb w s = Some (err, pcb', s') \<Longrightarrow> conn_frame pcb pcb' \<and> sys_frame s s'"
  by (auto simp: write_memerr_def Let_def bind_Some_iff split: if_split_asm option.split_asm
      dest!: frame_dests intro: sys_frame_trans)

lemma tcp_write_frame:
  assumes "tcp_write env pcb arg len fl s = Some (err, pcb', s')"
  shows "conn_frame pcb pcb' \<and> sys_frame s s'"
proof -
  obtain bs e1 p1 s1 where arg: "arg = Some bs" and k: "tcp_write_checks pcb len s = Some (e1, p1, s1)"
    using assms by (auto simp: tcp_write_def Let_def bind_Some_iff)
  have c: "conn_frame pcb p1 \<and> sys_frame s s1"
    using k by (auto simp: tcp_write_checks_def bind_Some_iff split: if_split_asm)
  show ?thesis
  proof (cases "e1 = ERR_OK")
    case False
    then show ?thesis using assms arg k c by (simp add: tcp_write_def Let_def)
  next
    case True
    let ?m = "write_mss_local pcb"
    obtain mem w s2 mem' w' s3 where
      "(if pcb_unsent p1 \<noteq> [] then do {
            let last_unsent = last (pcb_unsent p1);
            (space, w1) \<leftarrow> write_phase1 p1 len ?m last_unsent (write_start p1);
            write_phase2 env p1 bs len fl last_unsent space w1 s1
          }
          else do {
            lwip_assert (pcb_unsent_oversize p1 = 0);
            Some (False, write_start p1, s1)
          }) = Some (mem, w, s2)"
      and "(if mem then Some (True, w, s2) else write_phase3 env p1 bs len fl ?m w s2) = Some (mem', w', s3)"
      and r: "(if mem' then write_memerr p1 w' s3
       else do {
         pcb2 \<leftarrow> write_commit p1 bs len fl w';
         Some (ERR_OK, pcb2, s3)
       }) = Some (err, pcb', s')"
      using assms True k arg by (auto simp: tcp_write_def bind_Some_iff Let_def)
    then have "sys_frame s1 s3"
      by (auto simp: bind_Some_iff Let_def split: if_split_asm dest!: write_phase2_frame write_phase3_frame intro: sys_frame_trans)
    then show ?thesis
      using r c by (auto simp: bind_Some_iff split: if_split_asm dest!: write_memerr_frame write_commit_frame
          intro: conn_frame_trans sys_frame_trans)
  qed
qed

lemma tcp_recved_frame:
  assumes "tcp_recved env len pcb s = Some (u, pcb', s')"
  shows "conn_frame pcb pcb' \<and> sys_frame s s'"
  using assms
  by (auto simp: tcp_recved_def tcp_update_rcv_ann_wnd_def tcp_ack_now_def Let_def bind_Some_iff split: if_split_asm
      dest!: tcp_output_frame)

end
