(* ===== verification/Tcp_Conn.thy ===== *)
theory Tcp_Conn
  imports Tcp_Frame
begin

text \<open>
  Connection management: the choice of ports, the window that is announced, and the lists of control
  blocks, whose invariant every operation of the interface keeps.
\<close>

section \<open>Local ports\<close>

text \<open>The ports as a circle: the place of a port in the range, and the one reached after \<open>k\<close> steps.\<close>

definition port_index :: "u16 \<Rightarrow> nat" where
  "port_index p = unat p - 0xc000"

lemma port_next_index:
  assumes "0xc000 \<le> p"
  shows "0xc000 \<le> port_next p \<and> port_index (port_next p) = (port_index p + 1) mod 16384"
proof (cases "p = 0xffff")
  case True
  then show ?thesis by (simp add: port_next_def port_index_def)
next
  case False
  have "unat p < 65535" using False u16_bound [of p] by (auto simp: word_unat_eq_iff)
  then have "unat (p + 1) = unat p + 1" by (simp add: unat_word_ariths)
  then show ?thesis
    using assms False \<open>unat p < 65535\<close> by (simp add: port_next_def port_index_def word_le_nat_alt)
qed

lemma port_steps:
  assumes "0xc000 \<le> p"
  shows "0xc000 \<le> (port_next ^^ k) p \<and> port_index ((port_next ^^ k) p) = (port_index p + k) mod 16384"
proof (induction k)
  case 0
  have "port_index p < 16384" using u16_bound [of p] assms by (simp add: port_index_def word_le_nat_alt)
  then show ?case using assms by simp
next
  case (Suc k)
  then show ?case using port_next_index [of "(port_next ^^ k) p"] by (simp add: mod_Suc_eq)
qed

lemma port_reached:
  assumes "0xc000 \<le> p" and "0xc000 \<le> q"
  obtains k where "0 < k" and "k \<le> 16384" and "(port_next ^^ k) p = q"
proof -
  define i where "i = port_index p"
  define j where "j = port_index q"
  have ij: "i < 16384" "j < 16384"
    using u16_bound [of p] u16_bound [of q] assms by (simp_all add: i_def j_def port_index_def word_le_nat_alt)
  define k where "k = (if i < j then j - i else j + 16384 - i)"
  have "(i + k) mod 16384 = j" using ij by (auto simp: k_def)
  then have "port_index ((port_next ^^ k) p) = port_index q" "0xc000 \<le> (port_next ^^ k) p"
    using port_steps [OF assms(1), of k] by (simp_all add: i_def j_def)
  then have "(port_next ^^ k) p = q"
    using assms(2) by (simp add: port_index_def word_le_nat_alt word_unat_eq_iff)
  then show ?thesis using that [of k] ij by (auto simp: k_def split: if_splits)
qed

lemma tcp_new_port_loop_spec:
  assumes "tcp_new_port_loop used n port = (r, lst)" and "n \<le> 16383" and "0xc000 \<le> port"
  shows "0xc000 \<le> lst \<and> (r \<noteq> 0 \<longrightarrow> 0xc000 \<le> r \<and> r \<notin> set used \<and> r = lst) \<and>
    (r = 0 \<longrightarrow> (\<forall>k. 0 < k \<longrightarrow> k \<le> 16384 - n \<longrightarrow> (port_next ^^ k) port \<in> set used))"
  using assms
proof (induction used n port rule: tcp_new_port_loop.induct)
  case (1 used n port)
  note nx = port_next_index [OF "1.prems"(3), THEN conjunct1]
  note e = "1.prems"(1) [unfolded tcp_new_port_loop.simps [of used n port] Let_def]
  show ?case
  proof (cases "port_next port \<in> set used")
    case False
    then have "r = port_next port" "lst = port_next port" using e by auto
    moreover have "port_next port \<noteq> 0" using nx by auto
    ultimately show ?thesis using False nx by simp
  next
    case True
    show ?thesis
    proof (cases "n + 1 > 16383")
      case stop: True
      then have "n = 16383" "r = 0" "lst = port_next port" using e True "1.prems"(2) by auto
      moreover have "(port_next ^^ k) port \<in> set used" if "0 < k" "k \<le> Suc 0" for k
        using that True by (cases k) auto
      ultimately show ?thesis using nx by auto
    next
      case False
      then have rec: "tcp_new_port_loop used (n + 1) (port_next port) = (r, lst)" using e True by simp
      have ih: "0xc000 \<le> lst \<and> (r \<noteq> 0 \<longrightarrow> 0xc000 \<le> r \<and> r \<notin> set used \<and> r = lst) \<and>
          (r = 0 \<longrightarrow> (\<forall>k. 0 < k \<longrightarrow> k \<le> 16384 - (n + 1) \<longrightarrow> (port_next ^^ k) (port_next port) \<in> set used))"
        by (rule "1.IH" [OF refl True _ rec _ nx]) (use False in simp_all)
      have "(port_next ^^ k) port \<in> set used" if "r = 0" "0 < k" "k \<le> 16384 - n" for k
      proof (cases "k = 1")
        case False
        then have "(port_next ^^ (k - 1)) (port_next port) \<in> set used" using ih that by simp
        moreover have "(port_next ^^ k) port = (port_next ^^ (k - 1)) (port_next port)"
          using that(2) by (cases k) (simp_all add: funpow_swap1)
        ultimately show ?thesis by simp
      qed (use True in simp)
      then show ?thesis using ih by blast
    qed
  qed
qed

lemma tcp_new_port_spec:
  assumes "tcp_new_port s = Some (port, s')" and "used_ports s = Some used" and "0xc000 \<le> lw_port s"
  shows "(if \<exists>p. 0xc000 \<le> p \<and> p \<notin> set used then 0xc000 \<le> port \<and> port \<notin> set used else port = 0) \<and>
    s' = s\<lparr>lw_port := lw_port s'\<rparr> \<and> 0xc000 \<le> lw_port s'"
proof -
  obtain l where l: "tcp_new_port_loop used 0 (lw_port s) = (port, l)" and s': "s' = s\<lparr>lw_port := l\<rparr>"
    using assms(1,2) by (auto simp: tcp_new_port_def simp del: tcp_new_port_loop.simps split: prod.splits)
  note sp = tcp_new_port_loop_spec [OF l _ assms(3)]
  have "p \<in> set used" if "port = 0" "0xc000 \<le> p" for p
    using port_reached [OF assms(3) that(2)] sp that(1) by fastforce
  then show ?thesis using sp s' by auto
qed


section \<open>The announced window\<close>

text \<open>
  \<open>tcp_update_rcv_ann_wnd\<close> for a connection whose right edge of the announced window lies within
  \<open>2 ^ 16\<close> of \<open>rcv_nxt\<close>, on either side.
\<close>

lemma tcp_update_rcv_ann_wnd_spec:
  assumes "unat (pcb_rcv_ann_right_edge pcb - pcb_rcv_nxt pcb) < 65536 \<or>
      unat (pcb_rcv_nxt pcb - pcb_rcv_ann_right_edge pcb) < 65536"
  shows "\<exists>infl pcb'. tcp_update_rcv_ann_wnd pcb = Some (infl, pcb') \<and>
    pcb' = pcb\<lparr>pcb_rcv_ann_wnd := pcb_rcv_ann_wnd pcb'\<rparr> \<and>
    (let edge = pcb_rcv_ann_right_edge pcb; new = pcb_rcv_nxt pcb + ucast (pcb_rcv_ann_wnd pcb') in
       TCP_SEQ_GEQ new edge \<and>
       (if infl \<noteq> 0 then infl = new - edge \<and> unat (min (TCP_WND div 2) (pcb_mss pcb)) \<le> unat infl \<and> pcb_rcv_ann_wnd pcb' = pcb_rcv_wnd pcb
        else new = edge \<or> (TCP_SEQ_GT (pcb_rcv_nxt pcb) edge \<and> new = pcb_rcv_nxt pcb) ))"
proof -
  define edge where "edge = pcb_rcv_ann_right_edge pcb"
  define nxt where "nxt = pcb_rcv_nxt pcb"
  define b where "b = edge - 65536"
  define m where "m = min (TCP_WND div 2) (pcb_mss pcb)"
  define right where "right = nxt + ucast (pcb_rcv_wnd pcb)"
  have e: "seq_rank b edge = 65536" "seq_win b edge" by (simp_all add: seq_rank_def seq_win_def b_def)
  have n: "seq_rank b nxt < 131072 \<and> 0 < seq_rank b nxt \<and> seq_win b nxt"
  proof (cases "unat (nxt - edge) < 65536")
    case True
    define x where "x = nxt - edge"
    have "nxt - b = x + 65536" by (simp add: b_def x_def)
    moreover have "unat (x + 65536) = unat x + 65536" using True unfolding x_def [symmetric] by (simp add: unat_word_ariths)
    ultimately have "unat (nxt - b) = unat (nxt - edge) + 65536" unfolding x_def by metis
    then show ?thesis using True by (simp add: seq_rank_def seq_win_def)
  next
    case False
    then have x: "unat (edge - nxt) < 65536" using assms by (simp add: nxt_def edge_def)
    define y where "y = edge - nxt"
    have "nxt - b = 65536 - y" by (simp add: b_def y_def)
    moreover have "unat (65536 - y) = 65536 - unat y" using x unfolding y_def [symmetric] by (simp add: unat_sub word_le_nat_alt)
    ultimately have "unat (nxt - b) = 65536 - unat (edge - nxt)" unfolding y_def by metis
    then have "unat (nxt - b) < 131072 \<and> 0 < unat (nxt - b)" using x by linarith
    then show ?thesis by (simp add: seq_rank_def seq_win_def)
  qed
  have m: "unat m < 65536" "unat (ucast m :: u32) = unat m" by (simp_all add: u16_bound)
  have em: "seq_rank b (edge + ucast m) = 65536 + unat m" "seq_win b (edge + ucast m)"
    using seq_rank_add [of b edge "ucast m"] e m by simp_all
  have rt: "seq_rank b (nxt + ucast w) = seq_rank b nxt + unat w \<and> seq_win b (nxt + ucast w)" for w :: u16
    using seq_rank_add [of b nxt "ucast w"] n u16_bound [of w] by simp
  have diff: "unat (x - y) = seq_rank b x - seq_rank b y" if "seq_rank b y \<le> seq_rank b x" for x y
  proof -
    have "unat (x - y) = unat ((x - b) - (y - b))" by simp
    also have "\<dots> = unat (x - b) - unat (y - b)" using that by (intro unat_sub) (simp add: seq_rank_def word_le_nat_alt)
    finally show ?thesis by (simp add: seq_rank_def)
  qed
  note r = TCP_SEQ_GEQ_rank [of b] TCP_SEQ_GT_rank [of b]
  show ?thesis
  proof (cases "TCP_SEQ_GEQ right (edge + ucast m)")
    case True
    then have le: "65536 + unat m \<le> seq_rank b right"
      using r(1) [of right "edge + ucast m"] True em rt by (simp add: right_def)
    have "unat (right - edge) = seq_rank b right - 65536" using diff [of edge right] e le by simp
    then have "unat m \<le> unat (right - edge)" "TCP_SEQ_GEQ right edge" using le r(1) [of right edge] e rt by (simp_all add: right_def)
    moreover have "tcp_update_rcv_ann_wnd pcb = Some (right - edge, pcb\<lparr>pcb_rcv_ann_wnd := pcb_rcv_wnd pcb\<rparr>)"
      using True by (simp add: tcp_update_rcv_ann_wnd_def Let_def right_def edge_def nxt_def m_def)
    ultimately show ?thesis
      by (simp add: Let_def edge_def right_def nxt_def m_def)
  next
    case no: False
    show ?thesis
    proof (cases "TCP_SEQ_GT nxt edge")
      case True
      then have "tcp_update_rcv_ann_wnd pcb = Some (0, pcb\<lparr>pcb_rcv_ann_wnd := 0\<rparr>)"
        using no by (simp add: tcp_update_rcv_ann_wnd_def Let_def right_def edge_def nxt_def m_def)
      moreover have "TCP_SEQ_GEQ nxt edge" using True r(1,2) [of nxt edge] n e by simp
      ultimately show ?thesis using True by (simp add: Let_def edge_def nxt_def)
    next
      case False
      then have le: "seq_rank b nxt \<le> 65536" using False r(2) [of nxt edge] n e by simp
      have u: "unat (edge - nxt) = 65536 - seq_rank b nxt" using diff [of nxt edge] e le by simp
      then have s: "unat (edge - nxt) < 65536" using n by simp
      then have a: "edge - nxt \<le> 0xffff" by (simp add: word_le_nat_alt)
      have "(ucast (ucast (edge - nxt) :: u16) :: u32) = edge - nxt"
        using s unfolding word_unat_eq_iff unat_ucast_u16_u32 by (simp add: unsigned_ucast_eq take_bit_nat_eq_self)
      then show ?thesis
        using no False a by (simp add: tcp_update_rcv_ann_wnd_def Let_def right_def edge_def nxt_def m_def)
    qed
  qed
qed

section \<open>Properties\<close>

text \<open>
  C33: \<open>tcp_new_port\<close> always returns. If any port from 0xc000 on is used by no control block on the four lists, it
  returns such a port; only when all 16384 are taken it returns 0. It changes nothing but the
  position where the next search begins, which stays in the range.
\<close>

theorem tcp_new_port_free:
  assumes "used_ports s = Some used" and "0xc000 \<le> lw_port s"
  shows "\<exists>port s'. tcp_new_port s = Some (port, s') \<and>
    (if \<exists>p. 0xc000 \<le> p \<and> p \<notin> set used then 0xc000 \<le> port \<and> port \<notin> set used else port = 0) \<and>
    s' = s\<lparr>lw_port := lw_port s'\<rparr> \<and> 0xc000 \<le> lw_port s'"
proof -
  obtain port s' where p: "tcp_new_port s = Some (port, s')"
    using assms(1) by (auto simp: tcp_new_port_def case_prod_beta simp del: tcp_new_port_loop.simps)
  then show ?thesis using tcp_new_port_spec [OF p assms] by blast
qed

text \<open>
  C17: The announced receive window never shrinks from the right. While the announced edge lies within \<open>2 ^ 16\<close> of \<open>rcv_nxt\<close>,
  \<open>tcp_update_rcv_ann_wnd\<close> succeeds (its assertion on the 16-bit window holds), changes only
  \<open>rcv_ann_wnd\<close>, and the new right edge is not before the old one. If it reports an inflation, the whole
  window is announced and the edge moves by at least the smaller of half the maximal window and the MSS (the rule
  against silly windows); otherwise the edge stays, unless \<open>rcv_nxt\<close> is already beyond it. All this modulo \<open>2 ^ 32\<close>.
\<close>

theorem rcv_ann_wnd_keeps_edge:
  assumes "unat (pcb_rcv_ann_right_edge pcb - pcb_rcv_nxt pcb) < 65536 \<or>
      unat (pcb_rcv_nxt pcb - pcb_rcv_ann_right_edge pcb) < 65536"
  shows "\<exists>infl pcb'. tcp_update_rcv_ann_wnd pcb = Some (infl, pcb') \<and>
    pcb' = pcb\<lparr>pcb_rcv_ann_wnd := pcb_rcv_ann_wnd pcb'\<rparr> \<and>
    (let edge = pcb_rcv_ann_right_edge pcb; new = pcb_rcv_nxt pcb + ucast (pcb_rcv_ann_wnd pcb') in
       TCP_SEQ_GEQ new edge \<and>
       (if infl \<noteq> 0 then infl = new - edge \<and> unat (min (TCP_WND div 2) (pcb_mss pcb)) \<le> unat infl \<and> pcb_rcv_ann_wnd pcb' = pcb_rcv_wnd pcb
        else new = edge \<or> (TCP_SEQ_GT (pcb_rcv_nxt pcb) edge \<and> new = pcb_rcv_nxt pcb)))"
  by (rule tcp_update_rcv_ann_wnd_spec [OF assms])

text \<open>
  \<open>tcp_new_server_id\<close> tests one identifier and returns the next one. With 7 in use and 5 as the last
  one it finds that 6 is free and returns 7.
\<close>

lemma tcp_new_server_id_in_use: "tcp_new_server_id_loop [7] 5 = Some 7"
  by (simp add: tcp_new_server_id_loop.simps)

theorem tcp_new_port_free_witness:
  "\<exists>port s'. tcp_new_port ex_lw = Some (port, s') \<and> 0xc000 \<le> port \<and> port \<noteq> 80"
proof -
  have u: "used_ports ex_lw = Some [80]"
    by (simp add: used_ports_def list_ports_def ex_lw_def ex_defs)
  have "0xc000 \<le> (0xc001 :: u16) \<and> 0xc001 \<notin> set [80 :: u16]" by simp
  then have free: "\<exists>p. 0xc000 \<le> p \<and> p \<notin> set [80 :: u16]" by blast
  have "0xc000 \<le> lw_port ex_lw" by (simp add: ex_lw_def ex_defs)
  from tcp_new_port_free [OF u this] free show ?thesis by auto
qed

theorem rcv_ann_wnd_keeps_edge_witness:
  "\<exists>infl pcb'. tcp_update_rcv_ann_wnd ex_pcb = Some (infl, pcb') \<and> TCP_SEQ_GEQ (500 + ucast (pcb_rcv_ann_wnd pcb')) 5860"
  using rcv_ann_wnd_keeps_edge [of ex_pcb] by (auto simp: ex_defs Let_def)

end
