(* ===== verification/Tcp_Lists.thy ===== *)
theory Tcp_Lists
  imports Tcp_Conn
begin

text \<open>
  The store of control blocks and its four lists: their invariant, and that opening, closing, aborting
  and allocating connections keep it.
\<close>

section \<open>The lists of control blocks\<close>

text \<open>The states a list is for, and what a list says about its members.\<close>

fun state_fits :: "pcb_list \<Rightarrow> tcp_state \<Rightarrow> bool" where
  "state_fits L_LISTEN st \<longleftrightarrow> st = LISTEN"
| "state_fits L_BOUND st \<longleftrightarrow> st = CLOSED"
| "state_fits L_ACTIVE st \<longleftrightarrow> st \<noteq> CLOSED \<and> st \<noteq> LISTEN \<and> st \<noteq> TIME_WAIT"
| "state_fits L_TW st \<longleftrightarrow> st = TIME_WAIT"

lemma state_fits_unique: "state_fits l st \<Longrightarrow> state_fits l' st \<Longrightarrow> l = l'"
  by (cases l; cases l') auto

definition state_of :: "lw \<Rightarrow> pcb_list \<Rightarrow> nat \<Rightarrow> tcp_state option" where
  "state_of s l a = (if l = L_LISTEN then map_option lpcb_state (lw_lpcbs s a) else map_option pcb_state (lw_pcbs s a))"

definition listed_ok :: "lw \<Rightarrow> pcb_list \<Rightarrow> nat \<Rightarrow> bool" where
  "listed_ok s l a \<longleftrightarrow> (case state_of s l a of None \<Rightarrow> False | Some st \<Rightarrow> state_fits l st)"

lemma listed_ok_iff: "listed_ok s l a \<longleftrightarrow> (\<exists>st. state_of s l a = Some st \<and> state_fits l st)"
  by (auto simp: listed_ok_def split: option.splits)

lemma listed_ok_lists [simp]: "listed_ok (s\<lparr>lw_lists := x\<rparr>) = listed_ok s"
  by (rule ext, rule ext) (simp add: listed_ok_def state_of_def)

text \<open>
  The invariant of the store of control blocks: every list has no repetition and holds blocks in the
  states the list is for, with a port if it is bound; a block knows its address, is never in state \<open>LISTEN\<close> and shares its
  address with no listening block; the free elements of the two pools are in no store, and differ.
\<close>

definition pcbs_ok :: "lw \<Rightarrow> bool" where
  "pcbs_ok s \<longleftrightarrow>
     (\<forall>l. distinct (lw_lists s l) \<and> list_all (listed_ok s l) (lw_lists s l)) \<and>
     (\<forall>a p. lw_pcbs s a = Some p \<longrightarrow> pcb_addr p = a \<and> pcb_state p \<noteq> LISTEN \<and> lw_lpcbs s a = None) \<and>
     (\<forall>a \<in> set (lw_lists s L_BOUND). \<forall>p. lw_pcbs s a = Some p \<longrightarrow> pcb_local_port p \<noteq> 0) \<and>
     distinct (memp_tab s MEMP_TCP_PCB @ memp_tab s MEMP_TCP_PCB_LISTEN) \<and>
     (\<forall>a \<in> set (memp_tab s MEMP_TCP_PCB @ memp_tab s MEMP_TCP_PCB_LISTEN). lw_pcbs s a = None \<and> lw_lpcbs s a = None)"

lemma pcbs_okD:
  assumes "pcbs_ok s"
  shows "distinct (lw_lists s l)" and "a \<in> set (lw_lists s l) \<Longrightarrow> listed_ok s l a"
    and "lw_pcbs s a = Some p \<Longrightarrow> pcb_addr p = a" and "lw_pcbs s a = Some p \<Longrightarrow> pcb_state p \<noteq> LISTEN"
    and "lw_pcbs s a = Some p \<Longrightarrow> lw_lpcbs s a = None"
    and "lw_pcbs s a = Some p \<Longrightarrow> a \<in> set (lw_lists s L_BOUND) \<Longrightarrow> pcb_local_port p \<noteq> 0"
  using assms by (auto simp: pcbs_ok_def list_all_iff)

lemma pcbs_ok_sane: "pcbs_ok s \<Longrightarrow> tcp_pcbs_sane s"
  using pcbs_okD(2) [of s _ L_ACTIVE] pcbs_okD(2) [of s _ L_TW]
  by (fastforce simp: tcp_pcbs_sane_def list_all_iff listed_ok_iff state_of_def split: option.splits)

text \<open>The invariant is about these parts of the state only.\<close>

lemma pcbs_ok_cong:
  assumes "lw_pcbs s' = lw_pcbs s" and "lw_lpcbs s' = lw_lpcbs s" and "lw_lists s' = lw_lists s"
    and "memp_tab s' MEMP_TCP_PCB = memp_tab s MEMP_TCP_PCB" and "memp_tab s' MEMP_TCP_PCB_LISTEN = memp_tab s MEMP_TCP_PCB_LISTEN"
  shows "pcbs_ok s' = pcbs_ok s"
proof -
  have "listed_ok s' = listed_ok s" by (rule ext, rule ext) (simp add: listed_ok_def state_of_def assms(1,2))
  then show ?thesis by (simp add: pcbs_ok_def assms)
qed

lemma pcbs_ok_frame: "sys_frame s s' \<Longrightarrow> pcbs_ok s \<Longrightarrow> pcbs_ok s'"
  using pcbs_ok_cong [of s' s] by (simp add: sys_frame_lw)

text \<open>A block keeps its state, or changes it where the lists it is on allow that.\<close>

lemma pcbs_ok_put:
  assumes "pcbs_ok s" and "lw_pcbs s (pcb_addr p') = Some p" and "pcb_state p' \<noteq> LISTEN"
    and "\<And>l. pcb_addr p' \<in> set (lw_lists s l) \<Longrightarrow> l \<noteq> L_LISTEN \<Longrightarrow> state_fits l (pcb_state p')"
    and "pcb_addr p' \<in> set (lw_lists s L_BOUND) \<Longrightarrow> pcb_local_port p' \<noteq> 0"
  shows "pcbs_ok (pcb_put p' s)"
proof -
  have "listed_ok (pcb_put p' s) l a" if "a \<in> set (lw_lists s l)" for l a
  proof (cases "a = pcb_addr p' \<and> l \<noteq> L_LISTEN")
    case True
    then show ?thesis using assms(4) that by (auto simp: listed_ok_iff state_of_def pcb_put_def)
  next
    case False
    moreover have "listed_ok s l a" using pcbs_okD(2) [OF assms(1)] that by simp
    ultimately show ?thesis by (auto simp: listed_ok_iff state_of_def pcb_put_def)
  qed
  then show ?thesis
    using assms(1,2,3,5) by (auto simp: pcbs_ok_def list_all_iff pcb_put_def)
qed

lemma pcbs_ok_put_same:
  assumes "pcbs_ok s" and "lw_pcbs s (pcb_addr p') = Some p" and "pcb_state p' = pcb_state p"
    and "pcb_local_port p' = pcb_local_port p"
  shows "pcbs_ok (pcb_put p' s)"
proof (rule pcbs_ok_put [OF assms(1,2)])
  show "pcb_state p' \<noteq> LISTEN" using pcbs_okD(4) [OF assms(1,2)] assms(3) by simp
  show "pcb_addr p' \<in> set (lw_lists s L_BOUND) \<Longrightarrow> pcb_local_port p' \<noteq> 0" using pcbs_okD(6) [OF assms(1,2)] assms(4) by simp
  fix l assume "pcb_addr p' \<in> set (lw_lists s l)" "l \<noteq> L_LISTEN"
  then show "state_fits l (pcb_state p')"
    using pcbs_okD(2) [OF assms(1), of "pcb_addr p'" l] assms(2,3) by (auto simp: listed_ok_iff state_of_def)
qed

lemma pcbs_ok_RMV: "pcbs_ok s \<Longrightarrow> pcbs_ok (TCP_RMV l a s)"
  by (auto simp: pcbs_ok_def TCP_RMV_def list_all_iff dest: notin_set_remove1)

lemma pcbs_ok_REG:
  "pcbs_ok s \<Longrightarrow> a \<notin> set (lw_lists s l) \<Longrightarrow> listed_ok s l a \<Longrightarrow>
     (l = L_BOUND \<longrightarrow> (\<forall>p. lw_pcbs s a = Some p \<longrightarrow> pcb_local_port p \<noteq> 0)) \<Longrightarrow> pcbs_ok (TCP_REG l a s)"
  by (auto simp: pcbs_ok_def TCP_REG_def list_all_iff)

text \<open>Freeing a block that is on no list.\<close>

lemma pcbs_ok_free:
  assumes "pcbs_ok s" and "lw_pcbs s a \<noteq> None" and "\<And>l. l \<noteq> L_LISTEN \<Longrightarrow> a \<notin> set (lw_lists s l)"
  shows "pcbs_ok (pcb_free a s)"
proof -
  have "listed_ok (pcb_free a s) l b" if "b \<in> set (lw_lists s l)" for l b
    using pcbs_okD(2) [OF assms(1) that] assms(3) [of l] that
    by (auto simp: listed_ok_iff state_of_def pcb_free_def memp_free_def memp_stats_upd_def Let_def)
  moreover have "a \<notin> set (memp_tab s MEMP_TCP_PCB @ memp_tab s MEMP_TCP_PCB_LISTEN)" "lw_lpcbs s a = None"
    using assms(1,2) by (auto simp: pcbs_ok_def)
  ultimately show ?thesis
    using assms(1) by (auto simp: pcbs_ok_def list_all_iff pcb_free_def memp_free_def memp_stats_upd_def Let_def)
qed

lemma at_pcb_ok:
  assumes "at_pcb a f s = Some (r, s')" and "pcbs_ok s"
    and "\<And>p p' s1. f p s = Some (r, p', s1) \<Longrightarrow> conn_frame p p' \<and> sys_frame s s1"
  shows "pcbs_ok s'" and "lw_lists s' = lw_lists s" and "lw_lpcbs s' = lw_lpcbs s"
    and "map_option pcb_state (lw_pcbs s' b) = map_option pcb_state (lw_pcbs s b)"
    and "map_option pcb_local_port (lw_pcbs s' b) = map_option pcb_local_port (lw_pcbs s b)"
    and "sy_input_pcb s' = sy_input_pcb s" and "lw_pcbs s a \<noteq> None"
proof -
  obtain p p' s1 where p: "lw_pcbs s a = Some p" "f p s = Some (r, p', s1)" and s': "s' = pcb_put p' s1"
    using assms(1) by (auto simp: at_pcb_def bind_Some_iff)
  note fr = assms(3) [OF p(2), THEN conjunct1] and sf = assms(3) [OF p(2), THEN conjunct2]
  note lw = sys_frame_lw [OF sf]
  have id: "pcb_addr p' = a" "pcb_state p' = pcb_state p" "pcb_local_port p' = pcb_local_port p"
    using fr pcbs_okD(3) [OF assms(2) p(1)] by (auto simp: conn_frame_def)
  then show "pcbs_ok s'"
    using pcbs_ok_put_same [OF pcbs_ok_frame [OF sf assms(2)]] p(1) lw s' by simp
  show "lw_lists s' = lw_lists s" "lw_lpcbs s' = lw_lpcbs s" "sy_input_pcb s' = sy_input_pcb s" using lw s' by (simp_all add: pcb_put_def)
  show "map_option pcb_state (lw_pcbs s' b) = map_option pcb_state (lw_pcbs s b)"
    using lw s' p(1) id by (simp add: pcb_put_def)
  show "map_option pcb_local_port (lw_pcbs s' b) = map_option pcb_local_port (lw_pcbs s b)"
    using lw s' p(1) id by (simp add: pcb_put_def)
  show "lw_pcbs s a \<noteq> None" using p(1) by simp
qed


text \<open>A block that no list can hold: the lists are for other states, or it is closed and not bound.\<close>

definition unlisted :: "lw \<Rightarrow> nat \<Rightarrow> bool" where
  "unlisted s a \<longleftrightarrow> (\<forall>l. l \<noteq> L_LISTEN \<longrightarrow> a \<notin> set (lw_lists s l))"

lemma listed_unique:
  assumes "pcbs_ok s" and "lw_pcbs s a = Some p" and "state_fits l (pcb_state p)" and "l' \<noteq> L_LISTEN" and "l' \<noteq> l"
  shows "a \<notin> set (lw_lists s l')"
proof
  assume "a \<in> set (lw_lists s l')"
  then have "state_fits l' (pcb_state p)"
    using pcbs_okD(2) [OF assms(1)] assms(2,4) by (force simp: listed_ok_iff state_of_def)
  then show False using state_fits_unique [OF assms(3)] assms(5) by simp
qed

text \<open>A block is on one list only.\<close>

lemma lists_disjoint:
  assumes "pcbs_ok s" and l: "a \<in> set (lw_lists s l)" "a \<in> set (lw_lists s l')"
  shows "l = l'"
proof -
  have block: "\<exists>p. lw_pcbs s a = Some p \<and> state_fits k (pcb_state p) \<and> lw_lpcbs s a = None" if "a \<in> set (lw_lists s k)" "k \<noteq> L_LISTEN" for k
    using pcbs_okD(2) [OF assms(1) that(1)] pcbs_okD(5) [OF assms(1), of a] that(2) by (auto simp: listed_ok_iff state_of_def)
  have listening: "lw_lpcbs s a \<noteq> None" if "a \<in> set (lw_lists s L_LISTEN)"
    using pcbs_okD(2) [OF assms(1) that] by (auto simp: listed_ok_iff state_of_def)
  show ?thesis
    using block [OF l(1)] block [OF l(2)] listening listed_unique [OF assms(1), of a] l by (cases "l = L_LISTEN"; cases "l' = L_LISTEN") auto
qed

lemma unlisted_RMV:
  assumes "pcbs_ok s" and "\<And>l'. l' \<noteq> L_LISTEN \<Longrightarrow> l' \<noteq> l \<Longrightarrow> a \<notin> set (lw_lists s l')"
  shows "unlisted (TCP_RMV l a s) a"
  using assms pcbs_okD(1) [OF assms(1), of l] by (auto simp: unlisted_def TCP_RMV_def)

lemma unlisted_free: "pcbs_ok s \<Longrightarrow> unlisted s a \<Longrightarrow> lw_pcbs s a \<noteq> None \<Longrightarrow> pcbs_ok (pcb_free a s)"
  by (rule pcbs_ok_free) (simp_all add: unlisted_def)

lemma TCP_RMV_simps [simp]:
  "lw_pcbs (TCP_RMV l a s) = lw_pcbs s" "lw_lpcbs (TCP_RMV l a s) = lw_lpcbs s" "sy_input_pcb (TCP_RMV l a s) = sy_input_pcb s"
  by (simp_all add: TCP_RMV_def)

lemma tcp_pcb_remove_ok:
  assumes e: "tcp_pcb_remove env l a s = Some s'" and ok: "pcbs_ok s"
    and only: "\<And>l'. l' \<noteq> L_LISTEN \<Longrightarrow> l' \<noteq> l \<Longrightarrow> a \<notin> set (lw_lists s l')"
  shows "pcbs_ok s' \<and> unlisted s' a \<and> lw_pcbs s' a \<noteq> None"
proof -
  define s1 where "s1 = TCP_RMV l a s"
  have ok1: "pcbs_ok s1" "unlisted s1 a"
    using pcbs_ok_RMV [OF ok] unlisted_RMV [OF ok only] by (simp_all add: s1_def)
  obtain p p1 s2 p2 s3 where p: "lw_pcbs s1 a = Some p" and pu: "tcp_pcb_purge p s1 = Some (p1, s2)"
    and o: "(if pcb_state p1 \<noteq> TIME_WAIT \<and> pcb_state p1 \<noteq> LISTEN \<and> has_flag TF_ACK_DELAY p1 then do {
          (_, p2, s3) \<leftarrow> tcp_output env (set_flag TF_ACK_NOW p1) s2;
          Some (p2, s3)
        } else Some (p1, s2)) = Some (p2, s3)"
    and s': "s' = pcb_put (p2\<lparr>pcb_state := CLOSED, pcb_local_port := 0\<rparr>) s3"
    using e by (auto simp: tcp_pcb_remove_def s1_def bind_Some_iff Let_def) blast
  have fr: "conn_frame p p2 \<and> sys_frame s1 s3"
    using o tcp_pcb_purge_frame [OF pu]
    by (auto simp: bind_Some_iff dest!: tcp_output_frame split: if_split_asm intro: conn_frame_trans sys_frame_trans)
  note lw = sys_frame_lw [OF fr [THEN conjunct2]]
  have a: "pcb_addr p2 = a" using fr pcbs_okD(3) [OF ok1(1) p] by (simp add: conn_frame_def)
  have "pcbs_ok s'"
    unfolding s'
    by (rule pcbs_ok_put [OF pcbs_ok_frame [OF fr [THEN conjunct2] ok1(1)], of _ p])
      (use a lw p ok1(2) in \<open>auto simp: unlisted_def\<close>)
  then show ?thesis using s' a lw ok1(2) by (auto simp: unlisted_def pcb_put_def)
qed

lemma pcbs_ok_flags [simp]: "pcbs_ok (s\<lparr>lw_active_changed := b\<rparr>) = pcbs_ok s" "pcbs_ok (s\<lparr>lw_recv_flags := f\<rparr>) = pcbs_ok s"
  "pcbs_ok (s\<lparr>lw_port := q\<rparr>) = pcbs_ok s" "pcbs_ok (s\<lparr>lw_iss := n\<rparr>) = pcbs_ok s"
  by (rule pcbs_ok_cong; simp)+

lemma unlisted_flags [simp]: "unlisted (s\<lparr>lw_active_changed := b\<rparr>) a = unlisted s a" "unlisted (pcb_put p s) a = unlisted s a"
  "unlisted (s\<lparr>lw_pcbs := g\<rparr>) a = unlisted s a"
  by (simp_all add: unlisted_def pcb_put_def)

lemma TCP_PCB_REMOVE_ACTIVE_ok:
  assumes "TCP_PCB_REMOVE_ACTIVE env a s = Some s'" and "pcbs_ok s"
    and "a \<notin> set (lw_lists s L_BOUND)" and "a \<notin> set (lw_lists s L_TW)"
  shows "pcbs_ok s' \<and> unlisted s' a \<and> lw_pcbs s' a \<noteq> None"
proof -
  obtain s1 where s1: "tcp_pcb_remove env L_ACTIVE a s = Some s1" and s': "s' = s1\<lparr>lw_active_changed := True\<rparr>"
    using assms(1) by (auto simp: TCP_PCB_REMOVE_ACTIVE_def bind_Some_iff)
  have "pcbs_ok s1 \<and> unlisted s1 a \<and> lw_pcbs s1 a \<noteq> None"
  proof (rule tcp_pcb_remove_ok [OF s1 assms(2)])
    show "a \<notin> set (lw_lists s l')" if "l' \<noteq> L_LISTEN" "l' \<noteq> L_ACTIVE" for l'
      using that assms(3,4) by (cases l') auto
  qed
  then show ?thesis using s' by simp
qed

section \<open>Opening keeps the lists\<close>

lemma tcp_new_port_keeps: "tcp_new_port s = Some (port, s') \<Longrightarrow> \<exists>q. s' = s\<lparr>lw_port := q\<rparr>"
  by (auto simp: tcp_new_port_def bind_Some_iff case_prod_beta simp del: tcp_new_port_loop.simps)

lemma choose_port:
  assumes "(if c then tcp_new_port s else Some (port, s)) = Some (port', s1)"
  obtains q where "s1 = s\<lparr>lw_port := q\<rparr>"
  using assms that [of "lw_port s"] by (auto split: if_split_asm dest!: tcp_new_port_keeps intro: that)

lemma tcp_bind_ok:
  assumes "tcp_bind (Some a) port s = Some (err, s')" and "pcbs_ok s" and "a \<notin> set (lw_lists s L_BOUND)"
  shows "pcbs_ok s'"
proof -
  obtain p port' s1 where p: "lw_pcbs s a = Some p" "pcb_state p = CLOSED"
    and np: "(if port = 0 then tcp_new_port s else Some (port, s)) = Some (port', s1)"
    and r: "s' = (if port' = 0 then s1 else TCP_REG L_BOUND a (pcb_put (p\<lparr>pcb_local_port := port'\<rparr>) s1))"
    using assms(1) by (auto simp: tcp_bind_def bind_Some_iff split: if_split_asm)
  obtain q where s1: "s1 = s\<lparr>lw_port := q\<rparr>" using choose_port [OF np] .
  have a: "pcb_addr p = a" using pcbs_okD(3) [OF assms(2) p(1)] .
  have put: "pcbs_ok (pcb_put (p\<lparr>pcb_local_port := port'\<rparr>) s1)"
    by (rule pcbs_ok_put [of _ _ p]) (use assms s1 p a listed_unique [OF assms(2) p(1), of L_BOUND] in auto)
  show ?thesis
  proof (cases "port' = 0")
    case True
    then show ?thesis using r s1 assms(2) by simp
  next
    case False
    then show ?thesis
      unfolding r using put assms(3) p a s1
      by (simp add: pcbs_ok_REG listed_ok_iff state_of_def pcb_put_def)
  qed
qed

text \<open>A second \<open>tcp_bind\<close> puts the block on the list again, in front of itself.\<close>

lemma tcp_bind_again:
  assumes "tcp_bind (Some a) port s = Some (ERR_OK, s')" and "a \<in> set (lw_lists s L_BOUND)"
  shows "\<not> pcbs_ok s'"
proof -
  obtain p port' s1 where p: "lw_pcbs s a = Some p"
    and np: "(if port = 0 then tcp_new_port s else Some (port, s)) = Some (port', s1)"
    and r: "s' = TCP_REG L_BOUND a (pcb_put (p\<lparr>pcb_local_port := port'\<rparr>) s1)"
    using assms(1) by (auto simp: tcp_bind_def bind_Some_iff split: if_split_asm)
  obtain q where "s1 = s\<lparr>lw_port := q\<rparr>" using choose_port [OF np] .
  then have "\<not> distinct (lw_lists s' L_BOUND)" using assms(2) r by (simp add: TCP_REG_def pcb_put_def)
  then show ?thesis using pcbs_okD(1) by blast
qed

lemma memp_malloc_lw:
  assumes "memp_malloc t s = (r, s')"
  shows "lw_pcbs s' = lw_pcbs s" "lw_lpcbs s' = lw_lpcbs s" "lw_lists s' = lw_lists s" "sy_input_pcb s' = sy_input_pcb s"
    "lw_iss s' = lw_iss s" "sy_ticks s' = sy_ticks s" "lw_timer_ctr s' = lw_timer_ctr s"
    "memp_tab s' = (memp_tab s)(t := tl (memp_tab s t))" "r = (if memp_tab s t = [] then None else Some (hd (memp_tab s t)))"
  using assms by (auto simp: memp_malloc_def memp_stats_upd_def split: list.splits)

lemma listed_ok_cong: "lw_pcbs s' = lw_pcbs s \<Longrightarrow> lw_lpcbs s' = lw_lpcbs s \<Longrightarrow> listed_ok s' = listed_ok s"
  by (rule ext, rule ext) (simp add: listed_ok_def state_of_def)

lemma pcbs_ok_malloc:
  assumes "memp_malloc t s = (r, s')" and "pcbs_ok s"
  shows "pcbs_ok s'" and "\<And>a. r = Some a \<Longrightarrow> \<not> buffer_pool t \<Longrightarrow>
    lw_pcbs s' a = None \<and> lw_lpcbs s' a = None \<and> a \<notin> set (memp_tab s' MEMP_TCP_PCB @ memp_tab s' MEMP_TCP_PCB_LISTEN) \<and>
    (\<forall>l. a \<notin> set (lw_lists s' l))"
proof -
  note m = memp_malloc_lw [OF assms(1)]
  have l: "listed_ok s' = listed_ok s" by (rule listed_ok_cong) (fact m)+
  have d: "distinct (memp_tab s MEMP_TCP_PCB)" "distinct (memp_tab s MEMP_TCP_PCB_LISTEN)"
    "set (memp_tab s MEMP_TCP_PCB) \<inter> set (memp_tab s MEMP_TCP_PCB_LISTEN) = {}"
    using assms(2) by (auto simp: pcbs_ok_def)
  have tl: "set (tl xs) \<subseteq> set xs" for xs :: "nat list" by (cases xs) auto
  show "pcbs_ok s'"
    using assms(2) tl [of "memp_tab s t"]
    by (cases t) (auto simp: pcbs_ok_def m l distinct_tl)
  fix a assume r: "r = Some a" and t: "\<not> buffer_pool t"
  then have a: "a = hd (memp_tab s t)" "memp_tab s t \<noteq> []" using m by (auto split: if_splits)
  then have "a \<in> set (memp_tab s t)" by simp
  then have none: "lw_pcbs s a = None \<and> lw_lpcbs s a = None" using assms(2) t by (auto simp: pcbs_ok_def)
  have "a \<notin> set (tl (memp_tab s t))" using a d t by (cases "memp_tab s t") auto
  then have "a \<notin> set (memp_tab s' MEMP_TCP_PCB @ memp_tab s' MEMP_TCP_PCB_LISTEN)"
    using \<open>a \<in> set (memp_tab s t)\<close> d t m(8) by auto
  moreover have "a \<notin> set (lw_lists s l)" for l
    using none pcbs_okD(2) [OF assms(2), of a l] by (auto simp: listed_ok_iff state_of_def split: if_split_asm)
  ultimately show "lw_pcbs s' a = None \<and> lw_lpcbs s' a = None \<and> a \<notin> set (memp_tab s' MEMP_TCP_PCB @ memp_tab s' MEMP_TCP_PCB_LISTEN) \<and>
    (\<forall>l. a \<notin> set (lw_lists s' l))"
    using none m by simp
qed

text \<open>A new block, which is on no list.\<close>

lemma pcbs_ok_new:
  assumes "pcbs_ok s" and "lw_pcbs s (pcb_addr p) = None" and "lw_lpcbs s (pcb_addr p) = None" and "pcb_state p \<noteq> LISTEN"
    and "pcb_addr p \<notin> set (memp_tab s MEMP_TCP_PCB @ memp_tab s MEMP_TCP_PCB_LISTEN)"
  shows "pcbs_ok (pcb_put p s)"
proof -
  have u: "pcb_addr p \<notin> set (lw_lists s l)" for l
    using assms(2,3) pcbs_okD(2) [OF assms(1), of "pcb_addr p" l] by (auto simp: listed_ok_iff state_of_def split: if_split_asm)
  have "listed_ok (pcb_put p s) l a" if "a \<in> set (lw_lists s l)" for l a
    using pcbs_okD(2) [OF assms(1) that] u [of l] that by (auto simp: listed_ok_iff state_of_def pcb_put_def split: if_split_asm)
  then show ?thesis using assms u by (auto simp: pcbs_ok_def list_all_iff pcb_put_def)
qed

lemma pcbs_ok_new_listen:
  assumes "pcbs_ok s" and "lw_pcbs s l = None" and "lw_lpcbs s l = None" and "lpcb_state q = LISTEN"
    and "l \<notin> set (memp_tab s MEMP_TCP_PCB @ memp_tab s MEMP_TCP_PCB_LISTEN)"
  shows "pcbs_ok (TCP_REG L_LISTEN l (s\<lparr>lw_lpcbs := (lw_lpcbs s)(l \<mapsto> q)\<rparr>))"
proof -
  let ?s = "s\<lparr>lw_lpcbs := (lw_lpcbs s)(l \<mapsto> q)\<rparr>"
  have u: "l \<notin> set (lw_lists s k)" for k
    using assms(2,3) pcbs_okD(2) [OF assms(1), of l k] by (auto simp: listed_ok_iff state_of_def split: if_split_asm)
  have k: "listed_ok ?s k a" if "a \<in> set (lw_lists s k)" for k a
    using pcbs_okD(2) [OF assms(1) that] u [of k] that by (auto simp: listed_ok_iff state_of_def split: if_split_asm)
  have "pcbs_ok ?s" using assms u k by (auto simp: pcbs_ok_def list_all_iff)
  then show ?thesis using assms(4) u by (simp add: pcbs_ok_REG listed_ok_iff state_of_def)
qed

lemma pcb_free_simps [simp]:
  "lw_pcbs (pcb_free a s) = (lw_pcbs s)(a := None)" "lw_lpcbs (pcb_free a s) = lw_lpcbs s" "lw_lists (pcb_free a s) = lw_lists s"
  "memp_tab (pcb_free a s) = (memp_tab s)(MEMP_TCP_PCB := a # memp_tab s MEMP_TCP_PCB)"
  by (simp_all add: pcb_free_def memp_free_def memp_stats_upd_def Let_def)

lemma tcp_listen_ok:
  assumes "tcp_listen_with_backlog a s = Some (lo, s')" and "pcbs_ok s"
  shows "pcbs_ok s'"
proof -
  obtain p where p: "lw_pcbs s a = Some p" "pcb_state p = CLOSED"
    using assms(1) by (auto simp: tcp_listen_with_backlog_def bind_Some_iff)
  obtain r s1 where m: "memp_malloc MEMP_TCP_PCB_LISTEN s = (r, s1)" by fastforce
  note ok1 = pcbs_ok_malloc [OF m assms(2)] and lw1 = memp_malloc_lw [OF m]
  show ?thesis
  proof (cases r)
    case None
    then show ?thesis using assms(1) p m ok1 by (auto simp: tcp_listen_with_backlog_def)
  next
    case (Some l)
    define s2 where "s2 = (if pcb_local_port p \<noteq> 0 then TCP_RMV L_BOUND a s1 else s1)"
    define s3 where "s3 = pcb_free a s2"
    define q where "q = \<lparr>lpcb_addr = l, lpcb_callback_arg = pcb_callback_arg p, lpcb_accept = Some 0,
                      lpcb_state = LISTEN, lpcb_prio = pcb_prio p, lpcb_local_port = pcb_local_port p\<rparr>"
    have q: "lpcb_state q = LISTEN" by (simp add: q_def)
    have s': "s' = TCP_REG L_LISTEN l (s3\<lparr>lw_lpcbs := (lw_lpcbs s3)(l \<mapsto> q)\<rparr>)"
      using assms(1) p m Some by (simp add: tcp_listen_with_backlog_def s3_def s2_def q_def Let_def)
    have p1: "lw_pcbs s1 a = Some p" using p lw1 by simp
    have fr: "lw_pcbs s1 l = None" "lw_lpcbs s1 l = None" "l \<notin> set (memp_tab s1 MEMP_TCP_PCB @ memp_tab s1 MEMP_TCP_PCB_LISTEN)"
      using ok1(2) [of l] Some by simp_all
    have s2: "memp_tab s2 = memp_tab s1" "lw_pcbs s2 = lw_pcbs s1" "lw_lpcbs s2 = lw_lpcbs s1"
      by (auto simp: s2_def TCP_RMV_def)
    have "pcbs_ok s2" using ok1 by (simp add: s2_def pcbs_ok_RMV)
    moreover have "unlisted s2 a"
    proof (cases "pcb_local_port p = 0")
      case True
      then have "a \<notin> set (lw_lists s1 L_BOUND)" using pcbs_okD(6) [OF ok1(1) p1] by auto
      then show ?thesis
        using True listed_unique [OF ok1(1) p1, of L_BOUND] p(2) by (auto simp: unlisted_def s2_def)
    next
      case False
      then show ?thesis
        using unlisted_RMV [OF ok1(1), of L_BOUND a] listed_unique [OF ok1(1) p1, of L_BOUND] p(2) by (simp add: s2_def)
    qed
    ultimately have "pcbs_ok s3"
      using unlisted_free [of s2 a] p1 s2 by (simp add: s3_def)
    moreover have "l \<noteq> a" using fr p1 by auto
    ultimately show ?thesis
      unfolding s' by (intro pcbs_ok_new_listen) (use fr q s2 in \<open>auto simp: s3_def\<close>)
  qed
qed


text \<open>A block that moves between states of the same list.\<close>

lemma pcbs_ok_put_fits:
  assumes "pcbs_ok s" and "lw_pcbs s (pcb_addr p') = Some p" and "state_fits l (pcb_state p)" and "state_fits l (pcb_state p')"
    and "l \<noteq> L_BOUND" and "l \<noteq> L_LISTEN"
  shows "pcbs_ok (pcb_put p' s)"
proof -
  have l: "k = l" if "pcb_addr p' \<in> set (lw_lists s k)" "k \<noteq> L_LISTEN" for k
    using listed_unique [OF assms(1,2,3)] that by blast
  show ?thesis
  proof (rule pcbs_ok_put [OF assms(1,2)])
    show "pcb_state p' \<noteq> LISTEN" using assms(4-6) by (cases l) auto
    show "pcb_local_port p' \<noteq> 0" if "pcb_addr p' \<in> set (lw_lists s L_BOUND)" using l [OF that] assms(5) by simp
    show "state_fits k (pcb_state p')" if "pcb_addr p' \<in> set (lw_lists s k)" "k \<noteq> L_LISTEN" for k
      using l [OF that] assms(4) by simp
  qed
qed

lemma pcbs_ok_put_unlisted:
  assumes "pcbs_ok s" and "lw_pcbs s (pcb_addr p') = Some p" and "pcb_state p' \<noteq> LISTEN" and "unlisted s (pcb_addr p')"
  shows "pcbs_ok (pcb_put p' s)"
  by (rule pcbs_ok_put [OF assms(1-3)]) (use assms(4) in \<open>auto simp: unlisted_def\<close>)

lemma TCP_RMV_put: "TCP_RMV l a (pcb_put p s) = pcb_put p (TCP_RMV l a s)"
  by (simp add: TCP_RMV_def pcb_put_def)

lemma pcbs_ok_REG_ACTIVE:
  assumes "pcbs_ok s" and "unlisted s a" and "lw_pcbs s a = Some p" and "state_fits L_ACTIVE (pcb_state p)"
  shows "pcbs_ok (TCP_REG_ACTIVE a s)"
  using assms by (simp add: TCP_REG_ACTIVE_def pcbs_ok_REG listed_ok_iff state_of_def unlisted_def)

lemma at_pcb_output_ok:
  assumes "at_pcb a (tcp_output env) s = Some (r, s')" and "pcbs_ok s"
  shows "pcbs_ok s'" and "lw_lists s' = lw_lists s" and "map_option pcb_state (lw_pcbs s' b) = map_option pcb_state (lw_pcbs s b)"
  by (rule at_pcb_ok(1,2,4) [OF assms], erule tcp_output_frame)+

lemma tcp_connect_ok:
  assumes e: "tcp_connect env (Some a) ipaddr port connected s = Some (err, s')" and ok: "pcbs_ok s"
  shows "pcbs_ok s'"
proof -
  obtain p where p: "lw_pcbs s a = Some p" "pcb_state p = CLOSED"
    using e by (auto simp: tcp_connect_def bind_Some_iff)
  have a: "pcb_addr p = a" using pcbs_okD(3) [OF ok p(1)] .
  show ?thesis
  proof (cases ipaddr)
    case None
    then show ?thesis using e p ok by (simp add: tcp_connect_def)
  next
    case (Some ip)
    obtain local_port s1 where np: "(if pcb_local_port p = 0 then tcp_new_port s else Some (pcb_local_port p, s)) = Some (local_port, s1)"
      using e p Some by (auto simp: tcp_connect_def bind_Some_iff Let_def)
    obtain q where s1: "s1 = s\<lparr>lw_port := q\<rparr>"
      using np tcp_new_port_keeps [of s local_port s1] by (cases "pcb_local_port p = 0") (auto intro: that [of "lw_port s"])
    have lp: "local_port = pcb_local_port p" if "pcb_local_port p \<noteq> 0" using np that by simp
    show ?thesis
    proof (cases "local_port = 0")
      case True
      then have "s' = pcb_put (p\<lparr>pcb_remote_ip := ip, pcb_remote_port := port, pcb_remote_udp_port := port\<rparr>) s1"
        using e p Some np by (simp add: tcp_connect_def)
      then show ?thesis using pcbs_ok_put_same [of s1 _ p] ok s1 a p by simp
    next
      case False
      define iss where "iss = lw_iss s1 + sy_ticks s1"
      define s2 where "s2 = pcb_put (connect_init ip port local_port iss connected p) (s1\<lparr>lw_iss := iss\<rparr>)"
      obtain ret s3 where q: "at_pcb a (\<lambda>p s. tcp_enqueue_flags env p TCP_SYN s) s2 = Some (ret, s3)"
        and r: "(if ret = ERR_OK then do {
                   p1 \<leftarrow> lw_pcbs s3 a;
                   let s4 = pcb_put (p1\<lparr>pcb_state := SYN_SENT\<rparr>) s3;
                   let s5 = (if pcb_local_port p \<noteq> 0 then TCP_RMV L_BOUND a s4 else s4);
                   (_, s6) \<leftarrow> at_pcb a (tcp_output env) (TCP_REG_ACTIVE a s5);
                   Some (ERR_OK, s6)
                 }
                 else Some (ret, s3)) = Some (err, s')"
        using e p Some np False
        by (auto simp: tcp_connect_def tcp_next_iss_def Let_def s2_def iss_def bind_Some_iff)
      have bound: "state_fits l CLOSED" if "a \<in> set (lw_lists s l)" "l \<noteq> L_LISTEN" for l
        using listed_unique [OF ok p(1), of L_BOUND l] that p(2) by (cases "l = L_BOUND") auto
      have ok2: "pcbs_ok s2"
        unfolding s2_def
        by (rule pcbs_ok_put [of _ _ p])
          (use ok s1 p a False bound in \<open>auto simp: connect_init_def\<close>)
      have "conn_frame p p' \<and> sys_frame s s1" if "tcp_enqueue_flags env p TCP_SYN s = Some (ret, p', s1)" for p p' and s s1 :: lw
        using that by (rule tcp_enqueue_flags_frame)
      note q3 = at_pcb_ok [OF q ok2 this, simplified]
      have s2: "lw_pcbs s2 a = Some (connect_init ip port local_port iss connected p)" "lw_lists s2 = lw_lists s"
        using a s1 by (simp_all add: s2_def pcb_put_def connect_init_def)
      show ?thesis
      proof (cases "ret = ERR_OK")
        case False
        then show ?thesis using r q3(1) by simp
      next
        case True
        obtain p1 where p1: "lw_pcbs s3 a = Some p1" using r True by (auto simp: bind_Some_iff)
        have st: "pcb_state p1 = CLOSED"
          using q3(4) [of a] p1 s2 p(2) by (simp add: connect_init_def)
        have a1: "pcb_addr p1 = a" using pcbs_okD(3) [OF q3(1) p1] .
        define s3' where "s3' = (if pcb_local_port p \<noteq> 0 then TCP_RMV L_BOUND a s3 else s3)"
        have ok3: "pcbs_ok s3'" using q3(1) by (simp add: s3'_def pcbs_ok_RMV)
        have un: "unlisted s3' a"
        proof (cases "pcb_local_port p = 0")
          case True
          then have "a \<notin> set (lw_lists s L_BOUND)" using pcbs_okD(6) [OF ok p(1)] by auto
          then show ?thesis
            using True listed_unique [OF q3(1) p1, of L_BOUND] st q3(2) s2 by (auto simp: unlisted_def s3'_def)
        next
          case False
          then show ?thesis
            using unlisted_RMV [OF q3(1), of L_BOUND a] listed_unique [OF q3(1) p1, of L_BOUND] st by (simp add: s3'_def)
        qed
        have p1': "lw_pcbs s3' a = Some p1" using p1 by (simp add: s3'_def)
        let ?s4 = "pcb_put (p1\<lparr>pcb_state := SYN_SENT\<rparr>) s3'"
        have ok4: "pcbs_ok ?s4"
          by (rule pcbs_ok_put_unlisted [OF ok3, of _ p1]) (use p1' a1 un in simp_all)
        have ok5: "pcbs_ok (TCP_REG_ACTIVE a ?s4)"
          by (rule pcbs_ok_REG_ACTIVE [OF ok4, of _ "p1\<lparr>pcb_state := SYN_SENT\<rparr>"]) (use un a1 in \<open>simp_all add: pcb_put_def\<close>)
        have "\<exists>x. at_pcb a (tcp_output env) (TCP_REG_ACTIVE a ?s4) = Some (x, s')"
          using r True p1 by (auto simp: bind_Some_iff Let_def s3'_def TCP_RMV_put split: if_split_asm)
        then show ?thesis using at_pcb_output_ok(1) [OF _ ok5] by blast
      qed
    qed
  qed
qed

section \<open>Closing keeps the lists\<close>

lemma lpcb_free_simps [simp]:
  "lw_pcbs (lpcb_free a s) = lw_pcbs s" "lw_lpcbs (lpcb_free a s) = (lw_lpcbs s)(a := None)" "lw_lists (lpcb_free a s) = lw_lists s"
  "memp_tab (lpcb_free a s) = (memp_tab s)(MEMP_TCP_PCB_LISTEN := a # memp_tab s MEMP_TCP_PCB_LISTEN)"
  by (simp_all add: lpcb_free_def memp_free_def memp_stats_upd_def Let_def)

lemma tcp_lpcb_close_ok:
  assumes "tcp_lpcb_remove a s = Some s1" and "pcbs_ok s"
  shows "pcbs_ok (lpcb_free a s1)"
proof -
  obtain q where q: "lw_lpcbs s a = Some q"
    and s1: "s1 = (TCP_RMV L_LISTEN a s)\<lparr>lw_lpcbs := (lw_lpcbs s)(a \<mapsto> q\<lparr>lpcb_state := CLOSED, lpcb_local_port := 0\<rparr>)\<rparr>"
    using assms(1) by (auto simp: tcp_lpcb_remove_def bind_Some_iff Let_def)
  let ?s = "TCP_RMV L_LISTEN a s"
  have ok: "pcbs_ok ?s" by (rule pcbs_ok_RMV [OF assms(2)])
  have none: "lw_pcbs s a = None" using q pcbs_okD(5) [OF assms(2)] by (cases "lw_pcbs s a") auto
  have "a \<notin> set (lw_lists ?s L_LISTEN)" using pcbs_okD(1) [OF assms(2)] by (simp add: TCP_RMV_def)
  moreover have "a \<notin> set (lw_lists ?s l)" if "l \<noteq> L_LISTEN" for l
    using that none pcbs_okD(2) [OF ok, of a l] by (auto simp: listed_ok_iff state_of_def)
  ultimately have u: "a \<notin> set (lw_lists ?s l)" for l by (cases "l = L_LISTEN") auto
  have "listed_ok (lpcb_free a s1) l b" if "b \<in> set (lw_lists ?s l)" for l b
    using pcbs_okD(2) [OF ok that] u [of l] that
    by (auto simp: listed_ok_iff state_of_def s1 split: if_split_asm)
  moreover have "lw_lists (lpcb_free a s1) = lw_lists ?s" by (simp add: s1)
  moreover have "memp_tab (lpcb_free a s1) = (memp_tab s)(MEMP_TCP_PCB_LISTEN := a # memp_tab s MEMP_TCP_PCB_LISTEN)"
    by (simp add: s1 TCP_RMV_def)
  moreover have "a \<notin> set (memp_tab s MEMP_TCP_PCB @ memp_tab s MEMP_TCP_PCB_LISTEN)" using assms(2) q by (auto simp: pcbs_ok_def)
  ultimately show ?thesis
    using ok assms(2) none s1 by (auto simp: pcbs_ok_def list_all_iff)
qed

lemma TCP_RMV_ACTIVE_simps [simp]:
  "lw_pcbs (TCP_RMV_ACTIVE a s) = lw_pcbs s" "sy_input_pcb (TCP_RMV_ACTIVE a s) = sy_input_pcb s"
  by (simp_all add: TCP_RMV_ACTIVE_def)

lemma close_with_rst_ok:
  assumes e: "close_with_rst env a p s = Some (err, s')" and ok: "pcbs_ok s" and p: "lw_pcbs s a = Some p"
    and st: "pcb_state p = ESTABLISHED \<or> pcb_state p = CLOSE_WAIT"
  shows "pcbs_ok s'"
proof -
  obtain s1 p1 s2 where r: "pcb_rst env p s = Some s1" and pu: "tcp_pcb_purge p s1 = Some (p1, s2)"
    using e by (auto simp: close_with_rst_def bind_Some_iff)
  have fr: "conn_frame p p1" "sys_frame s s2"
    using r tcp_pcb_purge_frame [OF pu] by (auto simp: pcb_rst_def dest!: tcp_rst_frame intro: sys_frame_trans)
  note lw = sys_frame_lw [OF fr(2)]
  have id: "pcb_addr p1 = a" "pcb_state p1 = pcb_state p" "pcb_local_port p1 = pcb_local_port p"
    using fr(1) pcbs_okD(3) [OF ok p] by (simp_all add: conn_frame_def)
  define s3 where "s3 = TCP_RMV_ACTIVE a (pcb_put p1 s2)"
  have ok2: "pcbs_ok (pcb_put p1 s2)"
    using pcbs_ok_put_same [OF pcbs_ok_frame [OF fr(2) ok]] id p lw by simp
  have p2: "lw_pcbs (pcb_put p1 s2) a = Some p1" using id by (simp add: pcb_put_def)
  have ok3: "pcbs_ok s3" "unlisted s3 a" "lw_pcbs s3 a = Some p1"
    using pcbs_ok_RMV [OF ok2] unlisted_RMV [OF ok2, of L_ACTIVE a] listed_unique [OF ok2 p2, of L_ACTIVE] st id p2
    by (auto simp: s3_def TCP_RMV_ACTIVE_def)
  have r': "s' = (if pcb_state p1 = ESTABLISHED then TCP_REG L_TW a (pcb_put (p1\<lparr>pcb_state := TIME_WAIT\<rparr>) s3)
      else if sy_input_pcb s3 = Some a then tcp_trigger_input_pcb_close s3 else pcb_free a s3)"
    using e r pu by (auto simp: close_with_rst_def s3_def split: if_split_asm)
  have "pcbs_ok (pcb_put (p1\<lparr>pcb_state := TIME_WAIT\<rparr>) s3)"
    by (rule pcbs_ok_put_unlisted [OF ok3(1), of _ p1]) (use ok3 id in simp_all)
  then have "pcbs_ok (TCP_REG L_TW a (pcb_put (p1\<lparr>pcb_state := TIME_WAIT\<rparr>) s3))"
    by (rule pcbs_ok_REG) (use ok3 id in \<open>simp_all add: unlisted_def listed_ok_iff state_of_def pcb_put_def\<close>)
  then show ?thesis
    using r' ok3 unlisted_free [OF ok3(1,2)] by (simp add: tcp_trigger_input_pcb_close_def)
qed

lemma close_with_fin_ok:
  assumes e: "close_with_fin env st a s = Some (err, s')" and ok: "pcbs_ok s" and p: "lw_pcbs s a = Some p"
    and st: "state_fits L_ACTIVE (pcb_state p)" "state_fits L_ACTIVE st"
  shows "pcbs_ok s'"
proof -
  obtain err1 s1 where f: "at_pcb a (tcp_send_fin env) s = Some (err1, s1)"
    and r: "(if err1 = ERR_OK then do {
       p \<leftarrow> lw_pcbs s1 a;
       (_, s2) \<leftarrow> at_pcb a (tcp_output env) (pcb_put (p\<lparr>pcb_state := st\<rparr>) s1);
       Some (ERR_OK, s2)
     }
     else Some (err1, s1)) = Some (err, s')"
    using e by (auto simp: close_with_fin_def bind_Some_iff)
  have f1: "pcbs_ok s1" "map_option pcb_state (lw_pcbs s1 b) = map_option pcb_state (lw_pcbs s b)" for b
    by (rule at_pcb_ok(1,4) [OF f ok], erule tcp_send_fin_frame)+
  show ?thesis
  proof (cases "err1 = ERR_OK")
    case False
    then show ?thesis using r f1 by simp
  next
    case True
    then obtain p1 x where p1: "lw_pcbs s1 a = Some p1" and o: "at_pcb a (tcp_output env) (pcb_put (p1\<lparr>pcb_state := st\<rparr>) s1) = Some (x, s')"
      using r by (auto simp: bind_Some_iff)
    have "pcb_state p1 = pcb_state p" using f1(2) [of a] p p1 by simp
    moreover have "pcb_addr p1 = a" using pcbs_okD(3) [OF f1(1) p1] .
    ultimately have "pcbs_ok (pcb_put (p1\<lparr>pcb_state := st\<rparr>) s1)"
      using pcbs_ok_put_fits [OF f1(1), of "p1\<lparr>pcb_state := st\<rparr>" p1 L_ACTIVE] p1 st by simp
    then show ?thesis by (rule at_pcb_output_ok(1) [OF o])
  qed
qed

lemma tcp_close_shutdown_ok:
  assumes e: "tcp_close_shutdown env a rst s = Some (err, s')" and ok: "pcbs_ok s"
  shows "pcbs_ok s'"
proof (cases "lw_lpcbs s a")
  case (Some q)
  then show ?thesis using e ok by (auto simp: tcp_close_shutdown_def bind_Some_iff dest: tcp_lpcb_close_ok)
next
  case None
  then obtain p where p: "lw_pcbs s a = Some p" using e by (auto simp: tcp_close_shutdown_def bind_Some_iff)
  note uniq = listed_unique [OF ok p]
  show ?thesis
  proof (cases "rst \<and> (pcb_state p = ESTABLISHED \<or> pcb_state p = CLOSE_WAIT) \<and> (pcb_refused_data p \<noteq> [] \<or> pcb_rcv_wnd p \<noteq> TCP_WND)")
    case True
    then have "close_with_rst env a p s = Some (err, s')" using e None p by (simp add: tcp_close_shutdown_def)
    then show ?thesis using close_with_rst_ok ok p True by blast
  next
    case False
    note e' = e [unfolded tcp_close_shutdown_def None option.case p Option.bind.bind_lunit if_not_P [OF False]]
    show ?thesis
    proof (cases "pcb_state p")
      case CLOSED
      define s1 where "s1 = (if pcb_local_port p \<noteq> 0 then TCP_RMV L_BOUND a s else s)"
      have s': "s' = pcb_free a s1" using e' CLOSED by (simp add: s1_def)
      have "unlisted s1 a"
      proof (cases "pcb_local_port p = 0")
        case True
        then have "a \<notin> set (lw_lists s L_BOUND)" using pcbs_okD(6) [OF ok p] by auto
        then show ?thesis using True uniq [of L_BOUND] CLOSED by (auto simp: unlisted_def s1_def)
      next
        case False
        then show ?thesis using unlisted_RMV [OF ok, of L_BOUND a] uniq [of L_BOUND] CLOSED by (simp add: s1_def)
      qed
      moreover have "pcbs_ok s1" "lw_pcbs s1 a = Some p" using ok p by (simp_all add: s1_def pcbs_ok_RMV)
      ultimately show ?thesis unfolding s' by (intro unlisted_free) simp_all
    next
      case SYN_SENT
      then obtain s1 where s1: "TCP_PCB_REMOVE_ACTIVE env a s = Some s1" and s': "s' = pcb_free a s1"
        using e' by (auto simp: bind_Some_iff)
      have "pcbs_ok s1 \<and> unlisted s1 a \<and> lw_pcbs s1 a \<noteq> None"
        using uniq [of L_ACTIVE] SYN_SENT by (intro TCP_PCB_REMOVE_ACTIVE_ok [OF s1 ok]) auto
      then show ?thesis unfolding s' by (intro unlisted_free) simp_all
    qed (use e' ok p in \<open>auto intro: close_with_fin_ok\<close>)
  qed
qed

lemma pcbs_ok_set_flag: "pcbs_ok s \<Longrightarrow> lw_pcbs s a = Some p \<Longrightarrow> pcbs_ok (pcb_put (set_flag f p) s)"
  using pcbs_ok_put_same [of s "set_flag f p" p] pcbs_okD(3) [of s a p] by (simp add: set_flag_def)

lemma tcp_close_ok:
  assumes "tcp_close env a s = Some (err, s')" and "pcbs_ok s"
  shows "pcbs_ok s'"
proof (cases "lw_lpcbs s a")
  case (Some q)
  then show ?thesis using assms by (auto simp: tcp_close_def intro: tcp_close_shutdown_ok)
next
  case None
  then obtain p where "lw_pcbs s a = Some p" "tcp_close_shutdown env a True (pcb_put (set_flag TF_RXCLOSED p) s) = Some (err, s')"
    using assms by (auto simp: tcp_close_def bind_Some_iff)
  then show ?thesis using tcp_close_shutdown_ok pcbs_ok_set_flag [OF assms(2)] by blast
qed

lemma tcp_shutdown_ok:
  assumes "tcp_shutdown env a rx tx s = Some (err, s')" and "pcbs_ok s"
  shows "pcbs_ok s'"
proof (cases "lw_lpcbs s a")
  case (Some q)
  then show ?thesis using assms by (simp add: tcp_shutdown_def)
next
  case None
  then obtain p where p: "lw_pcbs s a = Some p" using assms by (auto simp: tcp_shutdown_def bind_Some_iff)
  note ad = pcbs_okD(3) [OF assms(2) p]
  show ?thesis
  proof (cases "rx \<and> tx")
    case True
    then have "tcp_close_shutdown env a True (pcb_put (set_flag TF_RXCLOSED p) s) = Some (err, s')"
      using assms None p by (simp add: tcp_shutdown_def)
    then show ?thesis using tcp_close_shutdown_ok pcbs_ok_set_flag [OF assms(2) p] by blast
  next
    case False
    define rd where "rd = (if rx then do {
                 let p1 = set_flag TF_RXCLOSED p;
                 if pcb_refused_data p1 \<noteq> [] then do {
                   (_, s1) \<leftarrow> pbuf_free (pcb_refused_data p1) s;
                   Some (pcb_put (p1\<lparr>pcb_refused_data := []\<rparr>) s1)
                 } else Some (pcb_put p1 s)
               } else Some s)"
    obtain s1 where s1: "rd = Some s1"
      and r: "(if tx then
              (if pcb_state p = SYN_RCVD \<or> pcb_state p = ESTABLISHED \<or> pcb_state p = CLOSE_WAIT
               then tcp_close_shutdown env a rx s1
               else Some (ERR_CONN, s1))
            else Some (ERR_OK, s1)) = Some (err, s')"
      using assms(1) None p False by (auto simp: tcp_shutdown_def rd_def [symmetric] bind_Some_iff Let_def)
    have put: "pcbs_ok (pcb_put p1 s1)" if "mem_frame s s1" "pcb_addr p1 = a" "pcb_state p1 = pcb_state p" "pcb_local_port p1 = pcb_local_port p"
      for p1 s1
      using pcbs_ok_put_same [OF pcbs_ok_frame [OF mem_sys_frame [OF that(1)] assms(2)], of p1 p] that p
        sys_frame_lw(1) [OF mem_sys_frame [OF that(1)]] by simp
    have "pcbs_ok s1"
      using s1 assms(2) ad
      by (auto simp: rd_def Let_def bind_Some_iff set_flag_def split: if_split_asm dest!: pbuf_free_frame intro!: put)
    then show ?thesis using r tcp_close_shutdown_ok by (auto split: if_split_asm)
  qed
qed

section \<open>Aborting and allocating keep the lists\<close>

text \<open>An application whose callbacks keep a property of the state of the stack.\<close>

definition app_keeps :: "(lw \<Rightarrow> bool) \<Rightarrow> app \<Rightarrow> bool" where
  "app_keeps I app \<longleftrightarrow>
     (\<forall>f arg a e s r s'. app_accept app f arg a e s = Some (r, s') \<longrightarrow> I s \<longrightarrow> I s') \<and>
     (\<forall>f arg a p e s r s'. app_recv app f arg a p e s = Some (r, s') \<longrightarrow> I s \<longrightarrow> I s') \<and>
     (\<forall>f arg a n s r s'. app_sent app f arg a n s = Some (r, s') \<longrightarrow> I s \<longrightarrow> I s') \<and>
     (\<forall>f arg a e s r s'. app_connected app f arg a e s = Some (r, s') \<longrightarrow> I s \<longrightarrow> I s') \<and>
     (\<forall>f arg a s r s'. app_poll app f arg a s = Some (r, s') \<longrightarrow> I s \<longrightarrow> I s') \<and>
     (\<forall>f arg e s s'. app_err app f arg e s = Some s' \<longrightarrow> I s \<longrightarrow> I s')"

lemma app_keepsD:
  assumes "app_keeps I app" and "I s"
  shows "app_accept app f arg a e s = Some (r, s') \<Longrightarrow> I s'" and "app_recv app f arg a p e s = Some (r, s') \<Longrightarrow> I s'"
    and "app_sent app f arg a n s = Some (r, s') \<Longrightarrow> I s'" and "app_connected app f arg a e s = Some (r, s') \<Longrightarrow> I s'"
    and "app_poll app f arg a s = Some (r, s') \<Longrightarrow> I s'" and "app_err app f arg e s = Some s' \<Longrightarrow> I s'"
  using assms unfolding app_keeps_def by - (fast, fast, fast, fast, fast, fast)

lemma tcp_abandon_ok:
  assumes e: "tcp_abandon env app a reset s = Some s'" and ok: "pcbs_ok s" and app: "app_keeps pcbs_ok app"
  shows "pcbs_ok s'"
proof -
  obtain p where p: "lw_pcbs s a = Some p" using e by (auto simp: tcp_abandon_def bind_Some_iff)
  note uniq = listed_unique [OF ok p]
  show ?thesis
  proof (cases "pcb_state p = TIME_WAIT")
    case True
    then obtain s1 where s1: "tcp_pcb_remove env L_TW a s = Some s1" and s': "s' = pcb_free a s1"
      using e p by (auto simp: tcp_abandon_def bind_Some_iff)
    have "pcbs_ok s1 \<and> unlisted s1 a \<and> lw_pcbs s1 a \<noteq> None"
      by (rule tcp_pcb_remove_ok [OF s1 ok]) (use uniq [of L_TW] True in auto)
    then show ?thesis unfolding s' by (intro unlisted_free) simp_all
  next
    case False
    define rm where "rm = (if pcb_state p = CLOSED \<and> pcb_local_port p \<noteq> 0 then Some (False, TCP_RMV L_BOUND a s)
          else do { s1 \<leftarrow> TCP_PCB_REMOVE_ACTIVE env a s; Some (reset, s1) })"
    obtain send_rst s1 p1 s2 s3 s4 s5 where s1: "rm = Some (send_rst, s1)" and p1: "lw_pcbs s1 a = Some p1"
      and f: "tcp_segs_free (pcb_unacked p1) s1 = Some s2" "tcp_segs_free (pcb_unsent p1) s2 = Some s3"
        "tcp_segs_free (pcb_ooseq p1) s3 = Some s4"
      and s5: "(if send_rst then tcp_rst env (pcb_snd_nxt p) (pcb_rcv_nxt p) (pcb_remote_ip p1)
                (pcb_connid1 p1, pcb_connid2 p1) (pcb_remote_udp_port p1) s4 else Some s4) = Some s5"
      and r: "TCP_EVENT_ERR app (pcb_errf p) (pcb_callback_arg p) ERR_ABRT (pcb_free a s5) = Some s'"
      using e p False unfolding tcp_abandon_def rm_def [symmetric] by (auto simp: bind_Some_iff rm_def [symmetric])
    have ok1: "pcbs_ok s1 \<and> unlisted s1 a \<and> lw_pcbs s1 a \<noteq> None"
    proof (cases "pcb_state p = CLOSED \<and> pcb_local_port p \<noteq> 0")
      case True
      then have "s1 = TCP_RMV L_BOUND a s" using s1 by (simp add: rm_def)
      then show ?thesis
        using pcbs_ok_RMV [OF ok] unlisted_RMV [OF ok, of L_BOUND a] uniq [of L_BOUND] True p by simp
    next
      case no: False
      then have rm: "TCP_PCB_REMOVE_ACTIVE env a s = Some s1" using s1 unfolding rm_def if_not_P [OF no] by (auto simp: bind_Some_iff)
      show ?thesis
      proof (rule TCP_PCB_REMOVE_ACTIVE_ok [OF rm ok])
        have fits: "pcb_state p = CLOSED \<or> state_fits L_ACTIVE (pcb_state p)"
          using False pcbs_okD(4) [OF ok p] by auto
        show "a \<notin> set (lw_lists s L_BOUND)"
          using fits no pcbs_okD(6) [OF ok p] uniq [of L_ACTIVE L_BOUND] by auto
        show "a \<notin> set (lw_lists s L_TW)"
          using fits uniq [of L_ACTIVE L_TW] uniq [of L_BOUND L_TW] by auto
      qed
    qed
    have fr: "sys_frame s1 s5"
      using f s5 by (auto split: if_split_asm dest!: frame_dests tcp_rst_frame intro: sys_frame_trans)
    have "pcbs_ok (pcb_free a s5)"
      by (rule unlisted_free [OF pcbs_ok_frame [OF fr]]) (use ok1 sys_frame_lw [OF fr] in \<open>simp_all add: unlisted_def\<close>)
    then show ?thesis using r app_keepsD(6) [OF app] by (auto simp: TCP_EVENT_ERR_def split: option.split_asm)
  qed
qed

lemma kill_ok:
  assumes "pcbs_ok s" and "app_keeps pcbs_ok app"
  shows "tcp_kill_prio env app prio s = Some s' \<Longrightarrow> pcbs_ok s'" and "tcp_kill_state env app st s = Some s' \<Longrightarrow> pcbs_ok s'"
    and "tcp_kill_timewait env app s = Some s' \<Longrightarrow> pcbs_ok s'"
  using assms
  by (auto simp: tcp_kill_prio_def tcp_kill_state_def tcp_kill_timewait_def tcp_abort_def bind_Some_iff
      split: option.split_asm intro: tcp_abandon_ok)

definition fresh_pcb :: "nat \<Rightarrow> lw \<Rightarrow> bool" where
  "fresh_pcb a s \<longleftrightarrow> lw_pcbs s a = None \<and> lw_lpcbs s a = None \<and>
     a \<notin> set (memp_tab s MEMP_TCP_PCB @ memp_tab s MEMP_TCP_PCB_LISTEN) \<and> (\<forall>l. a \<notin> set (lw_lists s l))"

lemma memp_stats_dec_err_keeps:
  "pcbs_ok (memp_stats_dec_err t s) = pcbs_ok s" "fresh_pcb a (memp_stats_dec_err t s) = fresh_pcb a s"
proof -
  show "pcbs_ok (memp_stats_dec_err t s) = pcbs_ok s"
    by (rule pcbs_ok_cong) (simp_all add: memp_stats_dec_err_def memp_stats_upd_def)
  show "fresh_pcb a (memp_stats_dec_err t s) = fresh_pcb a s"
    by (simp add: fresh_pcb_def memp_stats_dec_err_def memp_stats_upd_def)
qed

lemma alloc_attempts_ok:
  assumes "alloc_attempts rooms s = Some (ao, s')" and "pcbs_ok s"
    and "\<And>f s s'. f \<in> set rooms \<Longrightarrow> f s = Some s' \<Longrightarrow> pcbs_ok s \<Longrightarrow> pcbs_ok s'"
  shows "pcbs_ok s' \<and> (\<forall>a. ao = Some a \<longrightarrow> fresh_pcb a s')"
  using assms
proof (induction rooms arbitrary: s ao s')
  case Nil
  then have m: "memp_malloc MEMP_TCP_PCB s = (ao, s')" by simp
  show ?case using pcbs_ok_malloc [OF m Nil.prems(2)] by (auto simp: fresh_pcb_def)
next
  case (Cons room rooms)
  obtain r s1 where m: "memp_malloc MEMP_TCP_PCB s = (r, s1)" by fastforce
  note ok1 = pcbs_ok_malloc [OF m Cons.prems(2)]
  show ?case
  proof (cases r)
    case (Some a)
    then have "ao = Some a" "s' = s1" using Cons.prems(1) m by simp_all
    then show ?thesis using ok1 Some by (auto simp: fresh_pcb_def)
  next
    case None
    then obtain s2 s3 where s2: "room s1 = Some s2" and rec: "alloc_attempts rooms s2 = Some (ao, s3)"
      and s': "s' = (if ao \<noteq> None then memp_stats_dec_err MEMP_TCP_PCB s3 else s3)"
      using Cons.prems(1) m by (auto simp: bind_Some_iff)
    have "pcbs_ok s2" by (rule Cons.prems(3) [of room s1]) (use s2 ok1(1) in simp_all)
    have "pcbs_ok s3 \<and> (\<forall>a. ao = Some a \<longrightarrow> fresh_pcb a s3)"
    proof (rule Cons.IH [OF rec \<open>pcbs_ok s2\<close>])
      show "pcbs_ok s'" if "f \<in> set rooms" "f s = Some s'" "pcbs_ok s" for f s s'
        using Cons.prems(3) [of f s s'] that by simp
    qed
    then show ?thesis
      using s' by (auto simp: memp_stats_dec_err_keeps)
  qed
qed

lemma tcp_alloc_ok:
  assumes "tcp_alloc env app prio s = Some (ao, s')" and "pcbs_ok s" and "app_keeps pcbs_ok app"
  shows "pcbs_ok s'"
proof -
  obtain s1 where at: "alloc_attempts [tcp_kill_timewait env app, tcp_kill_state env app LAST_ACK, tcp_kill_state env app CLOSING,
        tcp_kill_prio env app prio] s = Some (ao, s1)"
    and s': "s' = (case ao of None \<Rightarrow> s1 | Some a \<Rightarrow>
       pcb_put (tcp_pcb_new a prio (lw_iss s1 + sy_ticks s1) (sy_ticks s1) (lw_timer_ctr s1)) (s1\<lparr>lw_iss := lw_iss s1 + sy_ticks s1\<rparr>))"
    using assms(1) by (auto simp: tcp_alloc_def bind_Some_iff tcp_next_iss_def Let_def split: option.split_asm)
  have "pcbs_ok s1 \<and> (\<forall>a. ao = Some a \<longrightarrow> fresh_pcb a s1)"
    by (rule alloc_attempts_ok [OF at assms(2)]) (auto intro: kill_ok [OF _ assms(3)])
  then show ?thesis
    unfolding s' by (cases ao) (auto intro!: pcbs_ok_new simp: fresh_pcb_def tcp_pcb_new_def)
qed

section \<open>The timers keep the lists\<close>

lemma conn_frame_timer [simp]:
  "conn_frame p (q\<lparr>pcb_persist_cnt := x0\<rparr>) = conn_frame p q" "conn_frame (p\<lparr>pcb_persist_cnt := x0\<rparr>) q = conn_frame p q"
  "conn_frame p (q\<lparr>pcb_persist_backoff := x1\<rparr>) = conn_frame p q"
  "conn_frame p (q\<lparr>pcb_rto := x2\<rparr>) = conn_frame p q" "conn_frame p (q\<lparr>pcb_ssthresh := x3\<rparr>) = conn_frame p q"
  "conn_frame p (q\<lparr>pcb_cwnd := x4\<rparr>) = conn_frame p q" "conn_frame p (q\<lparr>pcb_keep_cnt_sent := x5\<rparr>) = conn_frame p q"
  "conn_frame p (q\<lparr>pcb_polltmr := x6\<rparr>) = conn_frame p q" "conn_frame (p\<lparr>pcb_last_timer := x7\<rparr>) q = conn_frame p q"
  by (simp_all add: conn_frame_def)

lemma tcp_output_alloc_header_conn:
  "tcp_output_alloc_header env pcb optlen datalen seqno s = Some (p, hdr, pcb', s') \<Longrightarrow> conn_frame pcb pcb' \<and> sys_frame s s'"
  by (auto simp: tcp_output_alloc_header_def Let_def bind_Some_iff list_case_if split: if_split_asm dest!: frame_dests)

lemma tcp_zero_window_probe_frame:
  "tcp_zero_window_probe env pcb s = Some (err, pcb', s') \<Longrightarrow> conn_frame pcb pcb' \<and> sys_frame s s'"
  unfolding tcp_zero_window_probe_def Let_def list_case_if case_prod_beta
  by (auto simp: bind_Some_iff split: if_split_asm dest!: tcp_output_alloc_header_conn frame_dests
      intro: conn_frame_trans sys_frame_trans)

lemma tcp_keepalive_frame:
  "tcp_keepalive env pcb s = Some (err, pcb', s') \<Longrightarrow> conn_frame pcb pcb' \<and> sys_frame s s'"
  by (auto simp: tcp_keepalive_def Let_def bind_Some_iff case_prod_beta split: if_split_asm
      dest!: tcp_output_alloc_header_conn frame_dests intro: conn_frame_trans sys_frame_trans)

lemma slowtmr_persist_frame:
  "slowtmr_persist env pcb s = Some (pcb', s') \<Longrightarrow> conn_frame pcb pcb' \<and> sys_frame s s'"
proof -
  assume e: "slowtmr_persist env pcb s = Some (pcb', s')"
  then obtain n where n: "array_get tcp_persist_backoff (unat (pcb_persist_backoff pcb) - 1) = Some n"
    by (auto simp: slowtmr_persist_def bind_Some_iff)
  define pcb1 where "pcb1 = (if pcb_persist_cnt pcb < n then pcb\<lparr>pcb_persist_cnt := pcb_persist_cnt pcb + 1\<rparr> else pcb)"
  have c: "conn_frame pcb pcb1" by (simp add: pcb1_def)
  show ?thesis
  proof (cases "n \<le> pcb_persist_cnt pcb1")
    case False
    then show ?thesis using e n c by (simp add: slowtmr_persist_def pcb1_def [symmetric])
  next
    case True
    then obtain err pcb2 s1 where z: "tcp_zero_window_probe env pcb1 s = Some (err, pcb2, s1)"
      using e n by (auto simp: slowtmr_persist_def pcb1_def [symmetric] bind_Some_iff)
    then have "s' = s1 \<and> (pcb' = pcb2 \<or> (\<exists>k. pcb' = pcb2\<lparr>pcb_persist_cnt := 0, pcb_persist_backoff := k\<rparr>) \<or> pcb' = pcb2\<lparr>pcb_persist_cnt := 0\<rparr>)"
      using e n True by (simp add: slowtmr_persist_def pcb1_def [symmetric] split: if_split_asm) blast
    then show ?thesis using tcp_zero_window_probe_frame [OF z] c by (auto intro: conn_frame_trans)
  qed
qed

lemma slowtmr_rexmit_frame:
  "slowtmr_rexmit env pcb s = Some (pcb', s') \<Longrightarrow> conn_frame pcb pcb' \<and> sys_frame s s'"
proof -
  assume e: "slowtmr_rexmit env pcb s = Some (pcb', s')"
  have r: "slowtmr_rto p = Some q \<Longrightarrow> conn_frame p q" for p q
    by (auto simp: slowtmr_rto_def Let_def bind_Some_iff split: if_split_asm)
  show ?thesis
    using e by (auto simp: slowtmr_rexmit_def Let_def bind_Some_iff split: if_split_asm
        dest!: tcp_rexmit_rto_frame r intro: conn_frame_trans)
qed

lemma slowtmr_keepalive_frame:
  "slowtmr_keepalive env pcb s = Some (d, pcb', s') \<Longrightarrow> conn_frame pcb pcb' \<and> sys_frame s s'"
  by (auto simp: slowtmr_keepalive_def bind_Some_iff split: if_split_asm dest!: tcp_keepalive_frame)

lemma slowtmr_ooseq_frame:
  "slowtmr_ooseq pcb s = Some (pcb', s') \<Longrightarrow> conn_frame pcb pcb' \<and> sys_frame s s'"
  by (auto simp: slowtmr_ooseq_def bind_Some_iff split: if_split_asm dest!: frame_dests)

lemma slowtmr_check_frame:
  "slowtmr_check env pcb s = Some (r, pcb', s') \<Longrightarrow> conn_frame pcb pcb' \<and> sys_frame s s'"
  by (auto simp: slowtmr_check_def Let_def bind_Some_iff split: if_split_asm
      dest!: slowtmr_persist_frame slowtmr_rexmit_frame slowtmr_keepalive_frame slowtmr_ooseq_frame)
     (blast intro: conn_frame_trans sys_frame_trans)+

text \<open>A new value of a control block that an operation worked on.\<close>

lemma pcbs_ok_put_frame:
  assumes "pcbs_ok s" and "lw_pcbs s a = Some p" and "conn_frame p p'" and "sys_frame s s'"
  shows "pcbs_ok (pcb_put p' s')" and "lw_lists (pcb_put p' s') = lw_lists s" and "lw_pcbs (pcb_put p' s') = (lw_pcbs s)(a \<mapsto> p')"
    and "lw_lpcbs (pcb_put p' s') = lw_lpcbs s"
proof -
  note lw = sys_frame_lw [OF assms(4)]
  have a: "pcb_addr p' = a" using assms(3) pcbs_okD(3) [OF assms(1,2)] by (simp add: conn_frame_def)
  show "pcbs_ok (pcb_put p' s')"
    using pcbs_ok_put_same [OF pcbs_ok_frame [OF assms(4,1)]] a assms(2,3) lw by (simp add: conn_frame_def)
  show "lw_lists (pcb_put p' s') = lw_lists s" "lw_pcbs (pcb_put p' s') = (lw_pcbs s)(a \<mapsto> p')" "lw_lpcbs (pcb_put p' s') = lw_lpcbs s"
    using lw a by (simp_all add: pcb_put_def)
qed

text \<open>A listed block that leaves its list and is freed.\<close>

lemma pcbs_ok_drop:
  assumes "pcbs_ok s" and "lw_pcbs s a = Some p" and "state_fits l (pcb_state p)"
    and "sys_frame (TCP_RMV l a s) s'"
  shows "pcbs_ok (pcb_free a s')"
  by (rule unlisted_free [OF pcbs_ok_frame [OF assms(4) pcbs_ok_RMV [OF assms(1)]]])
    (use unlisted_RMV [OF assms(1), of l a] listed_unique [OF assms(1-3)] sys_frame_lw [OF assms(4)] assms(2)
     in \<open>auto simp: unlisted_def\<close>)

lemma slowtmr_tw_ok:
  "slowtmr_tw prev todo s = Some s' \<Longrightarrow> pcbs_ok s \<Longrightarrow> pcbs_ok s'"
proof (induction prev todo s rule: slowtmr_tw.induct)
  case (2 prev a rest s)
  obtain p where p: "lw_pcbs s a = Some p" "pcb_state p = TIME_WAIT" using "2.prems"(1) by (auto simp: bind_Some_iff)
  show ?case
  proof (cases "240 < idle_ticks p s")
    case False
    then show ?thesis using "2.prems" p "2.IH"(2) [OF p(1) _ False, of "()"] by simp
  next
    case True
    obtain p1 s1 where pu: "tcp_pcb_purge p s = Some (p1, s1)"
      and as: "(prev \<noteq> None) \<noteq> (hd (lw_lists s1 L_TW) = a)"
      and rec: "slowtmr_tw prev rest (pcb_free a (TCP_RMV L_TW a s1)) = Some s'"
      using "2.prems" p True by (auto simp: bind_Some_iff)
    have fr: "sys_frame s s1" using tcp_pcb_purge_frame [OF pu] by simp
    have "pcbs_ok (pcb_free a (TCP_RMV L_TW a s1))"
      by (rule pcbs_ok_drop [OF pcbs_ok_frame [OF fr "2.prems"(2)], where l = L_TW]) (use p sys_frame_lw [OF fr] in auto)
    then show ?thesis using "2.IH"(1) [OF p(1) _ True pu refl _ rec] p(2) as by simp
  qed
qed simp


lemma app_keeps_event:
  assumes "app_keeps pcbs_ok app" and "pcbs_ok s"
  shows "TCP_EVENT_ERR app f arg err s = Some s' \<Longrightarrow> pcbs_ok s'" and "TCP_EVENT_POLL app a s = Some (r, s') \<Longrightarrow> pcbs_ok s'"
  using assms(2) app_keepsD(5,6) [OF assms]
  by (auto simp: TCP_EVENT_ERR_def TCP_EVENT_POLL_def bind_Some_iff split: option.split_asm)

lemma at_pcb_recved_ok: "at_pcb a (tcp_recved env n) s = Some (r, s') \<Longrightarrow> pcbs_ok s \<Longrightarrow> pcbs_ok s'"
  by (rule at_pcb_ok(1), assumption, assumption, erule tcp_recved_frame)

lemma tcp_recv_null_ok: "tcp_recv_null env a p err s = Some (r, s') \<Longrightarrow> pcbs_ok s \<Longrightarrow> pcbs_ok s'"
  by (cases p) (auto simp: tcp_recv_null_def bind_Some_iff split: if_split_asm
      dest!: at_pcb_recved_ok pbuf_free_frame mem_sys_frame intro: tcp_close_ok pcbs_ok_frame)

lemma event_recv_ok:
  assumes "app_keeps pcbs_ok app" and "pcbs_ok s"
  shows "TCP_EVENT_RECV env app a p err s = Some (r, s') \<Longrightarrow> pcbs_ok s'"
    and "TCP_EVENT_CLOSED env app a s = Some (r, s') \<Longrightarrow> pcbs_ok s'"
  using assms(2) app_keepsD(2) [OF assms] tcp_recv_null_ok [OF _ assms(2)]
  by (auto simp: TCP_EVENT_RECV_def TCP_EVENT_CLOSED_def bind_Some_iff option.case_eq_if split: if_split_asm)

text \<open>
  Where the loop of the slow timer stands: it has \<open>todo\<close> of the list before it, and \<open>prev\<close> is somewhere in the part behind it. This
  is what makes a removal take the connection off the list, and whatever the loop skipped between \<open>prev\<close> and it.
\<close>

definition walk :: "nat option \<Rightarrow> nat list \<Rightarrow> nat list \<Rightarrow> bool" where
  "walk prev todo L \<longleftrightarrow> (\<exists>pre. L = pre @ todo \<and> set_option prev \<subseteq> set pre)"

lemma walk_start [simp]: "walk None L L"
  by (simp add: walk_def)

lemma walk_next:
  assumes "walk prev (a # rest) L"
  shows "walk prev rest L" and "walk (Some a) rest L"
proof -
  obtain pre where "L = (pre @ [a]) @ rest" "set_option prev \<subseteq> set (pre @ [a])" using assms by (auto simp: walk_def)
  then show "walk prev rest L" "walk (Some a) rest L" unfolding walk_def by (blast, fastforce)
qed

lemma unlink_after_split:
  "b \<notin> set pre1 \<Longrightarrow> a \<notin> set pre2 \<Longrightarrow> unlink_after b a (pre1 @ b # pre2 @ a # rest) = pre1 @ b # rest"
proof (induction pre1)
  case Nil
  have "dropWhile (\<lambda>x. x \<noteq> a) (pre2 @ a # rest) = a # rest"
    using Nil(2) by (subst dropWhile_append2) auto
  then show ?case by simp
qed auto

lemma walk_unlink:
  assumes "walk prev (a # rest) L" and "distinct L" and "(prev \<noteq> None) \<noteq> (hd L = a)"
  defines "L' \<equiv> (case prev of Some b \<Rightarrow> unlink_after b a L | None \<Rightarrow> tl L)"
  shows "walk prev rest L'" and "distinct L'" and "set L' \<subseteq> set L - {a}"
proof -
  obtain pre where pre: "L = pre @ a # rest" "set_option prev \<subseteq> set pre" using assms(1) by (auto simp: walk_def)
  have "\<exists>pre'. L' = pre' @ rest \<and> set_option prev \<subseteq> set pre' \<and> distinct L' \<and> set L' \<subseteq> set L - {a}"
  proof (cases prev)
    case None
    then have "pre = []" using pre assms(2,3) by (cases pre) auto
    then show ?thesis using None pre assms(2) by (simp add: L'_def)
  next
    case (Some b)
    then obtain pre1 pre2 where p: "pre = pre1 @ b # pre2" "b \<notin> set pre1" using pre(2) by (auto dest: split_list_first)
    have "L' = (pre1 @ [b]) @ rest"
      using unlink_after_split [OF p(2), of a pre2 rest] pre(1) p(1) assms(2) Some by (auto simp: L'_def)
    then show ?thesis using pre(1) p(1) assms(2) Some by (intro exI [of _ "pre1 @ [b]"]) auto
  qed
  then show "walk prev rest L'" "distinct L'" "set L' \<subseteq> set L - {a}" by (auto simp: walk_def)
qed

text \<open>
  The callbacks of the slow timer have to announce a change of the active list. A callback that goes through the interface does, since
  every operation that puts a connection on the list or takes one off sets \<open>tcp_active_pcbs_changed\<close>.
\<close>

definition steady :: "nat list \<Rightarrow> lw \<Rightarrow> bool" where
  "steady L s \<longleftrightarrow> lw_active_changed s \<or> lw_lists s L_ACTIVE = L"

definition timer_app :: "app \<Rightarrow> bool" where
  "timer_app app \<longleftrightarrow>
     (\<forall>L f arg a s r s'. app_poll app f arg a s = Some (r, s') \<longrightarrow> steady L s \<longrightarrow> steady L s') \<and>
     (\<forall>L f arg e s s'. app_err app f arg e s = Some s' \<longrightarrow> steady L s \<longrightarrow> steady L s')"

lemma timer_app_event:
  assumes "timer_app app" and "steady L s"
  shows "TCP_EVENT_ERR app f arg err s = Some s' \<Longrightarrow> steady L s'" and "TCP_EVENT_POLL app a s = Some (r, s') \<Longrightarrow> steady L s'"
  using assms unfolding timer_app_def
  by (auto simp: TCP_EVENT_ERR_def TCP_EVENT_POLL_def bind_Some_iff split: option.split_asm)

text \<open>One removal.\<close>

lemma pcbs_ok_unlink:
  assumes "pcbs_ok s" and "distinct xs" and "set xs \<subseteq> set (lw_lists s l)"
  shows "pcbs_ok (s\<lparr>lw_lists := (lw_lists s)(l := xs)\<rparr>)"
  using assms by (auto simp: pcbs_ok_def list_all_iff)

lemma slowtmr_remove_steps:
  assumes e: "slowtmr_remove env app prev reset a p s = Some s'"
  obtains p1 s1 s3 where "tcp_pcb_purge p s = Some (p1, s1)" and "(prev \<noteq> None) \<noteq> (hd (lw_lists s1 L_ACTIVE) = a)"
    and "(if reset then pcb_rst env p1 (active_unlink prev a s1) else Some (active_unlink prev a s1)) = Some s3"
    and "TCP_EVENT_ERR app (pcb_errf p1) (pcb_callback_arg p1) ERR_ABRT ((pcb_free a s3)\<lparr>lw_active_changed := False\<rparr>) = Some s'"
proof -
  obtain p1 s1 where pu: "tcp_pcb_purge p s = Some (p1, s1)" and as: "(prev \<noteq> None) \<noteq> (hd (lw_lists s1 L_ACTIVE) = a)"
    using e by (auto simp: slowtmr_remove_def bind_Some_iff)
  have "Option.bind (if reset then pcb_rst env p1 (active_unlink prev a s1) else Some (active_unlink prev a s1)) (\<lambda>s3.
      TCP_EVENT_ERR app (pcb_errf p1) (pcb_callback_arg p1) ERR_ABRT ((pcb_free a s3)\<lparr>lw_active_changed := False\<rparr>)) = Some s'"
    using e pu as by (simp add: slowtmr_remove_def Let_def split del: if_split)
  then show thesis using that [OF pu as] by (auto simp only: bind_Some_iff)
qed

lemma slowtmr_remove_ok:
  assumes e: "slowtmr_remove env app prev reset a p s = Some s'" and ok: "pcbs_ok s" and app: "app_keeps pcbs_ok app" "timer_app app"
    and p: "lw_pcbs s a = Some q" "state_fits L_ACTIVE (pcb_state q)" and w: "walk prev (a # rest) (lw_lists s L_ACTIVE)"
  shows "pcbs_ok s'" and "\<not> lw_active_changed s' \<Longrightarrow> walk prev rest (lw_lists s' L_ACTIVE)"
proof -
  obtain p1 s1 s3 where pu: "tcp_pcb_purge p s = Some (p1, s1)" and as: "(prev \<noteq> None) \<noteq> (hd (lw_lists s1 L_ACTIVE) = a)"
    and rs': "(if reset then pcb_rst env p1 (active_unlink prev a s1) else Some (active_unlink prev a s1)) = Some s3"
    and ev: "TCP_EVENT_ERR app (pcb_errf p1) (pcb_callback_arg p1) ERR_ABRT ((pcb_free a s3)\<lparr>lw_active_changed := False\<rparr>) = Some s'"
    by (rule slowtmr_remove_steps [OF e])
  define s2 where "s2 = active_unlink prev a s1"
  note rs = rs' [folded s2_def]
  have fr: "sys_frame s s1" using tcp_pcb_purge_frame [OF pu] by simp
  note lw1 = sys_frame_lw [OF fr]
  have ok1: "pcbs_ok s1" by (rule pcbs_ok_frame [OF fr ok])
  note u = walk_unlink [OF w [folded lw1(3)] pcbs_okD(1) [OF ok1] as]
  have s2: "lw_pcbs s2 a = Some q" "walk prev rest (lw_lists s2 L_ACTIVE)" "a \<notin> set (lw_lists s2 L_ACTIVE)"
    using u p(1) lw1(1) by (auto simp: s2_def active_unlink_def)
  have "set (case prev of Some b \<Rightarrow> unlink_after b a (lw_lists s1 L_ACTIVE) | None \<Rightarrow> tl (lw_lists s1 L_ACTIVE)) \<subseteq> set (lw_lists s1 L_ACTIVE)"
    using u(3) by blast
  then have ok2: "pcbs_ok s2" unfolding s2_def active_unlink_def by (rule pcbs_ok_unlink [OF ok1 u(2)])
  have fr3: "sys_frame s2 s3" using rs by (auto simp: pcb_rst_def split: if_split_asm dest!: tcp_rst_frame)
  have "TCP_RMV L_ACTIVE a s2 = s2" using s2(3) by (simp add: TCP_RMV_def remove1_idem fun_upd_idem)
  then have ok3: "pcbs_ok (pcb_free a s3)" using pcbs_ok_drop [OF ok2 s2(1) p(2)] fr3 by simp
  then show "pcbs_ok s'" using app_keeps_event(1) [OF app(1) _ ev] by simp
  have "steady (lw_lists s2 L_ACTIVE) ((pcb_free a s3)\<lparr>lw_active_changed := False\<rparr>)"
    using sys_frame_lw(3) [OF fr3] by (simp add: steady_def pcb_free_def memp_free_def memp_stats_upd_def Let_def)
  then have "steady (lw_lists s2 L_ACTIVE) s'" by (rule timer_app_event(1) [OF app(2) _ ev])
  then show "walk prev rest (lw_lists s' L_ACTIVE)" if "\<not> lw_active_changed s'" using that s2(2) by (simp add: steady_def)
qed

lemma slowtmr_active_ok:
  assumes "slowtmr_active env app prev todo s = Some s'" and "pcbs_ok s" and app: "app_keeps pcbs_ok app" "timer_app app"
    and "walk prev todo (lw_lists s L_ACTIVE)"
  shows "pcbs_ok s'"
proof -
  have "app_keeps pcbs_ok app \<longrightarrow> timer_app app \<longrightarrow> pcbs_ok s \<longrightarrow> walk prev todo (lw_lists s L_ACTIVE) \<longrightarrow> pcbs_ok s'"
  proof (rule slowtmr_active.raw_induct [of "\<lambda>env app prev todo s s'. app_keeps pcbs_ok app \<longrightarrow> timer_app app \<longrightarrow> pcbs_ok s \<longrightarrow>
        walk prev todo (lw_lists s L_ACTIVE) \<longrightarrow> pcbs_ok s'", OF _ assms(1)],
      intro impI, goal_cases)
    case (1 f env app prev todo s s')
    note ih = "1"(1) [rule_format] and app = "1"(3,4) and ok = "1"(5)
    have again: "f env app None (lw_lists s2 L_ACTIVE) s2 = Some s' \<Longrightarrow> pcbs_ok s2 \<Longrightarrow> pcbs_ok s'" for s2
      using ih [OF _ app] by simp
    show ?case
    proof (cases todo)
      case Nil
      then show ?thesis using "1"(2) ok by simp
    next
      case (Cons a rest)
      note e = "1"(2) [unfolded Cons list.case] and w = "1"(6) [unfolded Cons]
      obtain p where p: "lw_pcbs s a = Some p" using e by (auto simp: bind_Some_iff)
      note e = e [unfolded p Option.bind.bind_lunit]
      show ?thesis
      proof (cases "pcb_last_timer p = lw_timer_ctr s")
        case True
        then have "f env app prev rest s = Some s'" using e by (auto split: if_split_asm)
        then show ?thesis using ih [OF _ app ok] walk_next(1) [OF w] by blast
      next
        case False
        have st: "state_fits L_ACTIVE (pcb_state p)" using e by (auto split: if_split_asm)
        obtain remove reset p1 s1 where ck: "slowtmr_check env (p\<lparr>pcb_last_timer := lw_timer_ctr s\<rparr>) s = Some ((remove, reset), p1, s1)"
          using e False by (auto simp: bind_Some_iff split: if_split_asm)
        have fr: "conn_frame p p1" "sys_frame s s1" using slowtmr_check_frame [OF ck] by simp_all
        show ?thesis
        proof (cases remove)
          case True
          obtain s2 where re: "slowtmr_remove env app prev reset a p1 s1 = Some s2"
            and k: "(if lw_active_changed s2 then f env app None (lw_lists s2 L_ACTIVE) s2 else f env app prev rest s2) = Some s'"
            using e False ck True by (auto simp: bind_Some_iff split: if_split_asm)
          note lw1 = sys_frame_lw [OF fr(2)]
          note re = slowtmr_remove_ok [OF re pcbs_ok_frame [OF fr(2) ok] app p [folded lw1(1)] st w [folded lw1(3)]]
          show ?thesis
          proof (cases "lw_active_changed s2")
            case True
            then show ?thesis using k again re(1) by simp
          next
            case False
            then show ?thesis using k ih [OF _ app re(1) re(2) [OF False]] by simp
          qed
        next
          case keep: False
          define p2 where "p2 = p1\<lparr>pcb_polltmr := pcb_polltmr p1 + 1\<rparr>"
          have c2: "conn_frame p p2" "conn_frame p (p2\<lparr>pcb_polltmr := 0\<rparr>)" using fr(1) by (simp_all add: p2_def)
          note put = pcbs_ok_put_frame(1,2) [OF ok p _ fr(2)]
          show ?thesis
          proof (cases "pcb_pollinterval p2 \<le> pcb_polltmr p2")
            case no: False
            then have "f env app (Some a) rest (pcb_put p2 s1) = Some s'"
              using e False ck keep by (auto simp: p2_def Let_def split: if_split_asm)
            then show ?thesis using ih [OF _ app put(1) [OF c2(1)]] put(2) [OF c2(1)] walk_next(2) [OF w] by simp
          next
            case True
            obtain err s2 where ev: "TCP_EVENT_POLL app a ((pcb_put (p2\<lparr>pcb_polltmr := 0\<rparr>) s1)\<lparr>lw_active_changed := False\<rparr>) = Some (err, s2)"
              and k: "(if lw_active_changed s2 then f env app None (lw_lists s2 L_ACTIVE) s2
                 else if err = ERR_OK then
                   Option.bind (at_pcb a (tcp_output env) s2) (\<lambda>(_, s3). f env app (Some a) rest s3)
                 else f env app (Some a) rest s2) = Some s'"
              using e False ck keep True by (auto simp: p2_def Let_def bind_Some_iff split: if_split_asm)
            have ok2: "pcbs_ok s2" using app_keeps_event(2) [OF app(1) _ ev] put(1) [OF c2(2)] by simp
            have "steady (lw_lists s L_ACTIVE) ((pcb_put (p2\<lparr>pcb_polltmr := 0\<rparr>) s1)\<lparr>lw_active_changed := False\<rparr>)"
              using put(2) [OF c2(2)] by (simp add: steady_def)
            then have "steady (lw_lists s L_ACTIVE) s2" by (rule timer_app_event(2) [OF app(2) _ ev])
            then have w2: "walk (Some a) rest (lw_lists s2 L_ACTIVE)" if "\<not> lw_active_changed s2"
              using that walk_next(2) [OF w] by (simp add: steady_def)
            show ?thesis
            proof (cases "lw_active_changed s2")
              case True
              then show ?thesis using k again ok2 by simp
            next
              case quiet: False
              show ?thesis
              proof (cases "err = ERR_OK")
                case True
                then obtain r3 s3 where o: "at_pcb a (tcp_output env) s2 = Some (r3, s3)" "f env app (Some a) rest s3 = Some s'"
                  using k quiet by (auto simp: bind_Some_iff)
                show ?thesis
                  using ih [OF o(2) app at_pcb_output_ok(1) [OF o(1) ok2]] w2 [OF quiet] at_pcb_output_ok(2) [OF o(1) ok2] by simp
              next
                case False
                then show ?thesis using k quiet ih [OF _ app ok2 w2 [OF quiet]] by simp
              qed
            qed
          qed
        qed
      qed
    qed
  qed
  then show ?thesis using assms by blast
qed

lemma tcp_slowtmr_ok:
  assumes e: "tcp_slowtmr env app s = Some s'" and ok: "pcbs_ok s" and app: "app_keeps pcbs_ok app" "timer_app app"
  shows "pcbs_ok s'"
proof -
  have "pcbs_ok (s\<lparr>sy_ticks := sy_ticks s + 1, lw_timer_ctr := lw_timer_ctr s + 1\<rparr>)"
    using pcbs_ok_cong [of "s\<lparr>sy_ticks := sy_ticks s + 1, lw_timer_ctr := lw_timer_ctr s + 1\<rparr>" s] ok by simp
  then show ?thesis
    using e app by (auto simp: tcp_slowtmr_def Let_def bind_Some_iff dest: slowtmr_active_ok intro: slowtmr_tw_ok)
qed

lemma tcp_process_refused_data_ok:
  assumes "tcp_process_refused_data env app a s = Some (r, s')" and ok: "pcbs_ok s" and app: "app_keeps pcbs_ok app"
  shows "pcbs_ok s'"
proof -
  obtain p where p: "lw_pcbs s a = Some p" using assms(1) by (auto simp: tcp_process_refused_data_def bind_Some_iff)
  have put: "pcbs_ok (pcb_put p' s)" if "lw_pcbs s a = Some q" "pcbs_ok s" "conn_frame q p'" for p' q s
    using pcbs_ok_put_frame(1) [OF that(2,1,3)] by simp
  obtain err s1 where ev: "TCP_EVENT_RECV env app a (pcb_refused_data p) ERR_OK (pcb_put (p\<lparr>pcb_refused_data := []\<rparr>) s) = Some (err, s1)"
    using assms(1) p by (auto simp: tcp_process_refused_data_def bind_Some_iff Let_def)
  have ok1: "pcbs_ok s1" by (rule event_recv_ok(1) [OF app _ ev]) (rule put [OF p ok], simp)
  define fin where "fin \<longleftrightarrow> pb_flags (hd (pcb_refused_data p)) AND PBUF_FLAG_TCP_FIN \<noteq> 0"
  note e = assms(1) [unfolded tcp_process_refused_data_def p Option.bind.bind_lunit Let_def fin_def [symmetric]]
  show ?thesis
  proof (cases "err = ERR_OK \<and> fin")
    case True
    obtain p1 r2 s2 where p1: "lw_pcbs s1 a = Some p1"
      and cl2: "TCP_EVENT_CLOSED env app a (pcb_put (if pcb_rcv_wnd p1 \<noteq> TCP_WND then p1\<lparr>pcb_rcv_wnd := pcb_rcv_wnd p1 + 1\<rparr> else p1) s1) = Some (r2, s2)"
      and "(if r2 = ERR_ABRT then Some (ERR_ABRT, s2) else Some (ERR_OK, s2)) = Some (r, s')"
      using e ev True by (auto simp: bind_Some_iff simp del: if_split)
    then have cl: "TCP_EVENT_CLOSED env app a (pcb_put (if pcb_rcv_wnd p1 \<noteq> TCP_WND then p1\<lparr>pcb_rcv_wnd := pcb_rcv_wnd p1 + 1\<rparr> else p1) s1) = Some (r2, s')"
      by (cases "r2 = ERR_ABRT") auto
    show ?thesis by (rule event_recv_ok(2) [OF app _ cl]) (rule put [OF p1 ok1], simp)
  next
    case False
    then have "s' = s1 \<or> (\<exists>p1 d. lw_pcbs s1 a = Some p1 \<and> s' = pcb_put (p1\<lparr>pcb_refused_data := d\<rparr>) s1)"
      using e ev by (auto simp: bind_Some_iff split: if_split_asm)
    then show ?thesis using ok1 by (auto intro: put [OF _ ok1])
  qed
qed

lemma fasttmr_active_ok:
  assumes "fasttmr_active env app todo s = Some s'" and "pcbs_ok s" and app: "app_keeps pcbs_ok app"
  shows "pcbs_ok s'"
proof -
  have "app_keeps pcbs_ok app \<longrightarrow> pcbs_ok s \<longrightarrow> pcbs_ok s'"
  proof (rule fasttmr_active.raw_induct [of "\<lambda>env app todo s s'. app_keeps pcbs_ok app \<longrightarrow> pcbs_ok s \<longrightarrow> pcbs_ok s'", OF _ assms(1)],
      intro impI, goal_cases)
    case (1 f env app todo s s')
    note ih = "1"(1) [rule_format] and app = "1"(3) and ok = "1"(4)
    show ?case
    proof (cases todo)
      case Nil
      then show ?thesis using "1"(2) ok by simp
    next
      case (Cons a rest)
      note e = "1"(2) [unfolded Cons list.case]
      obtain p where p: "lw_pcbs s a = Some p" using e by (auto simp: bind_Some_iff)
      show ?thesis
      proof (cases "pcb_last_timer p = lw_timer_ctr s")
        case True
        then show ?thesis using e p ih ok app by simp
      next
        case False
        let ?p1 = "p\<lparr>pcb_last_timer := lw_timer_ctr s\<rparr>"
        obtain p2 s2 where o: "(if has_flag TF_ACK_DELAY ?p1 then
                  map_option (\<lambda>(_, p2, s2). (clear_flag (TF_ACK_DELAY OR TF_ACK_NOW) p2, s2))
                    (tcp_output env (tcp_ack_now ?p1) s)
                else Some (?p1, s)) = Some (p2, s2)"
          and k: "(if pcb_refused_data p2 \<noteq> [] then
               Option.bind (tcp_process_refused_data env app a ((pcb_put p2 s2)\<lparr>lw_active_changed := False\<rparr>)) (\<lambda>(_, s3).
               if lw_active_changed s3 then f env app (lw_lists s3 L_ACTIVE) s3
               else f env app rest s3)
             else f env app rest (pcb_put p2 s2)) = Some s'"
          using e p False unfolding Let_def by (auto simp: bind_Some_iff simp del: if_split)
        have fr: "conn_frame p p2 \<and> sys_frame s s2"
          using o by (auto simp: tcp_ack_now_def split: if_split_asm dest!: tcp_output_frame) (simp_all add: conn_frame_def)
        have ok2: "pcbs_ok (pcb_put p2 s2)" using pcbs_ok_put_frame(1) [OF ok p] fr by blast
        then show ?thesis
          using k ih app tcp_process_refused_data_ok [of env app a "(pcb_put p2 s2)\<lparr>lw_active_changed := False\<rparr>"]
          by (auto simp: bind_Some_iff split: if_split_asm)
      qed
    qed
  qed
  then show ?thesis using assms by blast
qed

lemma tcp_fasttmr_ok: "tcp_fasttmr env app s = Some s' \<Longrightarrow> pcbs_ok s \<Longrightarrow> app_keeps pcbs_ok app \<Longrightarrow> pcbs_ok s'"
  using pcbs_ok_cong [of "s\<lparr>lw_timer_ctr := lw_timer_ctr s + 1\<rparr>" s]
  by (auto simp: tcp_fasttmr_def Let_def intro: fasttmr_active_ok)

lemma txnow_loop_ok: "txnow_loop env todo s = Some s' \<Longrightarrow> pcbs_ok s \<Longrightarrow> pcbs_ok s'"
proof (induction todo arbitrary: s)
  case (Cons a todo)
  obtain p s1 where "lw_pcbs s a = Some p"
    and o: "(if has_flag TF_NAGLEMEMERR p then map_option snd (at_pcb a (tcp_output env) s) else Some s) = Some s1"
    and rec: "txnow_loop env todo s1 = Some s'"
    using Cons.prems(1) by (auto simp: bind_Some_iff simp del: if_split)
  have "pcbs_ok s1" using o Cons.prems(2) by (auto split: if_split_asm dest: at_pcb_output_ok(1))
  then show ?case by (rule Cons.IH [OF rec])
qed simp

lemma tcp_tmr_ok:
  assumes e: "tcp_tmr env app s = Some s'" and ok: "pcbs_ok s" and app: "app_keeps pcbs_ok app" "timer_app app"
  shows "pcbs_ok s'"
proof -
  have t: "pcbs_ok (q\<lparr>lw_timer := n\<rparr>) = pcbs_ok q" for q n by (rule pcbs_ok_cong) simp_all
  show ?thesis
    using e app tcp_fasttmr_ok [OF _ ok app(1)]
    by (auto simp: tcp_tmr_def Let_def bind_Some_iff t split: if_split_asm dest!: tcp_slowtmr_ok)
qed

end
