(* ===== verification/Tcp_Api.thy ===== *)
theory Tcp_Api
  imports Tcp_Lists
begin

text \<open>
  The calls an application can make and the timer as one transition system on the state of the stack,
  and the invariant that every reachable state has.
\<close>

section \<open>The interface as a transition system\<close>

lemma set_callbacks_ok:
  assumes "pcbs_ok s"
  shows "tcp_arg a x s = Some s' \<Longrightarrow> pcbs_ok s'" and "tcp_setprio a n s = Some s' \<Longrightarrow> pcbs_ok s'"
    and "tcp_accept a f s = Some s' \<Longrightarrow> pcbs_ok s'" and "tcp_recv a f s = Some s' \<Longrightarrow> pcbs_ok s'"
    and "tcp_sent a f s = Some s' \<Longrightarrow> pcbs_ok s'" and "tcp_err a f s = Some s' \<Longrightarrow> pcbs_ok s'"
    and "tcp_poll a f i s = Some s' \<Longrightarrow> pcbs_ok s'"
proof -
  have put: "pcbs_ok (pcb_put p' s)" if "lw_pcbs s a = Some p" "pcb_addr p' = pcb_addr p" "pcb_state p' = pcb_state p"
    "pcb_local_port p' = pcb_local_port p" for p p'
    using pcbs_ok_put_same [OF assms, of p' p] pcbs_okD(3) [OF assms that(1)] that by simp
  have lput: "pcbs_ok (s\<lparr>lw_lpcbs := (lw_lpcbs s)(a \<mapsto> l')\<rparr>)" if "lw_lpcbs s a = Some l" "lpcb_state l' = lpcb_state l" for l l'
  proof -
    have "listed_ok (s\<lparr>lw_lpcbs := (lw_lpcbs s)(a \<mapsto> l')\<rparr>) = listed_ok s"
      by (rule ext, rule ext) (use that in \<open>auto simp: listed_ok_def state_of_def\<close>)
    moreover have "lw_pcbs s a = None" using pcbs_okD(5) [OF assms, of a] that(1) by (cases "lw_pcbs s a") auto
    ultimately show ?thesis using assms that(1) by (auto simp: pcbs_ok_def)
  qed
  show "tcp_arg a x s = Some s' \<Longrightarrow> pcbs_ok s'"
    by (auto simp: tcp_arg_def bind_Some_iff split: option.split_asm intro!: put lput)
  show "tcp_setprio a n s = Some s' \<Longrightarrow> pcbs_ok s'"
    by (auto simp: tcp_setprio_def bind_Some_iff split: option.split_asm intro!: put lput)
  show "tcp_accept a f s = Some s' \<Longrightarrow> pcbs_ok s'"
    by (auto simp: tcp_accept_def bind_Some_iff split: option.split_asm intro!: put lput)
  show "tcp_recv a f s = Some s' \<Longrightarrow> pcbs_ok s'" by (auto simp: tcp_recv_def bind_Some_iff intro!: put)
  show "tcp_sent a f s = Some s' \<Longrightarrow> pcbs_ok s'" by (auto simp: tcp_sent_def bind_Some_iff intro!: put)
  show "tcp_err a f s = Some s' \<Longrightarrow> pcbs_ok s'" by (auto simp: tcp_err_def bind_Some_iff intro!: put)
  show "tcp_poll a f i s = Some s' \<Longrightarrow> pcbs_ok s'" by (auto simp: tcp_poll_def bind_Some_iff intro!: put)
qed

text \<open>
  One call of the application, or one tick of a timer. A connection that is bound may not be bound
  again: \<open>tcp_bind\<close> does not test that, and a second call would link the block to itself.
\<close>

inductive api_step :: "env \<Rightarrow> app \<Rightarrow> lw \<Rightarrow> lw \<Rightarrow> bool" for env app where
  do_new: "tcp_new env app s = Some (ao, s') \<Longrightarrow> api_step env app s s'"
| do_bind: "tcp_bind (Some a) port s = Some (err, s') \<Longrightarrow> a \<notin> set (lw_lists s L_BOUND) \<Longrightarrow> api_step env app s s'"
| do_listen: "tcp_listen_with_backlog a s = Some (lo, s') \<Longrightarrow> api_step env app s s'"
| do_connect: "tcp_connect env (Some a) ip port connected s = Some (err, s') \<Longrightarrow> api_step env app s s'"
| do_close: "tcp_close env a s = Some (err, s') \<Longrightarrow> api_step env app s s'"
| do_shutdown: "tcp_shutdown env a rx tx s = Some (err, s') \<Longrightarrow> api_step env app s s'"
| do_abort: "tcp_abort env app a s = Some s' \<Longrightarrow> api_step env app s s'"
| do_recved: "at_pcb a (tcp_recved env n) s = Some (u, s') \<Longrightarrow> api_step env app s s'"
| do_write: "at_pcb a (\<lambda>p s. tcp_write env p arg len fl s) s = Some (err, s') \<Longrightarrow> api_step env app s s'"
| do_output: "at_pcb a (tcp_output env) s = Some (err, s') \<Longrightarrow> api_step env app s s'"
| do_arg: "tcp_arg a x s = Some s' \<Longrightarrow> api_step env app s s'"
| do_setprio: "tcp_setprio a n s = Some s' \<Longrightarrow> api_step env app s s'"
| do_accept: "tcp_accept a f s = Some s' \<Longrightarrow> api_step env app s s'"
| do_recv: "tcp_recv a f s = Some s' \<Longrightarrow> api_step env app s s'"
| do_sent: "tcp_sent a f s = Some s' \<Longrightarrow> api_step env app s s'"
| do_err: "tcp_err a f s = Some s' \<Longrightarrow> api_step env app s s'"
| do_poll: "tcp_poll a f i s = Some s' \<Longrightarrow> api_step env app s s'"
| do_timer: "tcp_tmr env app s = Some s' \<Longrightarrow> api_step env app s s'"
| do_txnow: "tcp_txnow env s = Some s' \<Longrightarrow> api_step env app s s'"

lemma api_step_ok:
  assumes "api_step env app s s'" and "app_keeps pcbs_ok app" and "timer_app app" and "pcbs_ok s"
  shows "pcbs_ok s'"
  using assms
proof (induction rule: api_step.induct)
  case (do_write a arg len fl s err s')
  show ?case by (rule at_pcb_ok(1) [OF do_write(1,4)]) (erule tcp_write_frame)
next
  case (do_txnow s s')
  then show ?case by (simp add: tcp_txnow_def txnow_loop_ok)
qed (auto simp: tcp_new_def tcp_abort_def intro: tcp_alloc_ok tcp_bind_ok tcp_listen_ok tcp_connect_ok tcp_close_ok
      tcp_shutdown_ok tcp_abandon_ok at_pcb_recved_ok at_pcb_output_ok(1) set_callbacks_ok tcp_tmr_ok)

section \<open>Properties\<close>

text \<open>
  Whatever sequence of calls an application makes, and however the timer ticks between them, the lists
  of control blocks stay sound: no block is on a list twice or on two lists, every listed block
  exists and is in a state its list is for (in particular the assertion \<open>tcp_pcbs_sane\<close> of the
  code holds), and no block in use can be handed out again. This covers opening, listening,
  closing with and without reset, aborting, the connections that are killed when memory runs out, and
  the removal of dead connections by the timers, with callbacks that may do all of this again
  (a callback of the slow timer announces a change of the active list, as every operation of the interface does).
\<close>

theorem api_keeps_lists:
  assumes "(api_step env app)\<^sup>*\<^sup>* s s'" and "app_keeps pcbs_ok app" and "timer_app app" and "pcbs_ok s"
  shows "pcbs_ok s' \<and> tcp_pcbs_sane s' \<and> (\<forall>l l' a. a \<in> set (lw_lists s' l) \<longrightarrow> a \<in> set (lw_lists s' l') \<longrightarrow> l = l')"
proof -
  have ok: "pcbs_ok s'" using assms(1,4) by (induction rule: rtranclp_induct) (auto intro: api_step_ok [OF _ assms(2,3)])
  then show ?thesis using lists_disjoint [OF ok] pcbs_ok_sane [OF ok] by blast
qed


text \<open>A new connection is bound to port 80 and listens.\<close>

definition ex_free :: lw where
  "ex_free = ex_lw\<lparr>memp_tab := (\<lambda>t. if t = MEMP_TCP_PCB_LISTEN then [210, 211] else [200, 201, 202])\<rparr>"

lemma ex_free_ok: "pcbs_ok ex_free" "app_keeps pcbs_ok ex_app" "timer_app ex_app"
proof -
  have "distinct (lw_lists ex_free l) \<and> list_all (listed_ok ex_free l) (lw_lists ex_free l)" for l
    by (cases l) (simp_all add: ex_free_def ex_lw_def ex_defs listed_ok_def state_of_def)
  then show "pcbs_ok ex_free" by (simp add: pcbs_ok_def) (simp add: ex_free_def ex_lw_def ex_defs)
  show "app_keeps pcbs_ok ex_app" "timer_app ex_app" by (simp_all add: app_keeps_def timer_app_def ex_app_def)
qed

lemma ex_listen:
  "(do { (ao, s1) \<leftarrow> tcp_new ex_env ex_app ex_free;
         (err, s2) \<leftarrow> tcp_bind (Some 200) 80 s1;
         (lo, s3) \<leftarrow> tcp_listen_with_backlog 200 s2;
         Some (lw_lists s1 L_BOUND, lw_lists s3 L_LISTEN, lw_lists s3 L_ACTIVE) }) = Some ([], [210], [50])"
  by (simp add: ex_free_def ex_lw_def ex_defs tcp_new_def tcp_alloc_def memp_malloc_def memp_stats_upd_def
      tcp_next_iss_def tcp_bind_def tcp_listen_with_backlog_def pcb_put_def TCP_REG_def TCP_RMV_def)

theorem api_keeps_lists_witness:
  "\<exists>s. (api_step ex_env ex_app)\<^sup>*\<^sup>* ex_free s \<and> lw_lists s L_LISTEN = [210] \<and> tcp_pcbs_sane s"
proof -
  obtain ao s1 err s2 lo s3 where st: "tcp_new ex_env ex_app ex_free = Some (ao, s1)"
    "tcp_bind (Some 200) 80 s1 = Some (err, s2)" "tcp_listen_with_backlog 200 s2 = Some (lo, s3)"
    and l: "lw_lists s1 L_BOUND = []" "lw_lists s3 L_LISTEN = [210]"
    using ex_listen by (auto simp: bind_Some_iff)
  have steps: "(api_step ex_env ex_app)\<^sup>*\<^sup>* ex_free s3"
  proof -
    have "api_step ex_env ex_app ex_free s1" by (rule do_new [OF st(1)])
    moreover have "api_step ex_env ex_app s1 s2" by (rule do_bind [OF st(2)]) (simp add: l(1))
    moreover have "api_step ex_env ex_app s2 s3" by (rule do_listen [OF st(3)])
    ultimately show ?thesis by (meson r_into_rtranclp rtranclp_trans)
  qed
  from api_keeps_lists [OF this ex_free_ok(2,3,1)] show ?thesis using steps l(2) by blast
qed

end
