(* ===== verification/Tcp_Parse.thy ===== *)
theory Tcp_Parse
  imports Tcp_In Pbuf_Refs Tcp_Examples
begin

text \<open>
  The front of \<open>tcp_input\<close> (src/tcp_in.c): taking a received packet apart, and the option parser, equal to a plain reading of the option bytes.
\<close>

section \<open>Options\<close>

text \<open>
  What the options mean, read off a list of bytes (RFC 793): kind 0 ends the list, kind 1 is
  padding, kind 2 with length 4 is the maximal segment size, and every other option is skipped by its length.
\<close>

definition mss_limit :: "u16 \<Rightarrow> u16" where
  "mss_limit m = (if TCP_MSS < m \<or> m = 0 then TCP_MSS else m)"

function mss_of_options :: "u8 list \<Rightarrow> u16 \<Rightarrow> u16" where
  "mss_of_options [] m = m"
| "mss_of_options [k] m = m"
| "mss_of_options (k # l # r) m =
     (if k = 0 then m
      else if k = 1 then mss_of_options (l # r) m
      else if k = 2 then
        (if l = 4 \<and> 2 \<le> length r
         then mss_of_options (drop 2 r) (mss_limit (push_bit 8 (ucast (r ! 0)) OR ucast (r ! 1)))
         else m)
      else if l < 2 then m
      else mss_of_options (drop (unat l - 2) r) m)"
  by pat_completeness auto
termination by (relation "measure (\<lambda>(bs, m). length bs)") auto

lemma mss_of_options_bounds:
  "mss_of_options bs m = m \<or> 0 < mss_of_options bs m \<and> mss_of_options bs m \<le> TCP_MSS"
proof (induction bs m rule: mss_of_options.induct)
  case (3 k l r m)
  have "0 < mss_limit x \<and> mss_limit x \<le> TCP_MSS" for x
    by (auto simp: mss_limit_def word_gt_0 not_less)
  with 3 show ?case by (auto split: if_splits)
qed auto

definition option_bytes :: "tin \<Rightarrow> nat \<Rightarrow> u8 list" where
  "option_bytes t n = map (\<lambda>i. the (tcp_getoptbyte t (of_nat i))) [0 ..< n]"

lemma option_bytes_drop:
  assumes "i < n"
  shows "drop i (option_bytes t n) = the (tcp_getoptbyte t (of_nat i)) # drop (Suc i) (option_bytes t n)"
  using assms by (subst Cons_nth_drop_Suc [symmetric]) (simp_all add: option_bytes_def)

lemma option_bytes_length [simp]: "length (option_bytes t n) = n"
  by (simp add: option_bytes_def)

lemma u8_bound: "unat (x :: u8) < 256"
  using unsigned_less [of x, where 'a = nat] by simp

text \<open>The loop reads at most one byte behind the options, and what it finds there does not matter.\<close>

lemma parseopt_loop_step:
  assumes "optidx < max_c" and "tcp_getoptbyte t optidx = Some b0" and "tcp_getoptbyte t (optidx + 1) = Some b1"
    and "\<not> int (unat max_c) < int (unat (optidx + 2)) - 2 + 4 \<Longrightarrow>
      tcp_getoptbyte t (optidx + 2) = Some b2 \<and> tcp_getoptbyte t (optidx + 3) = Some b3"
  shows "parseopt_loop t max_c optidx pcb =
     (if b0 = 0 then Some pcb
      else if b0 = 1 then parseopt_loop t max_c (optidx + 1) pcb
      else if b0 = 2 then
        (if b1 \<noteq> 4 \<or> int (unat max_c) < int (unat (optidx + 2)) - 2 + 4 then Some pcb
         else parseopt_loop t max_c (optidx + 4) (pcb\<lparr>pcb_mss := mss_limit (push_bit 8 (ucast b2) OR ucast b3)\<rparr>))
      else if b1 < 2 then Some pcb
      else parseopt_loop t max_c (optidx + 2 + (ucast b1 - 2)) pcb)"
  by (subst parseopt_loop.simps) (use assms in \<open>simp add: mss_limit_def Let_def del: of_nat_unat cong: if_cong\<close>)

lemma parseopt_loop_reference:
  assumes "unat max_c \<le> 40" and "unat optidx \<le> 300"
    and "\<And>i. i \<le> unat max_c \<Longrightarrow> tcp_getoptbyte t (of_nat i) \<noteq> None"
  shows "parseopt_loop t max_c optidx pcb =
    Some (pcb\<lparr>pcb_mss := mss_of_options (drop (unat optidx) (option_bytes t (unat max_c))) (pcb_mss pcb)\<rparr>)"
  using assms(2)
proof (induction "unat max_c - unat optidx" arbitrary: optidx pcb rule: less_induct)
  case less
  define n where "n = unat max_c"
  define i where "i = unat optidx"
  let ?b = "\<lambda>i. the (tcp_getoptbyte t (of_nat i))"
  have oi: "optidx = of_nat i" by (simp add: i_def)
  have mc: "max_c = of_nat n" by (simp add: n_def)
  have n40: "n \<le> 40" using assms(1) by (simp add: n_def)
  have i300: "i \<le> 300" using less.prems by (simp add: i_def)
  have get: "tcp_getoptbyte t (of_nat j) = Some (?b j)" if "j \<le> n" for j
    using assms(3) [of j] that by (simp add: n_def)
  have step: "unat (of_nat j :: u16) = j" if "j < 1000" for j using that by (simp add: unat_of_nat)
  have lt: "(of_nat j :: u16) < max_c \<longleftrightarrow> j < n" if "j < 1000" for j
    using step [OF that] by (simp add: word_less_nat_alt n_def)
  have IH: "parseopt_loop t max_c (of_nat j) p =
      Some (p\<lparr>pcb_mss := mss_of_options (drop j (option_bytes t n)) (pcb_mss p)\<rparr>)" if "i < j" "j \<le> 300" "i < n" for j p
    using less.hyps [of "of_nat j" p] step [of j] that by (simp add: n_def i_def)
  show ?case
  proof (cases "i < n")
    case False
    then show ?thesis using lt [of i] i300 oi step [of i]
      by (subst parseopt_loop.simps) (simp add: n_def [symmetric])
  next
    case True
    note d = option_bytes_drop [OF True, of t]
    have nx: "of_nat i + 1 = (of_nat (Suc i) :: u16)" "of_nat i + 2 = (of_nat (i + 2) :: u16)"
      "of_nat i + 3 = (of_nat (i + 3) :: u16)" "of_nat i + 4 = (of_nat (i + 4) :: u16)"
      by simp_all
    have e: "parseopt_loop t max_c optidx pcb =
       (if ?b i = 0 then Some pcb
        else if ?b i = 1 then parseopt_loop t max_c (of_nat (Suc i)) pcb
        else if ?b i = 2 then
          (if ?b (Suc i) \<noteq> 4 \<or> n < i + 4 then Some pcb
           else parseopt_loop t max_c (of_nat (i + 4))
                  (pcb\<lparr>pcb_mss := mss_limit (push_bit 8 (ucast (?b (i + 2))) OR ucast (?b (i + 3)))\<rparr>))
        else if ?b (Suc i) < 2 then Some pcb
        else parseopt_loop t max_c (of_nat (i + unat (?b (Suc i)))) pcb)"
      using lt [of i] get [of i] get [of "Suc i"] get [of "i + 2"] get [of "i + 3"] step [of "i + 2"] True n40
    proof -
      have a: "of_nat i < max_c" using True i300 lt [of i] by simp
      have b: "tcp_getoptbyte t (of_nat i) = Some (?b i)" using get [of i] True by simp
      have c: "tcp_getoptbyte t (of_nat i + 1) = Some (?b (Suc i))" unfolding nx using get [of "Suc i"] True by simp
      have lim: "int (unat max_c) < int (unat (of_nat i + 2 :: u16)) - 2 + 4 \<longleftrightarrow> n < i + 4"
        unfolding nx using step [of "i + 2"] True n40 by (simp add: n_def del: of_nat_unat of_nat_add) linarith
      have d: "tcp_getoptbyte t (of_nat i + 2) = Some (?b (i + 2)) \<and> tcp_getoptbyte t (of_nat i + 3) = Some (?b (i + 3))"
        if "\<not> int (unat max_c) < int (unat (of_nat i + 2 :: u16)) - 2 + 4"
      proof -
        have "i + 4 \<le> n" using that unfolding lim by linarith
        then have "i + 2 \<le> n" "i + 3 \<le> n" by simp_all
        then show ?thesis unfolding nx by (intro conjI get)
      qed
      have skip: "of_nat i + 2 + (ucast (?b (Suc i)) - 2) = (of_nat (i + unat (?b (Suc i))) :: u16)" by simp
      show ?thesis
        using parseopt_loop_step [OF a b c d, of pcb] unfolding lim skip unfolding nx oi .
    qed
    show ?thesis
    proof (cases "Suc i < n")
      case False
      then have "drop (Suc i) (option_bytes t n) = []" by simp
      then have one: "drop i (option_bytes t n) = [?b i]" using d by simp
      have skip: "parseopt_loop t max_c (of_nat j) pcb = Some pcb" if "i < j" "j \<le> 300" for j
        using IH [OF that True, of pcb] False that by simp
      have "?thesis = (parseopt_loop t max_c optidx pcb = Some pcb)"
        using one by (simp add: n_def [symmetric] i_def [symmetric])
      moreover have "parseopt_loop t max_c optidx pcb = Some pcb"
        unfolding e using skip [of "Suc i"] skip [of "i + unat (?b (Suc i))"] True False n40 u8_bound [of "?b (Suc i)"]
        by (auto simp: word_less_nat_alt not_less)
      ultimately show ?thesis by blast
    next
      case two: True
      note d2 = option_bytes_drop [OF two, of t]
      have bs: "drop i (option_bytes t n) = ?b i # ?b (Suc i) # drop (i + 2) (option_bytes t n)" using d d2 by simp
      have r: "2 \<le> length (drop (i + 2) (option_bytes t n)) \<longleftrightarrow> i + 4 \<le> n" by auto
      have "drop (i + 2) (option_bytes t n) ! 0 = ?b (i + 2)" "drop (i + 2) (option_bytes t n) ! 1 = ?b (i + 3)" if "i + 4 \<le> n"
        using that by (simp_all add: option_bytes_def add.commute)
      note hl = this
      have l: "unat (?b (Suc i)) < 256" by (rule u8_bound)
      let ?o = "option_bytes t n"
      have j1: "parseopt_loop t max_c (of_nat (Suc i)) p = Some (p\<lparr>pcb_mss := mss_of_options (?b (Suc i) # drop (i + 2) ?o) (pcb_mss p)\<rparr>)" for p
        using IH [of "Suc i" p] True n40 d2 by simp
      have j4: "parseopt_loop t max_c (of_nat (i + 4)) p = Some (p\<lparr>pcb_mss := mss_of_options (drop 2 (drop (i + 2) ?o)) (pcb_mss p)\<rparr>)" for p
      proof -
        have s: "2 + (i + 2) = i + 4" by simp
        show ?thesis unfolding drop_drop s by (rule IH) (use True n40 in linarith)+
      qed
      have js: "parseopt_loop t max_c (of_nat (i + unat (?b (Suc i)))) p =
          Some (p\<lparr>pcb_mss := mss_of_options (drop (unat (?b (Suc i)) - 2) (drop (i + 2) ?o)) (pcb_mss p)\<rparr>)"
        if "\<not> ?b (Suc i) < 2" for p
      proof -
        have two: "2 \<le> unat (?b (Suc i))" using that by (simp add: word_less_nat_alt)
        then have s: "unat (?b (Suc i)) - 2 + (i + 2) = i + unat (?b (Suc i))" by linarith
        show ?thesis unfolding drop_drop s by (rule IH) (use two True n40 l in linarith)+
      qed
      have lim: "2 \<le> length (drop (i + 2) ?o) \<longleftrightarrow> \<not> n < i + 4" by auto
      have id: "pcb\<lparr>pcb_mss := pcb_mss pcb\<rparr> = pcb" by simp
      have k2: "(if ?b (Suc i) \<noteq> 4 \<or> n < i + 4 then Some pcb
           else parseopt_loop t max_c (of_nat (i + 4))
                  (pcb\<lparr>pcb_mss := mss_limit (push_bit 8 (ucast (?b (i + 2))) OR ucast (?b (i + 3)))\<rparr>)) =
         Some (pcb\<lparr>pcb_mss := if ?b (Suc i) = 4 \<and> 2 \<le> length (drop (i + 2) ?o)
           then mss_of_options (drop 2 (drop (i + 2) ?o))
             (mss_limit (push_bit 8 (ucast (drop (i + 2) ?o ! 0)) OR ucast (drop (i + 2) ?o ! 1))) else pcb_mss pcb\<rparr>)"
      proof (cases "?b (Suc i) \<noteq> 4 \<or> n < i + 4")
        case True
        then show ?thesis unfolding lim by (simp only: id if_True if_False simp_thms de_Morgan_disj split: if_split) blast
      next
        case False
        then have "i + 4 \<le> n" by linarith
        note hl = hl [OF this]
        show ?thesis unfolding lim hl using False by (simp only: j4 if_True if_False simp_thms de_Morgan_disj) simp
      qed
      have ks: "(if ?b (Suc i) < 2 then Some pcb else parseopt_loop t max_c (of_nat (i + unat (?b (Suc i)))) pcb) =
         Some (pcb\<lparr>pcb_mss := if ?b (Suc i) < 2 then pcb_mss pcb
           else mss_of_options (drop (unat (?b (Suc i)) - 2) (drop (i + 2) ?o)) (pcb_mss pcb)\<rparr>)"
        by (cases "?b (Suc i) < 2") (simp_all only: id js if_True if_False simp_thms)
      have X: "parseopt_loop t max_c optidx pcb = Some (pcb\<lparr>pcb_mss := mss_of_options (drop i ?o) (pcb_mss pcb)\<rparr>)"
        unfolding bs e mss_of_options.simps k2 ks j1
        by (cases "?b i = 0"; cases "?b i = 1"; cases "?b i = 2") (simp_all only: id if_True if_False simp_thms)
      from X show ?thesis by (simp add: n_def i_def)
    qed
  qed
qed

text \<open>
  C16: The option parser always ends and gives what the options mean. When the bytes of the options are there (and the
  one behind them, which it may read), \<open>tcp_parseopt\<close> sets the maximal segment size to the value
  that the plain reading of the option bytes gives, \<open>mss_of_options\<close>, and changes nothing else, whatever the bytes are: padding, unknown
  options, options with a bad length, and options cut off by the end of the header. The new value
  is the old one or lies in \<open>1 .. TCP_MSS\<close>, so that no later division by it can fail.
\<close>

theorem tcp_parseopt_reference:
  assumes "\<And>i. i \<le> 4 * (unat (TCPH_HDRLEN (ti_hdr t)) - 5) \<Longrightarrow> tcp_getoptbyte t (of_nat i) \<noteq> None"
  shows "tcp_parseopt t pcb = Some (pcb\<lparr>pcb_mss :=
      mss_of_options (option_bytes t (4 * (unat (TCPH_HDRLEN (ti_hdr t)) - 5))) (pcb_mss pcb)\<rparr>) \<and>
    (\<forall>bs m. mss_of_options bs m = m \<or> 0 < mss_of_options bs m \<and> mss_of_options bs m \<le> TCP_MSS)"
proof (cases "5 < TCPH_HDRLEN (ti_hdr t)")
  case True
  let ?h = "TCPH_HDRLEN (ti_hdr t)"
  have "unat ?h < 16" 
    using u16_bound [of "th_hdrlen_rsvd_flags (ti_hdr t)"] by (simp add: TCPH_HDRLEN_def unat_drop_bit_eq drop_bit_eq_div unat_div)
  moreover have "5 < unat ?h" using True by (simp add: word_less_nat_alt)
  moreover have "unat (?h - 5) = unat ?h - 5" using True by (simp add: unat_sub word_le_nat_alt word_less_nat_alt)
  ultimately have "unat (push_bit 2 (?h - 5)) = 4 * (unat ?h - 5)" "4 * (unat ?h - 5) \<le> 40"
    unfolding push_bit_eq_mult unat_word_ariths by (simp_all del: unat_sub)
  then show ?thesis
    using True parseopt_loop_reference [of "push_bit 2 (?h - 5)" 0 t pcb] assms mss_of_options_bounds
    by (simp add: tcp_parseopt_def)
next
  case False
  then have "unat (TCPH_HDRLEN (ti_hdr t)) - 5 = 0" by (simp add: word_less_nat_alt)
  then show ?thesis using False mss_of_options_bounds by (simp add: tcp_parseopt_def option_bytes_def)
qed

section \<open>The header of a received packet\<close>

text \<open>Hiding bytes of the first buffer, with the result written out.\<close>

definition hidden :: "pbuf \<Rightarrow> u16 \<Rightarrow> pbuf" where
  "hidden p n = p\<lparr>pb_off := pb_off p + int (unat n), pb_len := pb_len p - n, pb_tot_len := pb_tot_len p - n\<rparr>"

lemma hide_first:
  assumes "chain_ok (p # q)" and "unat n < 32768" and "n \<le> pb_len p"
  shows "pbuf_header (p # q) (- n) = Some (0, hidden p n # q)" and "chain_ok (hidden p n # q)"
    and "pb_bytes (hidden p n) = drop (unat n) (pb_bytes p)"
    and "unat (pb_len (hidden p n)) = unat (pb_len p) - unat n" and "pb_mem (hidden p n) = pb_mem p"
    and "unat (pb_tot_len (hidden p n)) = unat (pb_tot_len p) - unat n"
    and "nat (pb_off (hidden p n)) = nat (pb_off p) + unat n"
proof -
  show "pbuf_header (p # q) (- n) = Some (0, hidden p n # q)"
    unfolding pbuf_header_def hidden_def by (rule pbuf_header_hide [OF assms])
  have le: "unat n \<le> unat (pb_len p)" "unat n \<le> unat (pb_tot_len p)"
    using assms(1,3) by (auto simp: word_le_nat_alt)
  then have un: "unat (pb_len p - n) = unat (pb_len p) - unat n" "unat (pb_tot_len p - n) = unat (pb_tot_len p) - unat n"
    by (simp_all add: unat_sub word_le_nat_alt)
  have off: "0 \<le> pb_off p" "nat (pb_off p + int (unat n)) = nat (pb_off p) + unat n"
    using assms(1) by (simp_all add: pb_ok_def nat_add_distrib del: of_nat_unat)
  show "unat (pb_len (hidden p n)) = unat (pb_len p) - unat n" "unat (pb_tot_len (hidden p n)) = unat (pb_tot_len p) - unat n"
    "nat (pb_off (hidden p n)) = nat (pb_off p) + unat n" "pb_mem (hidden p n) = pb_mem p"
    using un off by (simp_all add: hidden_def del: of_nat_unat)
  show "pb_bytes (hidden p n) = drop (unat n) (pb_bytes p)"
    using un(1) off(2) by (simp add: hidden_def pb_bytes_def drop_take add.commute del: of_nat_unat)
  show "chain_ok (hidden p n # q)"
    using assms(1) un off le by (simp add: hidden_def pb_ok_def del: of_nat_unat)
qed

text \<open>The bytes of a buffer, one by one, are those of its memory from the offset on.\<close>

lemma pb_bytes_nth: "pb_ok p \<Longrightarrow> i < unat (pb_len p) \<Longrightarrow> pb_bytes p ! i = pb_mem p ! (nat (pb_off p) + i)"
  by (simp add: pb_bytes_def pb_ok_def)

lemma input_options_one:
  assumes "chain_ok (p # q)" and "20 \<le> 4 * unat hl" and "4 * unat hl \<le> unat (pb_len p)" and "unat hl < 16"
  shows "input_options (p # q) hl = Some (hl * 4 - TCP_HLEN, None, hidden p (hl * 4) # q)"
proof -
  have u: "unat (hl * 4) = 4 * unat hl" using assms(4) by (simp add: unat_word_ariths)
  have "hl * 4 \<le> pb_len p" using assms(3) u by (simp add: word_le_nat_alt)
  then show ?thesis
    using assms hide_first(1) [OF assms(1), of "hl * 4"] u
    by (simp add: input_options_def input_hide_def Let_def not_less mult.commute [of 4])
qed

lemma input_options_two:
  assumes "chain_ok (p # q # r)" and "20 \<le> unat (pb_len p)" and "unat (pb_len p) < 4 * unat hl"
    and "4 * unat hl \<le> unat (pb_len p) + unat (pb_len q)" and "unat hl < 16"
  shows "\<exists>p'. input_options (p # q # r) hl =
      Some (pb_len p - 20, Some (drop (nat (pb_off q)) (pb_mem q)), p' # hidden q (hl * 4 - pb_len p) # r) \<and>
    unat (pb_len p') = 0 \<and> chain_ok (p' # hidden q (hl * 4 - pb_len p) # r)"
proof -
  let ?h = "hl * 4"
  let ?p1 = "hidden p 20"
  let ?n = "pb_len p - 20"
  let ?p2 = "hidden ?p1 ?n"
  let ?m = "hl * 4 - pb_len p"
  have u: "unat ?h = 4 * unat hl" using assms(5) by (simp add: unat_word_ariths)
  have n20: "unat (20 :: u16) = 20" by simp
  have n: "unat ?n = unat (pb_len p) - 20" using assms(2) unat_sub [of 20 "pb_len p"] by (simp add: word_le_nat_alt)
  have m: "unat ?m = 4 * unat hl - unat (pb_len p)"
    using assms(3) u unat_sub [of "pb_len p" ?h] by (simp add: word_le_nat_alt)
  have o: "unat (?h - 20) = 4 * unat hl - 20"
    using assms(2,3) u unat_sub [of 20 ?h] by (simp add: word_le_nat_alt)
  have c1: "20 \<le> pb_len p" using assms(2) by (simp add: word_le_nat_alt)
  note h1 = hide_first [OF assms(1) _ c1, unfolded n20]
  have l1: "pb_len ?p1 = ?n" by (simp add: hidden_def)
  have c2: "?n \<le> pb_len ?p1" by (simp add: l1)
  have nb: "unat ?n < 32768" using n assms(3,5) by linarith
  note h2 = hide_first [OF h1(2) nb c2]
  have l2: "pb_len ?p2 = 0" by (simp add: hidden_def)
  have ok: "chain_ok (q # r)" using assms(1) by simp
  have c3: "?m \<le> pb_len q" using m assms(4) by (simp add: word_le_nat_alt)
  have mb: "unat ?m < 32768" using m assms(5) by linarith
  note h3 = hide_first [OF ok mb c3]
  have lt: "pb_len ?p1 < ?h - 20" using l1 n o assms(2,3) by (simp add: word_less_nat_alt)
  have om: "?h - 20 - ?n = ?m" by simp
  let ?p' = "?p2\<lparr>pb_tot_len := pb_tot_len ?p2 - ?m\<rparr>"
  have "input_options (p # q # r) hl = Some (?n, Some (drop (nat (pb_off q)) (pb_mem q)), ?p' # hidden q ?m # r)"
    using assms(3) h1(1) h2(1) h3(1) lt om l1 l2
    by (simp add: input_options_def input_hide_def Let_def mult.commute [of 4] less_imp_le)
  moreover have "chain_ok (?p' # hidden q ?m # r)"
  proof -
    have t: "unat (pb_tot_len ?p2) = chain_len (q # r)" using h2(2) l2 by simp
    have "unat ?m \<le> unat (pb_len q)" using c3 by (simp add: word_le_nat_alt)
    then have "unat (pb_tot_len ?p2 - ?m) = chain_len (hidden q ?m # r)"
      using t h3(4) unat_sub [of ?m "pb_tot_len ?p2"] by (simp add: word_le_nat_alt)
    then show ?thesis using h2(2) h3(2) l2 by (simp add: pb_ok_def)
  qed
  ultimately show ?thesis using l2 by (intro exI [of _ ?p']) simp
qed

lemma TCPH_HDRLEN_bound: "unat (TCPH_HDRLEN h) < 16"
  using u16_bound [of "th_hdrlen_rsvd_flags h"] by (simp add: TCPH_HDRLEN_def unat_drop_bit_eq drop_bit_eq_div unat_div)

lemma pad_nth_take: "i < n \<Longrightarrow> n \<le> length bs \<Longrightarrow> pad_nth (take n bs) i = pad_nth bs i"
  by (simp add: pad_nth_def)

lemma tcp_hdr_read_take: "20 \<le> length bs \<Longrightarrow> tcp_hdr_read (take 20 bs) = tcp_hdr_read bs"
  by (simp add: tcp_hdr_read_def rd32_def rd16_def pad_nth_take)

lemma chain_head_bytes:
  assumes "chain_ok (p # q)" and "n \<le> unat (pb_len p)" and "0 < n"
  shows "pb_read p 0 n = Some (take n (chain_bytes (p # q)))"
proof -
  have "0 \<le> pb_off p" "nat (pb_off p) + unat (pb_len p) \<le> length (pb_mem p)" using assms(1) by (simp_all add: pb_ok_def)
  then show ?thesis using assms(2,3) by (simp add: pb_read_def pb_bytes_def)
qed

lemma input_header_parses_spec:
  assumes "chain_ok (p # q)" and "20 \<le> unat (pb_len p)" and "h = tcp_hdr_read (chain_bytes (p # q))"
    and "hlen = 4 * unat (TCPH_HDRLEN h)" and "20 \<le> hlen"
    and "hlen \<le> unat (pb_len p) + (case q of [] \<Rightarrow> 0 | q1 # _ \<Rightarrow> unat (pb_len q1))"
  shows "\<exists>t. input_header (p # q) = Some (Inr t) \<and> ti_hdr t = h \<and> ti_seqno t = th_seqno h \<and> ti_ackno t = th_ackno h \<and>
    ti_flags t = TCPH_FLAGS h \<and> chain_ok (ti_p t) \<and> chain_bytes (ti_p t) = drop hlen (chain_bytes (p # q)) \<and>
    unat (ti_len t) = length (chain_bytes (p # q)) - hlen \<and>
    ti_tcplen t = ti_len t + (if TCPH_FLAGS h AND (TCP_FIN OR TCP_SYN) \<noteq> 0 then 1 else 0) \<and>
    (\<forall>i < hlen - 20. tcp_getoptbyte t (of_nat i) = Some (chain_bytes (p # q) ! (20 + i)))"
proof -
  let ?B = "chain_bytes (p # q)"
  let ?hl = "TCPH_HDRLEN h"
  have lenB: "length ?B = chain_len (p # q)" using assms(1) by simp
  have rd: "pb_read p 0 20 = Some (take 20 ?B)" by (rule chain_head_bytes [OF assms(1,2)]) simp
  have th: "tcp_hdr_read (take 20 ?B) = h" 
  proof -
    have "20 \<le> length ?B" using lenB assms(2) by simp
    then show ?thesis unfolding assms(3) by (rule tcp_hdr_read_take)
  qed
  have nl: "\<not> pb_len p < TCP_HLEN" using assms(2) by (simp add: word_less_nat_alt)
  have b16: "unat ?hl < 16" by (rule TCPH_HDRLEN_bound)
  have u4: "unat (?hl * 4) = hlen" using b16 assms(4) by (simp add: unat_word_ariths)
  have u20: "unat (?hl * 4 - 20) = hlen - 20"
    using u4 assms(5) unat_sub [of 20 "?hl * 4"] by (simp add: word_le_nat_alt)
  have hb: "hlen < 64" using b16 assms(4) by simp
  have okp: "pb_ok p" using assms(1) by simp
  show ?thesis
  proof (cases "hlen \<le> unat (pb_len p)")
    case True
    note o = input_options_one [OF assms(1) _ _ b16, unfolded assms(4) [symmetric], OF assms(5) True]
    have le: "?hl * 4 \<le> pb_len p" using True u4 by (simp add: word_le_nat_alt)
    have u4': "unat (?hl * 4) < 32768" using u4 hb by simp
    note hd = hide_first [OF assms(1) u4' le, unfolded u4]
    have bytes: "chain_bytes (hidden p (?hl * 4) # q) = drop hlen ?B"
      using hd(3) True okp by simp
    have tot: "unat (pb_tot_len (hidden p (?hl * 4))) = length ?B - hlen"
      using chain_ok_tot [OF hd(2)] bytes hd(2) by (metis chain_ok_length length_drop list.distinct(1) list.sel(1))
    define t where "t = \<lparr>ti_hdr = h, ti_p = hidden p (?hl * 4) # q, ti_len = pb_tot_len (hidden p (?hl * 4)), ti_hdroff = pb_off p,
                       ti_opt1len = ?hl * 4 - TCP_HLEN, ti_opts = drop (nat (pb_off p) + 20) (pb_mem p), ti_opt2 = None,
                       ti_seqno = th_seqno h, ti_ackno = th_ackno h, ti_flags = TCPH_FLAGS h,
                       ti_tcplen = pb_tot_len (hidden p (?hl * 4)) +
                         (if TCPH_FLAGS h AND (TCP_FIN OR TCP_SYN) \<noteq> 0 then 1 else 0),
                       ti_recv_data = []\<rparr>"
    have e: "input_header (p # q) = Some (Inr t)"
      using rd th nl o by (simp add: input_header_def t_def Let_def)
    have opts: "tcp_getoptbyte t (of_nat i) = Some (?B ! (20 + i))" if "i < hlen - 20" for i
    proof -
      have "20 + i < unat (pb_len p)" "unat (of_nat i :: u16) = i" using that True hb by (simp_all add: unat_of_nat)
      then show ?thesis using okp pb_bytes_nth [OF okp, of "20 + i"]
        by (auto simp: t_def tcp_getoptbyte_def array_get_def nth_append pb_ok_def add.assoc)
    qed
    have f: "ti_hdr t = h" "ti_seqno t = th_seqno h" "ti_ackno t = th_ackno h" "ti_flags t = TCPH_FLAGS h"
      "ti_p t = hidden p (?hl * 4) # q" "ti_len t = pb_tot_len (hidden p (?hl * 4))"
      "ti_tcplen t = ti_len t + (if TCPH_FLAGS h AND (TCP_FIN OR TCP_SYN) \<noteq> 0 then 1 else 0)"
      by (simp_all only: t_def tin.simps)
    show ?thesis
      by (rule exI [of _ t]) (intro conjI e f(1-4,7) hd(2) [folded f(5)] bytes [folded f(5)] tot [folded f(6)] allI impI opts)
  next
    case False
    then obtain q1 r where q: "q = q1 # r" and le2: "hlen \<le> unat (pb_len p) + unat (pb_len q1)"
      using assms(6) by (cases q) auto
    obtain p' where o: "input_options (p # q1 # r) ?hl =
        Some (pb_len p - 20, Some (drop (nat (pb_off q1)) (pb_mem q1)), p' # hidden q1 (?hl * 4 - pb_len p) # r)"
      and p': "unat (pb_len p') = 0" "chain_ok (p' # hidden q1 (?hl * 4 - pb_len p) # r)"
      using input_options_two [OF assms(1) [unfolded q] assms(2) _ _ b16, unfolded assms(4) [symmetric]] False le2 by auto
    let ?m = "?hl * 4 - pb_len p"
    have m: "unat ?m = hlen - unat (pb_len p)"
      using False u4 unat_sub [of "pb_len p" "?hl * 4"] by (simp add: word_le_nat_alt)
    have mb: "unat ?m < 32768" "?m \<le> pb_len q1" using m hb le2 by (simp_all add: word_le_nat_alt)
    have ok1: "chain_ok (q1 # r)" "pb_ok q1" using assms(1) q by simp_all
    note hd = hide_first [OF ok1(1) mb]
    have bytes: "chain_bytes (p' # hidden q1 ?m # r) = drop hlen ?B"
    proof -
      have "pb_bytes p' = []" using p'(1) by (simp add: pb_bytes_def)
      then show ?thesis using hd(3) okp ok1(2) m False le2 q by simp
    qed
    have tot: "unat (pb_tot_len p') = length ?B - hlen"
      using chain_ok_tot [OF p'(2)] bytes p'(2) by (metis chain_ok_length length_drop list.distinct(1) list.sel(1))
    define t where "t = \<lparr>ti_hdr = h, ti_p = p' # hidden q1 ?m # r, ti_len = pb_tot_len p', ti_hdroff = pb_off p,
                       ti_opt1len = pb_len p - 20, ti_opts = drop (nat (pb_off p) + 20) (pb_mem p),
                       ti_opt2 = Some (drop (nat (pb_off q1)) (pb_mem q1)),
                       ti_seqno = th_seqno h, ti_ackno = th_ackno h, ti_flags = TCPH_FLAGS h,
                       ti_tcplen = pb_tot_len p' + (if TCPH_FLAGS h AND (TCP_FIN OR TCP_SYN) \<noteq> 0 then 1 else 0),
                       ti_recv_data = []\<rparr>"
    have e: "input_header (p # q) = Some (Inr t)"
      using rd th nl o by (simp add: input_header_def t_def Let_def q)
    have opts: "tcp_getoptbyte t (of_nat i) = Some (?B ! (20 + i))" if "i < hlen - 20" for i
    proof -
      have ui: "unat (of_nat i :: u16) = i" using that hb by (simp add: unat_of_nat)
      have n: "unat (pb_len p - 20) = unat (pb_len p) - 20" using assms(2) unat_sub [of 20 "pb_len p"] by (simp add: word_le_nat_alt)
      show ?thesis
      proof (cases "i < unat (pb_len p) - 20")
        case True
        then have "of_nat i < pb_len p - 20" "20 + i < unat (pb_len p)" using ui n by (simp_all add: word_less_nat_alt)
        then show ?thesis using okp pb_bytes_nth [OF okp, of "20 + i"] ui
          by (auto simp: t_def tcp_getoptbyte_def array_get_def nth_append pb_ok_def add.assoc)
      next
        case i: False
        then have "pb_len p - 20 \<le> of_nat i" using ui n by (simp add: word_le_nat_alt)
        then have x: "unat (of_nat i - (pb_len p - 20)) = i - (unat (pb_len p) - 20)" using ui n unat_sub by metis
        let ?j = "i - (unat (pb_len p) - 20)"
        have j: "?j < unat (pb_len q1)" "?j < 256" using that le2 i hb by linarith+
        have "unat (ucast (of_nat i - (pb_len p - 20)) :: u8) = ?j"
          using x j(2) by (simp add: unsigned_ucast_eq take_bit_eq_mod)
        moreover have "\<not> of_nat i < pb_len p - 20" using \<open>pb_len p - 20 \<le> of_nat i\<close> by simp
        moreover have "20 + i - unat (pb_len p) = ?j" "\<not> 20 + i < unat (pb_len p)" using assms(2) i by linarith+
        moreover have "?j < length (pb_mem q1) - nat (pb_off q1)" using j(1) ok1(2) unfolding pb_ok_def by linarith
        ultimately show ?thesis using okp ok1(2) pb_bytes_nth [OF ok1(2) j(1)] j(1)
          by (auto simp: t_def tcp_getoptbyte_def array_get_def nth_append pb_ok_def q)
      qed
    qed
    have f: "ti_hdr t = h" "ti_seqno t = th_seqno h" "ti_ackno t = th_ackno h" "ti_flags t = TCPH_FLAGS h"
      "ti_p t = p' # hidden q1 ?m # r" "ti_len t = pb_tot_len p'"
      "ti_tcplen t = ti_len t + (if TCPH_FLAGS h AND (TCP_FIN OR TCP_SYN) \<noteq> 0 then 1 else 0)"
      by (simp_all only: t_def tin.simps)
    show ?thesis
      by (rule exI [of _ t]) (intro conjI e f(1-4,7) p'(2) [folded f(5)] bytes [folded f(5)] tot [folded f(6)] allI impI opts)
  qed
qed

text \<open>
  C15: A received packet is taken apart correctly, however it is spread over its buffers. If the first buffer holds the
  20 bytes of the header and the options lie in the first buffer or in the first two, then \<open>input_header\<close> succeeds;
  the header is read from the first 20 bytes of the packet, the option bytes \<open>tcp_getoptbyte\<close> gives are the bytes
  from place 20 up to the header length, and what is left as payload is a well-formed chain with
  exactly the bytes behind the header, whose number is the length of the segment.
\<close>

theorem input_header_parses:
  assumes "chain_ok (p # q)" and "20 \<le> unat (pb_len p)" and "h = tcp_hdr_read (chain_bytes (p # q))"
    and "hlen = 4 * unat (TCPH_HDRLEN h)" and "20 \<le> hlen"
    and "hlen \<le> unat (pb_len p) + (case q of [] \<Rightarrow> 0 | q1 # _ \<Rightarrow> unat (pb_len q1))"
  shows "\<exists>t. input_header (p # q) = Some (Inr t) \<and> ti_hdr t = h \<and> ti_seqno t = th_seqno h \<and> ti_ackno t = th_ackno h \<and>
    ti_flags t = TCPH_FLAGS h \<and> chain_ok (ti_p t) \<and> chain_bytes (ti_p t) = drop hlen (chain_bytes (p # q)) \<and>
    unat (ti_len t) = length (chain_bytes (p # q)) - hlen \<and>
    ti_tcplen t = ti_len t + (if TCPH_FLAGS h AND (TCP_FIN OR TCP_SYN) \<noteq> 0 then 1 else 0) \<and>
    (\<forall>i < hlen - 20. tcp_getoptbyte t (of_nat i) = Some (chain_bytes (p # q) ! (20 + i)))"
  by (rule input_header_parses_spec [OF assms])

section \<open>The properties at concrete values\<close>

text \<open>A SYN whose options, padding, MSS 256 and the end mark, begin in the first buffer and end in the second.\<close>

definition ex_syn :: "pbuf list" where
  "ex_syn =
     [\<lparr>pb_addr = 300, pb_mem = tcp_hdr_bytes \<lparr>th_connid1 = 7, th_connid2 = 0, th_seqno = 500, th_ackno = 0,
         th_hdrlen_rsvd_flags = 0x7002, th_wnd = 100\<rparr> @ [1, 2], pb_off = 0, pb_tot_len = 30, pb_len = 22,
         pb_type = PBUF_RAM, pb_flags = 0\<rparr>,
      \<lparr>pb_addr = 301, pb_mem = [4, 1, 0, 0, 0, 0, 11, 12], pb_off = 0, pb_tot_len = 8, pb_len = 8,
         pb_type = PBUF_RAM, pb_flags = 0\<rparr>]"

definition ex_syn_hdr :: tcp_hdr where
  "ex_syn_hdr = \<lparr>th_connid1 = 7, th_connid2 = 0, th_seqno = 500, th_ackno = 0, th_hdrlen_rsvd_flags = 0x7002, th_wnd = 100\<rparr>"

lemma ex_syn_ok:
  "ex_syn = hd ex_syn # tl ex_syn" "chain_ok ex_syn" "unat (pb_len (hd ex_syn)) = 22" "unat (pb_len (hd (tl ex_syn))) = 8"
  "tl ex_syn \<noteq> []" "chain_bytes ex_syn = tcp_hdr_bytes ex_syn_hdr @ [1, 2, 4, 1, 0, 0, 0, 0, 11, 12]"
  "TCPH_HDRLEN ex_syn_hdr = 7"
  by (simp_all add: ex_syn_def ex_syn_hdr_def pb_ok_def pb_bytes_def TCPH_HDRLEN_def)

theorem input_header_parses_witness:
  "\<exists>t. input_header ex_syn = Some (Inr t) \<and> ti_hdr t = ex_syn_hdr \<and> chain_bytes (ti_p t) = [11, 12] \<and>
     tcp_getoptbyte t 3 = Some 1 \<and> ti_tcplen t = 3"
proof -
  have h: "ex_syn_hdr = tcp_hdr_read (chain_bytes (hd ex_syn # tl ex_syn))"
    unfolding ex_syn_ok(1) [symmetric] ex_syn_ok(6) by (rule tcp_hdr_read_bytes [symmetric])
  have q: "28 \<le> unat (pb_len (hd ex_syn)) + (case tl ex_syn of [] \<Rightarrow> 0 | q1 # _ \<Rightarrow> unat (pb_len q1))"
    using ex_syn_ok(3-5) by (cases "tl ex_syn") simp_all
  obtain t where t: "input_header ex_syn = Some (Inr t)" "ti_hdr t = ex_syn_hdr" "chain_bytes (ti_p t) = [11, 12]"
    "unat (ti_len t) = 2" "ti_tcplen t = ti_len t + (if TCPH_FLAGS ex_syn_hdr AND (TCP_FIN OR TCP_SYN) \<noteq> 0 then 1 else 0)"
    "\<forall>i < 8. tcp_getoptbyte t (of_nat i) = Some (chain_bytes ex_syn ! (20 + i))"
    using input_header_parses [of "hd ex_syn" "tl ex_syn" ex_syn_hdr 28, OF _ _ h _ _ q]
    unfolding ex_syn_ok(1) [symmetric] by (auto simp: ex_syn_ok(2-7))
  have "tcp_getoptbyte t 3 = Some 1" using t(6) [rule_format, of 3] by (simp add: ex_syn_ok(6) nth_append)
  moreover have "ti_len t = 2" using t(4) by (simp add: word_unat_eq_iff)
  ultimately show ?thesis using t by (auto simp: ex_syn_hdr_def TCPH_FLAGS_def)
qed

text \<open>The same options: the MSS is 256, what follows the end mark is not looked at.\<close>

definition ex_opts :: tin where
  "ex_opts = \<lparr>ti_hdr = ex_syn_hdr, ti_p = [], ti_len = 0, ti_hdroff = 0, ti_opt1len = 8, ti_opts = [1, 2, 4, 1, 0, 0, 0, 0, 9],
     ti_opt2 = None, ti_seqno = 500, ti_ackno = 0, ti_flags = TCP_SYN, ti_tcplen = 1, ti_recv_data = []\<rparr>"

theorem tcp_parseopt_reference_witness: "tcp_parseopt ex_opts ex_pcb = Some (ex_pcb\<lparr>pcb_mss := 256\<rparr>)"
proof -
  have h: "TCPH_HDRLEN (ti_hdr ex_opts) = 7" using ex_syn_ok(7) by (simp add: ex_opts_def)
  have "tcp_getoptbyte ex_opts (of_nat i) \<noteq> None" if "i \<le> 8" for i
    using that by (simp add: ex_opts_def tcp_getoptbyte_def array_get_def unat_of_nat)
  moreover have "mss_of_options (option_bytes ex_opts 8) (pcb_mss ex_pcb) = 256"
    by (simp add: option_bytes_def upt_rec ex_opts_def tcp_getoptbyte_def array_get_def mss_limit_def)
  ultimately show ?thesis using tcp_parseopt_reference [of ex_opts ex_pcb] h by simp
qed

end
