(* ===== verification/Tcp_Input_Frame.thy ===== *)
theory Tcp_Input_Frame
  imports Tcp_Receive Tcp_Api Tcp_Parse
begin

text \<open>
  What the parts of \<open>tcp_receive\<close> leave alone: the store of control blocks and its lists, the identity of the
  connection, and, but for the record of a FIN, the flags of the segment.
\<close>

section \<open>What processing a segment leaves alone\<close>

text \<open>The store of control blocks and its lists are the same; \<open>conn_step\<close>: a block keeps its identity, and its
  state changes at most as a FIN changes it.\<close>

definition store_same :: "lw \<Rightarrow> lw \<Rightarrow> bool" where
  "store_same s s' \<longleftrightarrow> lw_pcbs s' = lw_pcbs s \<and> lw_lpcbs s' = lw_lpcbs s \<and> lw_lists s' = lw_lists s \<and>
     memp_tab s' MEMP_TCP_PCB = memp_tab s MEMP_TCP_PCB \<and> memp_tab s' MEMP_TCP_PCB_LISTEN = memp_tab s MEMP_TCP_PCB_LISTEN \<and>
     sy_input_pcb s' = sy_input_pcb s \<and> sy_ticks s' = sy_ticks s"

lemma store_same_refl [simp]: "store_same s s" by (simp add: store_same_def)
lemma store_same_trans: "store_same s s1 \<Longrightarrow> store_same s1 s2 \<Longrightarrow> store_same s s2" by (simp add: store_same_def)

lemma sys_frame_store: "sys_frame s s' \<Longrightarrow> store_same s s'"
  by (simp add: store_same_def sys_frame_lw) (simp add: sys_frame_def)

lemma store_same_flags [simp]:
  "store_same s (s'\<lparr>lw_recv_flags := f\<rparr>) = store_same s s'" "store_same (s\<lparr>lw_recv_flags := f\<rparr>) s' = store_same s s'"
  by (simp_all add: store_same_def)

lemma got_fin_store [simp]: "store_same s (got_fin s') = store_same s s'" "store_same (got_fin s) s' = store_same s s'"
  by (simp_all add: got_fin_def)

lemma pcbs_ok_store: "store_same s s' \<Longrightarrow> pcbs_ok s \<Longrightarrow> pcbs_ok s'"
  using pcbs_ok_cong [of s' s] by (simp add: store_same_def)

definition conn_step :: "tcp_pcb \<Rightarrow> tcp_pcb \<Rightarrow> bool" where
  "conn_step p p' \<longleftrightarrow> pcb_addr p' = pcb_addr p \<and> pcb_local_port p' = pcb_local_port p \<and>
     (pcb_state p' = pcb_state p \<or> pcb_state p = ESTABLISHED \<and> pcb_state p' = CLOSE_WAIT)"

lemma conn_step_refl [simp]: "conn_step p p" by (simp add: conn_step_def)
lemma conn_step_trans: "conn_step p q \<Longrightarrow> conn_step q r \<Longrightarrow> conn_step p r" by (auto simp: conn_step_def)
lemma conn_frame_step: "conn_frame p q \<Longrightarrow> conn_step p q" by (simp add: conn_frame_def conn_step_def)

section \<open>tcp_receive\<close>

lemma conn_frame_upd2 [simp]:
  "conn_frame p (q\<lparr>pcb_acked := x0\<rparr>) = conn_frame p q" "conn_frame (p\<lparr>pcb_acked := x0\<rparr>) q = conn_frame p q"
  "conn_frame p (q\<lparr>pcb_rto := x1\<rparr>) = conn_frame p q" "conn_frame (p\<lparr>pcb_rto := x1\<rparr>) q = conn_frame p q"
  "conn_frame p (q\<lparr>pcb_dupacks := x2\<rparr>) = conn_frame p q" "conn_frame (p\<lparr>pcb_dupacks := x2\<rparr>) q = conn_frame p q"
  "conn_frame p (q\<lparr>pcb_lastack := x3\<rparr>) = conn_frame p q" "conn_frame (p\<lparr>pcb_lastack := x3\<rparr>) q = conn_frame p q"
  "conn_frame p (q\<lparr>pcb_cwnd := x4\<rparr>) = conn_frame p q" "conn_frame (p\<lparr>pcb_cwnd := x4\<rparr>) q = conn_frame p q"
  "conn_frame p (q\<lparr>pcb_ssthresh := x5\<rparr>) = conn_frame p q" "conn_frame (p\<lparr>pcb_ssthresh := x5\<rparr>) q = conn_frame p q"
  "conn_frame p (q\<lparr>pcb_polltmr := x6\<rparr>) = conn_frame p q" "conn_frame (p\<lparr>pcb_polltmr := x6\<rparr>) q = conn_frame p q"
  "conn_frame p (q\<lparr>pcb_mss := x7\<rparr>) = conn_frame p q" "conn_frame (p\<lparr>pcb_mss := x7\<rparr>) q = conn_frame p q"
  "conn_frame p (q\<lparr>pcb_keep_cnt_sent := x8\<rparr>) = conn_frame p q" "conn_frame (p\<lparr>pcb_keep_cnt_sent := x8\<rparr>) q = conn_frame p q"
  "conn_frame p (q\<lparr>pcb_tmr := x9\<rparr>) = conn_frame p q" "conn_frame (p\<lparr>pcb_tmr := x9\<rparr>) q = conn_frame p q"
  by (simp_all add: conn_frame_def)

lemma conn_frame_rcv [simp]:
  "conn_frame (receive_window t q) p = conn_frame q p"
  "conn_frame p (receive_window t q) = conn_frame p q" "conn_frame p (receive_rtt t n q) = conn_frame p q"
  "conn_frame p (receive_dupack t e q) = conn_frame p q" "conn_frame p (tcp_ack_now q) = conn_frame p q"
  "conn_frame p (tcp_ack q) = conn_frame p q"
proof -
  show "conn_frame (receive_window t q) p = conn_frame q p" "conn_frame p (receive_window t q) = conn_frame p q" by (simp_all add: receive_window_def Let_def conn_frame_def)
  show "conn_frame p (receive_rtt t n q) = conn_frame p q" by (simp add: receive_rtt_def Let_def conn_frame_def)
  have x: "conn_frame p (tcp_rexmit q) = conn_frame p q" for q
    by (auto simp: tcp_rexmit_def Let_def conn_frame_def split: list.splits)
  have "conn_frame p (tcp_rexmit_fast q) = conn_frame p q" for q
    using x [of q] by (simp add: tcp_rexmit_fast_def Let_def)
  moreover have "conn_frame p (cwnd_grow q) = conn_frame p q" for q by (simp add: cwnd_grow_def conn_frame_def)
  ultimately show "conn_frame p (receive_dupack t e q) = conn_frame p q"
    by (simp add: receive_dupack_def Let_def)
  show "conn_frame p (tcp_ack_now q) = conn_frame p q" "conn_frame p (tcp_ack q) = conn_frame p q"
    by (simp_all add: tcp_ack_now_def tcp_ack_def)
qed

lemma cwnd_on_ack_frame: "cwnd_on_ack p = Some p' \<Longrightarrow> conn_frame p p'"
  by (auto simp: cwnd_on_ack_def cwnd_grow_def conn_frame_def bind_Some_iff Let_def split: if_split_asm)

lemma ack_seg_frame: "ack_seg seg p s = Some (p', s') \<Longrightarrow> conn_frame p p' \<and> sys_frame s s'"
  by (auto simp: ack_seg_def bind_Some_iff Let_def dest!: frame_dests split: if_split_asm)

lemma ack_unacked_frame: "ack_unacked n q p s = Some (p', s') \<Longrightarrow> conn_frame p p' \<and> sys_frame s s'"
  by (induction q arbitrary: p s)
    (auto simp: bind_Some_iff dest!: ack_seg_frame split: if_split_asm intro: conn_frame_trans sys_frame_trans)

lemma ack_unsent_frame: "ack_unsent n q p s = Some (p', s') \<Longrightarrow> conn_frame p p' \<and> sys_frame s s'"
  by (induction q arbitrary: p s)
    (auto simp: bind_Some_iff dest!: ack_seg_frame split: if_split_asm intro: conn_frame_trans sys_frame_trans)

lemma receive_new_ack_frame:
  assumes "receive_new_ack t p s = Some (p', s')"
  shows "conn_frame p p' \<and> sys_frame s s'"
proof -
  obtain p2 p3 p4 where "conn_frame p p2" "cwnd_on_ack p2 = Some p3"
    "ack_unacked (ti_ackno t) (pcb_unacked p3) p3 s = Some (p4, s')" "conn_frame p4 p'"
  proof -
    define p1 where "p1 = (if has_flag TF_INFR p then (clear_flag TF_INFR p)\<lparr>pcb_cwnd := pcb_ssthresh p\<rparr> else p)"
    have "conn_frame p p1" by (simp add: p1_def)
    then have c: "conn_frame p (p1\<lparr>pcb_nrtx := 0, pcb_rto := r, pcb_acked := k, pcb_snd_buf := n, pcb_dupacks := 0, pcb_lastack := l\<rparr>)" for r k n l
      by simp
    have d: "conn_frame q (q\<lparr>pcb_rtime := r, pcb_polltmr := 0\<rparr>)" for q r by simp
    show thesis
      using assms unfolding receive_new_ack_def p1_def [symmetric] Let_def
      by (auto simp: bind_Some_iff) (rule that [OF c], assumption, assumption, simp)
  qed
  then show ?thesis by (meson cwnd_on_ack_frame ack_unacked_frame conn_frame_trans)
qed

lemma receive_ack_frame:
  assumes "receive_ack env t p s = Some (p', s')"
  shows "conn_frame p p' \<and> sys_frame s s'"
proof (cases "in_flag TCP_ACK t")
  case True
  let ?e = "ucast (pcb_snd_wnd p) + pcb_snd_wl2 p"
  let ?p1 = "receive_window t p"
  obtain p2 s1 p3 where p2: "(if TCP_SEQ_LEQ (ti_ackno t) (pcb_lastack ?p1) then
             Some (receive_dupack t ?e (?p1\<lparr>pcb_acked := 0\<rparr>), s)
           else if TCP_SEQ_BETWEEN (ti_ackno t) (pcb_lastack ?p1 + 1) (pcb_snd_nxt ?p1) then
             receive_new_ack t ?p1 s
           else do {
             (_, pcb2, s1) \<leftarrow> tcp_send_empty_ack env (?p1\<lparr>pcb_acked := 0\<rparr>) s;
             Some (pcb2, s1)
           }) = Some (p2, s1)"
    and p3: "ack_unsent (ti_ackno t) (pcb_unsent p2) p2 s1 = Some (p3, s')" and p': "p' = receive_rtt t (sy_ticks s') p3"
    using assms True by (auto simp: receive_ack_def bind_Some_iff Let_def simp del: if_split)
  have "conn_frame p p2 \<and> sys_frame s s1"
    using p2 by (auto simp: bind_Some_iff dest: receive_new_ack_frame tcp_send_empty_ack_frame split: if_split_asm)
  then show ?thesis using ack_unsent_frame [OF p3] p' by (auto intro: conn_frame_trans sys_frame_trans)
next
  case False
  then show ?thesis using assms by (simp add: receive_ack_def)
qed

lemma receive_trim_left_frame: "receive_trim_left t p = Some (t', p') \<Longrightarrow> conn_frame p p'"
  by (auto simp: receive_trim_left_def bind_Some_iff Let_def split: if_split_asm)

lemma receive_trim_right_frame: "receive_trim_right t p s = Some (t', s') \<Longrightarrow> sys_frame s s'"
  by (auto simp: receive_trim_right_def bind_Some_iff Let_def split: if_split_asm dest!: pbuf_realloc_frame mem_sys_frame)

lemma ooseq_covered_frame: "ooseq_covered t q s = Some (t', q', s') \<Longrightarrow> sys_frame s s'"
  by (induction q arbitrary: t s)
    (auto simp: bind_Some_iff Let_def dest!: frame_dests split: if_split_asm intro: sys_frame_trans)

lemma receive_adjust_ooseq_frame:
  assumes "receive_adjust_ooseq t p s = Some (t', p', s')"
  shows "conn_frame p p' \<and> sys_frame s s'"
proof (cases "pcb_ooseq p = [] \<or> inseg_flag TCP_FIN t")
  case True
  then show ?thesis
    using assms by (auto simp: receive_adjust_ooseq_def bind_Some_iff dest!: frame_dests split: if_split_asm)
next
  case False
  then obtain t1 q s1 where c: "ooseq_covered t (pcb_ooseq p) s = Some (t1, q, s1)"
    using assms by (auto simp: receive_adjust_ooseq_def bind_Some_iff)
  show ?thesis
  proof (cases q)
    case Nil
    then show ?thesis using assms False c ooseq_covered_frame [OF c] by (auto simp: receive_adjust_ooseq_def)
  next
    case (Cons n r)
    then show ?thesis using assms False c ooseq_covered_frame [OF c]
      by (auto simp: receive_adjust_ooseq_def bind_Some_iff Let_def dest!: pbuf_realloc_frame [THEN mem_sys_frame]
          split: if_split_asm intro: sys_frame_trans)
  qed
qed

lemma tcp_update_rcv_ann_wnd_frame: "tcp_update_rcv_ann_wnd p = Some (n, p') \<Longrightarrow> conn_frame p p'"
  by (auto simp: tcp_update_rcv_ann_wnd_def bind_Some_iff Let_def split: if_split_asm)

lemma receive_advance_frame: "receive_advance r n p = Some p' \<Longrightarrow> conn_frame p p'"
  by (auto simp: receive_advance_def bind_Some_iff dest!: tcp_update_rcv_ann_wnd_frame)

lemma conn_step_ack_now [simp]: "conn_step p (tcp_ack_now q) = conn_step p q" "conn_step p (tcp_ack q) = conn_step p q"
  by (auto simp: conn_step_def tcp_ack_now_def tcp_ack_def set_flag_def clear_flag_def)

lemma conn_step_ooseq [simp]: "conn_step (p\<lparr>pcb_ooseq := q\<rparr>) p' = conn_step p p'"
  by (simp add: conn_step_def)

lemma ooseq_deliver_frame:
  assumes "ooseq_deliver q t p s = Some (t', p', s')"
  shows "conn_step p p' \<and> store_same s s'"
  using assms
proof (induction q arbitrary: t p s)
  case (Cons c rest)
  show ?case
  proof (cases "seg_seqno c = pcb_rcv_nxt p")
    case True
    let ?fin = "TCPH_FLAGS (sg_hdr c) AND TCP_FIN \<noteq> 0"
    obtain p1 t1 c1 s2 where a: "receive_advance (pcb_rcv_nxt p + TCP_TCPLEN c) (TCP_TCPLEN c) p = Some p1"
      and f: "tcp_seg_free c1 (if ?fin then got_fin s else s) = Some s2"
      and d: "ooseq_deliver rest t1 ((if ?fin \<and> pcb_state p1 = ESTABLISHED then p1\<lparr>pcb_state := CLOSE_WAIT\<rparr> else p1)\<lparr>pcb_ooseq := rest\<rparr>) s2 =
        Some (t', p', s')"
      using Cons.prems True by (auto simp: bind_Some_iff Let_def simp del: if_split)
    have "conn_step p1 (if ?fin \<and> pcb_state p1 = ESTABLISHED then p1\<lparr>pcb_state := CLOSE_WAIT\<rparr> else p1)"
      by (simp add: conn_step_def)
    moreover have "conn_step p p1" using receive_advance_frame [OF a] by (rule conn_frame_step)
    moreover have "store_same (if ?fin then got_fin s else s) s2"
      using tcp_seg_free_frame [OF f] by (intro sys_frame_store mem_sys_frame)
    then have "store_same s s2" by (simp split: if_split_asm)
    ultimately show ?thesis using Cons.IH [OF d] by (auto intro: conn_step_trans store_same_trans)
  qed (use Cons.prems in simp)
qed simp

text \<open>The parts of \<open>receive_in_sequence\<close>.\<close>

lemma receive_in_sequence_cases:
  assumes "receive_in_sequence t p s = Some (t', p', s')"
  obtains t1 s1 t2 p1 s2 p2 t3 s3 p3 where "receive_trim_right (set_tcplen t) p s = Some (t1, s1)"
    and "receive_adjust_ooseq t1 p s1 = Some (t2, p1, s2)"
    and "receive_advance (ti_seqno t2 + ucast (ti_tcplen t2)) (ucast (ti_tcplen t2)) p1 = Some p2"
    and "s3 = s2 \<or> s3 = got_fin s2" and "ooseq_deliver (pcb_ooseq p2) t3 p2 s3 = Some (t', p3, s')" and "p' = tcp_ack p3"
proof -
  obtain t1 s1 t2 p1 s2 p2 where r: "receive_trim_right (set_tcplen t) p s = Some (t1, s1)"
    and a: "receive_adjust_ooseq t1 p s1 = Some (t2, p1, s2)"
    and v: "receive_advance (ti_seqno t2 + ucast (ti_tcplen t2)) (ucast (ti_tcplen t2)) p1 = Some p2"
    using assms by (auto simp: receive_in_sequence_def bind_Some_iff)
  let ?t3 = "if 0 < pb_tot_len (hd (ti_p t2)) then t2\<lparr>ti_recv_data := ti_p t2, ti_p := []\<rparr> else t2"
  let ?s3 = "if inseg_flag TCP_FIN ?t3 then got_fin s2 else s2"
  obtain p3 where d: "ooseq_deliver (pcb_ooseq p2) ?t3 p2 ?s3 = Some (t', p3, s')" and p': "p' = tcp_ack p3"
    using assms r a v by (auto simp: receive_in_sequence_def bind_Some_iff Let_def simp del: if_split)
  show thesis by (rule that [OF r a v _ d p']) simp
qed

lemma receive_in_sequence_frame:
  assumes "receive_in_sequence t p s = Some (t', p', s')"
  shows "conn_step p p' \<and> store_same s s'"
proof (rule receive_in_sequence_cases [OF assms])
  fix t1 s1 t2 p1 s2 p2 t3 s3 p3
  assume r: "receive_trim_right (set_tcplen t) p s = Some (t1, s1)" and a: "receive_adjust_ooseq t1 p s1 = Some (t2, p1, s2)"
    and v: "receive_advance (ti_seqno t2 + ucast (ti_tcplen t2)) (ucast (ti_tcplen t2)) p1 = Some p2"
    and s3: "s3 = s2 \<or> s3 = got_fin s2" and d: "ooseq_deliver (pcb_ooseq p2) t3 p2 s3 = Some (t', p3, s')" and p': "p' = tcp_ack p3"
  have "store_same s2 s3" using s3 by auto
  then have "store_same s s3"
    using receive_trim_right_frame [OF r] receive_adjust_ooseq_frame [OF a] by (meson sys_frame_store store_same_trans)
  moreover have "conn_step p p2" using receive_adjust_ooseq_frame [OF a] receive_advance_frame [OF v]
    by (meson conn_frame_step conn_step_trans)
  moreover note ooseq_deliver_frame [OF d]
  ultimately show ?thesis unfolding p' conn_step_ack_now by (meson conn_step_trans store_same_trans)
qed

lemma oos_cover_frame: "oos_cover n c q s = Some (c', q', s') \<Longrightarrow> sys_frame s s'"
  by (induction q arbitrary: c s)
    (auto simp: bind_Some_iff Let_def dest!: frame_dests split: if_split_asm intro: sys_frame_trans)

lemma seg_trim_frame: "seg_trim n c s = Some (c', s') \<Longrightarrow> sys_frame s s'"
  by (auto simp: seg_trim_def bind_Some_iff dest!: pbuf_realloc_frame mem_sys_frame)

lemma insert_segment_frame:
  assumes "tcp_oos_insert_segment n c q s = Some (q', s')"
  shows "sys_frame s s'"
  using assms
  by (auto simp: tcp_oos_insert_segment_def bind_Some_iff list_case_if
      dest!: frame_dests oos_cover_frame seg_trim_frame split: if_split_asm intro: sys_frame_trans)

lemmas copy_frame = tcp_seg_copy_frame [THEN mem_sys_frame]

lemma oos_append_frame:
  assumes "oos_append t e c s = Some (q', t', s')"
  shows "sys_frame s s'"
proof -
  obtain co s1 where "tcp_seg_copy (inseg t) s = (co, s1)" by fastforce
  then show ?thesis
    using assms
    by (auto simp: oos_append_def bind_Some_iff Let_def dest!: copy_frame seg_trim_frame split: option.split_asm if_split_asm intro: sys_frame_trans)
qed

lemma oos_walk_frame: "oos_walk t e b q s = Some (q', t', s') \<Longrightarrow> sys_frame s s'"
proof (induction q arbitrary: b)
  case (Cons n rest)
  obtain co s1 where "tcp_seg_copy (inseg t) s = (co, s1)" by fastforce
  then show ?case
    using Cons
    by (auto simp: bind_Some_iff Let_def dest!: copy_frame seg_trim_frame insert_segment_frame oos_append_frame
        split: option.split_asm if_split_asm intro: sys_frame_trans)
qed simp

lemma receive_out_of_sequence_frame:
  assumes "receive_out_of_sequence env t p s = Some (t', p', s')"
  shows "conn_frame p p' \<and> sys_frame s s'"
proof -
  obtain e p1 s1 where a: "tcp_send_empty_ack env p s = Some (e, p1, s1)"
    using assms by (auto simp: receive_out_of_sequence_def bind_Some_iff)
  obtain co s2 where c: "tcp_seg_copy (inseg t) s1 = (co, s2)" by fastforce
  show ?thesis
    using assms tcp_send_empty_ack_frame [OF a] copy_frame [OF c]
    by (auto simp: receive_out_of_sequence_def bind_Some_iff a c dest!: oos_walk_frame split: if_split_asm option.split_asm
        intro: sys_frame_trans)
qed

lemma tcp_receive_frame:
  assumes "tcp_receive env t p s = Some (t', p', s')"
  shows "conn_step p p' \<and> store_same s s'"
proof -
  obtain p1 s1 where a: "receive_ack env t p s = Some (p1, s1)"
    using assms by (auto simp: tcp_receive_def bind_Some_iff)
  have f: "conn_step p p1" "store_same s s1" using receive_ack_frame [OF a] by (auto intro: conn_frame_step sys_frame_store)
  show ?thesis
  proof (cases "0 < ti_tcplen t \<and> pcb_state p1 < CLOSE_WAIT")
    case False
    then show ?thesis using assms a f by (auto simp: tcp_receive_def bind_Some_iff intro: conn_step_trans conn_frame_step)
  next
    case True
    then obtain t1 p2 where l: "receive_trim_left t p1 = Some (t1, p2)"
      using assms a by (auto simp: tcp_receive_def bind_Some_iff)
    have f2: "conn_step p p2" using f(1) receive_trim_left_frame [OF l] by (blast intro: conn_step_trans conn_frame_step)
    show ?thesis
      using assms a True l f2 f(2)
      by (auto simp: tcp_receive_def bind_Some_iff split: if_split_asm
          dest!: receive_in_sequence_frame receive_out_of_sequence_frame tcp_send_empty_ack_frame
          intro: conn_step_trans conn_frame_step sys_frame_store store_same_trans)
  qed
qed

text \<open>The only flag of the segment that \<open>tcp_receive\<close> may set is \<open>TF_GOT_FIN\<close>, and only before the peer has closed.\<close>

definition fin_step :: "lw \<Rightarrow> lw \<Rightarrow> bool" where
  "fin_step s s' \<longleftrightarrow> lw_recv_flags s' = lw_recv_flags s \<or> lw_recv_flags s' = lw_recv_flags s OR TF_GOT_FIN"

lemma fin_step_refl [simp]: "fin_step s s" by (simp add: fin_step_def)
lemma fin_step_trans: "fin_step s s1 \<Longrightarrow> fin_step s1 s2 \<Longrightarrow> fin_step s s2"
  by (auto simp: fin_step_def or.assoc)

lemma sys_frame_fin: "sys_frame s s' \<Longrightarrow> lw_recv_flags s' = lw_recv_flags s"
  unfolding sys_frame_def by (cases s; cases s'; simp)

lemma sys_fin_step: "sys_frame s s' \<Longrightarrow> fin_step s s'"
  by (simp add: fin_step_def sys_frame_fin)

lemma got_fin_step [simp]: "fin_step s (got_fin s)" by (simp add: fin_step_def got_fin_def)

lemma ooseq_deliver_fin:
  assumes "ooseq_deliver q t p s = Some (t', p', s')"
  shows "fin_step s s'"
  using assms
proof (induction q arbitrary: t p s)
  case (Cons c rest)
  show ?case
  proof (cases "seg_seqno c = pcb_rcv_nxt p")
    case True
    let ?fin = "TCPH_FLAGS (sg_hdr c) AND TCP_FIN \<noteq> 0"
    obtain p1 t1 c1 s2 where f: "tcp_seg_free c1 (if ?fin then got_fin s else s) = Some s2"
      and d: "ooseq_deliver rest t1 p1 s2 = Some (t', p', s')"
      using Cons.prems True by (auto simp: bind_Some_iff Let_def simp del: if_split)
    have "fin_step s (if ?fin then got_fin s else s)" by simp
    then show ?thesis
      using Cons.IH [OF d] sys_fin_step [OF mem_sys_frame [OF tcp_seg_free_frame [OF f]]] by (meson fin_step_trans)
  qed (use Cons.prems in simp)
qed simp

lemma receive_in_sequence_fin:
  assumes "receive_in_sequence t p s = Some (t', p', s')"
  shows "fin_step s s'"
proof (rule receive_in_sequence_cases [OF assms])
  fix t1 s1 t2 p1 s2 p2 t3 s3 p3
  assume r: "receive_trim_right (set_tcplen t) p s = Some (t1, s1)" and a: "receive_adjust_ooseq t1 p s1 = Some (t2, p1, s2)"
    and s3: "s3 = s2 \<or> s3 = got_fin s2" and d: "ooseq_deliver (pcb_ooseq p2) t3 p2 s3 = Some (t', p3, s')"
  have "fin_step s s2" using receive_trim_right_frame [OF r] receive_adjust_ooseq_frame [OF a] by (meson sys_fin_step fin_step_trans)
  moreover have "fin_step s2 s3" using s3 by auto
  ultimately show ?thesis using ooseq_deliver_fin [OF d] by (meson fin_step_trans)
qed

lemma tcp_receive_fin:
  assumes "tcp_receive env t p s = Some (t', p', s')"
  shows "fin_step s s' \<and> (\<not> pcb_state p < CLOSE_WAIT \<longrightarrow> lw_recv_flags s' = lw_recv_flags s) \<and> ESTABLISHED \<le> pcb_state p"
proof -
  obtain p1 s1 where a: "receive_ack env t p s = Some (p1, s1)" and e: "ESTABLISHED \<le> pcb_state p"
    using assms by (auto simp: tcp_receive_def bind_Some_iff)
  have f: "pcb_state p1 = pcb_state p" "lw_recv_flags s1 = lw_recv_flags s"
    using receive_ack_frame [OF a] sys_frame_fin [of s s1] by (auto simp: conn_frame_def)
  show ?thesis
  proof (cases "0 < ti_tcplen t \<and> pcb_state p1 < CLOSE_WAIT")
    case False
    then show ?thesis using assms a f e by (auto simp: tcp_receive_def bind_Some_iff fin_step_def)
  next
    case True
    then obtain t1 p2 where l: "receive_trim_left t p1 = Some (t1, p2)"
      using assms a by (auto simp: tcp_receive_def bind_Some_iff)
    have "fin_step s1 s'"
      using assms a True l
      by (auto simp: tcp_receive_def bind_Some_iff split: if_split_asm
          dest!: receive_in_sequence_fin receive_out_of_sequence_frame tcp_send_empty_ack_frame intro: sys_fin_step)
    then show ?thesis using True f e by (auto simp: fin_step_def)
  qed
qed

lemma got_fin_flags: "lw_recv_flags (got_fin s) AND TF_GOT_FIN \<noteq> 0"
  by (simp add: got_fin_def bit.conj_disj_distrib2)

lemma fin_step_keeps: "fin_step s s' \<Longrightarrow> lw_recv_flags s AND TF_GOT_FIN \<noteq> 0 \<Longrightarrow> lw_recv_flags s' AND TF_GOT_FIN \<noteq> 0"
  by (auto simp: fin_step_def bit.conj_disj_distrib2)

lemma fin_step_closed: "fin_step s s' \<Longrightarrow> lw_recv_flags s' AND (TF_RESET OR TF_CLOSED) = lw_recv_flags s AND (TF_RESET OR TF_CLOSED)"
  by (auto simp: fin_step_def bit.conj_disj_distrib2)

lemma ooseq_deliver_closed:
  assumes "ooseq_deliver q t p s = Some (t', p', s')" and "pcb_state p' \<noteq> pcb_state p"
  shows "lw_recv_flags s' AND TF_GOT_FIN \<noteq> 0"
  using assms
proof (induction q arbitrary: t p s)
  case (Cons c rest)
  show ?case
  proof (cases "seg_seqno c = pcb_rcv_nxt p")
    case True
    let ?fin = "TCPH_FLAGS (sg_hdr c) AND TCP_FIN \<noteq> 0"
    obtain p1 t1 c1 s2 where a: "receive_advance (pcb_rcv_nxt p + TCP_TCPLEN c) (TCP_TCPLEN c) p = Some p1"
      and f: "tcp_seg_free c1 (if ?fin then got_fin s else s) = Some s2"
      and d: "ooseq_deliver rest t1 ((if ?fin \<and> pcb_state p1 = ESTABLISHED then p1\<lparr>pcb_state := CLOSE_WAIT\<rparr> else p1)\<lparr>pcb_ooseq := rest\<rparr>) s2 =
        Some (t', p', s')"
      using Cons.prems True by (auto simp: bind_Some_iff Let_def simp del: if_split)
    have st: "pcb_state p1 = pcb_state p" using receive_advance_frame [OF a] by (simp add: conn_frame_def)
    show ?thesis
    proof (cases ?fin)
      case True
      then have "lw_recv_flags s2 AND TF_GOT_FIN \<noteq> 0"
        using f got_fin_flags [of s] sys_frame_fin [OF mem_sys_frame [OF tcp_seg_free_frame [OF f]]] by simp
      then show ?thesis using ooseq_deliver_fin [OF d] fin_step_keeps by blast
    next
      case False
      then show ?thesis using Cons.IH [OF d] Cons.prems(2) st by simp
    qed
  qed (use Cons.prems in simp)
qed simp

lemma tcp_receive_closed:
  assumes "tcp_receive env t p s = Some (t', p', s')" and "pcb_state p' \<noteq> pcb_state p"
  shows "lw_recv_flags s' AND TF_GOT_FIN \<noteq> 0"
proof -
  obtain p1 s1 where a: "receive_ack env t p s = Some (p1, s1)"
    using assms by (auto simp: tcp_receive_def bind_Some_iff)
  have f: "pcb_state p1 = pcb_state p" using receive_ack_frame [OF a] by (simp add: conn_frame_def)
  have "0 < ti_tcplen t \<and> pcb_state p1 < CLOSE_WAIT"
    using assms a f by (auto simp: tcp_receive_def bind_Some_iff tcp_ack_now_def set_flag_def split: if_split_asm)
  then obtain t1 p2 where l: "receive_trim_left t p1 = Some (t1, p2)"
    and r: "(if in_rcv_window (ti_seqno t1) p2 then
         (if pcb_rcv_nxt p2 = ti_seqno t1 then receive_in_sequence t1 p2 s1
          else receive_out_of_sequence env t1 p2 s1)
       else do {
         (_, pcb3, s2) \<leftarrow> tcp_send_empty_ack env p2 s1;
         Some (t1, pcb3, s2)
       }) = Some (t', p', s')"
    using assms(1) a by (auto simp: tcp_receive_def bind_Some_iff simp del: if_split)
  have f2: "pcb_state p2 = pcb_state p" using receive_trim_left_frame [OF l] f by (simp add: conn_frame_def)
  have i: "receive_in_sequence t1 p2 s1 = Some (t', p', s')"
    using r assms(2) f2 by (auto simp: conn_frame_def bind_Some_iff dest!: receive_out_of_sequence_frame tcp_send_empty_ack_frame split: if_split_asm)
  show ?thesis
  proof (rule receive_in_sequence_cases [OF i])
    fix t1' s1' t2 p1' s2 p2' t3 s3 p3
    assume a': "receive_adjust_ooseq t1' p2 s1' = Some (t2, p1', s2)"
      and v: "receive_advance (ti_seqno t2 + ucast (ti_tcplen t2)) (ucast (ti_tcplen t2)) p1' = Some p2'"
      and d: "ooseq_deliver (pcb_ooseq p2') t3 p2' s3 = Some (t', p3, s')" and p': "p' = tcp_ack p3"
    have "pcb_state p2' = pcb_state p"
      using receive_adjust_ooseq_frame [OF a'] receive_advance_frame [OF v] f2 by (simp add: conn_frame_def)
    moreover have "pcb_state (tcp_ack p3) = pcb_state p3" by (simp add: tcp_ack_def set_flag_def clear_flag_def)
    ultimately show ?thesis using ooseq_deliver_closed [OF d] assms(2) p' by simp
  qed
qed

section \<open>The option parser changes nothing but the MSS\<close>

lemma tcp_parseopt_mss: "tcp_parseopt t p = Some p' \<Longrightarrow> \<exists>m. p' = p\<lparr>pcb_mss := m\<rparr>"
proof -
  have "\<exists>m. p' = p\<lparr>pcb_mss := m\<rparr>" if "parseopt_loop t c i p = Some p'" for c i
  proof (rule parseopt_loop.raw_induct [of "\<lambda>t c i p p'. \<exists>m. p' = p\<lparr>pcb_mss := m\<rparr>", OF _ that], goal_cases)
    case (1 f t c i p p')
    have id: "\<exists>m. q = q\<lparr>pcb_mss := m\<rparr>" for q :: tcp_pcb by (rule exI [of _ "pcb_mss q"]) simp
    have ih: "f t c j q = Some p' \<Longrightarrow> \<exists>m. p' = q\<lparr>pcb_mss := m\<rparr>" for j q by (rule "1"(1))
    have ih2: "f t c j (p\<lparr>pcb_mss := x\<rparr>) = Some p' \<Longrightarrow> \<exists>m. p' = p\<lparr>pcb_mss := m\<rparr>" for j x using ih by fastforce
    show ?case
      using "1"(2) by (simp add: bind_Some_iff Let_def id split: if_split_asm) (blast intro: ih ih2 id)+
  qed
  then show "tcp_parseopt t p = Some p' \<Longrightarrow> \<exists>m. p' = p\<lparr>pcb_mss := m\<rparr>"
    by (auto simp: tcp_parseopt_def split: if_split_asm intro: exI [of _ "pcb_mss p"])
qed

end
