(* ===== verification/Tcp_Process.thy ===== *)
theory Tcp_Process
  imports Tcp_Input_Frame
begin

text \<open>
  \<open>tcp_process\<close> as a state machine: the contract of the callbacks that run while a segment is processed, the
  transitions of every state, and the invariant of the lists through all of them.
\<close>

section \<open>The connection a segment is for\<close>

definition established :: "lw \<Rightarrow> nat \<Rightarrow> bool" where
  "established s a \<longleftrightarrow> map_option pcb_state (lw_pcbs s a) = Some ESTABLISHED"

text \<open>
  What the code relies on while it processes a segment for the connection at \<open>a\<close>: once it is marked as closed or
  reset, so that \<open>tcp_input\<close> will take it off the active list and free it, it is on no other list. A closed one
  is not in ESTABLISHED, so that another close does not move it to TIME-WAIT.
\<close>

definition hold :: "nat \<Rightarrow> lw \<Rightarrow> bool" where
  "hold a s \<longleftrightarrow> pcbs_ok s \<and>
     (lw_recv_flags s AND (TF_RESET OR TF_CLOSED) \<noteq> 0 \<longrightarrow> a \<notin> set (lw_lists s L_TW) \<and> a \<notin> set (lw_lists s L_BOUND)) \<and>
     (lw_recv_flags s AND TF_CLOSED \<noteq> 0 \<longrightarrow> \<not> established s a)"

text \<open>
  The contract of the callbacks: they keep the store of control blocks sound, and unless they return \<open>ERR_ABRT\<close> (the
  connection is gone), they keep \<open>hold\<close> for the connection that is being processed, and do
  not touch the record of a FIN. Only the error callback (\<open>True\<close>) is called for a connection that was reset.
\<close>

definition callback_ok :: "bool \<Rightarrow> err_t \<Rightarrow> lw \<Rightarrow> lw \<Rightarrow> bool" where
  "callback_ok reset r s s' \<longleftrightarrow>
     (\<forall>a. sy_input_pcb s = Some a \<longrightarrow> hold a s \<longrightarrow> reset \<or> lw_recv_flags s AND TF_RESET = 0 \<longrightarrow> r \<noteq> ERR_ABRT \<longrightarrow>
        hold a s' \<and> sy_input_pcb s' = Some a \<and> lw_recv_flags s' \<in> {lw_recv_flags s, lw_recv_flags s OR TF_CLOSED})"

text \<open>What no call of the application changes while no segment is processed.\<close>

definition in_same :: "lw \<Rightarrow> lw \<Rightarrow> bool" where
  "in_same s s' \<longleftrightarrow> lw_recv_flags s' = lw_recv_flags s \<and> sy_input_pcb s' = sy_input_pcb s"

lemma in_same_refl [simp]: "in_same s s" by (simp add: in_same_def)
lemma in_same_trans: "in_same s s1 \<Longrightarrow> in_same s1 s2 \<Longrightarrow> in_same s s2" by (simp add: in_same_def)
definition input_app :: "app \<Rightarrow> bool" where
  "input_app app \<longleftrightarrow> app_keeps pcbs_ok app \<and>
     (\<forall>f arg a e s r s'. app_accept app f arg a e s = Some (r, s') \<longrightarrow> callback_ok False r s s') \<and>
     (\<forall>f arg a n s r s'. app_sent app f arg a n s = Some (r, s') \<longrightarrow> callback_ok False r s s') \<and>
     (\<forall>f arg a e s r s'. app_connected app f arg a e s = Some (r, s') \<longrightarrow> callback_ok False r s s') \<and>
     (\<forall>f arg e s s'. app_err app f arg e s = Some s' \<longrightarrow> callback_ok True ERR_OK s s') \<and>
     (\<forall>f arg a p e s r s'. app_recv app f arg a p e s = Some (r, s') \<longrightarrow> sy_input_pcb s = None \<longrightarrow>
        in_same s s')"

lemma input_appD:
  assumes "input_app app"
  shows "app_keeps pcbs_ok app" and "app_accept app f arg a e s = Some (r, s') \<Longrightarrow> callback_ok False r s s'"
    and "app_sent app f arg a n s = Some (r, s') \<Longrightarrow> callback_ok False r s s'"
    and "app_connected app f arg a e s = Some (r, s') \<Longrightarrow> callback_ok False r s s'"
    and "app_err app f arg e s = Some s' \<Longrightarrow> callback_ok True ERR_OK s s'"
    and "app_recv app f arg a p e s = Some (r, s') \<Longrightarrow> sy_input_pcb s = None \<Longrightarrow> in_same s s'"
proof -
  note a = assms [unfolded input_app_def]
  show "app_keeps pcbs_ok app" by (rule a [THEN conjunct1])
  show "app_accept app f arg a e s = Some (r, s') \<Longrightarrow> callback_ok False r s s'" by (rule a [THEN conjunct2, THEN conjunct1, rule_format])
  show "app_sent app f arg a n s = Some (r, s') \<Longrightarrow> callback_ok False r s s'"
    by (rule a [THEN conjunct2, THEN conjunct2, THEN conjunct1, rule_format])
  show "app_connected app f arg a e s = Some (r, s') \<Longrightarrow> callback_ok False r s s'"
    by (rule a [THEN conjunct2, THEN conjunct2, THEN conjunct2, THEN conjunct1, rule_format])
  show "app_err app f arg e s = Some s' \<Longrightarrow> callback_ok True ERR_OK s s'"
    by (rule a [THEN conjunct2, THEN conjunct2, THEN conjunct2, THEN conjunct2, THEN conjunct1, rule_format])
  show "app_recv app f arg a p e s = Some (r, s') \<Longrightarrow> sy_input_pcb s = None \<Longrightarrow> in_same s s'"
    by (rule a [THEN conjunct2, THEN conjunct2, THEN conjunct2, THEN conjunct2, THEN conjunct2, rule_format])
qed

lemma callback_okD:
  assumes "callback_ok reset r s s'" and "sy_input_pcb s = Some a" and "hold a s" and "r \<noteq> ERR_ABRT" and "reset \<or> lw_recv_flags s AND TF_RESET = 0"
  shows "hold a s'" and "sy_input_pcb s' = Some a" and "lw_recv_flags s' \<in> {lw_recv_flags s, lw_recv_flags s OR TF_CLOSED}"
  using assms unfolding callback_ok_def by - (fast, fast, fast)

lemma closed_part: "x AND (TF_RESET OR TF_CLOSED) = y AND (TF_RESET OR TF_CLOSED) \<Longrightarrow> x AND TF_CLOSED = y AND (TF_CLOSED :: u8)"
proof -
  assume "x AND (TF_RESET OR TF_CLOSED) = y AND (TF_RESET OR TF_CLOSED)"
  then have "(x AND (TF_RESET OR TF_CLOSED)) AND TF_CLOSED = (y AND (TF_RESET OR TF_CLOSED)) AND TF_CLOSED" by simp
  then show ?thesis by (simp add: and.assoc)
qed

lemma hold_ok: "hold a s \<Longrightarrow> pcbs_ok s" by (simp add: hold_def)

lemma event_hold:
  assumes "input_app app" and "sy_input_pcb s = Some a" and "hold a s"
  shows "TCP_EVENT_SENT app b n s = Some (r, s') \<Longrightarrow> lw_recv_flags s AND TF_RESET = 0 \<Longrightarrow> pcbs_ok s' \<and> (r \<noteq> ERR_ABRT \<longrightarrow> hold a s' \<and> sy_input_pcb s' = Some a)"
    and "TCP_EVENT_CONNECTED app b e s = Some (r, s') \<Longrightarrow> lw_recv_flags s AND TF_RESET = 0 \<Longrightarrow> pcbs_ok s' \<and> (r \<noteq> ERR_ABRT \<longrightarrow> hold a s' \<and> sy_input_pcb s' = Some a)"
    and "TCP_EVENT_ACCEPT app b e s = Some (r, s') \<Longrightarrow> lw_recv_flags s AND TF_RESET = 0 \<Longrightarrow> pcbs_ok s' \<and> (r \<noteq> ERR_ABRT \<longrightarrow> hold a s' \<and> sy_input_pcb s' = Some a \<and>
       lw_recv_flags s' AND TF_GOT_FIN = lw_recv_flags s AND TF_GOT_FIN)"
    and "TCP_EVENT_ERR app f arg e s = Some s' \<Longrightarrow> hold a s' \<and> sy_input_pcb s' = Some a \<and>
       lw_recv_flags s' \<in> {lw_recv_flags s, lw_recv_flags s OR TF_CLOSED}"
proof -
  note ok = hold_ok [OF assms(3)]
  note keeps = app_keepsD [OF input_appD(1) [OF assms(1)] ok]
  have g: "(x OR TF_CLOSED) AND TF_GOT_FIN = x AND TF_GOT_FIN" for x :: u8 by (simp add: bit.conj_disj_distrib2)
  have cb: "hold a s' \<and> sy_input_pcb s' = Some a \<and> lw_recv_flags s' AND TF_GOT_FIN = lw_recv_flags s AND TF_GOT_FIN"
    if "callback_ok False r s s'" "r \<noteq> ERR_ABRT" "lw_recv_flags s AND TF_RESET = 0" for r s'
    using callback_okD [OF that(1) assms(2,3) that(2)] that(3) by (auto simp: g)
  show "TCP_EVENT_SENT app b n s = Some (r, s') \<Longrightarrow> lw_recv_flags s AND TF_RESET = 0 \<Longrightarrow> pcbs_ok s' \<and> (r \<noteq> ERR_ABRT \<longrightarrow> hold a s' \<and> sy_input_pcb s' = Some a)"
    using ok assms(2,3) cb [OF input_appD(3) [OF assms(1)]]
    by (auto simp: TCP_EVENT_SENT_def bind_Some_iff split: option.split_asm dest: keeps(3))
  show "TCP_EVENT_CONNECTED app b e s = Some (r, s') \<Longrightarrow> lw_recv_flags s AND TF_RESET = 0 \<Longrightarrow> pcbs_ok s' \<and> (r \<noteq> ERR_ABRT \<longrightarrow> hold a s' \<and> sy_input_pcb s' = Some a)"
    using ok assms(2,3) cb [OF input_appD(4) [OF assms(1)]]
    by (auto simp: TCP_EVENT_CONNECTED_def bind_Some_iff split: option.split_asm dest: keeps(4))
  show "TCP_EVENT_ACCEPT app b e s = Some (r, s') \<Longrightarrow> lw_recv_flags s AND TF_RESET = 0 \<Longrightarrow> pcbs_ok s' \<and> (r \<noteq> ERR_ABRT \<longrightarrow> hold a s' \<and> sy_input_pcb s' = Some a \<and>
       lw_recv_flags s' AND TF_GOT_FIN = lw_recv_flags s AND TF_GOT_FIN)"
    using ok assms(2,3) cb [OF input_appD(2) [OF assms(1)]]
    by (auto simp: TCP_EVENT_ACCEPT_def bind_Some_iff split: option.split_asm if_split_asm dest: keeps(1))
  assume e: "TCP_EVENT_ERR app f arg e s = Some s'"
  show "hold a s' \<and> sy_input_pcb s' = Some a \<and> lw_recv_flags s' \<in> {lw_recv_flags s, lw_recv_flags s OR TF_CLOSED}"
  proof (cases f)
    case (Some g)
    then have "callback_ok True ERR_OK s s'" using e by (auto simp: TCP_EVENT_ERR_def intro: input_appD(5) [OF assms(1)])
    then show ?thesis using callback_okD [OF _ assms(2,3), of True ERR_OK s'] by simp
  qed (use e assms(2,3) in \<open>simp add: TCP_EVENT_ERR_def\<close>)
qed

text \<open>A new value of the control block being processed.\<close>

lemma put_active:
  assumes "pcbs_ok s" and "lw_pcbs s a = Some p" and "state_fits L_ACTIVE (pcb_state p)" and "state_fits L_ACTIVE (pcb_state p')"
    and "pcb_addr p' = a"
  shows "pcbs_ok (pcb_put p' s)"
  by (rule pcbs_ok_put_fits [OF assms(1), of _ p L_ACTIVE]) (use assms in simp_all)

lemma pcb_put_simps [simp]:
  "lw_lists (pcb_put p s) = lw_lists s" "lw_recv_flags (pcb_put p s) = lw_recv_flags s" "sy_input_pcb (pcb_put p s) = sy_input_pcb s"
  "sy_ticks (pcb_put p s) = sy_ticks s"
  by (simp_all add: pcb_put_def)

lemma hold_put:
  assumes "hold a s" and "pcbs_ok (pcb_put p s)"
    and "pcb_addr p = a \<Longrightarrow> pcb_state p = ESTABLISHED \<Longrightarrow> established s a \<or> lw_recv_flags s = 0"
  shows "hold a (pcb_put p s)"
  using assms by (auto simp: hold_def established_def pcb_put_def split: if_split_asm)

lemma hold_put_frame:
  assumes "hold a s" and "lw_pcbs s a = Some p" and "conn_frame p p'"
  shows "hold a (pcb_put p' s)"
  by (rule hold_put [OF assms(1)])
    (use pcbs_ok_put_frame(1) [OF hold_ok [OF assms(1)] assms(2,3)] assms in \<open>auto simp: established_def conn_frame_def\<close>)

lemma put_frame:
  assumes "pcbs_ok s" and "lw_pcbs s a = Some p" and "conn_frame p p'"
  shows "pcbs_ok (pcb_put p' s)"
  using pcbs_ok_put_frame(1) [OF assms] by simp

lemma received:
  assumes "at_pcb a (tcp_receive env t) s = Some (t', s')" and "pcbs_ok s" and p: "lw_pcbs s a = Some p"
  obtains p' where "lw_pcbs s' a = Some p'" and "conn_step p p'" and "pcbs_ok s'"
    and "lw_lists s' = lw_lists s" and "sy_input_pcb s' = sy_input_pcb s" and "fin_step s s'"
    and "\<not> pcb_state p < CLOSE_WAIT \<longrightarrow> lw_recv_flags s' = lw_recv_flags s" and "ESTABLISHED \<le> pcb_state p" and "pcb_addr p' = a"
    and "pcb_state p' \<noteq> pcb_state p \<longrightarrow> lw_recv_flags s' AND TF_GOT_FIN \<noteq> 0"
proof -
  obtain p' s1 where r: "tcp_receive env t p s = Some (t', p', s1)" and s': "s' = pcb_put p' s1"
    using assms(1) p by (auto simp: at_pcb_def bind_Some_iff)
  have fr: "conn_step p p'" "store_same s s1" using tcp_receive_frame [OF r] by simp_all
  note fin = tcp_receive_fin [OF r]
  have a: "pcb_addr p' = a" using fr(1) pcbs_okD(3) [OF assms(2) p] by (simp add: conn_step_def)
  have ok1: "pcbs_ok s1" by (rule pcbs_ok_store [OF fr(2) assms(2)])
  have p1: "lw_pcbs s1 a = Some p" using fr(2) p by (simp add: store_same_def)
  have "pcbs_ok s'"
  proof (cases "pcb_state p' = pcb_state p")
    case True
    then show ?thesis using pcbs_ok_put_same [OF ok1, of p' p] p1 a fr(1) s' by (simp add: conn_step_def)
  next
    case False
    then show ?thesis using put_active [OF ok1 p1, of p'] fr(1) a s' by (auto simp: conn_step_def)
  qed
  moreover have "lw_pcbs s' a = Some p'" using a s' by (simp add: pcb_put_def)
  moreover have "lw_lists s' = lw_lists s" "sy_input_pcb s' = sy_input_pcb s" using fr(2) s' by (simp_all add: store_same_def)
  moreover have "pcb_state p' \<noteq> pcb_state p \<longrightarrow> lw_recv_flags s' AND TF_GOT_FIN \<noteq> 0" using tcp_receive_closed [OF r] s' by simp
  ultimately show thesis using that fr fin s' a by (simp add: fin_step_def)
qed

section \<open>The state machine of the synchronised states\<close>

text \<open>The next state of a synchronised connection after RFC 793, section 3.9: \<open>fin\<close>, the peer's FIN was received; \<open>acked\<close>,
  everything that was sent is acknowledged.\<close>

fun rfc_next :: "tcp_state \<Rightarrow> bool \<Rightarrow> bool \<Rightarrow> tcp_state" where
  "rfc_next ESTABLISHED fin acked = (if fin then CLOSE_WAIT else ESTABLISHED)"
| "rfc_next CLOSE_WAIT fin acked = CLOSE_WAIT"
| "rfc_next FIN_WAIT_1 fin acked = (if fin then (if acked then TIME_WAIT else CLOSING) else if acked then FIN_WAIT_2 else FIN_WAIT_1)"
| "rfc_next FIN_WAIT_2 fin acked = (if fin then TIME_WAIT else FIN_WAIT_2)"
| "rfc_next CLOSING fin acked = (if acked then TIME_WAIT else CLOSING)"
| "rfc_next st fin acked = st"

definition synchronised :: "tcp_state \<Rightarrow> bool" where
  "synchronised st \<longleftrightarrow> st \<in> {ESTABLISHED, CLOSE_WAIT, FIN_WAIT_1, FIN_WAIT_2, CLOSING, LAST_ACK}"

lemma enter_timewait_ok:
  assumes "enter_timewait a s = Some s'" and "pcbs_ok s" and "lw_pcbs s a = Some p" and "state_fits L_ACTIVE (pcb_state p)"
  shows "pcbs_ok s'" and "lw_recv_flags s' = lw_recv_flags s" and "sy_input_pcb s' = sy_input_pcb s"
    and "lw_lists s' L_TW = a # lw_lists s L_TW" and "a \<notin> set (lw_lists s' L_ACTIVE)"
    and "\<exists>p'. lw_pcbs s' a = Some p' \<and> pcb_state p' = TIME_WAIT \<and> pcb_snd_nxt p' = pcb_snd_nxt p \<and>
      pcb_unsent p' = [] \<and> pcb_unacked p' = [] \<and> pcb_ooseq p' = []"
proof -
  obtain p1 s1 where pu: "tcp_pcb_purge p s = Some (p1, s1)"
    and s': "s' = TCP_REG L_TW a (pcb_put (p1\<lparr>pcb_state := TIME_WAIT\<rparr>) (TCP_RMV_ACTIVE a s1))"
    using assms(1,3) by (auto simp: enter_timewait_def bind_Some_iff)
  have fr: "conn_frame p p1" "sys_frame s s1" using tcp_pcb_purge_frame [OF pu] by simp_all
  note lw = sys_frame_lw [OF fr(2)]
  have a: "pcb_addr p1 = a" using fr(1) pcbs_okD(3) [OF assms(2,3)] by (simp add: conn_frame_def)
  have ok1: "pcbs_ok s1" by (rule pcbs_ok_frame [OF fr(2) assms(2)])
  have p1: "lw_pcbs s1 a = Some p" using lw assms(3) by simp
  define s2 where "s2 = TCP_RMV_ACTIVE a s1"
  have ok2: "pcbs_ok s2" "unlisted s2 a" "lw_pcbs s2 a = Some p"
    using pcbs_ok_RMV [OF ok1] unlisted_RMV [OF ok1, of L_ACTIVE a] listed_unique [OF ok1 p1 assms(4)] p1
    by (auto simp: s2_def TCP_RMV_ACTIVE_def)
  have ok3: "pcbs_ok (pcb_put (p1\<lparr>pcb_state := TIME_WAIT\<rparr>) s2)"
    by (rule pcbs_ok_put_unlisted [OF ok2(1), of _ p]) (use ok2 a in simp_all)
  show "pcbs_ok s'"
    unfolding s' s2_def [symmetric]
    by (rule pcbs_ok_REG [OF ok3]) (use ok2 a in \<open>simp_all add: unlisted_def listed_ok_iff state_of_def pcb_put_def\<close>)
  show "lw_recv_flags s' = lw_recv_flags s" "sy_input_pcb s' = sy_input_pcb s"
    using lw s' by (simp_all add: TCP_REG_def TCP_RMV_ACTIVE_def TCP_RMV_def pcb_put_def)
  show "lw_lists s' L_TW = a # lw_lists s L_TW"
    using lw s' by (simp add: TCP_REG_def TCP_RMV_ACTIVE_def TCP_RMV_def pcb_put_def)
  show "a \<notin> set (lw_lists s' L_ACTIVE)"
    using ok2(2) s' by (simp add: unlisted_def s2_def TCP_REG_def pcb_put_def)
  show "\<exists>p'. lw_pcbs s' a = Some p' \<and> pcb_state p' = TIME_WAIT \<and> pcb_snd_nxt p' = pcb_snd_nxt p \<and>
      pcb_unsent p' = [] \<and> pcb_unacked p' = [] \<and> pcb_ooseq p' = []"
    using pu assms(4) a s' by (auto simp: tcp_pcb_purge_def bind_Some_iff TCP_REG_def pcb_put_def)
qed

lemma pcb_put_at [simp]: "lw_pcbs (pcb_put p s) (pcb_addr p) = Some p"
  by (simp add: pcb_put_def)

lemma tcp_ack_now_simps [simp]:
  "pcb_addr (tcp_ack_now p) = pcb_addr p" "pcb_state (tcp_ack_now p) = pcb_state p" "pcb_snd_nxt (tcp_ack_now p) = pcb_snd_nxt p"
  by (simp_all add: tcp_ack_now_def set_flag_def)

lemma process_synchronised_spec:
  assumes e: "process_synchronised env st t a s = Some (t', s')" and ok: "pcbs_ok s" and p: "lw_pcbs s a = Some p"
    and st: "pcb_state p = st" "synchronised st"
  shows "pcbs_ok s'" and "sy_input_pcb s' = sy_input_pcb s"
    and "lw_recv_flags s AND (TF_RESET OR TF_CLOSED) = 0 \<Longrightarrow> hold a s'"
    and "\<exists>p'. lw_pcbs s' a = Some p' \<and>
        (let fin = (lw_recv_flags s' AND TF_GOT_FIN \<noteq> 0); acked = (in_flag TCP_ACK t' \<and> ti_ackno t' = pcb_snd_nxt p') in
         pcb_state p' = rfc_next st fin acked \<and>
         (if pcb_state p' = TIME_WAIT
          then lw_lists s' L_TW = a # lw_lists s L_TW \<and> a \<notin> set (lw_lists s' L_ACTIVE) \<and>
            pcb_unsent p' = [] \<and> pcb_unacked p' = [] \<and> pcb_ooseq p' = []
          else lw_lists s' = lw_lists s) \<and>
         lw_recv_flags s' AND TF_CLOSED = (if st = LAST_ACK \<and> acked then TF_CLOSED else lw_recv_flags s AND TF_CLOSED))"
proof -
  obtain s1 where r: "at_pcb a (tcp_receive env t) s = Some (t', s1)"
    using e by (auto simp: process_synchronised_def bind_Some_iff Let_def)
  obtain p1 where p1: "lw_pcbs s1 a = Some p1" "conn_step p p1" "pcbs_ok s1" "lw_lists s1 = lw_lists s" "sy_input_pcb s1 = sy_input_pcb s"
    "fin_step s s1" "\<not> pcb_state p < CLOSE_WAIT \<longrightarrow> lw_recv_flags s1 = lw_recv_flags s" "pcb_addr p1 = a"
    "pcb_state p1 \<noteq> pcb_state p \<longrightarrow> lw_recv_flags s1 AND TF_GOT_FIN \<noteq> 0"
    by (rule received [OF r ok p])
  let ?fin = "lw_recv_flags s1 AND TF_GOT_FIN \<noteq> 0"
  let ?acked = "in_flag TCP_ACK t' \<and> ti_ackno t' = pcb_snd_nxt p1"
  define R where "R = (\<lambda>s' st' cl. pcbs_ok s' \<and> sy_input_pcb s' = sy_input_pcb s \<and>
    lw_recv_flags s' = (if cl then lw_recv_flags s1 OR TF_CLOSED else lw_recv_flags s1) \<and>
    (cl \<longrightarrow> st' = LAST_ACK) \<and>
    (\<exists>p'. lw_pcbs s' a = Some p' \<and> pcb_state p' = st' \<and> pcb_snd_nxt p' = pcb_snd_nxt p1 \<and>
      (if st' = TIME_WAIT
       then lw_lists s' L_TW = a # lw_lists s L_TW \<and> a \<notin> set (lw_lists s' L_ACTIVE) \<and>
         pcb_unsent p' = [] \<and> pcb_unacked p' = [] \<and> pcb_ooseq p' = []
       else lw_lists s' = lw_lists s)))"
  have act: "state_fits L_ACTIVE (pcb_state p1)" using p1(2) st by (auto simp: conn_step_def synchronised_def)
  have put: "pcbs_ok (pcb_put q s1)" if "state_fits L_ACTIVE (pcb_state q)" "pcb_addr q = a" for q
    by (rule put_active [OF p1(3,1) act that])
  have R1: "R s1 x False" if "pcb_state p1 = x" for x
    using that act p1 by (auto simp: R_def)
  have R2: "R (pcb_put q s1) x False" if "pcb_state q = x" "state_fits L_ACTIVE x" "pcb_addr q = a" "pcb_snd_nxt q = pcb_snd_nxt p1" for q x
    using that put [of q] p1(4,5) pcb_put_at [of q s1] by (auto simp: R_def)
  have R3: "R s' TIME_WAIT False" if "enter_timewait a (pcb_put q s1) = Some s'" "pcb_state q = pcb_state p1" "pcb_addr q = a"
    "pcb_snd_nxt q = pcb_snd_nxt p1" for q
    using enter_timewait_ok [OF that(1) put, of q] that(2-4) act p1(4,5) pcb_put_at [of q s1] by (simp add: R_def)
  have R4: "R s' TIME_WAIT False" if "enter_timewait a s1 = Some s'"
    using enter_timewait_ok [OF that p1(3,1) act] p1(4,5) by (simp add: R_def)
  have R5: "R (tcp_trigger_input_pcb_close s1) LAST_ACK True" if "pcb_state p1 = LAST_ACK"
    using that p1 by (simp add: R_def tcp_trigger_input_pcb_close_def)
  have addr: "pcb_addr (tcp_ack_now p1) = a" "pcb_addr (p1\<lparr>pcb_state := x\<rparr>) = a" "pcb_addr ((tcp_ack_now p1)\<lparr>pcb_state := x\<rparr>) = a" for x
    using p1(8) by simp_all
  have R: "R s' (rfc_next st ?fin ?acked) (st = LAST_ACK \<and> ?acked)"
  proof (cases st)
    case ESTABLISHED
    then show ?thesis
      using e r p1(1,2,9) st R1 R2 [of "(tcp_ack_now p1)\<lparr>pcb_state := CLOSE_WAIT\<rparr>" CLOSE_WAIT] addr
      by (auto simp: process_synchronised_def Let_def conn_step_def split: if_split_asm)
  next
    case CLOSE_WAIT
    then show ?thesis
      using e r p1(1,2) st R1 R2 [of "(tcp_ack_now p1)\<lparr>pcb_state := CLOSE_WAIT\<rparr>" CLOSE_WAIT] addr
      by (auto simp: process_synchronised_def Let_def conn_step_def split: if_split_asm)
  next
    case FIN_WAIT_1
    then have "pcb_state p1 = FIN_WAIT_1" using p1(2) st by (simp add: conn_step_def)
    then show ?thesis
      using e r p1(1) FIN_WAIT_1 R1 R2 [of "(tcp_ack_now p1)\<lparr>pcb_state := CLOSING\<rparr>" CLOSING]
        R2 [of "p1\<lparr>pcb_state := FIN_WAIT_2\<rparr>" FIN_WAIT_2] R3 [of "tcp_ack_now p1"] addr
      by (auto simp: process_synchronised_def Let_def bind_Some_iff split: if_split_asm)
  next
    case FIN_WAIT_2
    then have "pcb_state p1 = FIN_WAIT_2" using p1(2) st by (simp add: conn_step_def)
    then show ?thesis
      using e r p1(1) FIN_WAIT_2 R1 R3 [of "tcp_ack_now p1"] addr
      by (auto simp: process_synchronised_def Let_def bind_Some_iff split: if_split_asm)
  next
    case CLOSING
    then have "pcb_state p1 = CLOSING" using p1(2) st by (simp add: conn_step_def)
    then show ?thesis
      using e r p1(1) CLOSING R1 R4
      by (auto simp: process_synchronised_def Let_def bind_Some_iff split: if_split_asm)
  next
    case LAST_ACK
    then have "pcb_state p1 = LAST_ACK" using p1(2) st by (simp add: conn_step_def)
    then show ?thesis
      using e r p1(1) LAST_ACK R1 R5
      by (auto simp: process_synchronised_def Let_def bind_Some_iff split: if_split_asm)
  qed (use st in \<open>simp_all add: synchronised_def\<close>)
  then show "pcbs_ok s'" "sy_input_pcb s' = sy_input_pcb s" by (simp_all add: R_def)
  obtain p' where p': "lw_pcbs s' a = Some p'" "pcb_state p' = rfc_next st ?fin ?acked" "pcb_snd_nxt p' = pcb_snd_nxt p1"
    "if rfc_next st ?fin ?acked = TIME_WAIT
       then lw_lists s' L_TW = a # lw_lists s L_TW \<and> a \<notin> set (lw_lists s' L_ACTIVE) \<and>
         pcb_unsent p' = [] \<and> pcb_unacked p' = [] \<and> pcb_ooseq p' = []
       else lw_lists s' = lw_lists s"
    using R by (auto simp: R_def)
  have fl: "lw_recv_flags s' = (if st = LAST_ACK \<and> ?acked then lw_recv_flags s1 OR TF_CLOSED else lw_recv_flags s1)"
    using R by (simp add: R_def)
  note cl = fin_step_closed [OF p1(6)]
  have cl: "lw_recv_flags s1 AND TF_CLOSED = lw_recv_flags s AND TF_CLOSED"
    "lw_recv_flags s1 AND (TF_RESET OR TF_CLOSED) = lw_recv_flags s AND (TF_RESET OR TF_CLOSED)"
    using p1(6) by (auto simp: fin_step_def bit.conj_disj_distrib2)
  have g: "(x OR TF_CLOSED) AND TF_GOT_FIN = x AND TF_GOT_FIN" "(x OR TF_CLOSED) AND TF_CLOSED = TF_CLOSED" for x :: u8
    by (simp_all add: bit.conj_disj_distrib2)
  show "\<exists>p'. lw_pcbs s' a = Some p' \<and>
        (let fin = (lw_recv_flags s' AND TF_GOT_FIN \<noteq> 0); acked = (in_flag TCP_ACK t' \<and> ti_ackno t' = pcb_snd_nxt p') in
         pcb_state p' = rfc_next st fin acked \<and>
         (if pcb_state p' = TIME_WAIT
          then lw_lists s' L_TW = a # lw_lists s L_TW \<and> a \<notin> set (lw_lists s' L_ACTIVE) \<and>
            pcb_unsent p' = [] \<and> pcb_unacked p' = [] \<and> pcb_ooseq p' = []
          else lw_lists s' = lw_lists s) \<and>
         lw_recv_flags s' AND TF_CLOSED = (if st = LAST_ACK \<and> acked then TF_CLOSED else lw_recv_flags s AND TF_CLOSED))"
  proof (rule exI [of _ p'], intro conjI)
    have fin: "(lw_recv_flags s' AND TF_GOT_FIN \<noteq> 0) = ?fin" using fl g(1) by simp
    have "lw_recv_flags s' AND TF_CLOSED = (if st = LAST_ACK \<and> ?acked then TF_CLOSED else lw_recv_flags s AND TF_CLOSED)"
      using fl g(2) cl(1) by simp
    then show "let fin = (lw_recv_flags s' AND TF_GOT_FIN \<noteq> 0); acked = (in_flag TCP_ACK t' \<and> ti_ackno t' = pcb_snd_nxt p') in
         pcb_state p' = rfc_next st fin acked \<and>
         (if pcb_state p' = TIME_WAIT
          then lw_lists s' L_TW = a # lw_lists s L_TW \<and> a \<notin> set (lw_lists s' L_ACTIVE) \<and>
            pcb_unsent p' = [] \<and> pcb_unacked p' = [] \<and> pcb_ooseq p' = []
          else lw_lists s' = lw_lists s) \<and>
         lw_recv_flags s' AND TF_CLOSED = (if st = LAST_ACK \<and> acked then TF_CLOSED else lw_recv_flags s AND TF_CLOSED)"
      unfolding Let_def p'(3) fin using p'(2,4) by simp
  qed (rule p'(1))
  assume z: "lw_recv_flags s AND (TF_RESET OR TF_CLOSED) = 0"
  show "hold a s'"
  proof (cases "st = LAST_ACK \<and> ?acked")
    case False
    have "lw_recv_flags s' = lw_recv_flags s1" unfolding fl if_not_P [OF False] ..
    then show ?thesis using z cl(2) closed_part [of "lw_recv_flags s1" 0] R by (simp add: hold_def R_def)
  next
    case True
    have ok': "pcbs_ok s'" using R by (simp add: R_def)
    have "pcb_state p' = LAST_ACK" using p'(2) True by simp
    then show ?thesis
      using listed_unique [OF ok' p'(1), of L_ACTIVE] ok' p'(1) by (simp add: hold_def established_def)
  qed
qed

section \<open>Processing a segment keeps the lists\<close>

lemma hold_store: "store_same s s' \<Longrightarrow> lw_recv_flags s' = lw_recv_flags s \<Longrightarrow> hold a s \<Longrightarrow> hold a s'"
  using pcbs_ok_store [of s s'] by (simp add: hold_def store_same_def established_def)

lemma hold_sys: "sys_frame s s' \<Longrightarrow> hold a s \<Longrightarrow> hold a s'"
  using hold_store [of s s'] sys_frame_store [of s s'] sys_frame_lw(7) [of s s'] by simp

lemma sys_input: "sys_frame s s' \<Longrightarrow> sy_input_pcb s' = sy_input_pcb s"
  by (simp add: sys_frame_def)

lemma stats_frame [simp]: "sys_frame s (tcp_stats_inc f s') = sys_frame s s'"
  by (simp add: tcp_stats_inc_def sys_frame_def)

lemma input_rst_frame: "input_rst env t p s = Some s' \<Longrightarrow> sys_frame s s'"
  by (simp add: input_rst_def) (erule tcp_rst_frame)

lemma process_syn_sent_ok:
  assumes e: "process_syn_sent env app t a s = Some (err, s')" and app: "input_app app" and h: "hold a s"
    and i: "sy_input_pcb s = Some a" and p: "lw_pcbs s a = Some p" "pcb_state p = SYN_SENT" and z: "lw_recv_flags s = 0"
  shows "pcbs_ok s' \<and> (err \<noteq> ERR_ABRT \<longrightarrow> hold a s' \<and> sy_input_pcb s' = Some a)"
proof -
  obtain rseg rest where u: "pcb_unacked p = rseg # rest" using e p by (auto simp: process_syn_sent_def split: list.split_asm)
  show ?thesis
  proof (cases "in_flag TCP_ACK t \<and> in_flag TCP_SYN t \<and> ti_ackno t = seg_seqno rseg + 1")
    case False
    then show ?thesis
      using e p u h i by (auto simp: process_syn_sent_def bind_Some_iff sys_input split: if_split_asm
          dest!: input_rst_frame intro: hold_sys hold_ok)
  next
    case True
    define p2 where "p2 = (syn_acked t p)\<lparr>pcb_snd_queuelen := pcb_snd_queuelen (syn_acked t p) - 1, pcb_unacked := rest,
                        pcb_rtime := if rest = [] then - 1 else 0,
                        pcb_nrtx := if rest = [] then pcb_nrtx (syn_acked t p) else 0\<rparr>"
    obtain s1 e1 s2 where f: "tcp_seg_free rseg s = Some s1" and c: "TCP_EVENT_CONNECTED app a ERR_OK (pcb_put p2 s1) = Some (e1, s2)"
      and r: "(if e1 = ERR_ABRT then Some (ERR_ABRT, s2)
            else do { p3 \<leftarrow> lw_pcbs s2 a; Some (ERR_OK, pcb_put (tcp_ack_now p3) s2) }) = Some (err, s')"
      using e p u True unfolding process_syn_sent_def Let_def p2_def by (auto simp: bind_Some_iff simp del: if_split)
    have fr: "sys_frame s s1" using f by (auto dest!: frame_dests)
    note lw = sys_frame_lw [OF fr]
    have "pcbs_ok (pcb_put p2 s1)"
      by (rule put_active [of s1 a p]) (use hold_ok [OF hold_sys [OF fr h]] p lw pcbs_okD(3) [OF hold_ok [OF h] p(1)] in
          \<open>simp_all add: p2_def syn_acked_def\<close>)
    then have h1: "hold a (pcb_put p2 s1)" by (rule hold_put [OF hold_sys [OF fr h]]) (use lw z in simp)
    have i1: "sy_input_pcb (pcb_put p2 s1) = Some a" "lw_recv_flags (pcb_put p2 s1) AND TF_RESET = 0" using i lw z by simp_all
    note ev = event_hold(2) [OF app i1(1) h1 c i1(2)]
    show ?thesis
    proof (cases "e1 = ERR_ABRT")
      case True
      then show ?thesis using r ev by simp
    next
      case False
      then obtain p3 where p3: "lw_pcbs s2 a = Some p3" and s': "err = ERR_OK" "s' = pcb_put (tcp_ack_now p3) s2"
        using r by (auto simp: bind_Some_iff)
      have "pcbs_ok s'" unfolding s' by (rule put_frame [OF _ p3]) (use ev in simp_all)
      then show ?thesis using hold_put_frame [OF _ p3, of "tcp_ack_now p3"] ev s' False by simp
    qed
  qed
qed

lemma hold_flags: "hold a s \<Longrightarrow> lw_recv_flags s' AND (TF_RESET OR TF_CLOSED) = lw_recv_flags s AND (TF_RESET OR TF_CLOSED) \<Longrightarrow>
    lw_lists s' = lw_lists s \<Longrightarrow> pcbs_ok s' \<Longrightarrow> (established s' a \<Longrightarrow> established s a) \<Longrightarrow> hold a s'"
  using closed_part [of "lw_recv_flags s'" "lw_recv_flags s"] by (auto simp: hold_def)

lemma process_syn_rcvd_ok:
  assumes e: "process_syn_rcvd env app t a s = Some (err, t', s')" and app: "input_app app" and h: "hold a s"
    and i: "sy_input_pcb s = Some a" and p: "lw_pcbs s a = Some p" "pcb_state p = SYN_RCVD"
    and z: "lw_recv_flags s = 0"
  shows "pcbs_ok s' \<and> (err \<noteq> ERR_ABRT \<longrightarrow> hold a s' \<and> sy_input_pcb s' = Some a)"
proof (cases "in_flag TCP_ACK t \<and> TCP_SEQ_BETWEEN (ti_ackno t) (pcb_lastack p + 1) (pcb_snd_nxt p)")
  case False
  have "conn_frame p (tcp_rexmit p)"
    by (auto simp: tcp_rexmit_def Let_def conn_frame_def split: list.splits)
  then have "hold a (pcb_put (tcp_rexmit p) s)" by (rule hold_put_frame [OF h p(1)])
  then show ?thesis
    using e p False h i by (auto simp: process_syn_rcvd_def bind_Some_iff sys_input split: if_split_asm
        dest!: input_rst_frame intro: hold_sys hold_ok)
next
  case True
  define s0 where "s0 = pcb_put (p\<lparr>pcb_state := ESTABLISHED\<rparr>) s"
  have addr: "pcb_addr p = a" by (rule pcbs_okD(3) [OF hold_ok [OF h] p(1)])
  have "pcbs_ok s0"
    unfolding s0_def by (rule put_active [OF hold_ok [OF h] p(1)]) (use p addr in simp_all)
  then have h0: "hold a s0" unfolding s0_def by (rule hold_put [OF h]) (use z in simp)
  have i0: "sy_input_pcb s0 = Some a" "lw_recv_flags s0 = lw_recv_flags s" using i by (simp_all add: s0_def)
  obtain e1 s1 where c: "TCP_EVENT_ACCEPT app a ERR_OK s0 = Some (e1, s1)"
    and r: "(if e1 \<noteq> ERR_OK then do {
            s2 \<leftarrow> (if e1 \<noteq> ERR_ABRT then tcp_abort env app a s1 else Some s1);
            Some (ERR_ABRT, t, s2)
          }
          else do {
            (t1, s2) \<leftarrow> at_pcb a (tcp_receive env t) s1;
            p1 \<leftarrow> lw_pcbs s2 a;
            let p2 = p1\<lparr>pcb_ssthresh := pcb_snd_wnd p1,
                        pcb_acked := if pcb_acked p1 \<noteq> 0 then pcb_acked p1 - 1 else 0,
                        pcb_cwnd := LWIP_TCP_CALC_INITIAL_CWND (pcb_mss p1)\<rparr>;
            let p3 = (if lw_recv_flags s2 AND TF_GOT_FIN \<noteq> 0 then (tcp_ack_now p2)\<lparr>pcb_state := CLOSE_WAIT\<rparr> else p2);
            Some (ERR_OK, t1, pcb_put p3 s2)
          }) = Some (err, t', s')"
  proof (cases "TCP_EVENT_ACCEPT app a ERR_OK s0")
    case None
    then show ?thesis using e p(1) True by (simp add: process_syn_rcvd_def s0_def [symmetric] bind_Some_iff)
  next
    case (Some x)
    obtain e1 s1 where x: "x = (e1, s1)" by (cases x)
    have "pcb_accept p \<noteq> None" using e p(1) True by (auto simp: process_syn_rcvd_def bind_Some_iff simp del: if_split)
    then show ?thesis
      using e p(1) True by (intro that [OF Some [unfolded x]]) (simp add: process_syn_rcvd_def s0_def [symmetric] Some x)
  qed
  have "lw_recv_flags s0 AND TF_RESET = 0" using i0(2) z by simp
  note ev = event_hold(3) [OF app i0(1) h0 c this]
  show ?thesis
  proof (cases "e1 = ERR_OK")
    case False
    then show ?thesis
      using r ev tcp_abandon_ok [OF _ _ input_appD(1) [OF app]] by (auto simp: bind_Some_iff tcp_abort_def split: if_split_asm)
  next
    case True
    then have h1: "hold a s1" "sy_input_pcb s1 = Some a" "lw_recv_flags s1 AND TF_GOT_FIN = 0" using ev z i0(2) by simp_all
    obtain t1 s2 p1 where at: "at_pcb a (tcp_receive env t) s1 = Some (t1, s2)" and p1: "lw_pcbs s2 a = Some p1"
      and s': "err = ERR_OK" "s' = pcb_put (if lw_recv_flags s2 AND TF_GOT_FIN \<noteq> 0
          then (tcp_ack_now (p1\<lparr>pcb_ssthresh := pcb_snd_wnd p1,
                        pcb_acked := if pcb_acked p1 \<noteq> 0 then pcb_acked p1 - 1 else 0,
                        pcb_cwnd := LWIP_TCP_CALC_INITIAL_CWND (pcb_mss p1)\<rparr>))\<lparr>pcb_state := CLOSE_WAIT\<rparr>
          else p1\<lparr>pcb_ssthresh := pcb_snd_wnd p1,
                        pcb_acked := if pcb_acked p1 \<noteq> 0 then pcb_acked p1 - 1 else 0,
                        pcb_cwnd := LWIP_TCP_CALC_INITIAL_CWND (pcb_mss p1)\<rparr>) s2"
      using r True by (auto simp: bind_Some_iff Let_def simp del: if_split)
    obtain q where q: "lw_pcbs s1 a = Some q" using at by (auto simp: at_pcb_def bind_Some_iff)
    obtain q' where k: "lw_pcbs s2 a = Some q'" "conn_step q q'" "pcbs_ok s2" "lw_lists s2 = lw_lists s1" "sy_input_pcb s2 = sy_input_pcb s1"
      "fin_step s1 s2" "\<not> pcb_state q < CLOSE_WAIT \<longrightarrow> lw_recv_flags s2 = lw_recv_flags s1" "ESTABLISHED \<le> pcb_state q" "pcb_addr q' = a"
      by (rule received [OF at hold_ok [OF h1(1)] q])
    have qp: "q' = p1" using k(1) p1 by simp
    have h2: "hold a s2"
      by (rule hold_flags [OF h1(1) fin_step_closed [OF k(6)] k(4,3)]) (use k(1,2) q in \<open>auto simp: established_def conn_step_def\<close>)
    have "pcbs_ok s'"
    proof (cases "lw_recv_flags s2 AND TF_GOT_FIN \<noteq> 0")
      case False
      then show ?thesis unfolding s' by (intro put_frame [OF k(3) p1]) simp
    next
      case True
      then have "pcb_state q < CLOSE_WAIT" using k(7) h1(3) by auto
      then have "state_fits L_ACTIVE (pcb_state q)" using k(8) by (cases "pcb_state q") (simp_all add: less_tcp_state_def less_eq_tcp_state_def)
      then have "state_fits L_ACTIVE (pcb_state p1)" using k(2) qp by (auto simp: conn_step_def)
      then show ?thesis unfolding s' using True by (intro put_active [OF k(3) p1]) (use k(9) qp in \<open>simp_all add: tcp_ack_now_def set_flag_def\<close>)
    qed
    then have "hold a s'"
      unfolding s' by (intro hold_put [OF h2]) (use k(1) qp in \<open>auto simp: established_def tcp_ack_now_def set_flag_def split: if_split_asm\<close>)
    then show ?thesis using hold_ok s' k(5) h1(2) by simp
  qed
qed

lemma tcp_process_ok:
  assumes e: "tcp_process env app t a s = Some (err, t', s')" and app: "input_app app" and ok: "pcbs_ok s"
    and i: "sy_input_pcb s = Some a" and z: "lw_recv_flags s = 0"
    and rst: "in_flag TCP_RST t \<Longrightarrow> a \<notin> set (lw_lists s L_TW) \<and> a \<notin> set (lw_lists s L_BOUND)"
  shows "pcbs_ok s' \<and> (err \<noteq> ERR_ABRT \<longrightarrow> hold a s' \<and> sy_input_pcb s' = Some a)"
proof -
  obtain p where p: "lw_pcbs s a = Some p" using e by (auto simp: tcp_process_def bind_Some_iff)
  have h: "hold a s" using ok z by (simp add: hold_def)
  have put: "pcbs_ok (pcb_put q s)" if "conn_frame p q" for q by (rule put_frame [OF ok p that])
  show ?thesis
  proof (cases "in_flag TCP_RST t")
    case True
    have "pcbs_ok (pcb_put (clear_flag TF_ACK_DELAY p) (s\<lparr>lw_recv_flags := lw_recv_flags s OR TF_RESET\<rparr>))"
      by (rule put_frame [of _ a p]) (use ok p in simp_all)
    then show ?thesis using e p True h i rst [OF True] z by (auto simp: tcp_process_def hold_def bind_Some_iff split: if_split_asm)
  next
    case nr: False
    show ?thesis
    proof (cases "in_flag TCP_SYN t \<and> pcb_state p \<noteq> SYN_SENT \<and> pcb_state p \<noteq> SYN_RCVD")
      case True
      have "err = ERR_OK" "s' = pcb_put (tcp_ack_now p) s" using e p nr True by (simp_all add: tcp_process_def)
      then show ?thesis using hold_put_frame [OF h p, of "tcp_ack_now p"] put [of "tcp_ack_now p"] i by simp
    next
      case False
      define p1 where "p1 = (if has_flag TF_RXCLOSED p then p else p\<lparr>pcb_tmr := sy_ticks s\<rparr>)\<lparr>pcb_keep_cnt_sent := 0\<rparr>"
      obtain p2 where p2: "tcp_parseopt t p1 = Some p2"
        and r: "(case pcb_state p2 of
          SYN_SENT \<Rightarrow> do { (err, s2) \<leftarrow> process_syn_sent env app t a (pcb_put p2 s); Some (err, t, s2) }
        | SYN_RCVD \<Rightarrow> process_syn_rcvd env app t a (pcb_put p2 s)
        | CLOSED \<Rightarrow> Some (ERR_OK, t, pcb_put p2 s)
        | LISTEN \<Rightarrow> Some (ERR_OK, t, pcb_put p2 s)
        | TIME_WAIT \<Rightarrow> Some (ERR_OK, t, pcb_put p2 s)
        | state \<Rightarrow> do { (t1, s2) \<leftarrow> process_synchronised env state t a (pcb_put p2 s); Some (ERR_OK, t1, s2) }) = Some (err, t', s')"
        using e p nr False unfolding tcp_process_def Let_def p1_def [symmetric]
        by (cases "tcp_parseopt t p1") (simp_all add: p1_def)
      obtain m where "p2 = p1\<lparr>pcb_mss := m\<rparr>" using tcp_parseopt_mss [OF p2] by blast
      then have c: "conn_frame p p2" by (simp add: p1_def conn_frame_def)
      define s1 where "s1 = pcb_put p2 s"
      have addr: "pcb_addr p2 = a" using c pcbs_okD(3) [OF ok p] by (simp add: conn_frame_def)
      have s1: "hold a s1" "pcbs_ok s1" "sy_input_pcb s1 = Some a" "lw_recv_flags s1 = 0" "lw_pcbs s1 a = Some p2"
        using hold_put_frame [OF h p c] put [OF c] i z addr by (auto simp: s1_def pcb_put_def)
      note r = r [folded s1_def]
      have idle: ?thesis if "err = ERR_OK" "s' = s1" using that s1 by simp
      have sync: ?thesis if st: "pcb_state p2 = st" "synchronised st" and x: "process_synchronised env st t a s1 = Some (t', s')" for st
        using process_synchronised_spec(1,2) [OF x s1(2,5) st] process_synchronised_spec(3) [OF x s1(2,5) st] s1(3,4) by simp
      show ?thesis
      proof (cases "pcb_state p2")
        case SYN_SENT
        then have "process_syn_sent env app t a s1 = Some (err, s')" using r by (auto simp: bind_Some_iff)
        then show ?thesis by (rule process_syn_sent_ok [OF _ app s1(1,3,5) SYN_SENT s1(4)])
      next
        case SYN_RCVD
        then have "process_syn_rcvd env app t a s1 = Some (err, t', s')" using r by simp
        then show ?thesis by (rule process_syn_rcvd_ok [OF _ app s1(1,3,5) SYN_RCVD s1(4)])
      qed (use r idle sync in \<open>auto simp: bind_Some_iff synchronised_def\<close>)
    qed
  qed
qed


end
