(* ===== verification/Tcp_Wire.thy ===== *)
theory Tcp_Wire
  imports Tcp_Parse Tcp_Write
begin

text \<open>
  Output and input together: what \<open>tcp_output_segment\<close> (src/tcp_out.c) puts on the wire is what
  \<open>tcp_input\<close> (src/tcp_in.c) reads from it; and what becomes of packets that are too short.
\<close>

section \<open>From the sender to the receiver\<close>

lemma header_bytes_length: "length (seg_header_bytes seg) = 20 + seg_optlen seg"
  by (simp add: seg_header_bytes_def seg_optlen_def LWIP_TCP_OPT_LENGTH_def be32_def)

text \<open>The segment that \<open>tcp_output_segment\<close> hands to the network: header and options in front of the data.\<close>

lemma output_segment_bytes:
  assumes "seg_ok seg" and "sg_p seg = p # q" and "20 + seg_optlen seg \<le> unat (pb_len p)" and "sg_hdroff seg = pb_off p"
  shows "\<exists>err seg' pcb' s'. tcp_output_segment env seg pcb s = Some (err, seg', pcb', s') \<and>
    sg_hdr seg' = (sg_hdr seg)\<lparr>th_ackno := pcb_rcv_nxt pcb, th_wnd := pcb_rcv_ann_wnd pcb\<rparr> \<and>
    sy_sent s' = (sg_p seg', pcb_remote_ip pcb, pcb_remote_udp_port pcb) # sy_sent s \<and> chain_ok (sg_p seg') \<and>
    sg_len seg' = sg_len seg \<and> sg_flags seg' = sg_flags seg \<and>
    chain_bytes (sg_p seg') = seg_header_bytes seg' @ seg_data seg \<and> (\<exists>p'. sg_p seg' = p' # q \<and> pb_len p' = pb_len p)"
proof -
  define seg1 where "seg1 = seg\<lparr>sg_hdr := (sg_hdr seg)\<lparr>th_ackno := pcb_rcv_nxt pcb, th_wnd := pcb_rcv_ann_wnd pcb\<rparr>\<rparr>"
  have f: "sg_p seg1 = p # q" "sg_hdroff seg1 = pb_off p" "seg_optlen seg1 = seg_optlen seg"
    using assms by (simp_all add: seg1_def seg_optlen_def)
  have ok: "pb_ok p" "chain_ok (p # q)" using assms(1,2) by (simp_all add: seg_ok_def)
  have lb: "unat (0 :: u16) + length (seg_header_bytes seg1) \<le> unat (pb_len p)"
    using assms(3) f(3) by (simp add: header_bytes_length)
  obtain p' where p': "pb_write p 0 (seg_header_bytes seg1) = Some p'" "pb_ok p'" "same_shape p p'"
    "pb_bytes p' = splice_at 0 (seg_header_bytes seg1) (pb_bytes p)"
    using pb_write_shape [OF ok(1) lb] by auto
  define seg' where "seg' = seg1\<lparr>sg_p := p' # q\<rparr>"
  have same: "p\<lparr>pb_off := pb_off p, pb_len := pb_len p - of_int (pb_off p - pb_off p), pb_tot_len := pb_tot_len p - of_int (pb_off p - pb_off p)\<rparr> = p"
    by simp
  obtain err s' pcb' where o: "tcp_output_segment env seg pcb s = Some (err, seg', pcb', s')"
    and sent: "sy_sent s' = (sg_p seg', pcb_remote_ip pcb, pcb_remote_udp_port pcb) # sy_sent s"
  proof -
    have "\<exists>err pcb' s'. tcp_output_segment env seg pcb s = Some (err, seg', pcb', s') \<and>
        sy_sent s' = (sg_p seg', pcb_remote_ip pcb, pcb_remote_udp_port pcb) # sy_sent s"
      unfolding tcp_output_segment_def Let_def seg1_def [symmetric]
      by (simp add: f p'(1) ip_output_if_def seg'_def tcp_stats_inc_def)
    then show ?thesis using that by blast
  qed
  have "chain_ok (p' # q)" using ok p'(2,3) by (simp add: same_shape_def)
  moreover have "chain_bytes (p' # q) = seg_header_bytes seg1 @ seg_data seg"
  proof -
    have "20 + seg_optlen seg \<le> length (pb_bytes p)" using assms(3) ok(1) by simp
    then show ?thesis using p'(4) f(3) by (simp add: splice_at_def seg_data_def header_bytes_length assms(2))
  qed
  moreover have "seg_header_bytes seg' = seg_header_bytes seg1" by (simp add: seg'_def seg_header_bytes_def)
  ultimately show ?thesis
    using o sent p'(3) by (intro exI [of _ err] exI [of _ seg'] exI [of _ pcb'] exI [of _ s']) (simp add: seg'_def seg1_def same_shape_def)
qed

lemma ucast_up_down:
  "ucast (ucast x :: u32) = (x :: u16)" "ucast (ucast x + 1 :: u32) = (x + 1 :: u16)"
  by (simp_all add: word_unat_eq_iff unsigned_ucast_eq take_bit_eq_mod unat_word_ariths mod_simps u16_bound mod_mod_cancel)

lemma parse_mss_option:
  assumes "TCPH_HDRLEN (ti_hdr t) = 6"
    and "\<And>i. i < 4 \<Longrightarrow> tcp_getoptbyte t (of_nat i) = Some (be32 (0x02040000 OR ucast TCP_MSS) ! i)"
  shows "tcp_parseopt t peer = Some (peer\<lparr>pcb_mss := TCP_MSS\<rparr>)"
proof -
  have b: "be32 (0x02040000 OR ucast TCP_MSS) = [2, 4, 2, 24]" by code_simp
  have g: "tcp_getoptbyte t 0 = Some 2" "tcp_getoptbyte t (0 + 1) = Some 4" "tcp_getoptbyte t (0 + 2) = Some 2"
    "tcp_getoptbyte t (0 + 3) = Some 24"
    using assms(2) [of 0] assms(2) [of 1] assms(2) [of 2] assms(2) [of 3] unfolding b by simp_all
  have "parseopt_loop t 4 0 peer = Some (peer\<lparr>pcb_mss := TCP_MSS\<rparr>)"
    using parseopt_loop_step [of 0 4 t 2 4 2 24 peer, OF _ g(1,2) conjI [OF g(3,4)]]
    by (simp add: mss_limit_def parseopt_loop.simps [of t 4 4])
  then show ?thesis using assms(1) by (simp add: tcp_parseopt_def)
qed

lemma segment_wire_spec:
  assumes "seg_ok seg" and "sg_p seg = p # q" and "20 + seg_optlen seg \<le> unat (pb_len p)" and "sg_hdroff seg = pb_off p"
    and "TCPH_HDRLEN (sg_hdr seg) = 5 + LWIP_TCP_OPT_LENGTH (sg_flags seg) div 4"
  shows "\<exists>err seg' pcb' s'. tcp_output_segment env seg pcb s = Some (err, seg', pcb', s') \<and>
    sy_sent s' = (sg_p seg', pcb_remote_ip pcb, pcb_remote_udp_port pcb) # sy_sent s \<and>
    (\<exists>p'. sg_p seg' = p' # q \<and> pb_len p' = pb_len p) \<and> chain_ok (sg_p seg') \<and>
    chain_bytes (sg_p seg') = seg_header_bytes seg' @ seg_data seg \<and>
    (\<forall>r rs. chain_ok (r # rs) \<and> chain_bytes (r # rs) = chain_bytes (sg_p seg') \<and> 20 \<le> unat (pb_len r) \<and>
        20 + seg_optlen seg \<le> unat (pb_len r) + (case rs of [] \<Rightarrow> 0 | r1 # _ \<Rightarrow> unat (pb_len r1)) \<longrightarrow>
      (\<exists>t. input_header (r # rs) = Some (Inr t) \<and>
        ti_hdr t = (sg_hdr seg)\<lparr>th_ackno := pcb_rcv_nxt pcb, th_wnd := pcb_rcv_ann_wnd pcb\<rparr> \<and>
        ti_seqno t = seg_seqno seg \<and> ti_ackno t = pcb_rcv_nxt pcb \<and> chain_ok (ti_p t) \<and> chain_bytes (ti_p t) = seg_data seg \<and>
        ti_tcplen t = ucast (TCP_TCPLEN seg) \<and>
        (\<forall>peer. tcp_parseopt t peer = Some (if sg_flags seg AND TF_SEG_OPTS_MSS \<noteq> 0 then peer\<lparr>pcb_mss := TCP_MSS\<rparr> else peer))))"
proof -
  let ?h = "(sg_hdr seg)\<lparr>th_ackno := pcb_rcv_nxt pcb, th_wnd := pcb_rcv_ann_wnd pcb\<rparr>"
  obtain err seg' pcb' s' where o: "tcp_output_segment env seg pcb s = Some (err, seg', pcb', s')" "sg_hdr seg' = ?h"
    "sy_sent s' = (sg_p seg', pcb_remote_ip pcb, pcb_remote_udp_port pcb) # sy_sent s"
    "sg_len seg' = sg_len seg" "sg_flags seg' = sg_flags seg"
    "chain_bytes (sg_p seg') = seg_header_bytes seg' @ seg_data seg" and
    shape: "\<exists>p'. sg_p seg' = p' # q \<and> pb_len p' = pb_len p" "chain_ok (sg_p seg')"
    using output_segment_bytes [OF assms(1-4)] by blast
  let ?opts = "if sg_flags seg AND TF_SEG_OPTS_MSS \<noteq> 0 then be32 (0x02040000 OR ucast TCP_MSS) else []"
  have B: "chain_bytes (sg_p seg') = tcp_hdr_bytes ?h @ ?opts @ seg_data seg"
    unfolding o(6) seg_header_bytes_def o(2,5) by simp
  have hl: "4 * unat (TCPH_HDRLEN ?h) = 20 + seg_optlen seg"
    using assms(5) by (simp add: TCPH_HDRLEN_def seg_optlen_def LWIP_TCP_OPT_LENGTH_def)
  have lo: "length ?opts = seg_optlen seg" by (simp add: seg_optlen_def LWIP_TCP_OPT_LENGTH_def be32_def)
  have "\<exists>t. input_header (r # rs) = Some (Inr t) \<and> ti_hdr t = ?h \<and>
        ti_seqno t = seg_seqno seg \<and> ti_ackno t = pcb_rcv_nxt pcb \<and> chain_ok (ti_p t) \<and> chain_bytes (ti_p t) = seg_data seg \<and>
        ti_tcplen t = ucast (TCP_TCPLEN seg) \<and>
        (\<forall>peer. tcp_parseopt t peer = Some (if sg_flags seg AND TF_SEG_OPTS_MSS \<noteq> 0 then peer\<lparr>pcb_mss := TCP_MSS\<rparr> else peer))"
    if ok: "chain_ok (r # rs)" and b: "chain_bytes (r # rs) = chain_bytes (sg_p seg')" and l: "20 \<le> unat (pb_len r)"
      "20 + seg_optlen seg \<le> unat (pb_len r) + (case rs of [] \<Rightarrow> 0 | r1 # _ \<Rightarrow> unat (pb_len r1))" for r rs
  proof -
    have hr: "?h = tcp_hdr_read (chain_bytes (r # rs))" unfolding b B by (rule tcp_hdr_read_bytes [symmetric])
    obtain t where t: "input_header (r # rs) = Some (Inr t)" "ti_hdr t = ?h" "ti_seqno t = seg_seqno seg" "ti_ackno t = pcb_rcv_nxt pcb"
      "chain_ok (ti_p t)" "chain_bytes (ti_p t) = drop (20 + seg_optlen seg) (chain_bytes (r # rs))"
      "unat (ti_len t) = length (chain_bytes (r # rs)) - (20 + seg_optlen seg)"
      "ti_tcplen t = ti_len t + (if TCPH_FLAGS ?h AND (TCP_FIN OR TCP_SYN) \<noteq> 0 then 1 else 0)"
      "\<forall>i < seg_optlen seg. tcp_getoptbyte t (of_nat i) = Some (chain_bytes (r # rs) ! (20 + i))"
      using input_header_parses_spec [OF ok l(1) hr hl [symmetric]] l(2) by auto
    have d: "chain_bytes (ti_p t) = seg_data seg" using t(6) lo unfolding b B by simp
    have "unat (ti_len t) = unat (sg_len seg)"
      using t(7) lo seg_data_length [OF assms(1)] unfolding b B by simp
    then have "ti_len t = sg_len seg" by (simp add: word_unat_eq_iff)
    then have "ti_tcplen t = ucast (TCP_TCPLEN seg)"
      using t(8) by (simp add: TCP_TCPLEN_def TCPH_FLAGS_def ucast_up_down)
    moreover have "tcp_parseopt t peer = Some (if sg_flags seg AND TF_SEG_OPTS_MSS \<noteq> 0 then peer\<lparr>pcb_mss := TCP_MSS\<rparr> else peer)" for peer
    proof (cases "sg_flags seg AND TF_SEG_OPTS_MSS \<noteq> 0")
      case True
      then have six: "TCPH_HDRLEN (ti_hdr t) = 6" and four: "seg_optlen seg = 4"
        using assms(5) t(2) by (simp_all add: TCPH_HDRLEN_def LWIP_TCP_OPT_LENGTH_def seg_optlen_def)
      have "tcp_getoptbyte t (of_nat i) = Some (be32 (0x02040000 OR ucast TCP_MSS) ! i)" if "i < 4" for i
        using t(9) that True lo four unfolding b B by (simp add: nth_append)
      from parse_mss_option [OF six this] show ?thesis using True by simp
    next
      case False
      then have "TCPH_HDRLEN (ti_hdr t) = 5" using assms(5) t(2) by (simp add: TCPH_HDRLEN_def LWIP_TCP_OPT_LENGTH_def)
      then show ?thesis using False by (simp add: tcp_parseopt_def)
    qed
    ultimately show ?thesis using t(1-5) d by blast
  qed
  then show ?thesis using o(1,3,6) shape by blast
qed

text \<open>
  C9: What one side sends the other side reads. \<open>tcp_output_segment\<close> always hands a well-formed segment to the
  network, and whatever buffers its bytes arrive in, as long as header and options lie in the first one
  or two, \<open>input_header\<close> of the receiver finds the sender's header with
  the acknowledgement and window of the sender's connection, the same sequence
  number and length in sequence space, exactly the data of the segment as payload, and
  \<open>tcp_parseopt\<close> finds the MSS that a SYN announces and nothing when there are no options.
\<close>

theorem segment_wire_roundtrip:
  assumes "seg_ok seg" and "sg_p seg = p # q" and "20 + seg_optlen seg \<le> unat (pb_len p)" and "sg_hdroff seg = pb_off p"
    and "TCPH_HDRLEN (sg_hdr seg) = 5 + LWIP_TCP_OPT_LENGTH (sg_flags seg) div 4"
  shows "\<exists>err seg' pcb' s'. tcp_output_segment env seg pcb s = Some (err, seg', pcb', s') \<and>
    sy_sent s' = (sg_p seg', pcb_remote_ip pcb, pcb_remote_udp_port pcb) # sy_sent s \<and>
    (\<forall>r rs. chain_ok (r # rs) \<and> chain_bytes (r # rs) = chain_bytes (sg_p seg') \<and> 20 \<le> unat (pb_len r) \<and>
        20 + seg_optlen seg \<le> unat (pb_len r) + (case rs of [] \<Rightarrow> 0 | r1 # _ \<Rightarrow> unat (pb_len r1)) \<longrightarrow>
      (\<exists>t. input_header (r # rs) = Some (Inr t) \<and>
        ti_hdr t = (sg_hdr seg)\<lparr>th_ackno := pcb_rcv_nxt pcb, th_wnd := pcb_rcv_ann_wnd pcb\<rparr> \<and>
        ti_seqno t = seg_seqno seg \<and> ti_ackno t = pcb_rcv_nxt pcb \<and> chain_ok (ti_p t) \<and> chain_bytes (ti_p t) = seg_data seg \<and>
        ti_tcplen t = ucast (TCP_TCPLEN seg) \<and>
        (\<forall>peer. tcp_parseopt t peer = Some (if sg_flags seg AND TF_SEG_OPTS_MSS \<noteq> 0 then peer\<lparr>pcb_mss := TCP_MSS\<rparr> else peer))))"
  using segment_wire_spec [OF assms, of env pcb s] by (elim exE conjE) (intro exI conjI; assumption)

section \<open>The properties at concrete values\<close>

text \<open>A chain of one buffer with the given bytes.\<close>

definition wire_chain :: "u8 list \<Rightarrow> pbuf list" where
  "wire_chain bs = [\<lparr>pb_addr = 300, pb_mem = bs, pb_off = 0, pb_tot_len = of_nat (length bs), pb_len = of_nat (length bs),
     pb_type = PBUF_RAM, pb_flags = 0\<rparr>]"

lemma ex_wire:
  "case tcp_output_segment ex_env (ex_seg 2 1003 [4, 5]) ex_pcb ex_sys of None \<Rightarrow> False
   | Some (e, seg', p, s) \<Rightarrow> length (chain_bytes (sg_p seg')) = 22"
  by code_simp

lemma ex_wire_seg:
  "seg_ok (ex_seg 2 1003 [4, 5])" "sg_p (ex_seg 2 1003 [4, 5]) = [hd (sg_p (ex_seg 2 1003 [4, 5]))]"
  "20 + seg_optlen (ex_seg 2 1003 [4, 5]) \<le> unat (pb_len (hd (sg_p (ex_seg 2 1003 [4, 5]))))"
  "sg_hdroff (ex_seg 2 1003 [4, 5]) = pb_off (hd (sg_p (ex_seg 2 1003 [4, 5])))"
  "TCPH_HDRLEN (sg_hdr (ex_seg 2 1003 [4, 5])) = 5 + LWIP_TCP_OPT_LENGTH (sg_flags (ex_seg 2 1003 [4, 5])) div 4"
  "seg_data (ex_seg 2 1003 [4, 5]) = [4, 5]" "seg_optlen (ex_seg 2 1003 [4, 5]) = 0"
  by (simp_all add: seg_ok_def seg_optlen_def LWIP_TCP_OPT_LENGTH_def ex_seg_def pb_ok_def seg_data_def pb_bytes_def TCPH_HDRLEN_def)

theorem segment_wire_roundtrip_witness:
  "\<exists>err seg' pcb' s' t. tcp_output_segment ex_env (ex_seg 2 1003 [4, 5]) ex_pcb ex_sys = Some (err, seg', pcb', s') \<and>
     input_header (wire_chain (chain_bytes (sg_p seg'))) = Some (Inr t) \<and> ti_seqno t = 1003 \<and> chain_bytes (ti_p t) = [4, 5]"
proof -
  let ?s = "ex_seg 2 1003 [4, 5]"
  obtain err seg' pcb' s' where o: "tcp_output_segment ex_env ?s ex_pcb ex_sys = Some (err, seg', pcb', s')"
    and in1: "chain_ok (r # rs) \<and> chain_bytes (r # rs) = chain_bytes (sg_p seg') \<and> 20 \<le> unat (pb_len r) \<and>
        20 + seg_optlen ?s \<le> unat (pb_len r) + (case rs of [] \<Rightarrow> 0 | r1 # _ \<Rightarrow> unat (pb_len r1)) \<Longrightarrow>
      \<exists>t. input_header (r # rs) = Some (Inr t) \<and> ti_seqno t = seg_seqno ?s \<and> chain_bytes (ti_p t) = seg_data ?s" for r rs
    using segment_wire_roundtrip [OF ex_wire_seg(1-5), of ex_env ex_pcb ex_sys] by (elim exE conjE) blast
  define bs where "bs = chain_bytes (sg_p seg')"
  have l: "length bs = 22" using ex_wire o by (simp add: bs_def)
  obtain r where r: "wire_chain bs = [r]" "chain_ok [r]" "chain_bytes [r] = bs" "unat (pb_len r) = 22"
    using l by (simp add: wire_chain_def pb_ok_def pb_bytes_def)
  obtain t where "input_header [r] = Some (Inr t)" "ti_seqno t = seg_seqno ?s" "chain_bytes (ti_p t) = seg_data ?s"
    using in1 [of r "[]"] r ex_wire_seg(7) by (auto simp: bs_def)
  moreover have "seg_seqno ?s = 1003" by (simp add: ex_seg_def)
  ultimately show ?thesis using o r(1) ex_wire_seg(6) by (auto simp: bs_def)
qed

section \<open>Bad packets\<close>

lemma input_header_no_options_abort:
  assumes "chain_ok [p]" and "20 \<le> unat (pb_len p)"
    and "unat (pb_len p) < 4 * unat (TCPH_HDRLEN (tcp_hdr_read (chain_bytes [p])))"
  shows "input_header [p] = None"
proof -
  let ?B = "chain_bytes [p]"
  have l: "20 \<le> length ?B" using assms(1,2) by simp
  have rd: "pb_read p 0 20 = Some (take 20 ?B)" by (rule chain_head_bytes [OF assms(1,2)]) simp
  have c1: "20 \<le> pb_len p" using assms(2) by (simp add: word_le_nat_alt)
  have h: "pbuf_header [p] (- 20) = Some (0, [hidden p 20])" by (rule hide_first(1) [OF assms(1) _ c1]) simp
  have "input_options [p] (TCPH_HDRLEN (tcp_hdr_read ?B)) = None"
    using assms(3) h by (simp add: input_options_def input_hide_def Let_def mult.commute [of 4])
  then show ?thesis
    using rd assms(2) tcp_hdr_read_take [OF l] by (simp add: input_header_def word_less_nat_alt Let_def not_less)
qed

lemma sys_more_lw:
  assumes "sys.more s' = sys.more (s :: lw)"
  shows "lw_pcbs s' = lw_pcbs s" and "lw_lpcbs s' = lw_lpcbs s" and "lw_lists s' = lw_lists s"
  using assms by (cases s; cases s'; simp)+

lemma tcp_stats_inc_simps [simp]:
  "sy_ref (tcp_stats_inc x s) = sy_ref s" "memp_tab (tcp_stats_inc x s) = memp_tab s" "sy_heap (tcp_stats_inc x s) = sy_heap s"
  "sy_sent (tcp_stats_inc x s) = sy_sent s" "sys.more (tcp_stats_inc x s) = sys.more s"
  "sy_tcp_stats (tcp_stats_inc x s) = (sy_tcp_stats s)(x := sy_tcp_stats s x + 1)"
  by (simp_all add: tcp_stats_inc_def)

text \<open>
  C14: What happens to packets that are too short. A packet whose first buffer is shorter than a
  header (while the 20 bytes exist in memory, since the debug output reads them first) is counted as received, as a length error and as
  dropped, its buffers are released, and no connection, no list and nothing sent is affected. But a
  packet in one buffer whose header claims more header bytes than the packet has makes an assertion fail: the peer can
  stop the program with 20 bytes.
\<close>

theorem tcp_input_bad_packet:
  assumes "chain_ok (p # q)" and "nat (pb_off p) + 20 \<le> length (pb_mem p)"
    and "distinct (map pb_addr (p # q))" and "\<forall>x \<in> set (p # q). 0 < sy_ref s (pb_addr x)"
  shows "(unat (pb_len p) < 20 \<longrightarrow>
     (\<exists>s'. tcp_input env app beyond ip port (p # q) s = Some s' \<and>
        lw_pcbs s' = lw_pcbs s \<and> lw_lpcbs s' = lw_lpcbs s \<and> lw_lists s' = lw_lists s \<and> sy_sent s' = sy_sent s \<and>
        sy_tcp_stats s' = (\<lambda>x. sy_tcp_stats s x + (if x \<in> {S_RECV, S_LENERR, S_DROP} then 1 else 0)) \<and>
        (\<forall>t. mset (memp_tab s' t) = mset (memp_tab s t) +
           mset (map pb_addr (filter (\<lambda>p. pbuf_pool p = Some t) (take (freed_count (p # q) s) (p # q))))))) \<and>
    (q = [] \<and> 20 \<le> unat (pb_len p) \<and> unat (pb_len p) < 4 * unat (TCPH_HDRLEN (tcp_hdr_read (chain_bytes [p]))) \<longrightarrow>
     tcp_input env app beyond ip port (p # q) s = None)"
proof (intro conjI impI)
  assume short: "unat (pb_len p) < 20"
  let ?s1 = "tcp_stats_inc S_DROP (tcp_stats_inc S_LENERR (tcp_stats_inc S_RECV s))"
  have "0 \<le> pb_off p" using assms(1) by (simp add: pb_ok_def)
  then have "pb_read p 0 20 = Some (take 20 (drop (nat (pb_off p)) (pb_mem p)))"
    using assms(2) by (simp add: pb_read_def)
  then have h: "input_header (p # q) = Some (Inl ())"
    using short by (simp add: input_header_def word_less_nat_alt)
  obtain s' where f: "pbuf_free (p # q) ?s1 = Some (of_nat (freed_count (p # q) ?s1), s')"
    "\<forall>t. mset (memp_tab s' t) = mset (memp_tab ?s1 t) +
       mset (map pb_addr (filter (\<lambda>p. pbuf_pool p = Some t) (take (freed_count (p # q) ?s1) (p # q))))"
    using free_spec [of "p # q" ?s1] assms(3,4) by auto
  have c: "freed_count (p # q) ?s1 = freed_count (p # q) s" by (simp add: freed_count_def)
  note m = mem_frame_sys [OF pbuf_free_frame [OF f(1)]]
  have "tcp_input env app beyond ip port (p # q) s = Some s'"
    using h f(1) by (simp add: tcp_input_def Let_def)
  moreover have "sy_tcp_stats s' = (\<lambda>x. sy_tcp_stats s x + (if x \<in> {S_RECV, S_LENERR, S_DROP} then 1 else 0))"
    using m(2) by auto
  ultimately show "\<exists>s'. tcp_input env app beyond ip port (p # q) s = Some s' \<and>
        lw_pcbs s' = lw_pcbs s \<and> lw_lpcbs s' = lw_lpcbs s \<and> lw_lists s' = lw_lists s \<and> sy_sent s' = sy_sent s \<and>
        sy_tcp_stats s' = (\<lambda>x. sy_tcp_stats s x + (if x \<in> {S_RECV, S_LENERR, S_DROP} then 1 else 0)) \<and>
        (\<forall>t. mset (memp_tab s' t) = mset (memp_tab s t) +
           mset (map pb_addr (filter (\<lambda>p. pbuf_pool p = Some t) (take (freed_count (p # q) s) (p # q)))))"
    using f(2) c m(1) sys_more_lw [of s' s] m(5) by (intro exI [of _ s']) simp
next
  assume "q = [] \<and> 20 \<le> unat (pb_len p) \<and> unat (pb_len p) < 4 * unat (TCPH_HDRLEN (tcp_hdr_read (chain_bytes [p])))"
  then show "tcp_input env app beyond ip port (p # q) s = None"
    using input_header_no_options_abort [of p] assms(1) by (simp add: tcp_input_def Let_def)
qed

text \<open>A packet of 19 bytes is dropped; one of 20 bytes whose header claims 60 stops the program.\<close>

definition ex_bad :: "u16 \<Rightarrow> pbuf" where
  "ex_bad n = \<lparr>pb_addr = 300, pb_mem = tcp_hdr_bytes (ex_syn_hdr\<lparr>th_hdrlen_rsvd_flags := 0xf002\<rparr>), pb_off = 0,
     pb_tot_len = n, pb_len = n, pb_type = PBUF_RAM, pb_flags = 0\<rparr>"

theorem tcp_input_bad_packet_witness:
  "(\<exists>s'. tcp_input ex_env ex_app (\<lambda>_. 0) 1 2 [ex_bad 19] ex_lw = Some s' \<and> lw_lists s' = lw_lists ex_lw \<and>
      sy_tcp_stats s' S_DROP = 1) \<and>
   tcp_input ex_env ex_app (\<lambda>_. 0) 1 2 [ex_bad 20] ex_lw = None"
proof -
  have ok: "chain_ok [ex_bad 19]" "chain_ok [ex_bad 20]" by (simp_all add: ex_bad_def pb_ok_def)
  have m: "nat (pb_off (ex_bad n)) + 20 \<le> length (pb_mem (ex_bad n))" "distinct (map pb_addr [ex_bad n])"
    "unat (pb_len (ex_bad n)) = unat n" for n
    by (simp_all add: ex_bad_def)
  have r: "\<forall>x \<in> set [ex_bad n]. 0 < sy_ref ex_lw (pb_addr x)" for n by (simp add: ex_bad_def ex_lw_def ex_defs)
  have z: "sy_tcp_stats ex_lw S_DROP = 0" by (simp add: ex_lw_def ex_defs)
  have "chain_bytes [ex_bad 20] = tcp_hdr_bytes (ex_syn_hdr\<lparr>th_hdrlen_rsvd_flags := 0xf002\<rparr>) @ []"
    by (simp add: ex_bad_def pb_bytes_def)
  then have "tcp_hdr_read (chain_bytes [ex_bad 20]) = ex_syn_hdr\<lparr>th_hdrlen_rsvd_flags := 0xf002\<rparr>"
    by (simp only: tcp_hdr_read_bytes)
  then have "unat (TCPH_HDRLEN (tcp_hdr_read (chain_bytes [ex_bad 20]))) = 15" by (simp add: TCPH_HDRLEN_def)
  then show ?thesis
    using tcp_input_bad_packet [OF ok(1) m(1,2) r, of ex_env ex_app "\<lambda>_. 0" 1 2]
      tcp_input_bad_packet [OF ok(2) m(1,2) r, of ex_env ex_app "\<lambda>_. 0" 1 2] m(3) z
    by auto
qed

end
