(* ===== verification/Tcp_Input.thy ===== *)
theory Tcp_Input
  imports Tcp_Process Tcp_Wire
begin

text \<open>
  \<open>tcp_input\<close> as a whole: the delivery to the application, the removal of closed and reset connections,
  TIME-WAIT and listening, and the stack (calls, timers and packets) as one transition system.
\<close>

section \<open>Delivery and removal keep the lists\<close>

lemma input_remove_ok:
  assumes "input_remove env a s = Some s'" and "hold a s" and "lw_recv_flags s AND (TF_RESET OR TF_CLOSED) \<noteq> 0"
  shows "pcbs_ok s'"
proof -
  obtain s1 where s1: "tcp_pcb_remove env L_ACTIVE a s = Some s1" and s': "s' = pcb_free a s1"
    using assms(1) by (auto simp: input_remove_def bind_Some_iff)
  have "a \<notin> set (lw_lists s l')" if "l' \<noteq> L_LISTEN" "l' \<noteq> L_ACTIVE" for l'
    using that assms(2,3) by (cases l') (auto simp: hold_def)
  then have "pcbs_ok s1 \<and> unlisted s1 a \<and> lw_pcbs s1 a \<noteq> None" by (intro tcp_pcb_remove_ok [OF s1 hold_ok [OF assms(2)]])
  then show ?thesis unfolding s' by (intro unlisted_free) simp_all
qed

lemma input_data_ok:
  assumes "input_data env app d a s = Some (b, s')" and "app_keeps pcbs_ok app" and "pcbs_ok s"
  shows "pcbs_ok s'"
  using assms event_recv_ok(1) [OF assms(2,3)]
  by (auto simp: input_data_def bind_Some_iff tcp_abort_def split: if_split_asm
      dest!: pbuf_free_frame mem_sys_frame intro: tcp_abandon_ok pcbs_ok_frame intro!: put_frame)

lemma input_fin_ok:
  assumes "input_fin env app a s = Some (err, s')" and "app_keeps pcbs_ok app" and "pcbs_ok s"
  shows "pcbs_ok s'"
proof -
  obtain p where p: "lw_pcbs s a = Some p" using assms(1) by (auto simp: input_fin_def bind_Some_iff)
  have put: "pcbs_ok (pcb_put q s)" if "conn_frame p q" for q by (rule put_frame [OF assms(3) p that])
  have cl: "pcbs_ok s'" if "TCP_EVENT_CLOSED env app a (pcb_put q s) = Some (err, s')" "conn_frame p q" for q
    by (rule event_recv_ok(2) [OF assms(2) put [OF that(2)] that(1)])
  show ?thesis
    using assms p put cl by (fastforce simp: input_fin_def split: if_split_asm list.split_asm)
qed

lemma one_flag:
  assumes "y AND (f :: u8) \<noteq> 0" and "(TF_RESET OR TF_CLOSED) AND f = f"
  shows "y AND (TF_RESET OR TF_CLOSED) \<noteq> 0"
proof
  assume "y AND (TF_RESET OR TF_CLOSED) = 0"
  then have "y AND ((TF_RESET OR TF_CLOSED) AND f) = 0" by (simp add: and.assoc [symmetric])
  then show False using assms by simp
qed


lemma closed_flags:
  assumes "x \<in> {y, y OR TF_CLOSED}" and "y AND (TF_RESET OR TF_CLOSED) \<noteq> 0"
  shows "x AND (TF_RESET OR TF_CLOSED) \<noteq> (0::u8)"
  using assms one_flag [of "y OR TF_CLOSED" TF_CLOSED] by (auto simp: bit.conj_disj_distrib2)

lemma input_deliver_ok:
  assumes e: "input_deliver env app t a s = Some s'" and app: "input_app app" and h: "hold a s" and i: "sy_input_pcb s = Some a"
    and nr: "lw_recv_flags s AND TF_RESET = 0"
  shows "pcbs_ok s'"
proof -
  note keeps = input_appD(1) [OF app]
  obtain p where p: "lw_pcbs s a = Some p" using e by (auto simp: input_deliver_def bind_Some_iff)
  define sent where "sent = (if 0 < pcb_acked p then TCP_EVENT_SENT app a (pcb_acked p) s else Some (ERR_OK, s))"
  obtain err s1 where c: "sent = Some (err, s1)"
    using e p by (cases sent) (auto simp: input_deliver_def sent_def [symmetric])
  have ev: "pcbs_ok s1 \<and> (err \<noteq> ERR_ABRT \<longrightarrow> hold a s1 \<and> sy_input_pcb s1 = Some a)"
    using c event_hold(1) [OF app i h, of a "pcb_acked p" err s1] nr hold_ok [OF h] h i by (auto simp: sent_def split: if_split_asm)
  note r = e [unfolded input_deliver_def p Option.bind.bind_lunit sent_def [symmetric] c prod.case]
  show ?thesis
  proof (cases "err = ERR_ABRT")
    case True
    then show ?thesis using r ev by simp
  next
    case False
    then have h1: "hold a s1" "sy_input_pcb s1 = Some a" using ev by simp_all
    note r = r [unfolded if_not_P [OF False]]
    show ?thesis
    proof (cases "lw_recv_flags s1 AND TF_CLOSED \<noteq> 0")
      case True
      note r = r [unfolded if_P [OF True]]
      have f1: "lw_recv_flags s1 AND (TF_RESET OR TF_CLOSED) \<noteq> 0" by (rule one_flag [OF True]) simp
      obtain p1 s2 where p1: "lw_pcbs s1 a = Some p1"
        and c2: "(if has_flag TF_RXCLOSED p1 then Some s1 else TCP_EVENT_ERR app (pcb_errf p1) (pcb_callback_arg p1) ERR_CLSD s1) = Some s2"
        and rm: "input_remove env a s2 = Some s'"
        using r by (auto simp only: bind_Some_iff)
      have "hold a s2 \<and> lw_recv_flags s2 AND (TF_RESET OR TF_CLOSED) \<noteq> 0"
        using c2 h1 f1 event_hold(4) [OF app h1(2,1)] closed_flags [OF _ f1] by (auto split: if_split_asm)
      then show ?thesis using input_remove_ok [OF rm] by simp
    next
      case nc: False
      note r = r [unfolded if_not_P [OF nc]]
      obtain b s2 where d: "input_data env app (ti_recv_data t) a s1 = Some (b, s2)"
        using r by (auto simp only: bind_Some_iff)
      note ok2 = input_data_ok [OF d keeps hold_ok [OF h1(1)]]
      show ?thesis
      proof (cases b)
        case True
        then show ?thesis using r d ok2 by simp
      next
        case False
        then obtain err2 s3 where f: "input_fin env app a s2 = Some (err2, s3)"
          and o: "(if err2 = ERR_ABRT then Some s3
             else do { (_, s4) \<leftarrow> at_pcb a (tcp_output env) (s3\<lparr>sy_input_pcb := None\<rparr>); Some s4 }) = Some s'"
          using r d by (cases "input_fin env app a s2") auto
        have ok3: "pcbs_ok s3" by (rule input_fin_ok [OF f keeps ok2])
        have "pcbs_ok (s3\<lparr>sy_input_pcb := None\<rparr>)" using ok3 pcbs_ok_cong [of "s3\<lparr>sy_input_pcb := None\<rparr>" s3] by simp
        then show ?thesis using o ok3 at_pcb_output_ok(1) by (auto simp: bind_Some_iff split: if_split_asm)
      qed
    qed
  qed
qed

section \<open>The flags of the segment\<close>

lemma sys_in_same: "sys_frame s s' \<Longrightarrow> in_same s s'" by (simp add: in_same_def sys_frame_fin sys_input)

lemma pcb_free_in [simp]: "lw_recv_flags (pcb_free a s) = lw_recv_flags s" "lw_recv_flags (lpcb_free a s) = lw_recv_flags s"
  "sy_input_pcb (pcb_free a s) = sy_input_pcb s" "sy_input_pcb (lpcb_free a s) = sy_input_pcb s"
  by (simp_all add: pcb_free_def lpcb_free_def memp_free_def Let_def memp_stats_upd_def)

lemma in_same_simps [simp]:
  "in_same s (TCP_RMV l a s') = in_same s s'" "in_same s (TCP_RMV_ACTIVE a s') = in_same s s'"
  "in_same s (TCP_REG l a s') = in_same s s'" "in_same s (pcb_free a s') = in_same s s'"
  "in_same s (lpcb_free a s') = in_same s s'" "in_same s (pcb_put p s') = in_same s s'"
  "in_same (pcb_put p s) s' = in_same s s'" "in_same s (s'\<lparr>lw_active_changed := b\<rparr>) = in_same s s'"
  "in_same (TCP_RMV l a s) s' = in_same s s'"
  by (simp_all add: in_same_def TCP_RMV_def TCP_RMV_ACTIVE_def TCP_REG_def)

lemma at_pcb_in_same:
  assumes "at_pcb a f s = Some (r, s')" and "\<And>p r p' s'. f p s = Some (r, p', s') \<Longrightarrow> conn_frame p p' \<and> sys_frame s s'"
  shows "in_same s s'"
  using assms(1) by (auto simp: at_pcb_def bind_Some_iff dest!: assms(2) sys_in_same)

lemma at_pcb_calls_in_same:
  "at_pcb a (tcp_send_fin env) s = Some (r, s') \<Longrightarrow> in_same s s'" "at_pcb a (tcp_output env) s = Some (err, s') \<Longrightarrow> in_same s s'"
  "at_pcb a (tcp_recved env n) s = Some (u, s') \<Longrightarrow> in_same s s'"
  by (erule at_pcb_in_same; erule tcp_send_fin_frame tcp_output_frame tcp_recved_frame)+

lemma tcp_pcb_remove_in_same: "tcp_pcb_remove env l a s = Some s' \<Longrightarrow> in_same s s'"
  by (auto simp: tcp_pcb_remove_def bind_Some_iff Let_def split: if_split_asm
      dest!: tcp_pcb_purge_frame tcp_output_frame sys_in_same intro: in_same_trans)

lemma tcp_close_shutdown_in_same:
  assumes "tcp_close_shutdown env a rst s = Some (err, s')" and "sy_input_pcb s = None"
  shows "in_same s s'"
proof -
  have rst: "in_same s s'" if e: "close_with_rst env a p s = Some (err, s')" for p
  proof -
    obtain s1 p1 s2 where r: "pcb_rst env p s = Some s1" and pu: "tcp_pcb_purge p s1 = Some (p1, s2)"
      using e by (auto simp: close_with_rst_def bind_Some_iff)
    have "sys_frame s s2" using r tcp_pcb_purge_frame [OF pu] by (auto simp: pcb_rst_def dest!: tcp_rst_frame intro: sys_frame_trans)
    then show ?thesis
      using e r pu assms(2) sys_in_same [of s s2] sys_input [of s s2] by (auto simp: close_with_rst_def Let_def split: if_split_asm)
  qed
  have fin: "in_same s s'" if "close_with_fin env st a s = Some (err, s')" for st
    using that
    by (auto simp: close_with_fin_def bind_Some_iff split: if_split_asm
        dest!: at_pcb_calls_in_same intro: in_same_trans)
  have listen: "in_same s s1" if "tcp_lpcb_remove a s = Some s1" for s1
    using that by (auto simp: tcp_lpcb_remove_def bind_Some_iff Let_def in_same_def TCP_RMV_def)
  show ?thesis
    using assms(1) rst fin listen
    by (auto simp: tcp_close_shutdown_def TCP_PCB_REMOVE_ACTIVE_def bind_Some_iff split: option.split_asm if_split_asm tcp_state.split_asm
        dest!: tcp_pcb_remove_in_same)
qed

lemma tcp_close_in_same: "tcp_close env a s = Some (err, s') \<Longrightarrow> sy_input_pcb s = None \<Longrightarrow> in_same s s'"
  by (auto simp: tcp_close_def bind_Some_iff split: option.split_asm dest!: tcp_close_shutdown_in_same)

text \<open>A close that changes the active list says so.\<close>

lemma steady_sys: "sys_frame s s' \<Longrightarrow> steady L s' = steady L s"
  by (simp add: steady_def sys_frame_lw)

lemma steady_changed [simp]: "steady L (s\<lparr>lw_active_changed := True\<rparr>)" "steady L (TCP_RMV_ACTIVE a s)"
  by (simp_all add: steady_def TCP_RMV_ACTIVE_def)

lemma steady_simps [simp]:
  "steady L (pcb_put p s) = steady L s" "steady L (pcb_free a s) = steady L s" "steady L (lpcb_free a s) = steady L s"
  "steady L (tcp_trigger_input_pcb_close s) = steady L s"
  "l \<noteq> L_ACTIVE \<Longrightarrow> steady L (TCP_RMV l a s) = steady L s" "l \<noteq> L_ACTIVE \<Longrightarrow> steady L (TCP_REG l a s) = steady L s"
  by (auto simp: steady_def pcb_put_def pcb_free_def lpcb_free_def memp_free_def memp_stats_upd_def Let_def tcp_trigger_input_pcb_close_def
      TCP_RMV_def TCP_REG_def)

lemma at_pcb_steady:
  assumes "at_pcb a f s = Some (r, s')" and "steady L s" and "\<And>p r p' s'. f p s = Some (r, p', s') \<Longrightarrow> conn_frame p p' \<and> sys_frame s s'"
  shows "steady L s'"
  using assms(1,2) by (auto simp: at_pcb_def bind_Some_iff dest!: assms(3) steady_sys [of _ _ L])

lemma at_pcb_calls_steady:
  "at_pcb a (tcp_send_fin env) s = Some (r, s') \<Longrightarrow> steady L s \<Longrightarrow> steady L s'" "at_pcb a (tcp_output env) s = Some (err, s') \<Longrightarrow> steady L s \<Longrightarrow> steady L s'"
  by (erule (1) at_pcb_steady; erule tcp_send_fin_frame tcp_output_frame)+

lemma tcp_close_shutdown_steady:
  assumes "tcp_close_shutdown env a rst s = Some (err, s')" and "steady L s"
  shows "steady L s'"
proof -
  have rst: "steady L s'" if e: "close_with_rst env a p s = Some (err, s')" for p
    using e by (auto simp: close_with_rst_def bind_Some_iff Let_def split: if_split_asm)
  have fin: "steady L s'" if "close_with_fin env st a s = Some (err, s')" for st
    using that assms(2)
    by (auto simp: close_with_fin_def bind_Some_iff split: if_split_asm intro: at_pcb_calls_steady
        dest!: at_pcb_calls_steady(1) [of _ _ _ _ _ L])
  have listen: "steady L s1" if "tcp_lpcb_remove a s = Some s1" for s1
    using that assms(2) by (auto simp: tcp_lpcb_remove_def bind_Some_iff Let_def steady_def TCP_RMV_def)
  show ?thesis
    using assms(1,2) rst fin listen
    by (auto simp: tcp_close_shutdown_def TCP_PCB_REMOVE_ACTIVE_def bind_Some_iff split: option.split_asm if_split_asm tcp_state.split_asm)
qed

lemma tcp_close_steady: "tcp_close env a s = Some (err, s') \<Longrightarrow> steady L s \<Longrightarrow> steady L s'"
  by (auto simp: tcp_close_def bind_Some_iff split: option.split_asm dest: tcp_close_shutdown_steady)

lemma in_same_None: "in_same s s' \<Longrightarrow> sy_input_pcb s = None \<Longrightarrow> sy_input_pcb s' = None"
  by (simp add: in_same_def)

lemma tcp_recv_null_in_same:
  assumes "tcp_recv_null env a p err s = Some (r, s')" and "sy_input_pcb s = None"
  shows "in_same s s'"
proof (cases p)
  case Nil
  then show ?thesis using assms by (auto simp: tcp_recv_null_def split: if_split_asm dest: tcp_close_in_same)
next
  case (Cons q qs)
  then show ?thesis
    using assms by (auto simp: tcp_recv_null_def bind_Some_iff
        dest!: at_pcb_calls_in_same pbuf_free_frame mem_sys_frame sys_in_same intro: in_same_trans)
qed

lemma event_recv_in_same:
  assumes app: "input_app app" and "sy_input_pcb s = None"
  shows "TCP_EVENT_RECV env app a p err s = Some (r, s') \<Longrightarrow> in_same s s'"
    and "TCP_EVENT_CLOSED env app a s = Some (r, s') \<Longrightarrow> in_same s s'"
  using input_appD(6) [OF app _ assms(2)] tcp_recv_null_in_same [OF _ assms(2)]
  by (auto simp: TCP_EVENT_RECV_def TCP_EVENT_CLOSED_def bind_Some_iff option.case_eq_if split: if_split_asm)

lemma tcp_process_refused_data_in_same:
  assumes "tcp_process_refused_data env app a s = Some (r, s')" and app: "input_app app" and "sy_input_pcb s = None"
  shows "in_same s s'"
proof -
  obtain p where p: "lw_pcbs s a = Some p" using assms(1) by (auto simp: tcp_process_refused_data_def bind_Some_iff)
  define s0 where "s0 = pcb_put (p\<lparr>pcb_refused_data := []\<rparr>) s"
  have i0: "sy_input_pcb s0 = None" "in_same s s0" using assms(3) by (simp_all add: s0_def)
  obtain err s1 where ev: "TCP_EVENT_RECV env app a (pcb_refused_data p) ERR_OK s0 = Some (err, s1)"
    using assms(1) p by (auto simp: tcp_process_refused_data_def bind_Some_iff Let_def s0_def)
  have 1: "in_same s0 s1" by (rule event_recv_in_same(1) [OF app i0(1) ev])
  have cl: "in_same s1 s2" if "TCP_EVENT_CLOSED env app a (pcb_put q s1) = Some (x, s2)" for q x s2
    using event_recv_in_same(2) [OF app _ that] in_same_None [OF 1 i0(1)] by simp
  have "in_same s1 s'"
    using assms(1) p ev cl
    by (auto simp: tcp_process_refused_data_def bind_Some_iff Let_def s0_def [symmetric] split: if_split_asm)
  then show ?thesis using 1 i0(2) by (blast intro: in_same_trans)
qed

section \<open>A segment for a connection\<close>

lemma pcbs_ok_input [simp]: "pcbs_ok (s\<lparr>sy_input_pcb := x\<rparr>) = pcbs_ok s"
  by (rule pcbs_ok_cong) simp_all

lemma input_active_ok:
  assumes e: "input_active env app t a s = Some (t', s')" and app: "input_app app" and ok: "pcbs_ok s"
    and i: "sy_input_pcb s = None" and z: "lw_recv_flags s = 0"
    and p: "lw_pcbs s a = Some p" "state_fits L_ACTIVE (pcb_state p)"
    and rst: "in_flag TCP_RST t \<Longrightarrow> pcb_refused_data p = []"
  shows "pcbs_ok s'"
proof -
  define first where "first = (if pcb_refused_data p \<noteq> [] then do {
          (err, s1) \<leftarrow> tcp_process_refused_data env app a s;
          if err = ERR_ABRT then Some (True, s1)
          else do {
            p1 \<leftarrow> lw_pcbs s1 a;
            Some (pcb_refused_data p1 \<noteq> [] \<and> 0 < ti_tcplen t, s1)
          }
        } else Some (False, s))"
  obtain d s1 where f: "first = Some (d, s1)"
    using e p by (cases first) (auto simp: input_active_def first_def [symmetric])
  have s1: "pcbs_ok s1 \<and> lw_recv_flags s1 = 0"
    using f ok z tcp_process_refused_data_ok [OF _ ok input_appD(1) [OF app]]
      tcp_process_refused_data_in_same [OF _ app i]
    by (auto simp: first_def bind_Some_iff in_same_def split: if_split_asm)
  have same: "s1 = s" if "in_flag TCP_RST t"
    using f rst [OF that] by (simp add: first_def)
  note r = e [unfolded input_active_def p Option.bind.bind_lunit first_def [symmetric] f prod.case]
  show ?thesis
  proof (cases d)
    case True
    then have "s' = tcp_stats_inc S_DROP s1" using r by simp
    then show ?thesis using s1 pcbs_ok_frame [of s1 "tcp_stats_inc S_DROP s1"] by simp
  next
    case False
    define s1' where "s1' = s1\<lparr>sy_input_pcb := Some a\<rparr>"
    note r = r [unfolded if_not_P [OF False] s1'_def [symmetric]]
    obtain err t1 s2 where pr: "tcp_process env app t a s1' = Some (err, t1, s2)"
      using r by (auto simp only: bind_Some_iff)
    note r = r [unfolded pr Option.bind.bind_lunit prod.case]
    have "pcbs_ok s2 \<and> (err \<noteq> ERR_ABRT \<longrightarrow> hold a s2 \<and> sy_input_pcb s2 = Some a)"
    proof (rule tcp_process_ok [OF pr app])
      show "pcbs_ok s1'" "sy_input_pcb s1' = Some a" "lw_recv_flags s1' = 0" using s1 by (simp_all add: s1'_def)
      show "a \<notin> set (lw_lists s1' L_TW) \<and> a \<notin> set (lw_lists s1' L_BOUND)" if "in_flag TCP_RST t"
        using same [OF that] listed_unique [OF ok p(1,2)] by (simp add: s1'_def)
    qed
    then have s2: "pcbs_ok s2" "err \<noteq> ERR_ABRT \<Longrightarrow> hold a s2" "err \<noteq> ERR_ABRT \<Longrightarrow> sy_input_pcb s2 = Some a" by simp_all
    show ?thesis
    proof (cases "err = ERR_ABRT")
      case True
      then show ?thesis using r s2 by simp
    next
      case False
      note r = r [unfolded if_not_P [OF False]]
      show ?thesis
      proof (cases "lw_recv_flags s2 AND TF_RESET \<noteq> 0")
        case True
        note r = r [unfolded if_P [OF True]]
        have f2: "lw_recv_flags s2 AND (TF_RESET OR TF_CLOSED) \<noteq> 0" by (rule one_flag [OF True]) simp
        obtain p2 s3 where "lw_pcbs s2 a = Some p2" and ev: "TCP_EVENT_ERR app (pcb_errf p2) (pcb_callback_arg p2) ERR_RST s2 = Some s3"
          and rm: "input_remove env a s3 = Some s'"
          using r by (auto simp only: bind_Some_iff)
        show ?thesis
          using event_hold(4) [OF app s2(3,2) ev] False closed_flags [OF _ f2] input_remove_ok [OF rm] by simp
      next
        case nr: False
        note r = r [unfolded if_not_P [OF nr]]
        obtain s3 where "input_deliver env app t1 a s2 = Some s3" and "s' = s3"
          using r by (auto simp only: bind_Some_iff)
        then show ?thesis using input_deliver_ok [OF _ app s2(2,3)] False nr by simp
      qed
    qed
  qed
qed

lemma pbuf_free_ok: "pbuf_free p s = Some (n, s') \<Longrightarrow> pcbs_ok s \<Longrightarrow> pcbs_ok s'"
  by (auto dest!: pbuf_free_frame mem_sys_frame intro: pcbs_ok_frame)

lemma in_flag_cong: "ti_hdr t' = ti_hdr t \<Longrightarrow> ti_flags t' = ti_flags t \<Longrightarrow> in_flag f t' = in_flag f t"
  by (simp add: in_flag_def)

lemma input_connection_ok:
  assumes e: "input_connection env app t a s = Some s'" and app: "input_app app" and ok: "pcbs_ok s"
    and i: "sy_input_pcb s = None"
    and p: "lw_pcbs s a = Some p" "state_fits L_ACTIVE (pcb_state p)"
    and rst: "in_flag TCP_RST t \<Longrightarrow> pcb_refused_data p = []"
  shows "pcbs_ok s'"
proof -
  obtain t0 t1 s1 where ac: "input_active env app t0 a (s\<lparr>lw_recv_flags := 0\<rparr>) = Some (t1, s1)" and t0: "in_flag TCP_RST t0 = in_flag TCP_RST t"
    and r: "(if ti_p t1 \<noteq> [] then do { (_, s3) \<leftarrow> pbuf_free (ti_p t1) (s1\<lparr>sy_input_pcb := None\<rparr>); Some s3 }
             else Some (s1\<lparr>sy_input_pcb := None\<rparr>)) = Some s'"
    using e by (auto simp: input_connection_def bind_Some_iff in_flag_def Let_def simp del: if_split)
  have "pcbs_ok s1"
    by (rule input_active_ok [OF ac app]) (use ok i p rst t0 in simp_all)
  then show ?thesis using r pbuf_free_ok by (auto simp: bind_Some_iff split: if_split_asm)
qed

section \<open>TIME-WAIT and listening\<close>

lemma tcp_timewait_input_frame: "tcp_timewait_input env t p s = Some (err, p', s') \<Longrightarrow> conn_frame p p' \<and> sys_frame s s'"
  by (auto simp: tcp_timewait_input_def bind_Some_iff Let_def tcp_ack_now_def split: if_split_asm dest!: input_rst_frame tcp_output_frame)

lemma tcp_alloc_new:
  assumes "tcp_alloc env app prio s = Some (Some a, s')" and "pcbs_ok s" and "app_keeps pcbs_ok app"
  shows "unlisted s' a"
proof -
  obtain s1 where at: "alloc_attempts [tcp_kill_timewait env app, tcp_kill_state env app LAST_ACK, tcp_kill_state env app CLOSING,
        tcp_kill_prio env app prio] s = Some (Some a, s1)"
    and s': "s' = pcb_put (tcp_pcb_new a prio (lw_iss s1 + sy_ticks s1) (sy_ticks s1) (lw_timer_ctr s1)) (s1\<lparr>lw_iss := lw_iss s1 + sy_ticks s1\<rparr>)"
    using assms(1) by (auto simp: tcp_alloc_def bind_Some_iff tcp_next_iss_def Let_def split: option.split_asm)
  have "pcbs_ok s1 \<and> (\<forall>b. Some a = Some b \<longrightarrow> fresh_pcb b s1)"
    by (rule alloc_attempts_ok [OF at assms(2)]) (auto intro: kill_ok [OF _ assms(3)])
  then show ?thesis by (simp add: s' fresh_pcb_def unlisted_def)
qed

lemma tcp_listen_input_ok:
  assumes e: "tcp_listen_input env app beyond t la ip port s = Some (err, s')" and ok: "pcbs_ok s" and app: "app_keeps pcbs_ok app"
  shows "pcbs_ok s'"
proof (cases "in_flag TCP_RST t \<or> in_flag TCP_ACK t \<or> \<not> in_flag TCP_SYN t")
  case True
  then show ?thesis
    using e ok by (auto simp: tcp_listen_input_def bind_Some_iff split: if_split_asm dest!: tcp_rst_frame intro: pcbs_ok_frame)
next
  case False
  then obtain l0 ao s1 where l0: "lw_lpcbs s la = Some l0" and al: "tcp_alloc env app (lpcb_prio l0) s = Some (ao, s1)"
    using e by (auto simp: tcp_listen_input_def bind_Some_iff simp del: tcp_alloc_def)
  have ok1: "pcbs_ok s1" by (rule tcp_alloc_ok [OF al ok app])
  show ?thesis
  proof (cases ao)
    case None
    then have "s' = tcp_stats_inc S_MEMERR s1" using e False l0 al by (simp add: tcp_listen_input_def)
    then show ?thesis using ok1 pcbs_ok_frame [of s1 "tcp_stats_inc S_MEMERR s1"] by simp
  next
    case (Some a)
    obtain l id npcb p1 p2 rc s3 where np: "lw_pcbs s1 a = Some npcb"
      and p1: "tcp_parseopt t (listen_init t l ip port id npcb) = Some p1"
      and p2: "p2 = p1\<lparr>pcb_snd_wnd := th_wnd (ti_hdr t), pcb_snd_wnd_max := th_wnd (ti_hdr t), pcb_ssthresh := th_wnd (ti_hdr t)\<rparr>"
      and q: "at_pcb a (\<lambda>p s. tcp_enqueue_flags env p (TCP_SYN OR TCP_ACK) s)
                 (TCP_REG_ACTIVE a (pcb_put p2 (s1\<lparr>lw_server_id := id\<rparr>))) = Some (rc, s3)"
      and r: "(if rc \<noteq> ERR_OK then do { s4 \<leftarrow> tcp_abandon env app a False s3; Some (rc, s4) } else at_pcb a (tcp_output env) s3) = Some (err, s')"
      using e False l0 al Some unfolding tcp_listen_input_def tcp_new_server_id_def Let_def
      by (auto simp: bind_Some_iff simp del: if_split)
    obtain m where m: "p1 = (listen_init t l ip port id npcb)\<lparr>pcb_mss := m\<rparr>" using tcp_parseopt_mss [OF p1] by blast
    define s2 where "s2 = s1\<lparr>lw_server_id := id\<rparr>"
    have ok2: "pcbs_ok s2" unfolding s2_def by (rule iffD2 [OF pcbs_ok_cong ok1]) simp_all
    have un: "unlisted s2 a" using tcp_alloc_new [OF al [unfolded Some] ok app] by (simp add: s2_def unlisted_def)
    have addr: "pcb_addr p2 = a" "pcb_state p2 = SYN_RCVD"
      using pcbs_okD(3) [OF ok1 np] by (simp_all add: p2 m listen_init_def)
    have ok3: "pcbs_ok (pcb_put p2 s2)"
      by (rule pcbs_ok_put_unlisted [OF ok2]) (use np addr un in \<open>simp_all add: s2_def\<close>)
    have ok4: "pcbs_ok (TCP_REG_ACTIVE a (pcb_put p2 s2))"
    proof (rule pcbs_ok_REG_ACTIVE [OF ok3])
      show "unlisted (pcb_put p2 s2) a" "lw_pcbs (pcb_put p2 s2) a = Some p2" using un addr(1) by (simp_all add: pcb_put_def)
      show "state_fits L_ACTIVE (pcb_state p2)" unfolding addr(2) by simp
    qed
    have "pcbs_ok s3"
      by (rule at_pcb_ok(1) [OF q [folded s2_def] ok4]) (erule tcp_enqueue_flags_frame)
    then show ?thesis using r app by (auto simp: bind_Some_iff split: if_split_asm intro: tcp_abandon_ok at_pcb_output_ok(1))
  qed
qed

section \<open>tcp\_input keeps the lists\<close>

lemma find_active_fits:
  "find_active h as s = Some (Some a) \<Longrightarrow> a \<in> set as"
  by (induction as) (auto simp: bind_Some_iff split: if_split_asm)

lemma find_timewait_in: "find_timewait h as s = Some (Some a) \<Longrightarrow> a \<in> set as"
  by (induction as) (auto simp: bind_Some_iff split: if_split_asm)

lemma move_to_front_ok:
  assumes "pcbs_ok s" and "a \<in> set (lw_lists s L_ACTIVE)"
  shows "pcbs_ok (move_to_front a s)"
proof -
  have "listed_ok (TCP_RMV L_ACTIVE a s) L_ACTIVE a"
    using pcbs_okD(2) [OF assms] by (simp add: listed_ok_def state_of_def)
  moreover have "a \<notin> set (lw_lists (TCP_RMV L_ACTIVE a s) L_ACTIVE)"
    using pcbs_okD(1) [OF assms(1)] by (simp add: TCP_RMV_def)
  ultimately show ?thesis unfolding move_to_front_def by (intro pcbs_ok_REG [OF pcbs_ok_RMV [OF assms(1)]]) simp_all
qed

lemma tcp_input_ok:
  assumes e: "tcp_input env app beyond ip port p s = Some s'" and app: "input_app app" and ok: "pcbs_ok s"
    and i: "sy_input_pcb s = None"
    and rst: "\<And>t a q. input_header p = Some (Inr t) \<Longrightarrow> in_flag TCP_RST t \<Longrightarrow> a \<in> set (lw_lists s L_ACTIVE) \<Longrightarrow>
      lw_pcbs s a = Some q \<Longrightarrow> pcb_refused_data q = []"
  shows "pcbs_ok s'"
proof -
  define s0 where "s0 = tcp_stats_inc S_RECV s"
  have fr: "sys_frame s s0" by (simp add: s0_def)
  note lw = sys_frame_lw [OF fr]
  have ok0: "pcbs_ok s0" by (rule pcbs_ok_frame [OF fr ok])
  have i0: "sy_input_pcb s0 = None" using sys_input [OF fr] i by simp
  note free = pbuf_free_ok
  obtain r where h: "input_header p = Some r" using e by (cases "input_header p") (auto simp: tcp_input_def Let_def)
  show ?thesis
  proof (cases r)
    case (Inl u)
    then obtain n where "pbuf_free p (tcp_stats_inc S_DROP (tcp_stats_inc S_LENERR s0)) = Some (n, s')"
      using e h by (auto simp: tcp_input_def s0_def bind_Some_iff)
    then show ?thesis by (rule free) (rule pcbs_ok_frame [OF _ ok0], simp)
  next
    case (Inr t)
    note r = e [unfolded tcp_input_def Let_def s0_def [symmetric] h Inr Option.bind.bind_lunit sum.case]
    obtain act where act: "find_active (ti_hdr t) (lw_lists s0 L_ACTIVE) s0 = Some act" using r by (auto simp: bind_Some_iff)
    show ?thesis
    proof (cases act)
      case (Some a)
      have a: "a \<in> set (lw_lists s0 L_ACTIVE)" by (rule find_active_fits [OF act [unfolded Some]])
      then obtain q where q: "lw_pcbs s0 a = Some q" "state_fits L_ACTIVE (pcb_state q)"
        using pcbs_okD(2) [OF ok0 a] by (auto simp: listed_ok_iff state_of_def)
      have c: "input_connection env app t a (move_to_front a s0) = Some s'" using r act Some by simp
      show ?thesis
      proof (rule input_connection_ok [OF c app move_to_front_ok [OF ok0 a] _ _ q(2)])
        show "sy_input_pcb (move_to_front a s0) = None" "lw_pcbs (move_to_front a s0) a = Some q"
          using i0 q by (simp_all add: move_to_front_def TCP_REG_def)
        show "pcb_refused_data q = []" if "in_flag TCP_RST t"
          using rst [OF h [unfolded Inr] that] a q lw by simp
      qed
    next
      case None
      obtain tw where tw: "find_timewait (ti_hdr t) (lw_lists s0 L_TW) s0 = Some tw" using r act None by (auto simp: bind_Some_iff)
      show ?thesis
      proof (cases tw)
        case (Some a)
        then obtain x s1 n where c: "at_pcb a (tcp_timewait_input env t) s0 = Some (x, s1)" and f: "pbuf_free (ti_p t) s1 = Some (n, s')"
          using r act None tw by (auto simp: bind_Some_iff)
        have "pcbs_ok s1" by (rule at_pcb_ok(1) [OF c ok0]) (erule tcp_timewait_input_frame)
        then show ?thesis by (rule free [OF f])
      next
        case no: None
        show ?thesis
        proof (cases "lw_lists s0 L_LISTEN")
          case (Cons l ls)
          then obtain x s1 n where c: "tcp_listen_input env app beyond t l ip port s0 = Some (x, s1)" and f: "pbuf_free (ti_p t) s1 = Some (n, s')"
            using r act None tw no by (auto simp: bind_Some_iff)
          show ?thesis by (rule free [OF f tcp_listen_input_ok [OF c ok0 input_appD(1) [OF app]]])
        next
          case Nil
          then have "input_no_match env t s0 = Some s'" using r act None tw no by simp
          then show ?thesis
            using ok0 free pcbs_ok_frame [of s0]
            by (auto simp: input_no_match_def bind_Some_iff split: if_split_asm dest!: pbuf_alloc_frame mem_sys_frame)
        qed
      qed
    qed
  qed
qed

section \<open>Properties\<close>


text \<open>One step of the stack: a call of the application or a timer, or a packet of the peer.\<close>

inductive stack_step :: "env \<Rightarrow> app \<Rightarrow> (nat \<Rightarrow> u32) \<Rightarrow> lw \<Rightarrow> lw \<Rightarrow> bool" for env app beyond where
  stack_api: "api_step env app s s' \<Longrightarrow> stack_step env app beyond s s'"
| stack_input: "tcp_input env app beyond ip port p s = Some s' \<Longrightarrow> sy_input_pcb s = None \<Longrightarrow>
    (\<And>t a q. input_header p = Some (Inr t) \<Longrightarrow> in_flag TCP_RST t \<Longrightarrow> a \<in> set (lw_lists s L_ACTIVE) \<Longrightarrow>
      lw_pcbs s a = Some q \<Longrightarrow> pcb_refused_data q = []) \<Longrightarrow> stack_step env app beyond s s'"

text \<open>
  C6: Packets of a peer, calls of the application and ticks of the timers keep the lists of control blocks sound. However packets arrive
  (SYNs, data, ACKs, FINs and RSTs, for connections in any state and for none, malformed ones included), after every step every list is
  free of duplicates, every listed block exists and is in a state its list is for, no block is on two lists, and no block in use can
  be handed out again. Two things are excluded, both of which the code does not guard against. The application must not bind a block that is
  bound: the last part of the statement is that such a call, when it succeeds, does damage the lists, since the block becomes
  its own successor. And a reset must not meet a connection with refused data: there the code hands the data to the application before it
  sets \<open>tcp_input_pcb\<close>, so a close in that callback frees the block the code goes on to use. The hypotheses on the callbacks are
  those of the API: unless a callback returns \<open>ERR_ABRT\<close>, the connection it was called for still exists, and a callback of the slow timer
  that changes the active list has set \<open>tcp_active_pcbs_changed\<close>.
\<close>

theorem stack_keeps_lists:
  assumes "(stack_step env app beyond)\<^sup>*\<^sup>* s s'" and "input_app app" and "timer_app app" and "pcbs_ok s"
  shows "pcbs_ok s' \<and> tcp_pcbs_sane s' \<and>
    (\<forall>l l' a. a \<in> set (lw_lists s' l) \<longrightarrow> a \<in> set (lw_lists s' l') \<longrightarrow> l = l') \<and>
    (\<forall>a port s''. a \<in> set (lw_lists s' L_BOUND) \<longrightarrow> tcp_bind (Some a) port s' = Some (ERR_OK, s'') \<longrightarrow> \<not> pcbs_ok s'')"
proof -
  have step: "pcbs_ok s'" if "stack_step env app beyond s s'" "pcbs_ok s" for s s'
    using that
  proof (cases rule: stack_step.cases)
    case stack_api
    then show ?thesis using api_step_ok [OF _ input_appD(1) [OF assms(2)] assms(3) that(2)] by simp
  next
    case (stack_input ip port p)
    show ?thesis by (rule tcp_input_ok [OF stack_input(1) assms(2) that(2) stack_input(2)]) (rule stack_input(3))
  qed
  have ok: "pcbs_ok s'" using assms(1,4) by (induction rule: rtranclp_induct) (auto intro: step)
  then show ?thesis using lists_disjoint [OF ok] pcbs_ok_sane [OF ok] tcp_bind_again [of _ _ s'] by blast
qed

text \<open>The peer resets the connection of the example.\<close>

definition ex_rst_hdr :: tcp_hdr where
  "ex_rst_hdr = \<lparr>th_connid1 = 7, th_connid2 = 9, th_seqno = 500, th_ackno = 0, th_hdrlen_rsvd_flags = 0x5004, th_wnd = 100\<rparr>"

definition ex_rst :: "pbuf list" where
  "ex_rst = [\<lparr>pb_addr = 300, pb_mem = tcp_hdr_bytes ex_rst_hdr, pb_off = 0, pb_tot_len = 20, pb_len = 20, pb_type = PBUF_RAM, pb_flags = 0\<rparr>]"

lemma ex_rst_parses:
  "\<exists>t. input_header ex_rst = Some (Inr t) \<and> ti_hdr t = ex_rst_hdr \<and> ti_flags t = TCP_RST \<and> ti_seqno t = 500 \<and> ti_tcplen t = 0 \<and>
     (\<exists>q. ti_p t = [q] \<and> pb_addr q = 300 \<and> pb_len q = 0 \<and> pb_tot_len q = 0 \<and> pb_type q = PBUF_RAM)"
proof -
  have r: "tcp_hdr_read (tcp_hdr_bytes ex_rst_hdr) = ex_rst_hdr" using tcp_hdr_read_bytes [of ex_rst_hdr "[]"] by simp
  have l: "length (tcp_hdr_bytes ex_rst_hdr) = 20" by simp
  have d: "TCPH_HDRLEN ex_rst_hdr = 5" "TCPH_FLAGS ex_rst_hdr = TCP_RST" "th_seqno ex_rst_hdr = 500"
    by (simp_all add: ex_rst_hdr_def TCPH_HDRLEN_def TCPH_FLAGS_def)
  show ?thesis
    by (simp add: input_header_def ex_rst_def pb_read_def r l input_options_def d
        Let_def input_hide_def pbuf_header_def pbuf_header_impl_def)
qed

lemma ex_reset:
  "case tcp_input ex_env ex_app (\<lambda>_. 0) 1 2 ex_rst ex_free of None \<Rightarrow> False
   | Some s' \<Rightarrow> lw_lists s' L_ACTIVE = [] \<and> lw_pcbs s' 50 = None"
proof -
  obtain t q where t: "input_header ex_rst = Some (Inr t)" "ti_hdr t = ex_rst_hdr" "ti_flags t = TCP_RST" "ti_seqno t = 500" "ti_tcplen t = 0"
    "ti_p t = [q]" "pb_addr q = 300" "pb_type q = PBUF_RAM" "pb_tot_len q = 0" "pb_len q = 0"
    using ex_rst_parses by blast
  show ?thesis
    by (simp add: tcp_input_def input_connection_def conn_matches_def ex_rst_hdr_def input_active_def tcp_process_def ex_free_def ex_lw_def
      ex_defs move_to_front_def TCP_REG_def TCP_RMV_def t tcp_stats_inc_def
      in_flag_def rst_acceptable_def TCP_SEQ_BETWEEN_def TCP_SEQ_GEQ_def TCP_SEQ_LEQ_def pcb_put_def clear_flag_def
      TCP_EVENT_ERR_def input_remove_def tcp_pcb_remove_def tcp_pcb_purge_def has_flag_def
      tcp_seg_free_def pbuf_free_def pbuf_dealloc_def mem_free_def pbuf_ref_of_def pbuf_set_ref_def memp_free_def memp_stats_upd_def
      Let_def pcb_free_def tcp_pcbs_sane_def)
qed

lemma ex_input_app: "input_app ex_app"
  by (simp add: input_app_def ex_free_ok callback_ok_def) (simp add: ex_app_def)

theorem stack_keeps_lists_witness:
  "\<exists>s. (stack_step ex_env ex_app (\<lambda>_. 0))\<^sup>*\<^sup>* ex_free s \<and> lw_lists s L_ACTIVE = [] \<and> lw_pcbs s 50 = None \<and> pcbs_ok s"
proof -
  obtain s where s: "tcp_input ex_env ex_app (\<lambda>_. 0) 1 2 ex_rst ex_free = Some s" "lw_lists s L_ACTIVE = []" "lw_pcbs s 50 = None"
    using ex_reset by (auto split: option.split_asm)
  have "stack_step ex_env ex_app (\<lambda>_. 0) ex_free s"
  proof (rule stack_input [OF s(1)])
    show "sy_input_pcb ex_free = None" by (simp add: ex_free_def ex_lw_def ex_defs)
    show "pcb_refused_data q = []" if "a \<in> set (lw_lists ex_free L_ACTIVE)" "lw_pcbs ex_free a = Some q" for a q
      using that by (auto simp: ex_free_def ex_lw_def ex_defs)
  qed
  then have st: "(stack_step ex_env ex_app (\<lambda>_. 0))\<^sup>*\<^sup>* ex_free s" by (rule r_into_rtranclp)
  from stack_keeps_lists [OF this ex_input_app ex_free_ok(3,1)] show ?thesis using st s by blast
qed






end
