(* ===== verification/Tcp_Close.thy ===== *)
theory Tcp_Close
  imports Tcp_Input
begin

text \<open>
  What \<open>tcp_close\<close> and the setters of \<^verbatim>\<open>src/tcp.c\<close> do to the connection that is being processed: the contract of the callbacks,
  for an application that closes connections inside them.
\<close>

section \<open>The effect of closing\<close>

lemma established_simps [simp]:
  "established (pcb_put p s) c = (if c = pcb_addr p then pcb_state p = ESTABLISHED else established s c)"
  "established (TCP_RMV l a s) c = established s c" "established (TCP_RMV_ACTIVE a s) c = established s c"
  "established (TCP_REG l a s) c = established s c" "established (pcb_free a s) c = (c \<noteq> a \<and> established s c)"
  "established (lpcb_free a s) c = established s c"
  by (auto simp: established_def pcb_put_def TCP_REG_def TCP_RMV_def TCP_RMV_ACTIVE_def pcb_free_def lpcb_free_def memp_free_def
      memp_stats_upd_def Let_def)

lemma lists_simps [simp]:
  "lw_lists (TCP_RMV l a s) = (lw_lists s)(l := remove1 a (lw_lists s l))"
  "lw_lists (TCP_RMV_ACTIVE a s) = (lw_lists s)(L_ACTIVE := remove1 a (lw_lists s L_ACTIVE))"
  by (simp_all add: TCP_RMV_def TCP_RMV_ACTIVE_def)

lemma established_frame: "sys_frame s s' \<Longrightarrow> established s' c = established s c"
  by (simp add: established_def sys_frame_lw)

definition close_effect :: "nat \<Rightarrow> lw \<Rightarrow> lw \<Rightarrow> bool" where
  "close_effect a s s' \<longleftrightarrow> sy_input_pcb s' = sy_input_pcb s \<and> set (lw_lists s' L_BOUND) \<subseteq> set (lw_lists s L_BOUND) \<and>
     (\<forall>c. established s' c \<longrightarrow> established s c) \<and>
     (lw_recv_flags s' = lw_recv_flags s \<and> (\<forall>c \<in> set (lw_lists s' L_TW). c \<in> set (lw_lists s L_TW) \<or> c = a \<and> established s a) \<or>
      lw_recv_flags s' = lw_recv_flags s OR TF_CLOSED \<and> sy_input_pcb s = Some a \<and>
        a \<notin> set (lw_lists s' L_TW) \<and> a \<notin> set (lw_lists s' L_BOUND) \<and> \<not> established s' a)"

lemma close_effect_same:
  assumes "in_same s s'" and "set (lw_lists s' L_BOUND) \<subseteq> set (lw_lists s L_BOUND)" and "lw_lists s' L_TW = lw_lists s L_TW"
    and "\<And>c. established s' c \<Longrightarrow> established s c"
  shows "close_effect a s s'"
  using assms by (auto simp: close_effect_def in_same_def)

lemma close_effect_sys: "sys_frame s s' \<Longrightarrow> close_effect a s s'"
  by (rule close_effect_same) (simp_all add: sys_in_same sys_frame_lw established_frame)

lemma at_pcb_effect:
  assumes "at_pcb b f s = Some (r, s')" and "pcbs_ok s" and "\<And>p p' s1. f p s = Some (r, p', s1) \<Longrightarrow> conn_frame p p' \<and> sys_frame s s1"
  shows "in_same s s'" and "lw_lists s' = lw_lists s" and "established s' c = established s c"
proof -
  obtain p p' s1 where p: "lw_pcbs s b = Some p" "f p s = Some (r, p', s1)" and s': "s' = pcb_put p' s1"
    using assms(1) by (auto simp: at_pcb_def bind_Some_iff)
  have fr: "conn_frame p p'" "sys_frame s s1" using assms(3) [OF p(2)] by simp_all
  have a: "pcb_addr p' = b" "pcb_state p' = pcb_state p" using fr(1) pcbs_okD(3) [OF assms(2) p(1)] by (simp_all add: conn_frame_def)
  show "in_same s s'" using sys_in_same [OF fr(2)] s' by simp
  show "lw_lists s' = lw_lists s" using sys_frame_lw [OF fr(2)] s' by simp
  have "established s b \<longleftrightarrow> pcb_state p = ESTABLISHED" using p(1) by (simp add: established_def)
  then show "established s' c = established s c"
    using established_frame [OF fr(2), of c] s' a by simp
qed

lemma close_with_rst_effect:
  assumes e: "close_with_rst env a p s = Some (err, s')" and ok: "pcbs_ok s" and p: "lw_pcbs s a = Some p"
    and st: "pcb_state p = ESTABLISHED \<or> pcb_state p = CLOSE_WAIT"
  shows "close_effect a s s'"
proof -
  obtain s1 p1 s2 where r: "pcb_rst env p s = Some s1" and pu: "tcp_pcb_purge p s1 = Some (p1, s2)"
    using e by (auto simp: close_with_rst_def bind_Some_iff)
  have fr: "conn_frame p p1" "sys_frame s s2"
    using r tcp_pcb_purge_frame [OF pu] by (auto simp: pcb_rst_def dest!: tcp_rst_frame intro: sys_frame_trans)
  note lw = sys_frame_lw [OF fr(2)]
  have id: "pcb_addr p1 = a" "pcb_state p1 = pcb_state p"
    using fr(1) pcbs_okD(3) [OF ok p] by (simp_all add: conn_frame_def)
  define s3 where "s3 = TCP_RMV_ACTIVE a (pcb_put p1 s2)"
  have es0: "established s a \<longleftrightarrow> pcb_state p = ESTABLISHED" using p by (simp add: established_def)
  have s3: "lw_lists s3 L_BOUND = lw_lists s L_BOUND" "lw_lists s3 L_TW = lw_lists s L_TW" "in_same s s3"
    "established s3 c = established s c" for c
    using lw id es0 established_frame [OF fr(2), of c] sys_in_same [OF fr(2)] by (simp_all add: s3_def)
  have s3': "sy_input_pcb s3 = sy_input_pcb s" "lw_recv_flags s3 = lw_recv_flags s" using s3(3) by (simp_all add: in_same_def)
  note s3 = s3 s3'
  have es: "established s a \<longleftrightarrow> pcb_state p = ESTABLISHED" using p by (simp add: established_def)
  have r': "s' = (if pcb_state p1 = ESTABLISHED then TCP_REG L_TW a (pcb_put (p1\<lparr>pcb_state := TIME_WAIT\<rparr>) s3)
      else if sy_input_pcb s3 = Some a then tcp_trigger_input_pcb_close s3 else pcb_free a s3)"
    using e r pu by (auto simp: close_with_rst_def s3_def split: if_split_asm)
  show ?thesis
  proof (cases "pcb_state p = ESTABLISHED")
    case True
    then have "s' = TCP_REG L_TW a (pcb_put (p1\<lparr>pcb_state := TIME_WAIT\<rparr>) s3)" using r' id by simp
    then show ?thesis using s3 es True id by (auto simp: close_effect_def TCP_REG_def pcb_put_def established_def split: if_split_asm)
  next
    case False
    have un: "a \<notin> set (lw_lists s L_TW)" "a \<notin> set (lw_lists s L_BOUND)"
      using listed_unique [OF ok p, of L_ACTIVE] False st by auto
    show ?thesis
    proof (cases "sy_input_pcb s = Some a")
      case True
      then have "s' = tcp_trigger_input_pcb_close s3" using r' id False s3(5) by simp
      then show ?thesis using s3 es False True un by (auto simp: close_effect_def tcp_trigger_input_pcb_close_def established_def)
    next
      case False
      then have "s' = pcb_free a s3" using r' id s3(5) \<open>pcb_state p \<noteq> ESTABLISHED\<close> by simp
      then show ?thesis using s3 by (intro close_effect_same) auto
    qed
  qed
qed

lemma close_with_fin_effect:
  assumes e: "close_with_fin env st a s = Some (err, s')" and ok: "pcbs_ok s" and p: "lw_pcbs s a = Some p"
    and st: "state_fits L_ACTIVE (pcb_state p)" "state_fits L_ACTIVE st" "st \<noteq> ESTABLISHED"
  shows "close_effect a s s'"
proof -
  obtain err1 s1 where f: "at_pcb a (tcp_send_fin env) s = Some (err1, s1)"
    and r: "(if err1 = ERR_OK then do {
       p \<leftarrow> lw_pcbs s1 a;
       (_, s2) \<leftarrow> at_pcb a (tcp_output env) (pcb_put (p\<lparr>pcb_state := st\<rparr>) s1);
       Some (ERR_OK, s2)
     }
     else Some (err1, s1)) = Some (err, s')"
    using e by (auto simp: close_with_fin_def bind_Some_iff)
  have ok1: "pcbs_ok s1" by (rule at_pcb_ok(1) [OF f ok], erule tcp_send_fin_frame)
  have st1: "map_option pcb_state (lw_pcbs s1 b) = map_option pcb_state (lw_pcbs s b)" for b
    by (rule at_pcb_ok(4) [OF f ok], erule tcp_send_fin_frame)
  have f1: "in_same s s1" "lw_lists s1 = lw_lists s" "established s1 c = established s c" for c
    by (rule at_pcb_effect [OF f ok], erule tcp_send_fin_frame)+
  show ?thesis
  proof (cases "err1 = ERR_OK")
    case False
    then show ?thesis using r f1 by (intro close_effect_same) auto
  next
    case True
    then obtain p1 x where p1: "lw_pcbs s1 a = Some p1" and o: "at_pcb a (tcp_output env) (pcb_put (p1\<lparr>pcb_state := st\<rparr>) s1) = Some (x, s')"
      using r by (auto simp: bind_Some_iff)
    have "pcb_state p1 = pcb_state p" using st1 [of a] p p1 by simp
    moreover have a: "pcb_addr p1 = a" using pcbs_okD(3) [OF ok1 p1] .
    ultimately have ok2: "pcbs_ok (pcb_put (p1\<lparr>pcb_state := st\<rparr>) s1)"
      using pcbs_ok_put_fits [OF ok1, of "p1\<lparr>pcb_state := st\<rparr>" p1 L_ACTIVE] p1 st by simp
    have "in_same (pcb_put (p1\<lparr>pcb_state := st\<rparr>) s1) s'" "lw_lists s' = lw_lists (pcb_put (p1\<lparr>pcb_state := st\<rparr>) s1)"
      "established s' c = established (pcb_put (p1\<lparr>pcb_state := st\<rparr>) s1) c" for c
      by (rule at_pcb_effect [OF o ok2], erule tcp_output_frame)+
    then show ?thesis
      using f1 a st(3) in_same_trans [OF f1(1), of s'] by (intro close_effect_same) (auto split: if_split_asm)
  qed
qed

lemma remove_active_effect:
  assumes "TCP_PCB_REMOVE_ACTIVE env a s = Some s1" and ok: "pcbs_ok s"
  shows "in_same s s1" and "lw_lists s1 L_BOUND = lw_lists s L_BOUND" and "lw_lists s1 L_TW = lw_lists s L_TW"
    and "established s1 c \<Longrightarrow> established s c"
proof -
  define out where "out = (\<lambda>p1 s2. if pcb_state p1 \<noteq> TIME_WAIT \<and> pcb_state p1 \<noteq> LISTEN \<and> has_flag TF_ACK_DELAY p1 then do {
          (_, p2, s3) \<leftarrow> tcp_output env (set_flag TF_ACK_NOW p1) (s2 :: lw);
          Some (p2, s3)
        } else Some (p1, s2))"
  note e = assms(1) [unfolded TCP_PCB_REMOVE_ACTIVE_def tcp_pcb_remove_def Let_def, simplified, folded out_def]
  obtain p where p: "lw_pcbs s a = Some p" using e by (cases "lw_pcbs s a") auto
  obtain p1 s2 where pu: "tcp_pcb_purge p (TCP_RMV L_ACTIVE a s) = Some (p1, s2)"
    using e p by (cases "tcp_pcb_purge p (TCP_RMV L_ACTIVE a s)") auto
  obtain p2 s3 where o: "out p1 s2 = Some (p2, s3)" using e p pu by (cases "out p1 s2") (auto simp: out_def)
  have s1: "s1 = (pcb_put (p2\<lparr>pcb_state := CLOSED, pcb_local_port := 0\<rparr>) s3)\<lparr>lw_active_changed := True\<rparr>"
    using e p pu o by (auto simp: out_def bind_Some_iff)
  have fr: "sys_frame (TCP_RMV L_ACTIVE a s) s3" "pcb_addr p2 = pcb_addr p"
    using o tcp_pcb_purge_frame [OF pu]
    by (auto simp: out_def bind_Some_iff conn_frame_def set_flag_def split: if_split_asm dest!: tcp_output_frame intro: sys_frame_trans)
  note lw = sys_frame_lw [OF fr(1)]
  have a: "pcb_addr p2 = a" using fr(2) pcbs_okD(3) [OF ok p] by simp
  show "in_same s s1" using sys_in_same [OF fr(1)] s1 by simp
  show "lw_lists s1 L_BOUND = lw_lists s L_BOUND" "lw_lists s1 L_TW = lw_lists s L_TW"
    using lw s1 by (simp_all add: TCP_RMV_def)
  have "established s1 c = established (pcb_put (p2\<lparr>pcb_state := CLOSED, pcb_local_port := 0\<rparr>) s3) c"
    by (simp add: s1 established_def)
  then show "established s1 c \<Longrightarrow> established s c" using established_frame [OF fr(1), of c] a by (simp split: if_split_asm)
qed

lemma tcp_close_shutdown_effect:
  assumes e: "tcp_close_shutdown env a rst s = Some (err, s')" and ok: "pcbs_ok s"
  shows "close_effect a s s'"
proof (cases "lw_lpcbs s a")
  case (Some q)
  then obtain s1 where "tcp_lpcb_remove a s = Some s1" and s': "s' = lpcb_free a s1"
    using e by (auto simp: tcp_close_shutdown_def bind_Some_iff)
  then show ?thesis
    by (intro close_effect_same) (auto simp: tcp_lpcb_remove_def bind_Some_iff Let_def in_same_def TCP_RMV_def established_def)
next
  case None
  then obtain p where p: "lw_pcbs s a = Some p" using e by (auto simp: tcp_close_shutdown_def bind_Some_iff)
  show ?thesis
  proof (cases "rst \<and> (pcb_state p = ESTABLISHED \<or> pcb_state p = CLOSE_WAIT) \<and> (pcb_refused_data p \<noteq> [] \<or> pcb_rcv_wnd p \<noteq> TCP_WND)")
    case True
    then have "close_with_rst env a p s = Some (err, s')" using e None p by (simp add: tcp_close_shutdown_def)
    then show ?thesis using close_with_rst_effect ok p True by blast
  next
    case False
    note e' = e [unfolded tcp_close_shutdown_def None option.case p Option.bind.bind_lunit if_not_P [OF False]]
    have idle: "close_effect a s s" by (rule close_effect_same) simp_all
    show ?thesis
    proof (cases "pcb_state p")
      case CLOSED
      then have "s' = pcb_free a (if pcb_local_port p \<noteq> 0 then TCP_RMV L_BOUND a s else s)" using e' by simp
      then show ?thesis by (cases "pcb_local_port p = 0") (auto intro!: close_effect_same dest: subsetD [OF set_remove1_subset])
    next
      case SYN_SENT
      then obtain s1 where s1: "TCP_PCB_REMOVE_ACTIVE env a s = Some s1" and s': "s' = pcb_free a s1"
        using e' by (auto simp: bind_Some_iff)
      then show ?thesis using remove_active_effect [OF s1 ok] by (intro close_effect_same) auto
    qed (use e' ok p idle in \<open>auto intro: close_with_fin_effect\<close>)
  qed
qed

lemma tcp_close_effect:
  assumes e: "tcp_close env a s = Some (err, s')" and ok: "pcbs_ok s"
  shows "close_effect a s s'"
proof (cases "lw_lpcbs s a")
  case (Some q)
  then show ?thesis using e ok tcp_close_shutdown_effect by (simp add: tcp_close_def)
next
  case None
  then obtain p where p: "lw_pcbs s a = Some p" "tcp_close_shutdown env a True (pcb_put (set_flag TF_RXCLOSED p) s) = Some (err, s')"
    using e by (auto simp: tcp_close_def bind_Some_iff)
  have "close_effect a (pcb_put (set_flag TF_RXCLOSED p) s) s'"
    by (rule tcp_close_shutdown_effect [OF p(2) pcbs_ok_set_flag [OF ok p(1)]])
  moreover have "established (pcb_put (set_flag TF_RXCLOSED p) s) c = established s c" for c
    using p(1) pcbs_okD(3) [OF ok p(1)] by (auto simp: established_def pcb_put_def set_flag_def)
  ultimately show ?thesis by (simp add: close_effect_def)
qed

text \<open>So a close keeps the contract of the callbacks, for whatever connection it is called.\<close>

lemma tcp_close_hold:
  assumes e: "tcp_close env a s = Some (err, s')" and h: "hold b s" and i: "sy_input_pcb s = Some b"
    and nr: "lw_recv_flags s AND TF_RESET = 0"
  shows "hold b s'" and "sy_input_pcb s' = Some b" and "lw_recv_flags s' \<in> {lw_recv_flags s, lw_recv_flags s OR TF_CLOSED}"
proof -
  note ok = hold_ok [OF h]
  note c = tcp_close_effect [OF e ok]
  show "sy_input_pcb s' = Some b" and f: "lw_recv_flags s' \<in> {lw_recv_flags s, lw_recv_flags s OR TF_CLOSED}"
    using c i by (auto simp: close_effect_def)
  have z: "x AND (TF_RESET OR TF_CLOSED) = 0" if "x AND TF_RESET = 0" "x AND TF_CLOSED = 0" for x :: u8
    using that by (simp only: bit.conj_disj_distrib) simp
  show "hold b s'"
  proof (cases "lw_recv_flags s' = lw_recv_flags s")
    case True
    show ?thesis
    proof (cases "lw_recv_flags s AND TF_CLOSED = 0")
      case zero: True
      then show ?thesis using True tcp_close_ok [OF e ok] z [OF nr zero] by (simp add: hold_def)
    next
      case False
      moreover from this have "lw_recv_flags s AND (TF_RESET OR TF_CLOSED) \<noteq> 0" by (rule one_flag) simp
      ultimately have "\<not> established s b" "b \<notin> set (lw_lists s L_TW)" "b \<notin> set (lw_lists s L_BOUND)" using h by (simp_all add: hold_def)
      then show ?thesis
        using c i True tcp_close_ok [OF e ok] by (auto simp: hold_def close_effect_def)
    qed
  next
    case False
    then show ?thesis using c i tcp_close_ok [OF e ok] by (auto simp: hold_def close_effect_def)
  qed
qed

end
