(* ===== verification/Rudp.thy ===== *)
theory Rudp
  imports Tcp_Close
begin

text \<open>
  The application layer of the repository, \<^verbatim>\<open>test/udp/rudp.c\<close>: sockets on top of the stack, whose segments it carries in
  UDP datagrams. The sockets of the operating system, the clock and the callbacks of the program above are parameters; what is
  printed is left out. An access to a structure that was freed is \<open>None\<close>.
\<close>

section \<open>Callbacks\<close>

text \<open>The addresses of the functions this layer registers with the stack.\<close>

abbreviation ON_RECV :: nat where "ON_RECV \<equiv> 1"
abbreviation ON_ACCEPT :: nat where "ON_ACCEPT \<equiv> 2"
abbreviation ON_CONNECT :: nat where "ON_CONNECT \<equiv> 3"
abbreviation RUDP_ERROR :: nat where "RUDP_ERROR \<equiv> 4"
abbreviation RUDP_POLL :: nat where "RUDP_POLL \<equiv> 5"
abbreviation RUDP_SENT :: nat where "RUDP_SENT \<equiv> 6"

abbreviation TCP_PRIO_MIN :: u8 where "TCP_PRIO_MIN \<equiv> 1"

text \<open>
  The callbacks of the program above: by function address and the address of the \<open>rudp_fd\<close>. Data is the
  bytes at \<open>buf\<close>, \<open>None\<close> is \<open>NULL\<close>.
\<close>

record rudp_user =
  ru_recv :: "nat \<Rightarrow> nat \<Rightarrow> u8 list option \<Rightarrow> err_t \<Rightarrow> lw \<Rightarrow> lw option"
  ru_accept :: "nat \<Rightarrow> nat \<Rightarrow> err_t \<Rightarrow> lw \<Rightarrow> (err_t \<times> lw) option"
  ru_connected :: "nat \<Rightarrow> nat \<Rightarrow> err_t \<Rightarrow> lw \<Rightarrow> (err_t \<times> lw) option"

definition fd_put :: "nat \<Rightarrow> rudp_fd \<Rightarrow> lw \<Rightarrow> lw" where
  "fd_put a fd s = s\<lparr>lw_fds := (lw_fds s)(a \<mapsto> fd)\<rparr>"

text \<open>\<open>mem_malloc(sizeof(rudp_fd))\<close>: the flag \<open>is_closing\<close> is not initialised.\<close>

abbreviation SIZEOF_RUDP_FD :: nat where "SIZEOF_RUDP_FD \<equiv> 40"

definition fd_new :: "env \<Rightarrow> lw \<Rightarrow> nat option \<times> lw" where
  "fd_new env s =
     (case mem_malloc env SIZEOF_RUDP_FD s of
        (None, s1) \<Rightarrow> (None, s1)
      | (Some a, s1) \<Rightarrow>
          (Some a, fd_put a \<lparr>fd_is_closing = env_junk env (sy_allocs s1) 0, fd_pcb = 0, fd_recv_cb = None,
                             fd_accept_cb = None, fd_connected_cb = None\<rparr> (s1\<lparr>sy_allocs := sy_allocs s1 + 1\<rparr>)))"

definition fd_free :: "nat \<Rightarrow> lw \<Rightarrow> lw" where
  "fd_free a s = mem_free a (s\<lparr>lw_fds := (lw_fds s)(a := None)\<rparr>)"

section \<open>Closing\<close>

definition rudp_free :: "nat \<Rightarrow> lw \<Rightarrow> lw option" where
  "rudp_free a s = do {
     fd \<leftarrow> lw_fds s a;
     s1 \<leftarrow> tcp_arg (fd_pcb fd) 0 s;
     s2 \<leftarrow> tcp_sent (fd_pcb fd) None s1;
     s3 \<leftarrow> tcp_recv (fd_pcb fd) None s2;
     s4 \<leftarrow> tcp_err (fd_pcb fd) None s3;
     s5 \<leftarrow> tcp_poll (fd_pcb fd) None 0 s4;
     Some (fd_free a s5)
   }"

definition rudp_close :: "env \<Rightarrow> nat \<Rightarrow> lw \<Rightarrow> lw option" where
  "rudp_close env a s = do {
     fd \<leftarrow> lw_fds s a;
     (err, s1) \<leftarrow> tcp_close env (fd_pcb fd) s;
     if err = ERR_OK then rudp_free a s1
     else do {
       fd1 \<leftarrow> lw_fds s1 a;
       Some (fd_put a (fd1\<lparr>fd_is_closing := 1\<rparr>) s1)
     }
   }"

definition rudp_error :: "nat \<Rightarrow> err_t \<Rightarrow> lw \<Rightarrow> lw option" where
  "rudp_error arg err s = rudp_free arg s"

text \<open>\<open>rudp_poll\<close> and \<open>rudp_sent\<close> have the same body: a close that failed is tried again.\<close>

definition retry_close :: "env \<Rightarrow> nat \<Rightarrow> lw \<Rightarrow> (err_t \<times> lw) option" where
  "retry_close env arg s =
     (if arg = 0 then Some (ERR_OK, s)
      else do {
        fd \<leftarrow> lw_fds s arg;
        if fd_is_closing fd \<noteq> 0 then do { s1 \<leftarrow> rudp_close env arg s; Some (ERR_OK, s1) }
        else Some (ERR_OK, s)
      })"

definition rudp_poll :: "env \<Rightarrow> nat \<Rightarrow> nat \<Rightarrow> lw \<Rightarrow> (err_t \<times> lw) option" where
  "rudp_poll env arg tpcb s = retry_close env arg s"

definition rudp_sent :: "env \<Rightarrow> nat \<Rightarrow> nat \<Rightarrow> u16 \<Rightarrow> lw \<Rightarrow> (err_t \<times> lw) option" where
  "rudp_sent env arg tpcb len s = retry_close env arg s"

section \<open>Opening\<close>

definition setup_pcb :: "nat \<Rightarrow> nat \<Rightarrow> lw \<Rightarrow> lw option" where
  "setup_pcb a pcb s = do {
     s1 \<leftarrow> tcp_arg pcb a s;
     fd \<leftarrow> lw_fds s1 a;
     s2 \<leftarrow> tcp_recv pcb (Some ON_RECV) (fd_put a (fd\<lparr>fd_pcb := pcb\<rparr>) s1);
     s3 \<leftarrow> tcp_err pcb (Some RUDP_ERROR) s2;
     s4 \<leftarrow> tcp_poll pcb (Some RUDP_POLL) 0 s3;
     tcp_sent pcb (Some RUDP_SENT) s4
   }"

definition on_accept :: "env \<Rightarrow> rudp_user \<Rightarrow> nat \<Rightarrow> nat \<Rightarrow> err_t \<Rightarrow> lw \<Rightarrow> (err_t \<times> lw) option" where
  "on_accept env user arg newpcb err s = do {
     s1 \<leftarrow> tcp_setprio newpcb TCP_PRIO_MIN s;
     (case fd_new env s1 of
        (None, s2) \<Rightarrow> do {
          (_, s3) \<leftarrow> tcp_close env newpcb s2;
          Some (ERR_MEM, s3)
        }
      | (Some new_fd, s2) \<Rightarrow> do {
          s3 \<leftarrow> setup_pcb new_fd newpcb s2;
          listen_fd \<leftarrow> lw_fds s3 arg;
          fd \<leftarrow> lw_fds s3 new_fd;
          accept_cb \<leftarrow> fd_accept_cb listen_fd;
          ru_accept user accept_cb new_fd err (fd_put new_fd (fd\<lparr>fd_recv_cb := fd_recv_cb listen_fd\<rparr>) s3)
        })
   }"

section \<open>Data and connections\<close>

text \<open>The copy of a chain into the buffer of \<open>64 * 1024\<close> bytes on the stack.\<close>

abbreviation RUDP_BUFSIZE :: nat where "RUDP_BUFSIZE \<equiv> 64 * 1024"

fun recv_copy :: "nat \<Rightarrow> pbuf list \<Rightarrow> u8 list option" where
  "recv_copy copy_len [] = Some []"
| "recv_copy copy_len (p # ps) = do {
     lwip_assert (copy_len + unat (pb_len p) \<le> RUDP_BUFSIZE);
     bs \<leftarrow> pb_read p 0 (unat (pb_len p));
     rest \<leftarrow> recv_copy (copy_len + unat (pb_len p)) ps;
     Some (bs @ rest)
   }"

definition on_recv :: "env \<Rightarrow> rudp_user \<Rightarrow> nat \<Rightarrow> nat \<Rightarrow> pbuf list \<Rightarrow> err_t \<Rightarrow> lw \<Rightarrow> (err_t \<times> lw) option" where
  "on_recv env user arg tpcb p err s =
     (if arg = 0 then (if p = [] then Some (ERR_OK, s) else None)
      else do {
        fd \<leftarrow> lw_fds s arg;
        recv_cb \<leftarrow> fd_recv_cb fd;
        if p = [] \<or> err \<noteq> ERR_OK then do {
          s1 \<leftarrow> ru_recv user recv_cb arg None err s;
          Some (ERR_OK, s1)
        }
        else do {
          buf \<leftarrow> recv_copy 0 p;
          (_, s1) \<leftarrow> at_pcb tpcb (tcp_recved env (of_nat (length buf))) s;
          s2 \<leftarrow> ru_recv user recv_cb arg (Some buf) err s1;
          Some (ERR_OK, s2)
        }
      })"

definition on_connect :: "rudp_user \<Rightarrow> nat \<Rightarrow> nat \<Rightarrow> err_t \<Rightarrow> lw \<Rightarrow> (err_t \<times> lw) option" where
  "on_connect user arg tpcb err s = do {
     fd \<leftarrow> lw_fds s arg;
     connected_cb \<leftarrow> fd_connected_cb fd;
     (ret, s1) \<leftarrow> ru_connected user connected_cb arg err s;
     Some (if ret \<noteq> 0 then ret else err, s1)
   }"

text \<open>The application the stack sees: this layer, with the program above behind it.\<close>

definition rudp_app :: "env \<Rightarrow> rudp_user \<Rightarrow> app" where
  "rudp_app env user =
     \<lparr>app_accept = (\<lambda>f arg a err s. if f = ON_ACCEPT then on_accept env user arg a err s else None),
      app_recv = (\<lambda>f arg a p err s. if f = ON_RECV then on_recv env user arg a p err s else None),
      app_sent = (\<lambda>f arg a len s. if f = RUDP_SENT then rudp_sent env arg a len s else None),
      app_connected = (\<lambda>f arg a err s. if f = ON_CONNECT then on_connect user arg a err s else None),
      app_poll = (\<lambda>f arg a s. if f = RUDP_POLL then rudp_poll env arg a s else None),
      app_err = (\<lambda>f arg err s. if f = RUDP_ERROR then rudp_error arg err s else None)\<rparr>"

definition rudp_socket :: "env \<Rightarrow> rudp_user \<Rightarrow> lw \<Rightarrow> (nat option \<times> lw) option" where
  "rudp_socket env user s =
     (case fd_new env s of
        (None, s1) \<Rightarrow> Some (None, s1)
      | (Some a, s1) \<Rightarrow> do {
          (po, s2) \<leftarrow> tcp_new env (rudp_app env user) s1;
          (case po of
             None \<Rightarrow> Some (None, fd_free a s2)
           | Some p \<Rightarrow> do { s3 \<leftarrow> setup_pcb a p s2; Some (Some a, s3) })
        })"

text \<open>\<open>bound\<close> is the result of \<open>bind\<close> on the UDP socket.\<close>

definition rudp_bind :: "int \<Rightarrow> nat \<Rightarrow> u16 \<Rightarrow> lw \<Rightarrow> (int \<times> lw) option" where
  "rudp_bind bound a port s = do {
     fd \<leftarrow> lw_fds s a;
     lwip_assert (fd_pcb fd \<noteq> 0);
     if bound < 0 then Some (- 1, s)
     else do {
       (err, s1) \<leftarrow> tcp_bind (Some (fd_pcb fd)) port s;
       lwip_assert (err = ERR_OK);
       Some (0, s1)
     }
   }"

definition rudp_listen :: "nat \<Rightarrow> nat option \<Rightarrow> nat option \<Rightarrow> lw \<Rightarrow> (int \<times> lw) option" where
  "rudp_listen a accept_cb recv_cb s = do {
     fd \<leftarrow> lw_fds s a;
     (lo, s1) \<leftarrow> tcp_listen_with_backlog (fd_pcb fd) s;
     (case lo of
        None \<Rightarrow> Some (- 1, s1)
      | Some l \<Rightarrow> do {
          fd1 \<leftarrow> lw_fds s1 a;
          s2 \<leftarrow> tcp_accept l (Some ON_ACCEPT) (fd_put a (fd1\<lparr>fd_pcb := l, fd_recv_cb := recv_cb, fd_accept_cb := accept_cb\<rparr>) s1);
          s3 \<leftarrow> tcp_arg l a s2;
          Some (0, s3)
        })
   }"

definition rudp_connect :: "env \<Rightarrow> nat \<Rightarrow> u32 \<Rightarrow> u16 \<Rightarrow> nat option \<Rightarrow> nat option \<Rightarrow> lw \<Rightarrow> (int \<times> lw) option" where
  "rudp_connect env a ip port connected_cb recv_cb s = do {
     fd \<leftarrow> lw_fds s a;
     tcp_connect env (Some (fd_pcb fd)) (Some ip) port (Some ON_CONNECT)
       (fd_put a (fd\<lparr>fd_connected_cb := connected_cb, fd_recv_cb := recv_cb\<rparr>) s)
   }"

definition rudp_send :: "env \<Rightarrow> nat \<Rightarrow> u8 list \<Rightarrow> lw \<Rightarrow> (int \<times> lw) option" where
  "rudp_send env a buf s = do {
     fd \<leftarrow> lw_fds s a;
     if fd_is_closing fd \<noteq> 0 then Some (- 1, s)
     else at_pcb (fd_pcb fd) (\<lambda>p s. tcp_write env p (Some buf) (of_nat (length buf)) 1 s) s
   }"

section \<open>Datagrams\<close>

text \<open>
  The transmit function \<open>ip_output_if\<close> that the stack calls: the bytes it passes to \<open>sendto\<close>, and its result from the one
  of \<open>sendto\<close>.
\<close>

definition sendto_payload :: "pbuf list \<Rightarrow> u8 list option" where
  "sendto_payload p = (case p of [] \<Rightarrow> None | q # _ \<Rightarrow> pb_read q 0 (unat (pb_len q)))"

definition sendto_result :: "int \<Rightarrow> err_t" where
  "sendto_result ret = (if ret > 0 then ERR_OK else ret)"

text \<open>
  The loop of \<open>rudp_update\<close> that copies the receive buffer \<open>buf\<close> into a chain. Each \<open>memcpy\<close> has the length \<open>n\<close> of
  the first buffer, \<open>mybuf->len\<close>.
\<close>

fun update_copy :: "u8 list \<Rightarrow> nat \<Rightarrow> nat \<Rightarrow> pbuf list \<Rightarrow> pbuf list option" where
  "update_copy buf n copy_len [] = Some []"
| "update_copy buf n copy_len (p # ps) = do {
     bs \<leftarrow> buf_read buf copy_len n;
     p' \<leftarrow> pb_write p 0 bs;
     ps' \<leftarrow> update_copy buf n (copy_len + unat (pb_len p)) ps;
     Some (p' # ps')
   }"

text \<open>What \<open>recvfrom\<close> returns: a datagram with its source address, or an error that is not the timeout.\<close>

datatype recv_result = Datagram "u8 list" u32 u16 | Recv_Error

definition tcp_timer :: "env \<Rightarrow> app \<Rightarrow> lw \<Rightarrow> lw option" where
  "tcp_timer env app s =
     (if lw_lists s L_ACTIVE \<noteq> [] \<or> lw_lists s L_TW \<noteq> [] then tcp_tmr env app s else Some s)"

text \<open>One datagram; \<open>buf\<close> is the receive buffer, which keeps what earlier datagrams left in it.\<close>

definition update_datagram ::
  "env \<Rightarrow> app \<Rightarrow> (nat \<Rightarrow> u32) \<Rightarrow> u8 list \<Rightarrow> u32 \<Rightarrow> u16 \<Rightarrow> u8 list \<Rightarrow> lw \<Rightarrow> (u8 list \<times> lw) option" where
  "update_datagram env app beyond bs ip port buf s = do {
     lwip_assert (length bs \<le> RUDP_BUFSIZE);
     let buf1 = bs @ drop (length bs) buf;
     (mybuf, s1) \<leftarrow> pbuf_alloc env PBUF_TRANSPORT (of_nat (length bs)) PBUF_POOL s;
     lwip_assert (mybuf \<noteq> []);
     mybuf1 \<leftarrow> update_copy buf1 (unat (pb_len (hd mybuf))) 0 mybuf;
     s2 \<leftarrow> tcp_input env app beyond ip port mybuf1 s1;
     Some (buf1, s2)
   }"

text \<open>
  The loop of \<open>rudp_update\<close>, with at most \<open>n\<close> rounds; the list holds what the calls of \<open>recvfrom\<close> return until
  it times out. The boolean says whether all rounds were used.
\<close>

fun update_loop ::
  "env \<Rightarrow> app \<Rightarrow> (nat \<Rightarrow> u32) \<Rightarrow> nat \<Rightarrow> recv_result list \<Rightarrow> u8 list \<Rightarrow> lw \<Rightarrow> (bool \<times> lw) option" where
  "update_loop env app beyond 0 rs buf s = Some (True, s)"
| "update_loop env app beyond (Suc n) [] buf s = do { s1 \<leftarrow> tcp_timer env app s; Some (False, s1) }"
| "update_loop env app beyond (Suc n) (Recv_Error # rs) buf s = Some (False, s)"
| "update_loop env app beyond (Suc n) (Datagram bs ip port # rs) buf s = do {
     (buf1, s1) \<leftarrow> update_datagram env app beyond bs ip port buf s;
     update_loop env app beyond n rs buf1 s1
   }"

text \<open>
  The variables \<open>last_ts\<close> and \<open>timeout\<close>, in microseconds, the second as it was last given to \<open>setsockopt\<close>. The time that has passed is an
  \<open>unsigned long long\<close>.
\<close>

record rudp_clock =
  rc_last_ts :: int
  rc_timeout :: int

abbreviation TIME_INTERVAL :: int where "TIME_INTERVAL \<equiv> 250000"
abbreviation MAX_LOOP :: nat where "MAX_LOOP \<equiv> 1000"

definition rudp_update ::
  "env \<Rightarrow> rudp_user \<Rightarrow> (nat \<Rightarrow> u32) \<Rightarrow> recv_result list \<Rightarrow> u8 list \<Rightarrow> int \<Rightarrow> rudp_clock \<Rightarrow> lw \<Rightarrow> (int \<times> rudp_clock \<times> lw) option" where
  "rudp_update env user beyond rs junk now c s = do {
     (all_rounds, s1) \<leftarrow> update_loop env (rudp_app env user) beyond MAX_LOOP rs junk s;
     if \<not> all_rounds then Some (- 1, c, s1)
     else
       (let pass_usec = uint (of_int (now - rc_last_ts c) :: 64 word)
        in if pass_usec > TIME_INTERVAL then do {
             s2 \<leftarrow> tcp_timer env (rudp_app env user) s1;
             Some (0, c\<lparr>rc_last_ts := now\<rparr>, s2)
           }
           else Some (0, c\<lparr>rc_timeout := TIME_INTERVAL - pass_usec\<rparr>, s1))
   }"

section \<open>The start of the program\<close>

text \<open>The static variables of the stack before \<open>main\<close> runs.\<close>

definition lw_start :: lw where
  "lw_start =
     \<lparr>memp_tab = (\<lambda>_. []), memp_stats = (\<lambda>_. \<lparr>st_err = 0, st_avail = 0, st_used = 0, st_max = 0\<rparr>),
      sy_mallocs = 0, sy_allocs = 0, sy_heap = [], sy_ref = (\<lambda>_. 0), sy_ooseq_pending = 0,
      sy_sent = [], sy_tcp_stats = (\<lambda>_. 0), sy_ticks = 0, sy_input_pcb = None,
      lw_pcbs = Map.empty, lw_lpcbs = Map.empty, lw_lists = (\<lambda>_. []), lw_active_changed = False, lw_timer = 0, lw_timer_ctr = 0,
      lw_port = TCP_LOCAL_PORT_RANGE_START, lw_server_id = 9528, lw_iss = 6510, lw_recv_flags = 0, lw_fds = Map.empty\<rparr>"

text \<open>
  \<open>tcp_init\<close> and \<open>pbuf_init\<close> do nothing in this configuration. \<open>fd\<close> and \<open>opt\<close> are the results of \<open>socket\<close> and \<open>setsockopt\<close>.
\<close>

definition rudp_init ::
  "(memp_t \<Rightarrow> nat) \<Rightarrow> nat \<Rightarrow> int \<Rightarrow> int \<Rightarrow> int \<Rightarrow> rudp_clock \<Rightarrow> lw \<Rightarrow> int \<times> rudp_clock \<times> lw" where
  "rudp_init sizes base fd opt now c s =
     (let s1 = memp_init sizes base s
      in if fd < 0 then (- 1, c, s1)
         else (let c1 = c\<lparr>rc_timeout := TIME_INTERVAL\<rparr>
               in if opt \<noteq> 0 then (- 1, c1, s1) else (0, c1\<lparr>rc_last_ts := now\<rparr>, s1)))"

section \<open>The example programs\<close>

text \<open>
  The callbacks of \<^verbatim>\<open>test/udp/server.cpp\<close>: data is sent back, and a connection that the peer closed is closed.
\<close>

definition echo_recv :: "env \<Rightarrow> nat \<Rightarrow> u8 list option \<Rightarrow> err_t \<Rightarrow> lw \<Rightarrow> lw option" where
  "echo_recv env fd buf err s =
     (case buf of
        Some (b # bs) \<Rightarrow> do { (_, s1) \<leftarrow> rudp_send env fd (b # bs) s; Some s1 }
      | _ \<Rightarrow> rudp_close env fd s)"

definition echo_server :: "env \<Rightarrow> rudp_user" where
  "echo_server env = \<lparr>ru_recv = (\<lambda>f. echo_recv env), ru_accept = (\<lambda>f fd err s. Some (0, s)), ru_connected = (\<lambda>f fd err s. None)\<rparr>"

text \<open>The callbacks of \<^verbatim>\<open>test/udp/client.cpp\<close>, which answers everything with the same string.\<close>

abbreviation ECHO_STR :: "u8 list" where
  "ECHO_STR \<equiv> [104, 101, 108, 108, 111, 32, 119, 111, 114, 108, 100, 33]"

definition client_connected :: "env \<Rightarrow> nat \<Rightarrow> err_t \<Rightarrow> lw \<Rightarrow> (err_t \<times> lw) option" where
  "client_connected env fd err s = do {
     (ret, s1) \<leftarrow> rudp_send env fd ECHO_STR s;
     if ret \<noteq> 0 then do { s2 \<leftarrow> rudp_close env fd s1; Some (ret, s2) }
     else Some (0, s1)
   }"

definition client_recv :: "env \<Rightarrow> nat \<Rightarrow> u8 list option \<Rightarrow> err_t \<Rightarrow> lw \<Rightarrow> lw option" where
  "client_recv env fd buf err s = do {
     lwip_assert (err = ERR_OK);
     (case buf of
        Some _ \<Rightarrow> do {
          (ret, s1) \<leftarrow> rudp_send env fd ECHO_STR s;
          if ret \<noteq> 0 then rudp_close env fd s1 else Some s1
        }
      | None \<Rightarrow> rudp_close env fd s)
   }"

definition echo_client :: "env \<Rightarrow> rudp_user" where
  "echo_client env = \<lparr>ru_recv = (\<lambda>f. client_recv env), ru_accept = (\<lambda>f fd err s. None), ru_connected = (\<lambda>f. client_connected env)\<rparr>"

end
