(* ===== verification/Rudp_Keeps.thy ===== *)
theory Rudp_Keeps
  imports Rudp
begin

text \<open>
  The application layer as a client of the stack. The locales state what it relies on, for any property of the state of the stack that
  the calls it makes preserve; its callbacks then preserve that property too. The interpretations on
  the model of the stack give the contract of the callbacks that \<open>tcp_input\<close> needs.
\<close>

section \<open>What the layer relies on\<close>

locale setter_client =
  fixes I :: "lw \<Rightarrow> bool"
  assumes fds: "I (s\<lparr>lw_fds := f\<rparr>) = I s"
    and mem: "I s \<Longrightarrow> mem_frame s s' \<Longrightarrow> I s'"
    and arg: "I s \<Longrightarrow> tcp_arg a x s = Some s' \<Longrightarrow> I s'"
    and setprio: "I s \<Longrightarrow> tcp_setprio a n s = Some s' \<Longrightarrow> I s'"
    and recv: "I s \<Longrightarrow> tcp_recv a g s = Some s' \<Longrightarrow> I s'"
    and sent: "I s \<Longrightarrow> tcp_sent a g s = Some s' \<Longrightarrow> I s'"
    and err: "I s \<Longrightarrow> tcp_err a g s = Some s' \<Longrightarrow> I s'"
    and poll: "I s \<Longrightarrow> tcp_poll a g i s = Some s' \<Longrightarrow> I s'"
begin

lemma fd_put [simp]: "I (fd_put a fd s) = I s"
  by (simp add: fd_put_def fds)

lemma fd_free: "I s \<Longrightarrow> I (fd_free a s)"
  unfolding fd_free_def by (rule mem [of "s\<lparr>lw_fds := (lw_fds s)(a := None)\<rparr>"]) (simp_all add: fds mem_free_def mem_frame_def)

lemma fd_new: "fd_new env s = (ao, s') \<Longrightarrow> I s \<Longrightarrow> I s'"
proof -
  assume e: "fd_new env s = (ao, s')" and i: "I s"
  obtain ao1 s1 where m: "mem_malloc env SIZEOF_RUDP_FD s = (ao1, s1)" by fastforce
  have "mem_frame s s1" "mem_frame s (s1\<lparr>sy_allocs := sy_allocs s1 + 1\<rparr>)"
    using m by (auto simp: mem_malloc_def mem_frame_def Let_def split: option.split_asm)
  then have "I s1" "I (s1\<lparr>sy_allocs := sy_allocs s1 + 1\<rparr>)" using mem i by blast+
  then show ?thesis using e m by (cases ao1) (auto simp: fd_new_def)
qed

lemma rudp_free: "rudp_free a s = Some s' \<Longrightarrow> I s \<Longrightarrow> I s'"
  by (auto simp: rudp_free_def bind_Some_iff intro!: fd_free
      elim!: arg [rotated] recv [rotated] sent [rotated] err [rotated] poll [rotated])

lemma setup_pcb: "setup_pcb a pcb s = Some s' \<Longrightarrow> I s \<Longrightarrow> I s'"
  by (auto simp: setup_pcb_def bind_Some_iff
      elim!: arg [rotated] recv [rotated] sent [rotated] err [rotated] poll [rotated])

lemma rudp_error: "app_err (rudp_app env user) f x e s = Some s' \<Longrightarrow> I s \<Longrightarrow> I s'"
  by (auto simp: rudp_app_def rudp_error_def split: if_split_asm intro: rudp_free)

end

locale call_client = setter_client +
  fixes env :: env
  assumes close: "I s \<Longrightarrow> tcp_close env a s = Some (e, s') \<Longrightarrow> I s'"
    and recved: "I s \<Longrightarrow> at_pcb a (tcp_recved env n) s = Some (u, s') \<Longrightarrow> I s'"
    and tcp_write: "I s \<Longrightarrow> at_pcb a (\<lambda>p s. tcp_write env p d l fl s) s = Some (e, s') \<Longrightarrow> I s'"
begin

lemma rudp_close: "rudp_close env a s = Some s' \<Longrightarrow> I s \<Longrightarrow> I s'"
  by (auto simp: rudp_close_def bind_Some_iff split: if_split_asm dest: close intro: rudp_free)

lemma retry_close: "retry_close env x s = Some (r, s') \<Longrightarrow> I s \<Longrightarrow> I s'"
  by (auto simp: retry_close_def bind_Some_iff split: if_split_asm intro: rudp_close)

lemma rudp_send: "rudp_send env a buf s = Some (r, s') \<Longrightarrow> I s \<Longrightarrow> I s'"
  by (auto simp: rudp_send_def bind_Some_iff split: if_split_asm intro: tcp_write)

end

text \<open>The program above keeps the property as well.\<close>

definition user_keeps :: "(lw \<Rightarrow> bool) \<Rightarrow> rudp_user \<Rightarrow> bool" where
  "user_keeps I user \<longleftrightarrow>
     (\<forall>f a d e s s'. I s \<longrightarrow> ru_recv user f a d e s = Some s' \<longrightarrow> I s') \<and>
     (\<forall>f a e s r s'. I s \<longrightarrow> ru_accept user f a e s = Some (r, s') \<longrightarrow> I s') \<and>
     (\<forall>f a e s r s'. I s \<longrightarrow> ru_connected user f a e s = Some (r, s') \<longrightarrow> I s')"

locale user_client = call_client +
  fixes user :: rudp_user
  assumes user: "user_keeps I user"
begin

lemma user_recv: "I s \<Longrightarrow> ru_recv user f a d e s = Some s' \<Longrightarrow> I s'"
  and user_accept: "I s \<Longrightarrow> ru_accept user f a e s = Some (r, s') \<Longrightarrow> I s'"
  and user_connected: "I s \<Longrightarrow> ru_connected user f a e s = Some (r, s') \<Longrightarrow> I s'"
  using user unfolding user_keeps_def by blast+

lemma on_accept: "on_accept env user x a e s = Some (r, s') \<Longrightarrow> I s \<Longrightarrow> I s'"
proof -
  assume c: "on_accept env user x a e s = Some (r, s')" and i: "I s"
  obtain s1 where s1: "tcp_setprio a TCP_PRIO_MIN s = Some s1" using c by (auto simp: on_accept_def bind_Some_iff)
  obtain ao s2 where s2: "fd_new env s1 = (ao, s2)" by fastforce
  have "I s2" by (rule fd_new [OF s2 setprio [OF i s1]])
  then show "I s'"
    using c s1 s2 by (cases ao) (auto simp: on_accept_def bind_Some_iff dest: setup_pcb close intro: user_accept elim!: user_accept [rotated])
qed

lemma on_recv: "on_recv env user x a p e s = Some (r, s') \<Longrightarrow> I s \<Longrightarrow> I s'"
  by (auto simp: on_recv_def bind_Some_iff split: if_split_asm intro: user_recv dest: recved)

lemma on_connect: "on_connect user x a e s = Some (r, s') \<Longrightarrow> I s \<Longrightarrow> I s'"
  by (auto simp: on_connect_def bind_Some_iff intro: user_connected)

lemma callbacks:
  shows "app_accept (rudp_app env user) f x a e s = Some (r, s') \<Longrightarrow> I s \<Longrightarrow> I s'"
    and "app_recv (rudp_app env user) f x a p e s = Some (r, s') \<Longrightarrow> I s \<Longrightarrow> I s'"
    and "app_sent (rudp_app env user) f x a n s = Some (r, s') \<Longrightarrow> I s \<Longrightarrow> I s'"
    and "app_connected (rudp_app env user) f x a e s = Some (r, s') \<Longrightarrow> I s \<Longrightarrow> I s'"
    and "app_poll (rudp_app env user) f x a s = Some (r, s') \<Longrightarrow> I s \<Longrightarrow> I s'"
  by (auto simp: rudp_app_def rudp_sent_def rudp_poll_def split: if_split_asm intro: on_accept on_recv on_connect retry_close)

end

section \<open>The stack provides it\<close>

text \<open>The setters change neither the lists nor the states of the connections.\<close>

definition setter_effect :: "lw \<Rightarrow> lw \<Rightarrow> bool" where
  "setter_effect s s' \<longleftrightarrow> lw_lists s' = lw_lists s \<and> lw_active_changed s' = lw_active_changed s \<and> in_same s s' \<and> (pcbs_ok s \<longrightarrow> pcbs_ok s' \<and> established s' = established s)"

lemma pcb_put_changed [simp]: "lw_active_changed (pcb_put p s) = lw_active_changed s"
  by (simp add: pcb_put_def)

lemma setter_effects:
  shows "tcp_arg a x s = Some s' \<Longrightarrow> setter_effect s s'" and "tcp_setprio a n s = Some s' \<Longrightarrow> setter_effect s s'"
    and "tcp_recv a g s = Some s' \<Longrightarrow> setter_effect s s'" and "tcp_sent a g s = Some s' \<Longrightarrow> setter_effect s s'"
    and "tcp_err a g s = Some s' \<Longrightarrow> setter_effect s s'" and "tcp_poll a g i s = Some s' \<Longrightarrow> setter_effect s s'"
proof -
  have put: "lw_lists (pcb_put p' s) = lw_lists s \<and> lw_active_changed (pcb_put p' s) = lw_active_changed s \<and> in_same s (pcb_put p' s) \<and> (pcbs_ok s \<longrightarrow> established (pcb_put p' s) = established s)"
    if "lw_pcbs s a = Some p" "pcb_addr p' = pcb_addr p" "pcb_state p' = pcb_state p" for p p'
    using that pcbs_okD(3) [of s a p] by (auto simp: fun_eq_iff) (auto simp: established_def)
  have lput: "in_same s (s\<lparr>lw_lpcbs := x\<rparr>)" "established (s\<lparr>lw_lpcbs := x\<rparr>) = established s" for x
    by (simp_all add: in_same_def established_def fun_eq_iff)
  show "tcp_arg a x s = Some s' \<Longrightarrow> setter_effect s s'" using set_callbacks_ok(1) [of s a x s']
    by (auto simp: setter_effect_def tcp_arg_def bind_Some_iff lput put split: option.split_asm)
  show "tcp_setprio a n s = Some s' \<Longrightarrow> setter_effect s s'" using set_callbacks_ok(2) [of s a n s']
    by (auto simp: setter_effect_def tcp_setprio_def bind_Some_iff lput put split: option.split_asm)
  show "tcp_recv a g s = Some s' \<Longrightarrow> setter_effect s s'" using set_callbacks_ok(4) [of s a g s']
    by (auto simp: setter_effect_def tcp_recv_def bind_Some_iff put)
  show "tcp_sent a g s = Some s' \<Longrightarrow> setter_effect s s'" using set_callbacks_ok(5) [of s a g s']
    by (auto simp: setter_effect_def tcp_sent_def bind_Some_iff put)
  show "tcp_err a g s = Some s' \<Longrightarrow> setter_effect s s'" using set_callbacks_ok(6) [of s a g s']
    by (auto simp: setter_effect_def tcp_err_def bind_Some_iff put)
  show "tcp_poll a g i s = Some s' \<Longrightarrow> setter_effect s s'" using set_callbacks_ok(7) [of s a g i s']
    by (auto simp: setter_effect_def tcp_poll_def bind_Some_iff put)
qed

lemma setter_effect_sys: "sys_frame s s' \<Longrightarrow> setter_effect s s'"
  by (auto simp: setter_effect_def sys_frame_lw sys_in_same pcbs_ok_frame established_frame fun_eq_iff)

lemma setter_effect_fds [simp]: "pcbs_ok (s\<lparr>lw_fds := f\<rparr>) = pcbs_ok s" "established (s\<lparr>lw_fds := f\<rparr>) = established s"
  by (rule pcbs_ok_cong) (simp_all add: established_def fun_eq_iff)

lemma at_pcb_write_ok:
  assumes "at_pcb a (\<lambda>p s. tcp_write env p d l fl s) s = Some (e, s')" and "pcbs_ok s"
  shows "pcbs_ok s'"
  by (rule at_pcb_ok(1) [OF assms]) (erule tcp_write_frame)

lemma at_pcb_write_in_same: "at_pcb a (\<lambda>p s. tcp_write env p d l fl s) s = Some (e, s') \<Longrightarrow> in_same s s'"
  by (erule at_pcb_in_same) (erule tcp_write_frame)

text \<open>Sending and acknowledging data leave lists, states and flags as they are.\<close>

lemma at_pcb_setters:
  shows "at_pcb a (tcp_recved env n) s = Some (u, s') \<Longrightarrow> setter_effect s s'"
    and "at_pcb a (\<lambda>p s. tcp_write env p d l fl s) s = Some (e, s') \<Longrightarrow> setter_effect s s'"
proof -
  assume e: "at_pcb a (tcp_recved env n) s = Some (u, s')"
  then obtain p p' s1 where p: "lw_pcbs s a = Some p" "tcp_recved env n p s = Some (u, p', s1)" "s' = pcb_put p' s1"
    by (auto simp: at_pcb_def bind_Some_iff)
  have "lw_lists s' = lw_lists s" "lw_active_changed s' = lw_active_changed s" using tcp_recved_frame [OF p(2)] p(3) by (simp_all add: sys_frame_lw)
  moreover have "established s' = established s" if "pcbs_ok s"
    by (rule ext, rule at_pcb_effect(3) [OF e that]) (erule tcp_recved_frame)
  ultimately show "setter_effect s s'" using at_pcb_calls_in_same(3) [OF e] at_pcb_recved_ok [OF e] by (simp add: setter_effect_def)
next
  assume e: "at_pcb a (\<lambda>p s. tcp_write env p d l fl s) s = Some (e, s')"
  then obtain p p' s1 where p: "lw_pcbs s a = Some p" "tcp_write env p d l fl s = Some (e, p', s1)" "s' = pcb_put p' s1"
    by (auto simp: at_pcb_def bind_Some_iff)
  have "lw_lists s' = lw_lists s" "lw_active_changed s' = lw_active_changed s" using tcp_write_frame [OF p(2)] p(3) by (simp_all add: sys_frame_lw)
  moreover have "established s' = established s" if "pcbs_ok s"
    by (rule ext, rule at_pcb_effect(3) [OF e that]) (erule tcp_write_frame)
  ultimately show "setter_effect s s'" using at_pcb_write_in_same [OF e] at_pcb_write_ok [OF e] by (simp add: setter_effect_def)
qed

lemma setter_clients:
  assumes "\<And>s s'. setter_effect s s' \<Longrightarrow> I s \<Longrightarrow> I s'" and "\<And>s f. I (s\<lparr>lw_fds := f\<rparr>) = I s"
  shows "setter_client I"
  by unfold_locales (auto intro: assms(1) setter_effects setter_effect_sys mem_sys_frame simp: assms(2))

lemma call_clients:
  assumes "\<And>s s'. setter_effect s s' \<Longrightarrow> I s \<Longrightarrow> I s'" and "\<And>s f. I (s\<lparr>lw_fds := f\<rparr>) = I s"
    and "\<And>s a e s'. I s \<Longrightarrow> tcp_close env a s = Some (e, s') \<Longrightarrow> I s'"
  shows "call_client I env"
  by (rule call_client.intro, rule setter_clients [OF assms(1,2)], assumption, unfold_locales) (auto intro: assms at_pcb_setters)

section \<open>Interpretations\<close>

text \<open>While a segment for \<open>b\<close> is processed and the error callback runs.\<close>

definition resetting :: "nat \<Rightarrow> u8 \<Rightarrow> lw \<Rightarrow> bool" where
  "resetting b f s \<longleftrightarrow> hold b s \<and> sy_input_pcb s = Some b \<and> lw_recv_flags s \<in> {f, f OR TF_CLOSED}"

text \<open>The same for the other callbacks, which are not called for a connection that was reset.\<close>

definition processing :: "nat \<Rightarrow> u8 \<Rightarrow> lw \<Rightarrow> bool" where
  "processing b f s \<longleftrightarrow> resetting b f s \<and> lw_recv_flags s AND TF_RESET = 0"

text \<open>While no segment is processed.\<close>

definition idle :: "u8 \<Rightarrow> lw \<Rightarrow> bool" where
  "idle f s \<longleftrightarrow> sy_input_pcb s = None \<and> lw_recv_flags s = f"

lemma hold_setter: "setter_effect s s' \<Longrightarrow> hold b s \<Longrightarrow> hold b s'"
  by (simp add: setter_effect_def hold_def in_same_def)

lemma resetting_setter: "setter_effect s s' \<Longrightarrow> resetting b f s \<Longrightarrow> resetting b f s'"
  using hold_setter [of s s' b] by (auto simp: resetting_def setter_effect_def in_same_def)

lemma resetting_fds [simp]: "resetting b f (s\<lparr>lw_fds := x\<rparr>) = resetting b f s"
  by (simp add: resetting_def hold_def)

lemma processing_close:
  assumes "processing b f s" and "tcp_close env a s = Some (e, s')"
  shows "processing b f s'"
proof -
  have p: "hold b s" "sy_input_pcb s = Some b" "lw_recv_flags s AND TF_RESET = 0" "lw_recv_flags s \<in> {f, f OR TF_CLOSED}"
    using assms(1) by (simp_all add: processing_def resetting_def)
  note c = tcp_close_hold [OF assms(2) p(1-3)]
  have "(x OR TF_CLOSED) AND TF_RESET = x AND TF_RESET" for x :: u8 by (simp add: bit.conj_disj_distrib2)
  then show ?thesis using c p(3,4) by (auto simp: processing_def resetting_def or.assoc)
qed

interpretation lists_client: call_client pcbs_ok env for env
  by (rule call_clients) (auto simp: setter_effect_def intro: tcp_close_ok)

interpretation reset_client: setter_client "resetting b f" for b f
  by (rule setter_clients) (auto intro: resetting_setter)

interpretation processing_client: call_client "processing b f" env for b f env
proof (rule call_clients)
  show "setter_effect s s' \<Longrightarrow> processing b f s \<Longrightarrow> processing b f s'" for s s'
    using resetting_setter [of s s' b f] by (auto simp: processing_def setter_effect_def in_same_def)
qed (simp add: processing_def, rule processing_close)

interpretation idle_client: call_client "idle f" env for f env
  by (rule call_clients) (auto simp: idle_def setter_effect_def in_same_def dest: tcp_close_in_same)

interpretation steady_client: call_client "steady L" env for L env
  by (rule call_clients) (auto simp: setter_effect_def steady_def dest: tcp_close_steady [unfolded steady_def])

section \<open>The contract of the callbacks\<close>

text \<open>
  The program above, seen from this layer: its callbacks keep the lists sound, and inside a callback they do to the
  connection being processed no more than a close does.
\<close>

definition user_ok :: "rudp_user \<Rightarrow> bool" where
  "user_ok user \<longleftrightarrow> user_keeps pcbs_ok user \<and> (\<forall>b f. user_keeps (processing b f) user) \<and> (\<forall>f. user_keeps (idle f) user)"

lemma rudp_input_app:
  assumes "user_ok user"
  shows "input_app (rudp_app env user)"
proof -
  let ?app = "rudp_app env user"
  have lists: "user_client pcbs_ok env user" and proc: "user_client (processing b f) env user" and idl: "user_client (idle f) env user" for b f
    using assms by (auto simp: user_ok_def intro!: user_client.intro user_client_axioms.intro lists_client.call_client_axioms
        processing_client.call_client_axioms idle_client.call_client_axioms)
  have keeps: "app_keeps pcbs_ok ?app"
    unfolding app_keeps_def
    by (intro conjI allI impI) (erule (1) user_client.callbacks [OF lists] lists_client.rudp_error)+
  have cb: "callback_ok False r s s'" if "\<And>b f. processing b f s \<Longrightarrow> processing b f s'" for r s s'
    using that [of _ "lw_recv_flags s"] by (auto simp: callback_ok_def processing_def resetting_def)
  have er: "callback_ok True ERR_OK s s'" if "app_err ?app f x e s = Some s'" for f x e s s'
    using reset_client.rudp_error [OF that, of _ "lw_recv_flags s"] by (auto simp: callback_ok_def resetting_def)
  have rc: "in_same s s'" if "app_recv ?app f x a p e s = Some (r, s')" "sy_input_pcb s = None" for f x a p e s r s'
    using user_client.callbacks(2) [OF idl that(1), of "lw_recv_flags s"] that(2) by (simp add: idle_def in_same_def)
  show ?thesis
    unfolding input_app_def
    by (intro conjI allI impI keeps) (rule cb, erule (1) user_client.callbacks [OF proc] | erule er | erule (1) rc)+
qed

lemma rudp_timer_app: "timer_app (rudp_app env user)"
proof -
  have poll: "steady L s'" if "app_poll (rudp_app env user) f x a s = Some (r, s')" "steady L s" for L f x a s r s'
    using that by (auto simp: rudp_app_def rudp_poll_def split: if_split_asm intro: steady_client.retry_close)
  show ?thesis unfolding timer_app_def by (intro conjI allI impI) (erule (1) poll, erule (1) steady_client.rudp_error)
qed

section \<open>The program as a transition system\<close>

text \<open>
  One call of the program above, one datagram, or one tick of the timer. A socket is bound once. As for the stack, a datagram
  arrives while no segment is processed, and no connection holds refused data when it is reset (\<open>on_recv\<close> never refuses data).
\<close>

inductive rudp_step :: "env \<Rightarrow> rudp_user \<Rightarrow> (nat \<Rightarrow> u32) \<Rightarrow> lw \<Rightarrow> lw \<Rightarrow> bool" for env user beyond where
  step_socket: "rudp_socket env user s = Some (ao, s') \<Longrightarrow> rudp_step env user beyond s s'"
| step_bind: "rudp_bind bound a port s = Some (r, s') \<Longrightarrow>
    (\<And>fd. lw_fds s a = Some fd \<Longrightarrow> fd_pcb fd \<notin> set (lw_lists s L_BOUND)) \<Longrightarrow> rudp_step env user beyond s s'"
| step_listen: "rudp_listen a accept_cb recv_cb s = Some (r, s') \<Longrightarrow> rudp_step env user beyond s s'"
| step_connect: "rudp_connect env a ip port connected_cb recv_cb s = Some (r, s') \<Longrightarrow> rudp_step env user beyond s s'"
| step_send: "rudp_send env a buf s = Some (r, s') \<Longrightarrow> rudp_step env user beyond s s'"
| step_close: "rudp_close env a s = Some s' \<Longrightarrow> rudp_step env user beyond s s'"
| step_timer: "tcp_timer env (rudp_app env user) s = Some s' \<Longrightarrow> rudp_step env user beyond s s'"
| step_datagram: "update_datagram env (rudp_app env user) beyond bs ip port buf s = Some (buf', s') \<Longrightarrow> sy_input_pcb s = None \<Longrightarrow>
    (\<And>a q. a \<in> set (lw_lists s L_ACTIVE) \<Longrightarrow> lw_pcbs s a = Some q \<Longrightarrow> pcb_refused_data q = []) \<Longrightarrow> rudp_step env user beyond s s'"

lemma rudp_socket_ok:
  assumes e: "rudp_socket env user s = Some (ao, s')" and app: "input_app (rudp_app env user)" and ok: "pcbs_ok s"
  shows "pcbs_ok s'"
proof -
  obtain fo s1 where f: "fd_new env s = (fo, s1)" by fastforce
  have ok1: "pcbs_ok s1" by (rule lists_client.fd_new [OF f ok])
  have new: "pcbs_ok s2" if "tcp_new env (rudp_app env user) s1 = Some (po, s2)" for po s2
    using tcp_alloc_ok [OF that [unfolded tcp_new_def] ok1 input_appD(1) [OF app]] by simp
  show ?thesis
    using e f ok1 by (cases fo) (auto simp: rudp_socket_def bind_Some_iff split: option.split_asm
        dest!: new intro: lists_client.fd_free lists_client.setup_pcb)
qed

lemma rudp_listen_ok:
  assumes "rudp_listen a accept_cb recv_cb s = Some (r, s')" and ok: "pcbs_ok s"
  shows "pcbs_ok s'"
  using assms
  by (auto simp: rudp_listen_def bind_Some_iff split: option.split_asm dest!: tcp_listen_ok [OF _ ok] set_callbacks_ok(1,3) [rotated])

lemma update_datagram_ok:
  assumes e: "update_datagram env app beyond bs ip port buf s = Some (buf', s')" and app: "input_app app" and ok: "pcbs_ok s"
    and i: "sy_input_pcb s = None"
    and rst: "\<And>a q. a \<in> set (lw_lists s L_ACTIVE) \<Longrightarrow> lw_pcbs s a = Some q \<Longrightarrow> pcb_refused_data q = []"
  shows "pcbs_ok s'"
proof -
  obtain p s1 q where a: "pbuf_alloc env PBUF_TRANSPORT (of_nat (length bs)) PBUF_POOL s = Some (p, s1)"
    and t: "tcp_input env app beyond ip port q s1 = Some s'"
    using e by (auto simp: update_datagram_def bind_Some_iff Let_def)
  have fr: "sys_frame s s1" by (rule mem_sys_frame [OF pbuf_alloc_frame [OF a]])
  show ?thesis
    by (rule tcp_input_ok [OF t app pcbs_ok_frame [OF fr ok]]) (use i rst sys_frame_lw [OF fr] sys_input [OF fr] in auto)
qed

lemma rudp_step_ok:
  assumes "rudp_step env user beyond s s'" and app: "input_app (rudp_app env user)" and ok: "pcbs_ok s"
  shows "pcbs_ok s'"
  using assms(1)
proof (cases rule: rudp_step.cases)
  case (step_bind bound a port r)
  then show ?thesis using ok by (auto simp: rudp_bind_def bind_Some_iff split: if_split_asm dest: tcp_bind_ok)
next
  case (step_connect a ip port connected_cb recv_cb r)
  then show ?thesis using ok by (auto simp: rudp_connect_def bind_Some_iff intro: tcp_connect_ok)
next
  case step_timer
  then show ?thesis using ok input_appD(1) [OF app] rudp_timer_app by (auto simp: tcp_timer_def split: if_split_asm intro: tcp_tmr_ok)
qed (use ok app in \<open>auto intro: rudp_socket_ok rudp_listen_ok lists_client.rudp_send lists_client.rudp_close update_datagram_ok\<close>)

section \<open>The example programs\<close>

context call_client
begin

lemma echo: "user_keeps I (echo_server env)"
  by (auto simp: user_keeps_def echo_server_def echo_recv_def bind_Some_iff split: option.split_asm list.split_asm
      intro: rudp_send rudp_close)

lemma client: "user_keeps I (echo_client env)"
  by (auto simp: user_keeps_def echo_client_def client_recv_def client_connected_def bind_Some_iff split: option.split_asm if_split_asm)
    (meson rudp_send rudp_close)+

end

interpretation echo_lists: user_client pcbs_ok env "echo_server env" for env
  by unfold_locales (rule lists_client.echo)

interpretation echo_processing: user_client "processing b f" env "echo_server env" for b f env
  by unfold_locales (rule processing_client.echo)

interpretation echo_idle: user_client "idle f" env "echo_server env" for f env
  by unfold_locales (rule idle_client.echo)

lemma example_programs_ok: "user_ok (echo_server env)" "user_ok (echo_client env)"
  by (simp_all add: user_ok_def echo_lists.user echo_processing.user echo_idle.user lists_client.client processing_client.client
      idle_client.client)

section \<open>The start\<close>

lemma rudp_init_ok:
  assumes "rudp_init sizes base fd opt now c lw_start = (r, c', s)" and "\<forall>t. 0 < sizes t"
  shows "pcbs_ok s"
proof -
  have s: "s = memp_init sizes base lw_start" using assms(1) by (auto simp: rudp_init_def Let_def split: if_split_asm)
  have tab: "memp_tab s = memp_elems sizes base" by (simp add: s memp_init_eq)
  have "a \<notin> set (memp_elems sizes base MEMP_TCP_PCB_LISTEN)" if "a \<in> set (memp_elems sizes base MEMP_TCP_PCB)" for a
  proof
    assume "a \<in> set (memp_elems sizes base MEMP_TCP_PCB_LISTEN)"
    from memp_elems_disjoint [OF that this] assms(2) [rule_format, of MEMP_TCP_PCB] assms(2) [rule_format, of MEMP_TCP_PCB_LISTEN]
    show False by simp
  qed
  then have "distinct (memp_tab s MEMP_TCP_PCB @ memp_tab s MEMP_TCP_PCB_LISTEN)"
    by (auto simp: tab memp_elems_distinct assms(2))
  then show ?thesis by (simp add: pcbs_ok_def) (simp add: s memp_init_eq lw_start_def)
qed

section \<open>Properties\<close>

text \<open>
  C5: The whole program, sockets on top of the stack on top of UDP, keeps its lists well formed. After \<open>rudp_init\<close> has
  succeeded, whatever sockets are opened, bound, connected, written to and
  closed, whatever datagrams arrive and however the timer ticks, and with a program above that may send and close in its
  callbacks: after every step that has a result every control block on a list exists, is on one list only and once, and is in a state its list is for. The
  hypotheses on the callbacks, under which the stack keeps its lists, are proved here for the callbacks of this layer. The steps
  leave out a second bind of a bound socket, which damages the list (\<open>tcp_bind_again\<close>), and a datagram that arrives while
  a connection holds refused data. A step that uses a freed control block, as an abort or some closes do in this layer, has no result in the model.
\<close>

theorem rudp_keeps_lists:
  assumes "rudp_init sizes base fd opt now c lw_start = (0, c', s)" and "\<forall>t. 0 < sizes t"
    and "(rudp_step env user beyond)\<^sup>*\<^sup>* s s'" and "user_ok user"
  shows "pcbs_ok s' \<and> tcp_pcbs_sane s' \<and> (\<forall>l l' a. a \<in> set (lw_lists s' l) \<longrightarrow> a \<in> set (lw_lists s' l') \<longrightarrow> l = l')"
proof -
  have "pcbs_ok s'"
    using assms(3) rudp_init_ok [OF assms(1,2)]
    by (induction rule: rtranclp_induct) (auto intro: rudp_step_ok rudp_input_app [OF assms(4)])
  then show ?thesis using lists_disjoint [of s'] pcbs_ok_sane by blast
qed

text \<open>The echo server starts and opens its socket; every structure has two bytes, and the pools begin at 100.\<close>

definition ex_start :: lw where
  "ex_start = memp_init (\<lambda>_. 2) 100 lw_start"

lemma ex_start_init: "rudp_init (\<lambda>_. 2) 100 3 0 7 \<lparr>rc_last_ts = 0, rc_timeout = 0\<rparr> lw_start =
   (0, \<lparr>rc_last_ts = 7, rc_timeout = TIME_INTERVAL\<rparr>, ex_start)"
  by (simp add: rudp_init_def ex_start_def)

lemma ex_start_tabs:
  "\<exists>a as. memp_tab ex_start MEMP_TCP_PCB = a # as \<and> 0 < a" "\<exists>a as. memp_tab ex_start MEMP_TCP_PCB_LISTEN = a # as \<and> 0 < a"
  by (simp_all add: ex_start_def memp_init_eq memp_elems_def upt_rec)

lemma ex_rudp_listen:
  "\<exists>ao s1 r s2 r' s3. rudp_socket ex_env (echo_server ex_env) ex_start = Some (ao, s1) \<and> rudp_bind 0 (the ao) 10001 s1 = Some (r, s2) \<and>
     rudp_listen (the ao) (Some 1) (Some 2) s2 = Some (r', s3) \<and> lw_lists s1 L_BOUND = [] \<and> length (lw_lists s3 L_LISTEN) = 1"
proof -
  obtain a as where a: "memp_elems (\<lambda>_. 2) 100 MEMP_TCP_PCB = a # as" "0 < a" using ex_start_tabs(1) by (auto simp: ex_start_def memp_init_eq)
  obtain l ls where l: "memp_elems (\<lambda>_. 2) 100 MEMP_TCP_PCB_LISTEN = l # ls" "0 < l" using ex_start_tabs(2) by (auto simp: ex_start_def memp_init_eq)
  show ?thesis
    by (simp add: ex_start_def memp_init_eq lw_start_def ex_env_def a l rudp_socket_def fd_new_def mem_malloc_def fd_put_def setup_pcb_def
        tcp_new_def tcp_alloc_def tcp_pcb_new_def memp_malloc_def memp_stats_upd_def tcp_next_iss_def tcp_arg_def tcp_recv_def tcp_err_def
        tcp_poll_def tcp_sent_def pcb_put_def rudp_bind_def tcp_bind_def rudp_listen_def tcp_listen_with_backlog_def tcp_accept_def
        TCP_REG_def TCP_RMV_def Let_def pcb_free_def memp_free_def)
qed

theorem rudp_keeps_lists_witness:
  "\<exists>s. (rudp_step ex_env (echo_server ex_env) (\<lambda>_. 0))\<^sup>*\<^sup>* ex_start s \<and> length (lw_lists s L_LISTEN) = 1 \<and> tcp_pcbs_sane s"
proof -
  obtain ao s1 r s2 r' s3 where st: "rudp_socket ex_env (echo_server ex_env) ex_start = Some (ao, s1)"
    "rudp_bind 0 (the ao) 10001 s1 = Some (r, s2)" "rudp_listen (the ao) (Some 1) (Some 2) s2 = Some (r', s3)"
    and l: "lw_lists s1 L_BOUND = []" "length (lw_lists s3 L_LISTEN) = 1"
    using ex_rudp_listen by blast
  have "(rudp_step ex_env (echo_server ex_env) (\<lambda>_. 0))\<^sup>*\<^sup>* ex_start s1" by (rule r_into_rtranclp, rule step_socket [OF st(1)])
  also have "rudp_step ex_env (echo_server ex_env) (\<lambda>_. 0) s1 s2" by (rule step_bind [OF st(2)]) (simp add: l(1))
  also have "rudp_step ex_env (echo_server ex_env) (\<lambda>_. 0) s2 s3" by (rule step_listen [OF st(3)])
  finally have steps: "(rudp_step ex_env (echo_server ex_env) (\<lambda>_. 0))\<^sup>*\<^sup>* ex_start s3" by simp
  have "tcp_pcbs_sane s3" using rudp_keeps_lists [OF ex_start_init _ steps example_programs_ok(1)] by simp
  then show ?thesis using steps l(2) by (intro exI [of _ s3] conjI)
qed

end
