(* ===== verification/Rudp_Close.thy ===== *)
theory Rudp_Close
  imports Rudp_Keeps
begin

text \<open>
  Closing in the application layer: what \<open>rudp_close\<close> leaves behind, and the connections that \<open>rudp_free\<close> uses after the stack has
  freed them.
\<close>

section \<open>The stack does not touch the structures of the layer\<close>

lemma sys_frame_fds: "sys_frame s s' \<Longrightarrow> lw_fds s' = lw_fds (s :: lw)"
  by (cases s; cases s'; simp add: sys_frame_def)

lemma fds_simps [simp]:
  "lw_fds (pcb_put p s) = lw_fds s" "lw_fds (TCP_RMV l a s) = lw_fds s" "lw_fds (TCP_RMV_ACTIVE a s) = lw_fds s"
  "lw_fds (TCP_REG l a s) = lw_fds s" "lw_fds (pcb_free a s) = lw_fds s" "lw_fds (lpcb_free a s) = lw_fds s"
  "lw_fds (tcp_trigger_input_pcb_close s) = lw_fds s" "lw_fds (mem_free a s) = lw_fds s" "lw_lpcbs (pcb_put p s) = lw_lpcbs s"
  by (simp_all add: pcb_put_def TCP_RMV_def TCP_RMV_ACTIVE_def TCP_REG_def pcb_free_def lpcb_free_def memp_free_def memp_stats_upd_def
      Let_def tcp_trigger_input_pcb_close_def mem_free_def)

lemma at_pcb_fds:
  assumes "at_pcb a f s = Some (r, s')" and "\<And>p r p' s s'. f p s = Some (r, p', s') \<Longrightarrow> conn_frame p p' \<and> sys_frame s (s' :: lw)"
  shows "lw_fds s' = lw_fds s"
  using assms(1) by (auto simp: at_pcb_def bind_Some_iff dest!: assms(2) sys_frame_fds)

lemma at_pcb_calls_fds:
  "at_pcb a (tcp_send_fin env) s = Some (r, s') \<Longrightarrow> lw_fds s' = lw_fds s" "at_pcb a (tcp_output env) s = Some (e, s') \<Longrightarrow> lw_fds s' = lw_fds s"
  "at_pcb a (tcp_recved env n) s = Some (u, s') \<Longrightarrow> lw_fds s' = lw_fds s"
  by (erule at_pcb_fds; erule tcp_send_fin_frame tcp_output_frame tcp_recved_frame)+

lemma tcp_pcb_remove_fds: "tcp_pcb_remove env l a s = Some s' \<Longrightarrow> lw_fds s' = lw_fds s \<and> lw_lpcbs s' = lw_lpcbs s"
  by (auto simp: tcp_pcb_remove_def bind_Some_iff Let_def sys_frame_lw sys_frame_fds split: if_split_asm
      dest!: tcp_pcb_purge_frame tcp_output_frame)

lemma tcp_close_shutdown_fds:
  assumes "tcp_close_shutdown env a rst s = Some (err, s')"
  shows "lw_fds s' = lw_fds s"
proof -
  have rst: "lw_fds s' = lw_fds s" if "close_with_rst env a p s = Some (err, s')" for p
    using that by (auto simp: close_with_rst_def bind_Some_iff Let_def pcb_rst_def split: if_split_asm
        dest!: tcp_rst_frame tcp_pcb_purge_frame sys_frame_fds)
  have fin: "lw_fds s' = lw_fds s" if "close_with_fin env st a s = Some (err, s')" for st
    using that by (auto simp: close_with_fin_def bind_Some_iff split: if_split_asm dest!: at_pcb_calls_fds)
  have listen: "lw_fds s1 = lw_fds s" if "tcp_lpcb_remove a s = Some s1" for s1
    using that by (auto simp: tcp_lpcb_remove_def bind_Some_iff Let_def)
  show ?thesis
    using assms rst fin listen
    by (auto simp: tcp_close_shutdown_def TCP_PCB_REMOVE_ACTIVE_def bind_Some_iff split: option.split_asm if_split_asm tcp_state.split_asm
        dest!: tcp_pcb_remove_fds)
qed

lemma tcp_close_fds: "tcp_close env a s = Some (err, s') \<Longrightarrow> lw_fds s' = lw_fds s"
  by (auto simp: tcp_close_def bind_Some_iff split: option.split_asm dest!: tcp_close_shutdown_fds)

section \<open>What \<open>rudp_free\<close> needs\<close>

lemma rudp_free_freed: "lw_fds s f = Some fd \<Longrightarrow> lw_pcbs s (fd_pcb fd) = None \<Longrightarrow> rudp_free f s = None"
  by (cases "lw_lpcbs s (fd_pcb fd)") (auto simp: rudp_free_def tcp_arg_def tcp_sent_def bind_eq_None_conv)

lemma rudp_free_spec:
  assumes "rudp_free f s = Some s'" and "lw_fds s f = Some fd" and "pcbs_ok s"
  shows "lw_fds s' = (lw_fds s)(f := None) \<and>
    (\<exists>p. lw_pcbs s (fd_pcb fd) = Some p \<and> lw_pcbs s' (fd_pcb fd) = Some (p\<lparr>pcb_callback_arg := 0, pcb_sent := None, pcb_recv := None,
       pcb_errf := None, pcb_poll := None, pcb_pollinterval := 0\<rparr>))"
proof -
  obtain p where p: "lw_pcbs s (fd_pcb fd) = Some p" using rudp_free_freed [OF assms(2)] assms(1) by (cases "lw_pcbs s (fd_pcb fd)") auto
  have l: "lw_lpcbs s (fd_pcb fd) = None" "pcb_addr p = fd_pcb fd" using pcbs_okD(3,5) [OF assms(3) p] by simp_all
  show ?thesis
    using assms(1,2) p l by (auto simp: rudp_free_def tcp_arg_def tcp_sent_def tcp_recv_def tcp_err_def tcp_poll_def fd_free_def
        pcb_put_def mem_free_def)
qed

lemma tcp_close_failed:
  assumes e: "tcp_close env a s = Some (err, s')" and ok: "pcbs_ok s" and "err \<noteq> ERR_OK"
  shows "lw_pcbs s' a \<noteq> None"
proof -
  have l: "lw_lpcbs s a = None"
    using e assms(3) by (cases "lw_lpcbs s a") (auto simp: tcp_close_def tcp_close_shutdown_def bind_Some_iff)
  then obtain p where p: "lw_pcbs s a = Some p" and c: "tcp_close_shutdown env a True (pcb_put (set_flag TF_RXCLOSED p) s) = Some (err, s')"
    using e by (auto simp: tcp_close_def bind_Some_iff)
  let ?s = "pcb_put (set_flag TF_RXCLOSED p) s"
  have ok1: "pcbs_ok ?s" by (rule pcbs_ok_set_flag [OF ok p])
  have fin: "lw_pcbs s' a \<noteq> None" if f: "close_with_fin env st a ?s = Some (err, s')" for st
  proof -
    obtain err1 s1 where a: "at_pcb a (tcp_send_fin env) ?s = Some (err1, s1)" using f by (auto simp: close_with_fin_def bind_Some_iff)
    then have "s' = s1" using f assms(3) by (auto simp: close_with_fin_def bind_Some_iff split: if_split_asm)
    moreover have "map_option pcb_state (lw_pcbs s1 a) = map_option pcb_state (lw_pcbs ?s a)" "lw_pcbs ?s a \<noteq> None"
      by (rule at_pcb_ok(4,7) [OF a ok1], erule tcp_send_fin_frame)+
    ultimately show ?thesis by auto
  qed
  show ?thesis
    using c assms(3) l p fin
    by (auto simp: tcp_close_shutdown_def close_with_rst_def Let_def bind_Some_iff split: if_split_asm tcp_state.split_asm option.split_asm)
qed

lemma tcp_close_frees:
  assumes e: "tcp_close env a s = Some (err, s')" and ok: "pcbs_ok s"
    and st: "lw_lpcbs s a \<noteq> None \<or> (\<exists>p. lw_pcbs s a = Some p \<and> pcb_state p \<in> {CLOSED, SYN_SENT})"
  shows "err = ERR_OK \<and> lw_pcbs s' a = None"
proof (cases "lw_lpcbs s a")
  case (Some l)
  then have "lw_pcbs s a = None" using pcbs_okD(5) [OF ok, of a] by (cases "lw_pcbs s a") auto
  then show ?thesis
    using e Some by (auto simp: tcp_close_def tcp_close_shutdown_def tcp_lpcb_remove_def bind_Some_iff Let_def)
next
  case None
  then obtain p where p: "lw_pcbs s a = Some p" "pcb_state p \<in> {CLOSED, SYN_SENT}" using st by auto
  have "lw_pcbs (pcb_put (set_flag TF_RXCLOSED p) s) a = Some (set_flag TF_RXCLOSED p)" "pcb_state (set_flag TF_RXCLOSED p) = pcb_state p"
    using pcbs_okD(3) [OF ok p(1)] by (simp_all add: pcb_put_def set_flag_def)
  then show ?thesis
    using e p None by (auto simp: tcp_close_def tcp_close_shutdown_def bind_Some_iff)
qed

section \<open>Properties\<close>

text \<open>
  C20: What \<open>rudp_close\<close> leaves. If it returns, either the structure of the socket is freed, the connection goes on
  closing and no callback and no argument refers to the layer any more; or the stack could not queue the FIN, and the socket is
  marked for another attempt. But for a socket that listens, that was never connected, or whose SYN has not been answered,
  \<open>tcp_close\<close> frees the control block at once, and \<open>rudp_free\<close> writes to it through \<open>fd->pcb\<close>: the call is undefined.
\<close>

theorem rudp_close_outcome:
  assumes "lw_fds s f = Some fd" and "pcbs_ok s"
  shows "(\<forall>s'. rudp_close env f s = Some s' \<longrightarrow> (\<exists>p'. lw_pcbs s' (fd_pcb fd) = Some p' \<and>
      (lw_fds s' = (lw_fds s)(f := None) \<and> pcb_callback_arg p' = 0 \<and> pcb_sent p' = None \<and> pcb_recv p' = None \<and> pcb_errf p' = None \<and>
         pcb_poll p' = None \<or>
       lw_fds s' = (lw_fds s)(f \<mapsto> fd\<lparr>fd_is_closing := 1\<rparr>)))) \<and>
    (lw_lpcbs s (fd_pcb fd) \<noteq> None \<or> (\<exists>p. lw_pcbs s (fd_pcb fd) = Some p \<and> pcb_state p \<in> {CLOSED, SYN_SENT}) \<longrightarrow>
       rudp_close env f s = None)"
proof (intro conjI allI impI)
  let ?a = "fd_pcb fd"
  fix s' assume e: "rudp_close env f s = Some s'"
  obtain err s1 where c: "tcp_close env ?a s = Some (err, s1)" using e assms(1) by (auto simp: rudp_close_def bind_Some_iff)
  have f1: "lw_fds s1 = lw_fds s" and ok1: "pcbs_ok s1" using tcp_close_fds [OF c] tcp_close_ok [OF c assms(2)] by simp_all
  show "\<exists>p'. lw_pcbs s' ?a = Some p' \<and>
      (lw_fds s' = (lw_fds s)(f := None) \<and> pcb_callback_arg p' = 0 \<and> pcb_sent p' = None \<and> pcb_recv p' = None \<and> pcb_errf p' = None \<and>
         pcb_poll p' = None \<or>
       lw_fds s' = (lw_fds s)(f \<mapsto> fd\<lparr>fd_is_closing := 1\<rparr>))"
  proof (cases "err = ERR_OK")
    case True
    then have "rudp_free f s1 = Some s'" using e assms(1) c by (simp add: rudp_close_def)
    from rudp_free_spec [OF this _ ok1, of fd] f1 assms(1) show ?thesis by auto
  next
    case False
    then have "s' = fd_put f (fd\<lparr>fd_is_closing := 1\<rparr>) s1" using e assms(1) c f1 by (simp add: rudp_close_def)
    then show ?thesis using tcp_close_failed [OF c assms(2) False] f1 by (auto simp: fd_put_def)
  qed
next
  let ?a = "fd_pcb fd"
  assume "lw_lpcbs s ?a \<noteq> None \<or> (\<exists>p. lw_pcbs s ?a = Some p \<and> pcb_state p \<in> {CLOSED, SYN_SENT})"
  then have gone: "err = ERR_OK \<and> lw_pcbs s1 ?a = None" if "tcp_close env ?a s = Some (err, s1)" for err s1
    using tcp_close_frees [OF that assms(2)] by blast
  show "rudp_close env f s = None"
  proof (cases "tcp_close env ?a s")
    case (Some r)
    obtain err s1 where r: "r = (err, s1)" by (cases r)
    have "rudp_free f s1 = None"
      using rudp_free_freed [of s1 f fd] gone [of err s1] tcp_close_fds [of env ?a s err s1] Some r assms(1) by simp
    then show ?thesis using gone [of err s1] Some r assms(1) by (simp add: rudp_close_def)
  qed (simp add: rudp_close_def assms(1))
qed

text \<open>A socket whose connection was never opened.\<close>

definition ex_fd :: rudp_fd where
  "ex_fd = \<lparr>fd_is_closing = 0, fd_pcb = 50, fd_recv_cb = Some 1, fd_accept_cb = None, fd_connected_cb = None\<rparr>"

definition ex_rudp :: "tcp_state \<Rightarrow> lw" where
  "ex_rudp st = ex_free\<lparr>lw_pcbs := [50 \<mapsto> ex_pcb\<lparr>pcb_state := st, pcb_callback_arg := 1000, pcb_errf := Some RUDP_ERROR,
       pcb_unacked := [], pcb_unsent := [], pcb_snd_queuelen := 0\<rparr>],
     lw_fds := [1000 \<mapsto> ex_fd], lw_lists := (\<lambda>l. if l = L_ACTIVE \<and> st \<noteq> CLOSED then [50] else if l = L_BOUND \<and> st = CLOSED then [50] else [])\<rparr>"

lemma ex_rudp_simps:
  "lw_fds (ex_rudp st) 1000 = Some ex_fd" "lw_lpcbs (ex_rudp st) = Map.empty" "fd_pcb ex_fd = 50"
  "lw_pcbs (ex_rudp st) 50 = Some (ex_pcb\<lparr>pcb_state := st, pcb_callback_arg := 1000, pcb_errf := Some RUDP_ERROR,
     pcb_unacked := [], pcb_unsent := [], pcb_snd_queuelen := 0\<rparr>)"
  by (simp_all add: ex_rudp_def ex_free_def ex_lw_def ex_defs ex_fd_def)

lemma ex_rudp_ok: "st = CLOSED \<or> st = ESTABLISHED \<Longrightarrow> pcbs_ok (ex_rudp st)"
proof -
  assume "st = CLOSED \<or> st = ESTABLISHED"
  then show ?thesis
  proof
    assume st: "st = CLOSED"
    have "distinct (lw_lists (ex_rudp st) l) \<and> list_all (listed_ok (ex_rudp st) l) (lw_lists (ex_rudp st) l)" for l
      by (cases l) (simp_all add: st ex_rudp_def ex_free_def ex_lw_def ex_defs listed_ok_def state_of_def)
    then show ?thesis by (simp add: pcbs_ok_def) (simp add: st ex_rudp_def ex_free_def ex_lw_def ex_defs)
  next
    assume st: "st = ESTABLISHED"
    have "distinct (lw_lists (ex_rudp st) l) \<and> list_all (listed_ok (ex_rudp st) l) (lw_lists (ex_rudp st) l)" for l
      by (cases l) (simp_all add: st ex_rudp_def ex_free_def ex_lw_def ex_defs listed_ok_def state_of_def)
    then show ?thesis by (simp add: pcbs_ok_def) (simp add: st ex_rudp_def ex_free_def ex_lw_def ex_defs)
  qed
qed

theorem rudp_close_outcome_witness: "rudp_close ex_env 1000 (ex_rudp CLOSED) = None"
  using rudp_close_outcome [OF ex_rudp_simps(1) ex_rudp_ok, of CLOSED ex_env] ex_rudp_simps(3,4) by simp

text \<open>What precedes the error callback leaves the structures of the layer alone, and the block is freed when it runs.\<close>

lemma rudp_error_freed:
  assumes "lw_fds s1 f = Some fd"
  shows "app_err (rudp_app env user) RUDP_ERROR f e (pcb_free (fd_pcb fd) s1) = None"
    and "app_err (rudp_app env user) RUDP_ERROR f e (pcb_free (fd_pcb fd) s1\<lparr>lw_active_changed := b\<rparr>) = None"
  using rudp_free_freed [of "pcb_free (fd_pcb fd) s1" f fd] rudp_free_freed [of "pcb_free (fd_pcb fd) s1\<lparr>lw_active_changed := b\<rparr>" f fd] assms
  by (auto simp: rudp_app_def rudp_error_def pcb_free_def memp_free_def memp_stats_upd_def Let_def)

lemma tcp_abandon_freed:
  assumes "lw_pcbs s a = Some p" and "pcb_state p \<noteq> TIME_WAIT" and "pcb_errf p = Some RUDP_ERROR"
    and "lw_fds s (pcb_callback_arg p) = Some fd" and "fd_pcb fd = a"
  shows "tcp_abandon env (rudp_app env user) a reset s = None"
proof (rule ccontr)
  define rm where "rm = (if pcb_state p = CLOSED \<and> pcb_local_port p \<noteq> 0 then Some (False, TCP_RMV L_BOUND a s)
          else do { s1 \<leftarrow> TCP_PCB_REMOVE_ACTIVE env a s; Some (reset, s1) })"
  assume "tcp_abandon env (rudp_app env user) a reset s \<noteq> None"
  then obtain s' where "tcp_abandon env (rudp_app env user) a reset s = Some s'" by blast
  note e = this [unfolded tcp_abandon_def assms(1) Option.bind.bind_lunit if_not_P [OF assms(2)], folded rm_def]
  obtain b s1 where r1: "rm = Some (b, s1)" using e by (cases rm) auto
  obtain p1 where r2: "lw_pcbs s1 a = Some p1" using e r1 by (cases "lw_pcbs s1 a") auto
  obtain s2 where r3: "tcp_segs_free (pcb_unacked p1) s1 = Some s2" using e r1 r2 by (cases "tcp_segs_free (pcb_unacked p1) s1") auto
  obtain s3 where r4: "tcp_segs_free (pcb_unsent p1) s2 = Some s3" using e r1 r2 r3 by (cases "tcp_segs_free (pcb_unsent p1) s2") auto
  obtain s4 where r5: "tcp_segs_free (pcb_ooseq p1) s3 = Some s4" using e r1 r2 r3 r4 by (cases "tcp_segs_free (pcb_ooseq p1) s3") auto
  note r = r1 r2 r3 r4 r5
  obtain s5 where s5: "(if b then tcp_rst env (pcb_snd_nxt p) (pcb_rcv_nxt p) (pcb_remote_ip p1)
                (pcb_connid1 p1, pcb_connid2 p1) (pcb_remote_udp_port p1) s4 else Some s4) = Some s5"
    and ev: "app_err (rudp_app env user) RUDP_ERROR (pcb_callback_arg p) ERR_ABRT (pcb_free a s5) = Some s'"
    using e r assms(3) by (cases b) (auto simp: bind_Some_iff TCP_EVENT_ERR_def)
  have "lw_fds s1 = lw_fds s"
    using r(1) by (auto simp: rm_def TCP_PCB_REMOVE_ACTIVE_def bind_Some_iff split: if_split_asm dest!: tcp_pcb_remove_fds)
  moreover have "lw_fds s4 = lw_fds s1" using r(3-5) by (auto dest!: frame_dests sys_frame_fds)
  moreover have "lw_fds s5 = lw_fds s4" using s5 by (auto split: if_split_asm dest!: tcp_rst_frame sys_frame_fds)
  ultimately show False using rudp_error_freed(1) [of s5 "pcb_callback_arg p" fd env user ERR_ABRT] ev assms(4,5) by simp
qed

lemma slowtmr_remove_freed:
  assumes "pcb_errf p = Some RUDP_ERROR" and "lw_fds s (pcb_callback_arg p) = Some fd" and "fd_pcb fd = a"
  shows "slowtmr_remove env (rudp_app env user) prev reset a p s = None"
proof (rule ccontr)
  assume "slowtmr_remove env (rudp_app env user) prev reset a p s \<noteq> None"
  then obtain s' where e: "slowtmr_remove env (rudp_app env user) prev reset a p s = Some s'" by blast
  obtain p1 s1 s3 where pu: "tcp_pcb_purge p s = Some (p1, s1)"
    and rs: "(if reset then pcb_rst env p1 (active_unlink prev a s1) else Some (active_unlink prev a s1)) = Some s3"
    and ev: "TCP_EVENT_ERR (rudp_app env user) (pcb_errf p1) (pcb_callback_arg p1) ERR_ABRT ((pcb_free a s3)\<lparr>lw_active_changed := False\<rparr>) = Some s'"
    by (rule slowtmr_remove_steps [OF e]) (rule that)
  note fr = tcp_pcb_purge_frame [OF pu]
  have "lw_fds s1 = lw_fds s" using fr sys_frame_fds by blast
  moreover have "lw_fds s3 = lw_fds (active_unlink prev a s1)"
    using rs by (auto simp: pcb_rst_def split: if_split_asm dest!: tcp_rst_frame sys_frame_fds)
  ultimately have "lw_fds s3 (pcb_callback_arg p1) = Some fd" using fr assms(2) by (simp add: active_unlink_def conn_frame_def)
  then show False
    using rudp_error_freed(2) [of s3 "pcb_callback_arg p1" fd env user ERR_ABRT False] ev fr assms(1,3) by (simp add: conn_frame_def TCP_EVENT_ERR_def)
qed

text \<open>
  C21: Aborting a connection is undefined with this layer. There are two places where the stack aborts one: \<open>tcp_abandon\<close>, where the program
  asks for it or its memory is needed for a new connection (\<open>tcp_kill_prio\<close> and the like), and the slow timer, which removes a connection that
  its checks have given up. Both free the control block and then call the error
  callback, \<open>rudp_error\<close>, which writes to the freed block through \<open>fd->pcb\<close>: the last part of the statement is that call, which has no
  result in any state in which the socket is still there and its block was freed. (A reset from the peer is not an abort in this sense:
  there \<open>tcp_input\<close> calls the error callback before it frees the block.)
\<close>

theorem rudp_abort_use_after_free:
  assumes "lw_pcbs s a = Some p" and "pcb_state p \<noteq> TIME_WAIT" and "pcb_errf p = Some RUDP_ERROR"
    and "lw_fds s (pcb_callback_arg p) = Some fd" and "fd_pcb fd = a"
  shows "tcp_abandon env (rudp_app env user) a reset s = None \<and>
    (\<forall>prev rest r p1 s1. pcb_last_timer p \<noteq> lw_timer_ctr s \<longrightarrow>
       slowtmr_check env (p\<lparr>pcb_last_timer := lw_timer_ctr s\<rparr>) s = Some ((True, r), p1, s1) \<longrightarrow>
       slowtmr_active env (rudp_app env user) prev (a # rest) s = None) \<and>
    (\<forall>s1 e. lw_fds s1 = lw_fds s \<longrightarrow> app_err (rudp_app env user) RUDP_ERROR (pcb_callback_arg p) e (pcb_free a s1) = None)"
proof (intro conjI allI impI)
  show "tcp_abandon env (rudp_app env user) a reset s = None" by (rule tcp_abandon_freed [OF assms])
next
  fix s1 :: lw and e assume "lw_fds s1 = lw_fds s"
  then show "app_err (rudp_app env user) RUDP_ERROR (pcb_callback_arg p) e (pcb_free a s1) = None"
    using rudp_error_freed(1) [of s1 "pcb_callback_arg p" fd] assms(4,5) by simp
next
  fix prev rest r p1 s1
  assume fresh: "pcb_last_timer p \<noteq> lw_timer_ctr s"
    and ck: "slowtmr_check env (p\<lparr>pcb_last_timer := lw_timer_ctr s\<rparr>) s = Some ((True, r), p1, s1)"
  have fr: "pcb_errf p1 = pcb_errf p" "pcb_callback_arg p1 = pcb_callback_arg p" "lw_fds s1 = lw_fds s"
    using slowtmr_check_frame [OF ck] sys_frame_fds by (auto simp: conn_frame_def)
  have "slowtmr_remove env (rudp_app env user) prev r a p1 s1 = None"
    by (rule slowtmr_remove_freed) (use fr assms(3-5) in simp_all)
  then show "slowtmr_active env (rudp_app env user) prev (a # rest) s = None"
    by (subst slowtmr_active.simps) (simp add: assms(1) fresh ck)
qed

text \<open>
  The abort of a connection, and the removal of one that has sent twelve times without an answer. With another
  application the same timer tick succeeds.
\<close>

definition ex_dead_pcb :: tcp_pcb where
  "ex_dead_pcb = ex_pcb\<lparr>pcb_callback_arg := 1000, pcb_errf := Some RUDP_ERROR, pcb_unacked := [], pcb_unsent := [],
     pcb_snd_queuelen := 0, pcb_nrtx := TCP_MAXRTX\<rparr>"

definition ex_rudp_dead :: lw where
  "ex_rudp_dead = (ex_rudp ESTABLISHED)\<lparr>lw_pcbs := [50 \<mapsto> ex_dead_pcb], lw_timer_ctr := 1\<rparr>"

lemma ex_rudp_dead_simps:
  "lw_pcbs ex_rudp_dead = [50 \<mapsto> ex_dead_pcb]" "lw_fds ex_rudp_dead 1000 = Some ex_fd" "lw_timer_ctr ex_rudp_dead = 1"
  "lw_lists ex_rudp_dead L_ACTIVE = [50]" "sy_ticks ex_rudp_dead = 10"
  "pcb_state ex_dead_pcb = ESTABLISHED" "pcb_errf ex_dead_pcb = Some RUDP_ERROR" "pcb_callback_arg ex_dead_pcb = 1000" "pcb_last_timer ex_dead_pcb = 0"
  by (simp_all add: ex_rudp_dead_def ex_rudp_def ex_free_def ex_lw_def ex_defs ex_fd_def ex_dead_pcb_def)

lemma ex_rudp_dead_check:
  "slowtmr_check ex_env (ex_dead_pcb\<lparr>pcb_last_timer := 1\<rparr>) ex_rudp_dead = Some ((True, False), ex_dead_pcb\<lparr>pcb_last_timer := 1\<rparr>, ex_rudp_dead)"
  by (simp add: ex_rudp_dead_simps slowtmr_check_def slowtmr_keepalive_def slowtmr_ooseq_def idle_ticks_def)
    (simp add: ex_dead_pcb_def ex_defs idle_ticks_def ex_rudp_dead_simps)

theorem rudp_abort_use_after_free_witness:
  "tcp_abort ex_env (rudp_app ex_env (echo_server ex_env)) 50 (ex_rudp ESTABLISHED) = None \<and>
   slowtmr_active ex_env (rudp_app ex_env (echo_server ex_env)) None (lw_lists ex_rudp_dead L_ACTIVE) ex_rudp_dead = None \<and>
   slowtmr_active ex_env ex_app None (lw_lists ex_rudp_dead L_ACTIVE) ex_rudp_dead \<noteq> None"
proof (intro conjI)
  show "tcp_abort ex_env (rudp_app ex_env (echo_server ex_env)) 50 (ex_rudp ESTABLISHED) = None"
    using rudp_abort_use_after_free [OF ex_rudp_simps(4), of ESTABLISHED ex_fd ex_env "echo_server ex_env" True] ex_rudp_simps(1,3)
    by (simp add: tcp_abort_def)
  show "slowtmr_active ex_env (rudp_app ex_env (echo_server ex_env)) None (lw_lists ex_rudp_dead L_ACTIVE) ex_rudp_dead = None"
  proof -
    have ck: "slowtmr_check ex_env (ex_dead_pcb\<lparr>pcb_last_timer := lw_timer_ctr ex_rudp_dead\<rparr>) ex_rudp_dead =
        Some ((True, False), ex_dead_pcb\<lparr>pcb_last_timer := 1\<rparr>, ex_rudp_dead)" 
      and fresh: "pcb_last_timer ex_dead_pcb \<noteq> lw_timer_ctr ex_rudp_dead"
      using ex_rudp_dead_check by (simp_all add: ex_rudp_dead_simps)
    show ?thesis unfolding ex_rudp_dead_simps(4)
      by (rule rudp_abort_use_after_free [where fd = ex_fd, THEN conjunct2, THEN conjunct1, rule_format, OF _ _ _ _ _ fresh ck])
        (simp_all add: ex_rudp_dead_simps ex_fd_def)
  qed
  show "slowtmr_active ex_env ex_app None (lw_lists ex_rudp_dead L_ACTIVE) ex_rudp_dead \<noteq> None"
    by (subst slowtmr_active.simps)
      (simp add: ex_rudp_dead_simps ex_rudp_dead_check slowtmr_remove_def active_unlink_def, simp add: ex_dead_pcb_def ex_defs ex_app_def
        tcp_pcb_purge_def TCP_EVENT_ERR_def slowtmr_active.simps ex_rudp_dead_simps)
qed

section \<open>Data\<close>

lemma recv_copy_bytes: "chain_ok ps \<Longrightarrow> n + chain_len ps \<le> RUDP_BUFSIZE \<Longrightarrow> recv_copy n ps = Some (chain_bytes ps)"
proof (induction ps arbitrary: n)
  case (Cons p ps)
  have "pb_read p 0 (unat (pb_len p)) = Some (pb_bytes p)"
    using pb_read_bytes [of p 0 "unat (pb_len p)"] Cons.prems(1) by (simp add: pb_bytes_length)
  moreover have "recv_copy (n + unat (pb_len p)) ps = Some (chain_bytes ps)" using Cons by simp
  ultimately show ?case using Cons.prems(2) by simp
qed simp

text \<open>
  C22: \<open>on_recv\<close> hands the program above exactly the bytes of the chain and reopens the receive window by their number; the end of the
  stream is passed on as \<open>NULL\<close>. The program only gets the bytes, and the layer returns \<open>ERR_OK\<close>, with which it has taken
  over the chain, without freeing it: no buffer that has carried data is ever returned.
\<close>

theorem on_recv_delivers:
  assumes "arg \<noteq> 0" and "lw_fds s arg = Some fd" and "fd_recv_cb fd = Some cb" and "chain_ok (q # qs)"
  shows "on_recv env user arg a (q # qs) ERR_OK s = do {
       (_, s1) \<leftarrow> at_pcb a (tcp_recved env (pb_tot_len q)) s;
       s2 \<leftarrow> ru_recv user cb arg (Some (chain_bytes (q # qs))) ERR_OK s1;
       Some (ERR_OK, s2)
     } \<and>
    on_recv env user arg a [] ERR_OK s = do {
       s2 \<leftarrow> ru_recv user cb arg None ERR_OK s;
       Some (ERR_OK, s2)
     }"
proof -
  have "recv_copy 0 (q # qs) = Some (chain_bytes (q # qs))"
    using recv_copy_bytes [OF assms(4), of 0] chain_len_bound [OF assms(4)] by simp
  moreover have "of_nat (length (chain_bytes (q # qs))) = pb_tot_len q"
    using chain_ok_length [OF assms(4)] chain_ok_tot [OF assms(4)] by (metis list.discI list.sel(1) of_nat_unat ucast_id)
  ultimately show ?thesis using assms(1-3) by (simp add: on_recv_def del: recv_copy.simps chain_simps)
qed

text \<open>A program that ignores its data: the two buffers keep the reference the stack has passed on.\<close>

definition ex_sink :: rudp_user where
  "ex_sink = \<lparr>ru_recv = (\<lambda>f arg bs err s. Some s), ru_accept = (\<lambda>f arg err s. Some (ERR_OK, s)),
     ru_connected = (\<lambda>f arg err s. Some (ERR_OK, s))\<rparr>"

theorem on_recv_delivers_witness:
  "\<exists>s' :: lw. on_recv ex_env ex_sink 1000 50 ex_chain ERR_OK (ex_rudp ESTABLISHED) = Some (ERR_OK, s') \<and> map (sy_ref s' \<circ> pb_addr) ex_chain = [1, 1]"
proof -
  have "\<exists>u s1. at_pcb 50 (tcp_recved ex_env 5) (ex_rudp ESTABLISHED) = Some (u, s1) \<and> sy_ref s1 = (\<lambda>_. 1)"
    by (simp add: at_pcb_def ex_rudp_simps tcp_recved_def tcp_update_rcv_ann_wnd_def pcb_put_def Let_def TCP_SEQ_GT_def TCP_SEQ_GEQ_def
        ex_rudp_def ex_free_def ex_lw_def ex_defs)
  then show ?thesis
    using on_recv_delivers [of 1000 "ex_rudp ESTABLISHED" ex_fd 1 "ex_buf 1 [1, 2, 3] 5" "[ex_buf 2 [4, 5] 2]" ex_env ex_sink 50]
    by (auto simp: ex_rudp_simps ex_fd_def ex_sink_def ex_chain_def ex_buf_def pb_ok_def)
qed

end
