(* ===== verification/Rudp_Wire.thy ===== *)
theory Rudp_Wire
  imports Rudp_Close
begin

text \<open>
  Segments as datagrams: what \<open>ip_output_if\<close> sends of a segment, and what \<open>rudp_update\<close> makes of a datagram before it
  gives it to \<open>tcp_input\<close>.
\<close>

section \<open>The chain of a datagram\<close>

text \<open>The buffers behind the first one: the start of each is at the start of its memory.\<close>

fun pool_tail :: "nat \<Rightarrow> pbuf list \<Rightarrow> bool" where
  "pool_tail r [] \<longleftrightarrow> r = 0"
| "pool_tail r (p # ps) \<longleftrightarrow> 0 < r \<and> length (pb_mem p) = PBUF_POOL_BUFSIZE \<and> pb_off p = 0 \<and>
     unat (pb_len p) = min r PBUF_POOL_BUFSIZE \<and> pool_tail (r - min r PBUF_POOL_BUFSIZE) ps"

lemma alloc_tail_layout:
  assumes "pbuf_alloc_tail env ps rem s = Some (r, s')" and "r \<noteq> []" and "rem < 0xffff"
  shows "\<exists>qs. r = ps @ qs \<and> pool_tail (nat rem) qs"
  using assms
proof (induction "nat rem" arbitrary: ps rem s rule: less_induct)
  case less
  show ?case
  proof (cases "rem > 0")
    case False
    then show ?thesis using less.prems(1) by (subst (asm) pbuf_alloc_tail.simps) simp
  next
    case pos: True
    obtain ao s1 where m: "memp_malloc MEMP_PBUF_POOL s = (ao, s1)" by fastforce
    obtain a where a: "ao = Some a"
      using less.prems(1,2) pos m by (subst (asm) pbuf_alloc_tail.simps) (auto simp: bind_Some_iff split: option.split_asm)
    let ?len = "min (of_int rem) (556 :: u16)"
    obtain q s2 where new: "pbuf_pool_new env a 0 (of_int rem) ?len s1 = (q, s2)" by fastforce
    have len: "uint ?len = min rem 556" "unat ?len = min (nat rem) 556"
      using pool_chunk [OF pos less.prems(3)] by (auto simp: unat_eq_nat_uint min_def)
    have "pbuf_alloc_tail env (ps @ [q]) (rem - uint ?len) s2 = Some (r, s')"
      using less.prems(1,3) pos m a new by (subst (asm) pbuf_alloc_tail.simps) (simp add: Let_def)
    then have "\<exists>qs. r = (ps @ [q]) @ qs \<and> pool_tail (nat (rem - uint ?len)) qs"
      by (rule less.hyps [rotated]) (use len less.prems pos in auto)
    moreover have "length (pb_mem q) = 556" "pb_off q = 0" "pb_len q = ?len"
      using new by (auto simp: pbuf_pool_new_def Let_def)
    moreover have "nat (rem - uint ?len) = nat rem - min (nat rem) 556" using len pos by linarith
    ultimately show ?thesis using len pos by auto
  qed
qed

text \<open>The room for a transport header stays free in the first buffer: it has 536 bytes.\<close>

lemma alloc_pool_layout:
  assumes e: "pbuf_alloc_pool env off len s = Some (p # ps, s')" and "off \<le> 20"
  shows "length (pb_mem p) = PBUF_POOL_BUFSIZE \<and> pb_off p = int off \<and> unat (pb_len p) = min (unat len) (PBUF_POOL_BUFSIZE - off) \<and>
    pool_tail (unat len - min (unat len) (PBUF_POOL_BUFSIZE - off)) ps"
proof -
  obtain ao s1 where m: "memp_malloc MEMP_PBUF_POOL s = (ao, s1)" by fastforce
  obtain a where a: "ao = Some a" using e m by (cases ao) (auto simp: pbuf_alloc_pool_def)
  define plen where "plen = (if unat len \<le> PBUF_POOL_BUFSIZE - off then len else of_nat (PBUF_POOL_BUFSIZE - off))"
  obtain q s2 where new: "pbuf_pool_new env a off len plen s1 = (q, s2)" by fastforce
  have "take_bit 16 (556 - off) = 556 - off" by (rule take_bit_nat_eq_self) simp
  then have plen: "unat plen = min (unat len) (PBUF_POOL_BUFSIZE - off)" by (simp add: plen_def unat_of_nat)
  have t: "pbuf_alloc_tail env [q] (uint len - uint plen) s2 = Some (p # ps, s')"
    using e m a new plen assms(2) by (simp add: pbuf_alloc_pool_def plen_def [symmetric] bind_Some_iff)
  have d: "uint len - uint plen = int (unat len) - int (unat plen)" by simp
  have rem: "nat (uint len - uint plen) = unat len - unat plen" "uint len - uint plen < 0xffff"
    using plen u16_bound [of len] assms(2) unfolding d by (auto simp del: of_nat_unat)
  obtain qs where "p # ps = [q] @ qs" "pool_tail (nat (uint len - uint plen)) qs"
    using alloc_tail_layout [OF t _ rem(2)] by blast
  then show ?thesis using new plen rem(1) by (auto simp: pbuf_pool_new_def Let_def)
qed

lemma alloc_transport:
  assumes "pbuf_alloc env PBUF_TRANSPORT len PBUF_POOL s = Some (p # ps, s')"
  shows "length (pb_mem p) = PBUF_POOL_BUFSIZE \<and> pb_off p = 20 \<and> unat (pb_len p) = min (unat len) 536 \<and>
    pool_tail (unat len - min (unat len) 536) ps"
  using alloc_pool_layout [of env 20 len s p ps s'] assms by (simp add: pbuf_alloc_def)

section \<open>The copy\<close>

text \<open>One step: \<open>n\<close> bytes are written whatever the length of the buffer is.\<close>

lemma copy_step:
  assumes "pb_ok p" and "nat (pb_off p) + length bs \<le> length (pb_mem p)"
  obtains p' where "pb_write p 0 bs = Some p'" and "same_shape p p'"
    and "\<And>i. i < unat (pb_len p) \<Longrightarrow> pb_bytes p' ! i = (if i < length bs then bs ! i else pb_bytes p ! i)"
proof -
  define p' where "p' = p\<lparr>pb_mem := splice_at (nat (pb_off p)) bs (pb_mem p)\<rparr>"
  have "pb_write p 0 bs = Some p'"
    using assms by (auto simp: pb_write_def pb_ok_def p'_def splice_at_def)
  moreover have "same_shape p p'" using assms(2) by (simp add: same_shape_def p'_def)
  moreover have "pb_bytes p' ! i = (if i < length bs then bs ! i else pb_bytes p ! i)" if "i < unat (pb_len p)" for i
    using that assms by (auto simp: pb_bytes_def p'_def splice_at_def pb_ok_def nth_append min_def)
  ultimately show ?thesis by (rule that)
qed

lemma update_copy_tail:
  assumes "pool_tail r ps" and "n \<le> PBUF_POOL_BUFSIZE" and "k + r + n \<le> length buf" and "\<forall>p \<in> set ps. pb_ok p"
  shows "\<exists>ps'. update_copy buf n k ps = Some ps' \<and> list_all2 same_shape ps ps' \<and> length (chain_bytes ps') = r \<and>
    (\<forall>i < r. chain_bytes ps' ! i = (if i mod PBUF_POOL_BUFSIZE < n then buf ! (k + i) else chain_bytes ps ! i))"
  using assms
proof (induction ps arbitrary: r k)
  case (Cons p ps)
  let ?l = "min r 556"
  have ok: "pb_ok p" and l: "unat (pb_len p) = ?l" and t: "pool_tail (r - ?l) ps" using Cons.prems(1,4) by simp_all
  let ?bs = "take n (drop k buf)"
  have bs: "buf_read buf k n = Some ?bs" "length ?bs = n" using Cons.prems(3) by (simp_all add: buf_read_def)
  obtain p' where p': "pb_write p 0 ?bs = Some p'" "same_shape p p'"
    "\<And>i. i < unat (pb_len p) \<Longrightarrow> pb_bytes p' ! i = (if i < length ?bs then ?bs ! i else pb_bytes p ! i)"
    by (rule copy_step [OF ok, of ?bs]) (use Cons.prems(1,2) bs in auto)
  obtain ps' where ps': "update_copy buf n (k + ?l) ps = Some ps'" "list_all2 same_shape ps ps'" "length (chain_bytes ps') = r - ?l"
    "\<forall>i < r - ?l. chain_bytes ps' ! i = (if i mod PBUF_POOL_BUFSIZE < n then buf ! (k + ?l + i) else chain_bytes ps ! i)"
    using Cons.IH [OF t Cons.prems(2), of "k + ?l"] Cons.prems(3,4) by auto
  have lp: "length (pb_bytes p') = ?l" "length (pb_bytes p) = ?l" using ok l same_shape_ok [OF p'(2)] p'(2) by (simp_all add: same_shape_def)
  have "chain_bytes (p' # ps') ! i = (if i mod PBUF_POOL_BUFSIZE < n then buf ! (k + i) else chain_bytes (p # ps) ! i)" if "i < r" for i
  proof (cases "i < ?l")
    case True
    then show ?thesis using p'(3) lp bs l Cons.prems(3) that by (simp add: nth_append)
  next
    case False
    then have "?l = 556" "(i - 556) mod 556 = i mod 556" using that by (auto simp: le_mod_geq)
    then show ?thesis using False ps'(4) lp that by (simp add: nth_append)
  qed
  then show ?case using bs p'(1,2) ps'(1-3) l lp by simp
qed simp

lemma update_copy_chain:
  assumes "pbuf_alloc env PBUF_TRANSPORT (of_nat (length bs)) PBUF_POOL s = Some (ps, s')" and "ps \<noteq> []"
    and "distinct (memp_tab s MEMP_PBUF_POOL)" and "length buf = RUDP_BUFSIZE" and "length bs + 536 \<le> RUDP_BUFSIZE"
  shows "\<exists>ps'. update_copy (bs @ drop (length bs) buf) (unat (pb_len (hd ps))) 0 ps = Some ps' \<and>
    list_all2 same_shape ps ps' \<and> chain_ok ps' \<and> length (chain_bytes ps') = length bs \<and>
    (\<forall>i < length bs. chain_bytes ps' ! i =
       (if i < 536 \<or> (i - 536) mod PBUF_POOL_BUFSIZE < 536 then bs ! i else chain_bytes ps ! i))"
proof -
  obtain p qs where ps: "ps = p # qs" using assms(2) by (cases ps) auto
  let ?n = "length bs" and ?buf = "bs @ drop (length bs) buf" and ?l = "min (length bs) 536"
  have u: "unat (of_nat ?n :: u16) = ?n" using assms(5) by (simp add: unat_of_nat)
  have lay: "length (pb_mem p) = 556" "pb_off p = 20" "unat (pb_len p) = ?l" "pool_tail (?n - ?l) qs"
    using alloc_transport [OF assms(1) [unfolded ps]] unfolding u by simp_all
  have "chain_ok ps"
    using alloc_pool_spec [OF assms(3), of 20 env "of_nat ?n"] assms(1,2) pool_chain_done [of ps s'] by (auto simp: pbuf_alloc_def)
  note ok = this [unfolded ps]
  have lb: "length ?buf = RUDP_BUFSIZE" using assms(4,5) by simp
  let ?bs = "take ?l ?buf"
  have bs: "buf_read ?buf 0 ?l = Some ?bs" "length ?bs = ?l" using lb by (auto simp: buf_read_def)
  obtain p' where p': "pb_write p 0 ?bs = Some p'" "same_shape p p'"
    "\<And>i. i < unat (pb_len p) \<Longrightarrow> pb_bytes p' ! i = (if i < length ?bs then ?bs ! i else pb_bytes p ! i)"
    by (rule copy_step [of p ?bs]) (use ok lay bs in auto)
  have room: "?l + (?n - ?l) + ?l \<le> length ?buf" using lb assms(5) by simp
  have le: "?l \<le> PBUF_POOL_BUFSIZE" and oks: "\<forall>p \<in> set qs. pb_ok p" using chain_ok_all [of qs] ok by simp_all
  obtain qs' where qs': "update_copy ?buf ?l ?l qs = Some qs'" "list_all2 same_shape qs qs'" "length (chain_bytes qs') = ?n - ?l"
    "\<forall>i < ?n - ?l. chain_bytes qs' ! i = (if i mod PBUF_POOL_BUFSIZE < ?l then ?buf ! (?l + i) else chain_bytes qs ! i)"
    using update_copy_tail [OF lay(4) le room oks] by blast
  have sh: "list_all2 same_shape ps (p' # qs')" using p'(2) qs'(2) ps by simp
  have lp: "length (pb_bytes p') = ?l" "length (pb_bytes p) = ?l"
    using ok lay(3) same_shape_ok [OF p'(2)] p'(2) by (simp_all add: same_shape_def)
  have nth: "chain_bytes (p' # qs') ! i = (if i < 536 \<or> (i - 536) mod PBUF_POOL_BUFSIZE < 536 then bs ! i else chain_bytes ps ! i)"
    if "i < ?n" for i
  proof (cases "i < ?l")
    case True
    then show ?thesis using p'(3) [of i] lp bs lay(3) that by (simp add: nth_append)
  next
    case False
    then have "?l = 536" "536 \<le> i" using that by auto
    then show ?thesis using qs'(4) lp that by (simp add: nth_append ps)
  qed
  show ?thesis
    using bs p'(1) qs'(1,3) lay(3) lp nth sh same_shapes_ok [OF sh] ok ps by (intro exI [of _ "p' # qs'"]) simp
qed

text \<open>
  C19: The copy of a datagram into pool buffers. Every datagram of at most 1072 bytes, and so every segment of this stack,
  arrives unchanged in a well-formed chain. But the loop copies as many bytes into each buffer as the first one has, 536,
  and the others have 556: in longer datagrams the last 20 bytes of each later full buffer are what the memory of the buffer
  held before, not what was received.
\<close>

theorem update_copy_exact:
  assumes "pbuf_alloc env PBUF_TRANSPORT (of_nat (length bs)) PBUF_POOL s = Some (ps, s')" and "ps \<noteq> []"
    and "distinct (memp_tab s MEMP_PBUF_POOL)" and "length buf = RUDP_BUFSIZE" and "length bs + 536 \<le> RUDP_BUFSIZE"
  shows "\<exists>ps'. update_copy (bs @ drop (length bs) buf) (unat (pb_len (hd ps))) 0 ps = Some ps' \<and> chain_ok ps' \<and>
    length (chain_bytes ps') = length bs \<and> (length bs \<le> 1072 \<longrightarrow> chain_bytes ps' = bs) \<and>
    (\<forall>i < length bs. chain_bytes ps' ! i =
       (if i < 536 \<or> (i - 536) mod PBUF_POOL_BUFSIZE < 536 then bs ! i else chain_bytes ps ! i))"
proof -
  obtain ps' where ps': "update_copy (bs @ drop (length bs) buf) (unat (pb_len (hd ps))) 0 ps = Some ps'" "chain_ok ps'"
    "length (chain_bytes ps') = length bs" "\<forall>i < length bs. chain_bytes ps' ! i =
       (if i < 536 \<or> (i - 536) mod PBUF_POOL_BUFSIZE < 536 then bs ! i else chain_bytes ps ! i)"
    using update_copy_chain [OF assms] by blast
  moreover have "chain_bytes ps' = bs" if "length bs \<le> 1072"
    using ps'(3,4) that by (intro nth_equalityI) auto
  ultimately show ?thesis by blast
qed


section \<open>From one host to the other\<close>

text \<open>
  C3: A segment from \<open>tcp_output_segment\<close> of one host to \<open>tcp_input\<close> of the other. What goes to \<open>sendto\<close> is the
  first buffer of the segment: header, options, and as much of the data as that buffer holds; the data in later buffers is never sent. A
  segment in one buffer of at most 1072 bytes, copied into the pool of the receiver, is parsed as the same header, with the
  acknowledgment and the window of the time of sending, and the same data.
\<close>

theorem datagram_roundtrip:
  assumes "seg_ok seg" and "sg_p seg = p # q" and "20 + seg_optlen seg \<le> unat (pb_len p)" and "sg_hdroff seg = pb_off p"
    and "TCPH_HDRLEN (sg_hdr seg) = 5 + LWIP_TCP_OPT_LENGTH (sg_flags seg) div 4"
  shows "\<exists>err seg' pcb' s' bs. tcp_output_segment env seg pcb s = Some (err, seg', pcb', s') \<and>
    sy_sent s' = (sg_p seg', pcb_remote_ip pcb, pcb_remote_udp_port pcb) # sy_sent s \<and>
    sendto_payload (sg_p seg') = Some bs \<and> bs = take (unat (pb_len p)) (seg_header_bytes seg' @ seg_data seg) \<and>
    (q = [] \<and> length bs \<le> 1072 \<longrightarrow>
      (\<forall>env2 ps (s1 :: lw) s2 buf. pbuf_alloc env2 PBUF_TRANSPORT (of_nat (length bs)) PBUF_POOL s1 = Some (ps, s2) \<and> ps \<noteq> [] \<and>
          distinct (memp_tab s1 MEMP_PBUF_POOL) \<and> length buf = RUDP_BUFSIZE \<longrightarrow>
        (\<exists>ps' t. update_copy (bs @ drop (length bs) buf) (unat (pb_len (hd ps))) 0 ps = Some ps' \<and>
          input_header ps' = Some (Inr t) \<and>
          ti_hdr t = (sg_hdr seg)\<lparr>th_ackno := pcb_rcv_nxt pcb, th_wnd := pcb_rcv_ann_wnd pcb\<rparr> \<and>
          ti_seqno t = seg_seqno seg \<and> ti_ackno t = pcb_rcv_nxt pcb \<and> chain_bytes (ti_p t) = seg_data seg)))"
proof -
  obtain err seg' pcb' s' p' where o: "tcp_output_segment env seg pcb s = Some (err, seg', pcb', s')"
    "sy_sent s' = (sg_p seg', pcb_remote_ip pcb, pcb_remote_udp_port pcb) # sy_sent s"
    and p': "sg_p seg' = p' # q" "pb_len p' = pb_len p" "chain_ok (sg_p seg')"
    and b: "chain_bytes (sg_p seg') = seg_header_bytes seg' @ seg_data seg"
    and raw: "\<forall>r rs. chain_ok (r # rs) \<and> chain_bytes (r # rs) = chain_bytes (sg_p seg') \<and> 20 \<le> unat (pb_len r) \<and>
        20 + seg_optlen seg \<le> unat (pb_len r) + (case rs of [] \<Rightarrow> 0 | r1 # _ \<Rightarrow> unat (pb_len r1)) \<longrightarrow>
      (\<exists>t. input_header (r # rs) = Some (Inr t) \<and>
        ti_hdr t = (sg_hdr seg)\<lparr>th_ackno := pcb_rcv_nxt pcb, th_wnd := pcb_rcv_ann_wnd pcb\<rparr> \<and>
        ti_seqno t = seg_seqno seg \<and> ti_ackno t = pcb_rcv_nxt pcb \<and> chain_ok (ti_p t) \<and> chain_bytes (ti_p t) = seg_data seg \<and>
        ti_tcplen t = ucast (TCP_TCPLEN seg) \<and>
        (\<forall>peer. tcp_parseopt t peer = Some (if sg_flags seg AND TF_SEG_OPTS_MSS \<noteq> 0 then peer\<lparr>pcb_mss := TCP_MSS\<rparr> else peer)))"
    using segment_wire_spec [OF assms, of env pcb s] by (elim exE conjE) (rule that)
  have wire: "\<exists>t. input_header (r # rs) = Some (Inr t) \<and> ti_hdr t = (sg_hdr seg)\<lparr>th_ackno := pcb_rcv_nxt pcb, th_wnd := pcb_rcv_ann_wnd pcb\<rparr> \<and>
        ti_seqno t = seg_seqno seg \<and> ti_ackno t = pcb_rcv_nxt pcb \<and> chain_bytes (ti_p t) = seg_data seg"
    if "chain_ok (r # rs)" "chain_bytes (r # rs) = chain_bytes (sg_p seg')" "20 + seg_optlen seg \<le> unat (pb_len r)" for r rs
  proof -
    have "20 \<le> unat (pb_len r)" "20 + seg_optlen seg \<le> unat (pb_len r) + (case rs of [] \<Rightarrow> 0 | r1 # _ \<Rightarrow> unat (pb_len r1))"
      using that(3) by simp_all
    with that(1,2) raw show ?thesis by blast
  qed
  have ok: "pb_ok p'" using p' by simp
  have lb: "length (pb_bytes p') = unat (pb_len p)" using ok p'(2) by simp
  have "sendto_payload (sg_p seg') = Some (pb_bytes p')"
    using pb_read_bytes [OF ok, of 0 "unat (pb_len p')"] ok p'(1) by (simp add: sendto_payload_def)
  moreover have "pb_bytes p' = take (unat (pb_len p)) (seg_header_bytes seg' @ seg_data seg)"
    using lb unfolding b [symmetric] by (simp add: p'(1))
  moreover have "\<exists>ps' t. update_copy (pb_bytes p' @ drop (length (pb_bytes p')) buf) (unat (pb_len (hd ps))) 0 ps = Some ps' \<and>
      input_header ps' = Some (Inr t) \<and> ti_hdr t = (sg_hdr seg)\<lparr>th_ackno := pcb_rcv_nxt pcb, th_wnd := pcb_rcv_ann_wnd pcb\<rparr> \<and>
      ti_seqno t = seg_seqno seg \<and> ti_ackno t = pcb_rcv_nxt pcb \<and> chain_bytes (ti_p t) = seg_data seg"
    if q: "q = []" and short: "length (pb_bytes p') \<le> 1072"
      and a: "pbuf_alloc env2 PBUF_TRANSPORT (of_nat (length (pb_bytes p'))) PBUF_POOL s1 = Some (ps, s2)" "ps \<noteq> []"
        "distinct (memp_tab (s1 :: lw) MEMP_PBUF_POOL)" "length buf = RUDP_BUFSIZE" for env2 ps s1 s2 and buf :: "u8 list"
  proof -
    have "length (pb_bytes p') + 536 \<le> RUDP_BUFSIZE" using short by simp
    then obtain ps' where ps': "update_copy (pb_bytes p' @ drop (length (pb_bytes p')) buf) (unat (pb_len (hd ps))) 0 ps = Some ps'"
      "list_all2 same_shape ps ps'" "chain_ok ps'" "length (chain_bytes ps') = length (pb_bytes p')"
      "\<forall>i < length (pb_bytes p'). chain_bytes ps' ! i =
       (if i < 536 \<or> (i - 536) mod PBUF_POOL_BUFSIZE < 536 then pb_bytes p' ! i else chain_bytes ps ! i)"
      using update_copy_chain [OF a] by blast
    have "chain_bytes ps' = pb_bytes p'" using ps'(4,5) short by (intro nth_equalityI) auto
    then have same: "chain_bytes ps' = chain_bytes (sg_p seg')" using p'(1) q by simp
    obtain h hs where h: "ps = h # hs" using a(2) by (cases ps) auto
    then obtain r rs where r: "ps' = r # rs" "same_shape h r" using ps'(2) by (auto simp: list_all2_Cons1)
    have "unat (pb_len h) = min (unat (of_nat (length (pb_bytes p')) :: u16)) 536" using alloc_transport [OF a(1) [unfolded h]] by simp
    moreover have "unat (of_nat (length (pb_bytes p')) :: u16) = unat (pb_len p)" unfolding lb by simp
    moreover have "seg_optlen seg \<le> 4" by (simp add: seg_optlen_def LWIP_TCP_OPT_LENGTH_def)
    ultimately have "20 + seg_optlen seg \<le> unat (pb_len r)" using r(2) assms(3) by (simp add: same_shape_def)
    with wire [of r rs] ps'(1,3) r(1) same show ?thesis by auto
  qed
  ultimately show ?thesis using o by (intro exI [of _ err] exI [of _ seg'] exI [of _ pcb'] exI [of _ s'] exI [of _ "pb_bytes p'"]) blast
qed

section \<open>The properties at concrete values\<close>

text \<open>A datagram of 1092 bytes, all one, in two buffers whose memory holds the junk of the environment.\<close>

lemma ex_two_buffers:
  "\<exists>ps s'. pbuf_alloc ex_env PBUF_TRANSPORT 1092 PBUF_POOL ex_mem = Some (ps, s') \<and> ps \<noteq> [] \<and>
     chain_bytes ps ! 1072 = env_junk ex_env 1 536"
  by (simp add: pbuf_alloc_def pbuf_alloc_pool_def memp_malloc_def ex_mem_def pbuf_pool_new_def Let_def memp_stats_upd_def
      pbuf_alloc_tail.simps pbuf_set_ref_def pb_bytes_def fresh_bytes_def nth_append)

theorem update_copy_exact_witness:
  "\<exists>ps s' ps'. pbuf_alloc ex_env PBUF_TRANSPORT 1092 PBUF_POOL ex_mem = Some (ps, s') \<and>
     update_copy (replicate 1092 1 @ drop 1092 (replicate RUDP_BUFSIZE 0)) (unat (pb_len (hd ps))) 0 ps = Some ps' \<and>
     chain_bytes ps' ! 1071 = 1 \<and> chain_bytes ps' ! 1072 = 0"
proof -
  let ?bs = "replicate 1092 (1 :: u8)" and ?buf = "replicate RUDP_BUFSIZE (0 :: u8)"
  obtain ps s' where a: "pbuf_alloc ex_env PBUF_TRANSPORT 1092 PBUF_POOL ex_mem = Some (ps, s')" "ps \<noteq> []" "chain_bytes ps ! 1072 = 0"
    using ex_two_buffers by (auto simp: ex_env_def)
  have l: "length ?bs = 1092" "length ?buf = RUDP_BUFSIZE" "(of_nat 1092 :: u16) = 1092" by (simp_all only: length_replicate) simp
  have d: "distinct (memp_tab ex_mem MEMP_PBUF_POOL)" by (simp add: ex_mem_def)
  obtain ps' where p: "update_copy (?bs @ drop 1092 ?buf) (unat (pb_len (hd ps))) 0 ps = Some ps'"
    and n: "\<forall>i < 1092. chain_bytes ps' ! i = (if i < 536 \<or> (i - 536) mod PBUF_POOL_BUFSIZE < 536 then ?bs ! i else chain_bytes ps ! i)"
    using update_copy_exact [of ex_env ?bs ex_mem ps s' ?buf, unfolded l, OF a(1,2) d] by auto
  show ?thesis
    using a p n [THEN spec, of 1071] n [THEN spec, of 1072] by (intro exI [of _ ps] exI [of _ s'] exI [of _ ps']) (simp only:, simp)
qed

lemma ex_wire_short:
  "case pbuf_alloc ex_env PBUF_TRANSPORT 22 PBUF_POOL ex_lw of None \<Rightarrow> False | Some (ps, s) \<Rightarrow> ps \<noteq> []"
  by (simp add: pbuf_alloc_def pbuf_alloc_pool_def memp_malloc_def ex_lw_def ex_defs pbuf_pool_new_def Let_def memp_stats_upd_def
      pbuf_alloc_tail.simps pbuf_set_ref_def)

theorem datagram_roundtrip_witness:
  "\<exists>err seg' pcb' s' bs ps s2 ps' t. tcp_output_segment ex_env (ex_seg 2 1003 [4, 5]) ex_pcb ex_sys = Some (err, seg', pcb', s') \<and>
     sendto_payload (sg_p seg') = Some bs \<and> length bs = 22 \<and>
     pbuf_alloc ex_env PBUF_TRANSPORT 22 PBUF_POOL ex_lw = Some (ps, s2) \<and>
     update_copy (bs @ drop 22 (replicate RUDP_BUFSIZE 0)) (unat (pb_len (hd ps))) 0 ps = Some ps' \<and>
     input_header ps' = Some (Inr t) \<and> ti_seqno t = 1003 \<and> chain_bytes (ti_p t) = [4, 5]"
proof -
  let ?s = "ex_seg 2 1003 [4, 5]" and ?buf = "replicate RUDP_BUFSIZE (0 :: u8)"
  obtain err seg' pcb' s' bs where o: "tcp_output_segment ex_env ?s ex_pcb ex_sys = Some (err, seg', pcb', s')"
      "sendto_payload (sg_p seg') = Some bs" "bs = take (unat (pb_len (hd (sg_p ?s)))) (seg_header_bytes seg' @ seg_data ?s)"
    and rt: "[] = ([] :: pbuf list) \<and> length bs \<le> 1072 \<longrightarrow> (\<forall>env2 ps (s1 :: lw) s2 buf.
        pbuf_alloc env2 PBUF_TRANSPORT (of_nat (length bs)) PBUF_POOL s1 = Some (ps, s2) \<and> ps \<noteq> [] \<and>
          distinct (memp_tab s1 MEMP_PBUF_POOL) \<and> length buf = RUDP_BUFSIZE \<longrightarrow>
        (\<exists>ps' t. update_copy (bs @ drop (length bs) buf) (unat (pb_len (hd ps))) 0 ps = Some ps' \<and>
          input_header ps' = Some (Inr t) \<and>
          ti_hdr t = (sg_hdr ?s)\<lparr>th_ackno := pcb_rcv_nxt ex_pcb, th_wnd := pcb_rcv_ann_wnd ex_pcb\<rparr> \<and>
          ti_seqno t = seg_seqno ?s \<and> ti_ackno t = pcb_rcv_nxt ex_pcb \<and> chain_bytes (ti_p t) = seg_data ?s))"
    using datagram_roundtrip [OF ex_wire_seg(1-5), of ex_env ex_pcb ex_sys] by (elim exE conjE) (rule that)
  have "length (seg_header_bytes seg') \<ge> 20" "unat (pb_len (hd (sg_p ?s))) = 22" "length (seg_data ?s) = 2"
    using ex_wire_seg(6) by (simp_all add: header_bytes_length ex_seg_def)
  then have l: "length bs = 22" using o(3) by simp
  obtain ps s2 where a: "pbuf_alloc ex_env PBUF_TRANSPORT 22 PBUF_POOL ex_lw = Some (ps, s2)" "ps \<noteq> []"
    using ex_wire_short by (auto split: option.split_asm)
  have "distinct (memp_tab ex_lw MEMP_PBUF_POOL)" "length ?buf = RUDP_BUFSIZE" by (simp_all only: length_replicate) (simp add: ex_lw_def ex_defs)
  then obtain ps' t where r: "update_copy (bs @ drop 22 ?buf) (unat (pb_len (hd ps))) 0 ps = Some ps'"
    "input_header ps' = Some (Inr t)" "ti_seqno t = seg_seqno ?s" "chain_bytes (ti_p t) = seg_data ?s"
    using rt [unfolded l, THEN mp, rule_format, of ex_env ex_lw ps s2 ?buf] a
    by (auto simp del: drop_replicate)
  have "seg_seqno ?s = 1003" by (simp add: ex_seg_def)
  then show ?thesis using o(1,2) l a(1) r ex_wire_seg(6) by (auto simp del: drop_replicate)
qed

end
