(* ===== verification/Sys_Arch.thy ===== *)
theory Sys_Arch
  imports Lwip_Base
begin

text \<open>
  The clock, the waiting times and the recursive lock of the port layer \<^verbatim>\<open>src/sys_arch.c\<close>. The clock itself
  (\<open>gettimeofday\<close>) is a parameter.
\<close>

section \<open>The clock\<close>

text \<open>A \<open>struct timeval\<close>: seconds and microseconds.\<close>

type_synonym timeval = "int \<times> int"

definition timeval_ok :: "timeval \<Rightarrow> bool" where
  "timeval_ok tv \<longleftrightarrow> 0 \<le> snd tv \<and> snd tv < 1000000"

definition sys_now :: "timeval \<Rightarrow> timeval \<Rightarrow> u32" where
  "sys_now starttime tv =
     (let sec = of_int (fst tv - fst starttime) :: u32;
          usec = of_int (snd tv - snd starttime) :: u32
      in sec * 1000 + usec div 1000)"

text \<open>\<open>HZ\<close> is 100 and \<open>MAX_JIFFY_OFFSET\<close> is \<open>(~0U >> 1) - 1\<close>; \<open>sec\<close> is an \<open>unsigned long\<close> of 64 bits.\<close>

abbreviation MAX_JIFFY_OFFSET :: u32 where "MAX_JIFFY_OFFSET \<equiv> 0x7ffffffe"

definition sys_jiffies :: "timeval \<Rightarrow> timeval \<Rightarrow> u32" where
  "sys_jiffies starttime tv =
     (let sec = of_int (fst tv - fst starttime) :: 64 word;
          usec = snd tv
      in if ucast (MAX_JIFFY_OFFSET div 100) \<le> sec then MAX_JIFFY_OFFSET
         else ucast (100 * sec + of_int ((usec + (10000 - 1)) div 10000)))"

text \<open>
  The two computations of \<open>cond_wait\<close>: the time at which to give up, as a \<open>struct timespec\<close>, and for how long the
  thread has waited. C divides towards zero.
\<close>

definition wait_until :: "timeval \<Rightarrow> u32 \<Rightarrow> int \<times> int" where
  "wait_until rtime1 timeout =
     (let usec = snd rtime1 + uint (timeout mod 1000 * 1000);
          sec = fst rtime1 + (uint (timeout div 1000) + usec div 1000000)
      in (sec, usec mod 1000000 * 1000))"

definition c_div :: "int \<Rightarrow> int \<Rightarrow> int" where
  "c_div a b = (if a < 0 then - (- a div b) else a div b)"

definition waited :: "timeval \<Rightarrow> timeval \<Rightarrow> u32" where
  "waited rtime1 rtime2 =
     (let tdiff = (fst rtime2 - fst rtime1) * 1000 + c_div (snd rtime2 - snd rtime1) 1000
      in if tdiff \<le> 0 then 0 else of_int tdiff)"

section \<open>The recursive lock\<close>

text \<open>\<open>lwprot_thread\<close>, \<open>lwprot_count\<close> and whether the mutex is locked; \<open>None\<close> is a thread that has to wait.\<close>

record lwprot =
  lp_thread :: nat
  lp_count :: int
  lp_locked :: bool

definition sys_arch_protect :: "nat \<Rightarrow> lwprot \<Rightarrow> lwprot option" where
  "sys_arch_protect self s =
     (if lp_thread s \<noteq> self
      then if lp_locked s then None else Some (s\<lparr>lp_locked := True, lp_thread := self, lp_count := 1\<rparr>)
      else Some (s\<lparr>lp_count := lp_count s + 1\<rparr>))"

definition sys_arch_unprotect :: "nat \<Rightarrow> lwprot \<Rightarrow> lwprot" where
  "sys_arch_unprotect self s =
     (if lp_thread s = self
      then let s1 = s\<lparr>lp_count := lp_count s - 1\<rparr>
           in if lp_count s1 = 0 then s1\<lparr>lp_thread := 0xDEAD, lp_locked := False\<rparr> else s1
      else s)"

section \<open>Properties\<close>

lemma u32_of_int_div: "(of_int n :: u32) div 1000 = of_int (n mod 4294967296 div 1000)"
  by (simp add: word_div_def uint_word_of_int take_bit_eq_mod)

text \<open>
  What \<open>sys_now\<close> returns. When the microseconds of the clock are not below those of the start time, it is the elapsed
  time in milliseconds modulo \<open>2 ^ 32\<close>. Otherwise the borrow is missing: the difference of the microseconds wraps around as a
  \<open>u32_t\<close> before it is divided, and the result is 4294967 or 4294968 milliseconds (71 minutes) too large. So the clock jumps
  ahead at the beginning of every second and back again within it.
\<close>

theorem sys_now_value:
  assumes "timeval_ok starttime" and "timeval_ok tv"
  shows "let elapsed = ((fst tv - fst starttime) * 1000000 + (snd tv - snd starttime)) div 1000
         in if snd starttime \<le> snd tv then sys_now starttime tv = of_int elapsed
            else sys_now starttime tv \<in> {of_int (elapsed + 4294967), of_int (elapsed + 4294968)}"
proof -
  define ds du where "ds = fst tv - fst starttime" and "du = snd tv - snd starttime"
  have e: "(ds * 1000000 + du) div 1000 = ds * 1000 + du div 1000" by simp
  have b: "- 1000000 < du" "du < 1000000" using assms by (auto simp: timeval_ok_def du_def)
  have now: "sys_now starttime tv = of_int (ds * 1000 + du mod 4294967296 div 1000)"
    by (simp add: sys_now_def Let_def u32_of_int_div ds_def [symmetric] du_def [symmetric])
  show ?thesis
  proof (cases "0 \<le> du")
    case True
    then have "du mod 4294967296 = du" using b by (intro mod_pos_pos_trivial) simp_all
    then show ?thesis using now e True by (simp add: Let_def ds_def du_def)
  next
    case False
    have "(du + 4294967296) mod 4294967296 = du + 4294967296" using b False by (intro mod_pos_pos_trivial) simp_all
    then have "du mod 4294967296 = du + 4294967296" by simp
    moreover have "(du + 4294967296) div 1000 = du div 1000 + 4294967 \<or> (du + 4294967296) div 1000 = du div 1000 + 4294968"
    proof -
      have "(du + 4294967296) div 1000 = (du + 296 + 4294967 * 1000) div 1000" by simp
      also have "\<dots> = (du + 296) div 1000 + 4294967" by (subst div_mult_self1) simp_all
      finally have "(du + 4294967296) div 1000 = (du + 296) div 1000 + 4294967" .
      moreover have "du div 1000 \<le> (du + 296) div 1000" by (rule zdiv_mono1) simp_all
      moreover have "(du + 296) div 1000 \<le> (du + 1 * 1000) div 1000" by (rule zdiv_mono1) simp_all
      moreover have "(du + 1 * 1000) div 1000 = du div 1000 + 1" by (subst div_mult_self1) simp_all
      ultimately show ?thesis by linarith
    qed
    ultimately have "sys_now starttime tv = of_int (ds * 1000 + du div 1000 + 4294967) \<or>
        sys_now starttime tv = of_int (ds * 1000 + du div 1000 + 4294968)"
      unfolding now by (auto simp: algebra_simps)
    moreover have "\<not> snd starttime \<le> snd tv" using False by (simp add: du_def)
    ultimately show ?thesis using e by (auto simp: Let_def ds_def [symmetric] du_def [symmetric])
  qed
qed

text \<open>Started at 0.9 s, the clock reads 4295167 ms at 1.1 s instead of 200 ms, and 1000 ms at 1.9 s.\<close>

theorem sys_now_value_witness:
  "sys_now (0, 900000) (1, 100000) \<in> {4295167, 4295168} \<and> sys_now (0, 900000) (1, 900000) = 1000"
  using sys_now_value [of "(0, 900000)" "(1, 100000)"] sys_now_value [of "(0, 900000)" "(1, 900000)"]
  by (simp add: timeval_ok_def)

text \<open>
  The times a thread waits for. The time at which \<open>cond_wait\<close> gives up is a normal \<open>timespec\<close> (the
  nanoseconds are below one second) that lies exactly \<open>timeout\<close> milliseconds after the time it was computed from.
\<close>

theorem wait_until_exact:
  assumes "timeval_ok rtime1"
  shows "0 \<le> snd (wait_until rtime1 timeout) \<and> snd (wait_until rtime1 timeout) < 1000000000 \<and>
    fst (wait_until rtime1 timeout) * 1000000000 + snd (wait_until rtime1 timeout) =
    (fst rtime1 * 1000000 + snd rtime1) * 1000 + uint timeout * 1000000"
proof -
  define n where "n = uint timeout"
  have n: "0 \<le> n" "n < 4294967296" using uint_bounded [of timeout] by (simp_all add: n_def)
  have m: "uint (timeout mod 1000 * 1000) = n mod 1000 * 1000"
  proof -
    have "n mod 1000 * 1000 < 4294967296" using pos_mod_bound [of 1000 n] by linarith
    then show ?thesis by (simp add: uint_word_ariths uint_mod_distrib n_def [symmetric] take_bit_eq_mod uint_mult_lem)
  qed
  have d: "uint (timeout div 1000) = n div 1000" by (simp add: uint_div_distrib n_def)
  define u where "u = snd rtime1 + n mod 1000 * 1000"
  have w: "wait_until rtime1 timeout = (fst rtime1 + (n div 1000 + u div 1000000), u mod 1000000 * 1000)"
    by (simp add: wait_until_def Let_def m d u_def)
  have u2: "u div 1000000 * 1000000 + u mod 1000000 = u" and n2: "n div 1000 * 1000 + n mod 1000 = n" by simp_all
  have "(fst rtime1 + (n div 1000 + u div 1000000)) * 1000000000 + u mod 1000000 * 1000 =
      fst rtime1 * 1000000000 + n div 1000 * 1000000000 + (u div 1000000 * 1000000 + u mod 1000000) * 1000"
    by (simp only: distrib_right)
  also have "\<dots> = fst rtime1 * 1000000000 + snd rtime1 * 1000 + (n div 1000 * 1000 + n mod 1000) * 1000000"
    unfolding u2 unfolding u_def by (simp only: distrib_right mult.assoc)
  also have "\<dots> = (fst rtime1 * 1000000 + snd rtime1) * 1000 + n * 1000000"
    unfolding n2 by simp
  finally have "(fst rtime1 + (n div 1000 + u div 1000000)) * 1000000000 + u mod 1000000 * 1000 =
      (fst rtime1 * 1000000 + snd rtime1) * 1000 + n * 1000000" .
  moreover have "0 \<le> u mod 1000000" "u mod 1000000 < 1000000" by simp_all
  ultimately show ?thesis unfolding w n_def [symmetric] by simp
qed

theorem wait_until_exact_witness: "wait_until (7, 900000) 1250 = (9, 150000000) \<and> 9 * 1000000000 + 150000000 = (7 * 1000000 + 900000) * 1000 + 1250 * (1000000 :: int)"
  using wait_until_exact [of "(7, 900000)" 1250] by (simp add: timeval_ok_def wait_until_def)

text \<open>\<open>sys_jiffies\<close>, unlike \<open>sys_now\<close>, does not subtract the microseconds of the start time.\<close>

lemma sys_jiffies_eq:
  assumes "0 \<le> fst tv - fst starttime" and "fst tv - fst starttime < 2 ^ 63" and "timeval_ok tv"
  shows "uint (sys_jiffies starttime tv) =
    (let sec = fst tv - fst starttime in if 21474836 \<le> sec then 0x7ffffffe else 100 * sec + (snd tv + 9999) div 10000)"
proof -
  define sec where "sec = fst tv - fst starttime"
  have s: "uint (of_int sec :: 64 word) = sec"
  proof -
    have "0 \<le> sec" "sec < 2 ^ 64" using assms(1,2) by (simp_all add: sec_def)
    then show ?thesis by (simp add: uint_word_of_int take_bit_int_eq_self)
  qed
  have c: "(ucast (MAX_JIFFY_OFFSET div 100) \<le> (of_int sec :: 64 word)) = (21474836 \<le> sec)"
    by (simp add: word_le_def s)
  show ?thesis
  proof (cases "21474836 \<le> sec")
    case True
    then show ?thesis using c by (simp add: sys_jiffies_def Let_def sec_def [symmetric])
  next
    case False
    let ?j = "100 * sec + (snd tv + 9999) div 10000"
    have u: "0 \<le> (snd tv + 9999) div 10000" "(snd tv + 9999) div 10000 \<le> 100" using assms(3) by (auto simp: timeval_ok_def)
    have "0 \<le> sec" using assms(1) by (simp add: sec_def)
    then have j: "0 \<le> ?j" "?j < 2 ^ 32" using False u by simp_all
    have "100 * (of_int sec :: 64 word) + of_int ((snd tv + 9999) div 10000) = of_int ?j" by simp
    moreover have "uint (ucast (of_int ?j :: 64 word) :: u32) = ?j"
      using j by (simp only: uint_word_of_int unsigned_ucast_eq) (simp add: take_bit_int_eq_self)
    ultimately show ?thesis using c False by (simp add: sys_jiffies_def Let_def sec_def [symmetric])
  qed
qed

text \<open>
  \<open>sys_jiffies\<close> never runs backwards: a later time of the clock gives no smaller count, and the count saturates at
  \<open>MAX_JIFFY_OFFSET\<close> instead of wrapping around.
\<close>

theorem sys_jiffies_mono:
  assumes "timeval_ok tv" and "timeval_ok tv'" and "0 \<le> fst tv - fst starttime" and "fst tv' - fst starttime < 2 ^ 63"
    and "fst tv < fst tv' \<or> fst tv = fst tv' \<and> snd tv \<le> snd tv'"
  shows "sys_jiffies starttime tv \<le> sys_jiffies starttime tv' \<and> sys_jiffies starttime tv' \<le> MAX_JIFFY_OFFSET"
proof -
  define s s' where "s = fst tv - fst starttime" and "s' = fst tv' - fst starttime"
  have j: "uint (sys_jiffies starttime tv) = (if 21474836 \<le> s then 0x7ffffffe else 100 * s + (snd tv + 9999) div 10000)"
    "uint (sys_jiffies starttime tv') = (if 21474836 \<le> s' then 0x7ffffffe else 100 * s' + (snd tv' + 9999) div 10000)"
    using sys_jiffies_eq [of tv starttime] sys_jiffies_eq [of tv' starttime] assms by (auto simp: s_def s'_def Let_def)
  have b: "0 \<le> (snd tv + 9999) div 10000" "(snd tv + 9999) div 10000 \<le> 100" "0 \<le> (snd tv' + 9999) div 10000" "(snd tv' + 9999) div 10000 \<le> 100"
    using assms(1,2) by (auto simp: timeval_ok_def)
  have o: "s < s' \<or> s = s' \<and> (snd tv + 9999) div 10000 \<le> (snd tv' + 9999) div 10000"
    using assms(5) by (auto simp: s_def s'_def intro: zdiv_mono1)
  have "uint (sys_jiffies starttime tv) \<le> uint (sys_jiffies starttime tv')" using j b o by (auto split: if_split_asm)
  moreover have "uint (sys_jiffies starttime tv') \<le> 0x7ffffffe" using j b by (auto split: if_split_asm)
  ultimately show ?thesis by (simp add: word_le_def)
qed

theorem sys_jiffies_mono_witness:
  "sys_jiffies (0, 900000) (1, 100000) = 110 \<and> sys_jiffies (0, 900000) (1, 900000) = 190 \<and> (110 :: u32) \<le> 190"
proof -
  have "sys_jiffies (0, 900000) (1, 100000) = 110" "sys_jiffies (0, 900000) (1, 900000) = 190" by code_simp+
  then show ?thesis using sys_jiffies_mono [of "(1, 100000)" "(1, 900000)" "(0, 900000)"] by (simp add: timeval_ok_def)
qed

fun protects :: "nat \<Rightarrow> nat \<Rightarrow> lwprot \<Rightarrow> lwprot option" where
  "protects 0 self s = Some s"
| "protects (Suc n) self s = do { s1 \<leftarrow> protects n self s; sys_arch_protect self s1 }"

text \<open>
  The recursive lock nests. After \<open>n\<close> calls of \<open>sys_arch_protect\<close> by one thread every other thread has to wait, it
  still has to after any smaller number of calls of \<open>sys_arch_unprotect\<close>, and the \<open>n\<close>th call frees the lock.
\<close>

theorem protect_nests:
  assumes "lp_locked s = False" and "lp_thread s = 0xDEAD" and "self \<noteq> 0xDEAD" and "0 < n"
  shows "\<exists>s'. protects n self s = Some s' \<and>
     (\<forall>k < n. \<forall>other. other \<noteq> self \<longrightarrow> sys_arch_protect other ((sys_arch_unprotect self ^^ k) s') = None) \<and>
     (sys_arch_unprotect self ^^ n) s' = s\<lparr>lp_count := 0\<rparr>"
proof -
  let ?st = "\<lambda>c. s\<lparr>lp_thread := self, lp_count := c, lp_locked := True\<rparr>"
  have p: "protects (Suc m) self s = Some (?st (int m + 1))" for m
    using assms(1-3) by (induction m) (simp_all add: sys_arch_protect_def)
  have u: "(sys_arch_unprotect self ^^ k) (?st (int n)) = ?st (int n - int k)" if "k < n" for k
    using that by (induction k) (simp_all add: sys_arch_unprotect_def Let_def)
  obtain m where m: "n = Suc m" using assms(4) by (cases n) auto
  have "(sys_arch_unprotect self ^^ n) (?st (int n)) = sys_arch_unprotect self (?st 1)"
    using u [of m] m by simp
  also have "\<dots> = s\<lparr>lp_count := 0\<rparr>" using assms(1,2) by (simp add: sys_arch_unprotect_def Let_def)
  finally show ?thesis using p [of m] u m by (intro exI [of _ "?st (int n)"]) (simp add: sys_arch_protect_def)
qed

theorem protect_nests_witness:
  "\<exists>s'. protects 2 1 \<lparr>lp_thread = 0xDEAD, lp_count = 0, lp_locked = False\<rparr> = Some s' \<and> sys_arch_protect 2 s' = None \<and>
     sys_arch_protect 2 (sys_arch_unprotect 1 s') = None \<and> \<not> lp_locked (sys_arch_unprotect 1 (sys_arch_unprotect 1 s'))"
proof -
  let ?s = "\<lparr>lp_thread = 0xDEAD, lp_count = 0, lp_locked = False\<rparr>"
  obtain s' where s': "protects 2 1 ?s = Some s'"
    "\<forall>k < 2. \<forall>other. other \<noteq> 1 \<longrightarrow> sys_arch_protect other ((sys_arch_unprotect 1 ^^ k) s') = None"
    "(sys_arch_unprotect 1 ^^ 2) s' = ?s\<lparr>lp_count := 0\<rparr>"
    using protect_nests [of ?s 1 2] by auto
  have "\<not> lp_locked (sys_arch_unprotect 1 (sys_arch_unprotect 1 s'))" using s'(3) by (simp add: numeral_2_eq_2)
  then show ?thesis using s'(1) s'(2) [rule_format, of 0 2] s'(2) [rule_format, of 1 2] by auto
qed

end
