(* ===== verification/Sys_Mbox.thy ===== *)
theory Sys_Mbox
  imports Lwip_Base
begin

text \<open>
  The mailbox of \<^verbatim>\<open>src/sys_arch.c\<close> with its three semaphores, as a system of threads that interleave between
  any two operations on a semaphore. What a thread does between two such operations is one step: it touches only
  fields that the mutex protects. The allocation of the mailbox is left out.
\<close>

section \<open>Semaphores and mailboxes\<close>

text \<open>A semaphore is its counter \<open>c\<close>. A thread passes \<open>sys_arch_sem_wait\<close> when the counter is not 0.\<close>

definition sem_wait :: "u32 \<Rightarrow> u32 option" where
  "sem_wait c = (if c = 0 then None else Some (c - 1))"

definition sys_sem_signal :: "u32 \<Rightarrow> u32" where
  "sys_sem_signal c = (let c1 = c + 1 in if 1 < c1 then 1 else c1)"

abbreviation SYS_MBOX_SIZE :: nat where "SYS_MBOX_SIZE \<equiv> 128"

record 'm sys_mbox =
  mb_first :: int
  mb_last :: int
  mb_msgs :: "'m list"
  mb_not_empty :: u32
  mb_not_full :: u32
  mb_mutex :: u32
  mb_wait_send :: int

text \<open>A new mailbox; the memory of \<open>malloc\<close> holds \<open>junk\<close>.\<close>

definition sys_mbox_new :: "'m list \<Rightarrow> 'm sys_mbox" where
  "sys_mbox_new junk = \<lparr>mb_first = 0, mb_last = 0, mb_msgs = junk, mb_not_empty = 0, mb_not_full = 0, mb_mutex = 1, mb_wait_send = 0\<rparr>"

text \<open>Addition of \<open>int\<close>s: overflow is undefined behaviour, here \<open>None\<close>.\<close>

definition c_int :: "int \<Rightarrow> int option" where
  "c_int n = (if - (2 ^ 31) \<le> n \<and> n < 2 ^ 31 then Some n else None)"

definition mbox_full :: "'m sys_mbox \<Rightarrow> bool option" where
  "mbox_full mb = do {
     l \<leftarrow> c_int (mb_last mb + 1);
     f \<leftarrow> c_int (mb_first mb + int SYS_MBOX_SIZE);
     Some (f \<le> l)
   }"

text \<open>The insertion of a message; the boolean is \<open>first\<close>.\<close>

definition mbox_put :: "'m \<Rightarrow> 'm sys_mbox \<Rightarrow> (bool \<times> 'm sys_mbox) option" where
  "mbox_put msg mb = do {
     lwip_assert (0 \<le> mb_last mb);
     l \<leftarrow> c_int (mb_last mb + 1);
     Some (mb_last mb = mb_first mb,
           mb\<lparr>mb_msgs := (mb_msgs mb)[nat (mb_last mb) mod SYS_MBOX_SIZE := msg], mb_last := l\<rparr>)
   }"

definition mbox_take :: "'m sys_mbox \<Rightarrow> ('m \<times> 'm sys_mbox) option" where
  "mbox_take mb = do {
     lwip_assert (0 \<le> mb_first mb);
     f \<leftarrow> c_int (mb_first mb + 1);
     Some (mb_msgs mb ! (nat (mb_first mb) mod SYS_MBOX_SIZE), mb\<lparr>mb_first := f\<rparr>)
   }"

text \<open>
  Where a thread is in the functions of the mailbox. \<open>Post_\<close> positions belong to \<open>sys_mbox_post\<close> and, with \<open>True\<close>,
  to \<open>sys_mbox_trypost\<close>; \<open>Fetch_\<close> positions to \<open>sys_arch_mbox_tryfetch\<close> and \<open>sys_arch_mbox_fetch\<close> with and without a timeout.
\<close>

datatype fetch_kind = Tryfetch | Fetch_Forever | Fetch_Timeout

datatype 'm mbox_pc =
    Outside
  | Post_Lock bool 'm | Post_Test bool 'm | Post_Unlock_Full 'm | Post_Wait 'm | Post_Relock 'm | Post_Back 'm
  | Post_Fail | Post_Signal bool | Post_Unlock
  | Fetch_Lock fetch_kind | Fetch_Test fetch_kind | Fetch_Unlock_Empty fetch_kind | Fetch_Wait fetch_kind
  | Fetch_Signal 'm | Fetch_Unlock 'm
  | Posted | Post_Error | Fetched 'm | Fetch_Nothing | Fetch_Expired

fun mbox_step :: "'m mbox_pc \<Rightarrow> 'm sys_mbox \<Rightarrow> ('m mbox_pc \<times> 'm sys_mbox) option" where
  "mbox_step (Post_Lock nb m) mb = do { c \<leftarrow> sem_wait (mb_mutex mb); Some (Post_Test nb m, mb\<lparr>mb_mutex := c\<rparr>) }"
| "mbox_step (Post_Test nb m) mb = do {
     full \<leftarrow> mbox_full mb;
     if full then
       (if nb then Some (Post_Fail, mb)
        else do { w \<leftarrow> c_int (mb_wait_send mb + 1); Some (Post_Unlock_Full m, mb\<lparr>mb_wait_send := w\<rparr>) })
     else do { (first, mb1) \<leftarrow> mbox_put m mb; Some (Post_Signal first, mb1) }
   }"
| "mbox_step (Post_Unlock_Full m) mb = Some (Post_Wait m, mb\<lparr>mb_mutex := sys_sem_signal (mb_mutex mb)\<rparr>)"
| "mbox_step (Post_Wait m) mb = do { c \<leftarrow> sem_wait (mb_not_full mb); Some (Post_Relock m, mb\<lparr>mb_not_full := c\<rparr>) }"
| "mbox_step (Post_Relock m) mb = do { c \<leftarrow> sem_wait (mb_mutex mb); Some (Post_Back m, mb\<lparr>mb_mutex := c\<rparr>) }"
| "mbox_step (Post_Back m) mb = do { w \<leftarrow> c_int (mb_wait_send mb - 1); Some (Post_Test False m, mb\<lparr>mb_wait_send := w\<rparr>) }"
| "mbox_step Post_Fail mb = Some (Post_Error, mb\<lparr>mb_mutex := sys_sem_signal (mb_mutex mb)\<rparr>)"
| "mbox_step (Post_Signal first) mb =
     Some (Post_Unlock, if first then mb\<lparr>mb_not_empty := sys_sem_signal (mb_not_empty mb)\<rparr> else mb)"
| "mbox_step Post_Unlock mb = Some (Posted, mb\<lparr>mb_mutex := sys_sem_signal (mb_mutex mb)\<rparr>)"
| "mbox_step (Fetch_Lock k) mb = do { c \<leftarrow> sem_wait (mb_mutex mb); Some (Fetch_Test k, mb\<lparr>mb_mutex := c\<rparr>) }"
| "mbox_step (Fetch_Test k) mb =
     (if mb_first mb = mb_last mb then Some (Fetch_Unlock_Empty k, mb)
      else do { (m, mb1) \<leftarrow> mbox_take mb; Some (Fetch_Signal m, mb1) })"
| "mbox_step (Fetch_Unlock_Empty k) mb =
     Some (if k = Tryfetch then Fetch_Nothing else Fetch_Wait k, mb\<lparr>mb_mutex := sys_sem_signal (mb_mutex mb)\<rparr>)"
| "mbox_step (Fetch_Wait k) mb = do { c \<leftarrow> sem_wait (mb_not_empty mb); Some (Fetch_Lock k, mb\<lparr>mb_not_empty := c\<rparr>) }"
| "mbox_step (Fetch_Signal m) mb =
     Some (Fetch_Unlock m, if mb_wait_send mb \<noteq> 0 then mb\<lparr>mb_not_full := sys_sem_signal (mb_not_full mb)\<rparr> else mb)"
| "mbox_step (Fetch_Unlock m) mb = Some (Fetched m, mb\<lparr>mb_mutex := sys_sem_signal (mb_mutex mb)\<rparr>)"
| "mbox_step pc mb = None"

section \<open>Threads\<close>

text \<open>
  The threads that use one mailbox. The ghost lists \<open>ms_put\<close> and \<open>ms_got\<close> record the messages in the order in which
  they were stored and taken.
\<close>

record 'm mbox_sys =
  ms_pcs :: "nat \<Rightarrow> 'm mbox_pc"
  ms_mbox :: "'m sys_mbox"
  ms_put :: "'m list"
  ms_got :: "'m list"

definition mbox_init :: "'m list \<Rightarrow> 'm mbox_sys" where
  "mbox_init junk = \<lparr>ms_pcs = (\<lambda>_. Outside), ms_mbox = sys_mbox_new junk, ms_put = [], ms_got = []\<rparr>"

fun mbox_idle :: "'m mbox_pc \<Rightarrow> bool" where
  "mbox_idle Outside = True" | "mbox_idle Posted = True" | "mbox_idle Post_Error = True" | "mbox_idle (Fetched m) = True"
| "mbox_idle Fetch_Nothing = True" | "mbox_idle Fetch_Expired = True" | "mbox_idle pc = False"

fun mbox_call :: "'m mbox_pc \<Rightarrow> bool" where
  "mbox_call (Post_Lock nb m) = True" | "mbox_call (Fetch_Lock k) = True" | "mbox_call pc = False"

fun put_of :: "'m mbox_pc \<Rightarrow> 'm mbox_pc \<Rightarrow> 'm list" where
  "put_of (Post_Test nb m) (Post_Signal first) = [m]" | "put_of pc pc' = []"

fun got_of :: "'m mbox_pc \<Rightarrow> 'm mbox_pc \<Rightarrow> 'm list" where
  "got_of (Fetch_Test k) (Fetch_Signal m) = [m]" | "got_of pc pc' = []"

inductive mbox_run :: "'m mbox_sys \<Rightarrow> 'm mbox_sys \<Rightarrow> bool" where
  run_call: "mbox_idle (ms_pcs s t) \<Longrightarrow> mbox_call pc \<Longrightarrow> mbox_run s (s\<lparr>ms_pcs := (ms_pcs s)(t := pc)\<rparr>)"
| run_step: "mbox_step (ms_pcs s t) (ms_mbox s) = Some (pc, mb) \<Longrightarrow>
    mbox_run s \<lparr>ms_pcs = (ms_pcs s)(t := pc), ms_mbox = mb, ms_put = ms_put s @ put_of (ms_pcs s t) pc,
                ms_got = ms_got s @ got_of (ms_pcs s t) pc\<rparr>"
| run_expire: "ms_pcs s t = Fetch_Wait Fetch_Timeout \<Longrightarrow> mbox_run s (s\<lparr>ms_pcs := (ms_pcs s)(t := Fetch_Expired)\<rparr>)"

section \<open>The mailbox is a bounded queue\<close>

definition mbox_contents :: "'m sys_mbox \<Rightarrow> 'm list" where
  "mbox_contents mb = map (\<lambda>i. mb_msgs mb ! (nat i mod SYS_MBOX_SIZE)) [mb_first mb..mb_last mb - 1]"

definition ring_ok :: "'m sys_mbox \<Rightarrow> bool" where
  "ring_ok mb \<longleftrightarrow> 0 \<le> mb_first mb \<and> mb_first mb \<le> mb_last mb \<and> mb_last mb < mb_first mb + int SYS_MBOX_SIZE \<and>
     length (mb_msgs mb) = SYS_MBOX_SIZE"

text \<open>The positions between the wait for the mutex and the signal that gives it back.\<close>

fun holds_mutex :: "'m mbox_pc \<Rightarrow> bool" where
  "holds_mutex (Post_Test nb m) = True" | "holds_mutex (Post_Unlock_Full m) = True" | "holds_mutex (Post_Back m) = True"
| "holds_mutex Post_Fail = True" | "holds_mutex (Post_Signal first) = True" | "holds_mutex Post_Unlock = True"
| "holds_mutex (Fetch_Test k) = True" | "holds_mutex (Fetch_Unlock_Empty k) = True" | "holds_mutex (Fetch_Signal m) = True"
| "holds_mutex (Fetch_Unlock m) = True" | "holds_mutex pc = False"

definition mutex_ok :: "'m mbox_sys \<Rightarrow> bool" where
  "mutex_ok s \<longleftrightarrow> (if mb_mutex (ms_mbox s) = 0 then \<exists>t. holds_mutex (ms_pcs s t) \<and> (\<forall>u. u \<noteq> t \<longrightarrow> \<not> holds_mutex (ms_pcs s u))
                  else mb_mutex (ms_mbox s) = 1 \<and> (\<forall>t. \<not> holds_mutex (ms_pcs s t)))"

lemma ring_simps [simp]:
  "ring_ok (mb\<lparr>mb_mutex := c\<rparr>) = ring_ok mb" "ring_ok (mb\<lparr>mb_not_empty := c\<rparr>) = ring_ok mb"
  "ring_ok (mb\<lparr>mb_not_full := c\<rparr>) = ring_ok mb" "ring_ok (mb\<lparr>mb_wait_send := w\<rparr>) = ring_ok mb"
  "mbox_contents (mb\<lparr>mb_mutex := c\<rparr>) = mbox_contents mb" "mbox_contents (mb\<lparr>mb_not_empty := c\<rparr>) = mbox_contents mb"
  "mbox_contents (mb\<lparr>mb_not_full := c\<rparr>) = mbox_contents mb" "mbox_contents (mb\<lparr>mb_wait_send := w\<rparr>) = mbox_contents mb"
  by (simp_all add: ring_ok_def mbox_contents_def)

lemma contents_length: "ring_ok mb \<Longrightarrow> length (mbox_contents mb) = nat (mb_last mb - mb_first mb)"
  by (simp add: mbox_contents_def)

lemma contents_Nil: "ring_ok mb \<Longrightarrow> mbox_contents mb = [] \<longleftrightarrow> mb_first mb = mb_last mb"
  using contents_length [of mb] by (auto simp: ring_ok_def)

lemma c_int_Some [simp]: "c_int n = Some m \<longleftrightarrow> m = n \<and> - (2 ^ 31) \<le> n \<and> n < 2 ^ 31"
  by (auto simp: c_int_def)

lemma mod_window: "0 < d \<Longrightarrow> d < SYS_MBOX_SIZE \<Longrightarrow> (n + d) mod SYS_MBOX_SIZE \<noteq> n mod SYS_MBOX_SIZE"
  using mod_eq_dvd_iff_nat [of n "n + d" SYS_MBOX_SIZE] dvd_imp_le [of SYS_MBOX_SIZE d] by auto

lemma mbox_put_spec:
  assumes "mbox_put m mb = Some (first, mb')" and "mbox_full mb = Some False" and "ring_ok mb"
  shows "ring_ok mb'" and "mbox_contents mb' = mbox_contents mb @ [m]" and "first \<longleftrightarrow> mbox_contents mb = []"
    and "mb_mutex mb' = mb_mutex mb" and "mb_not_empty mb' = mb_not_empty mb"
proof -
  let ?n = "nat (mb_last mb) mod SYS_MBOX_SIZE"
  have mb': "mb' = mb\<lparr>mb_msgs := (mb_msgs mb)[?n := m], mb_last := mb_last mb + 1\<rparr>" and f: "first = (mb_last mb = mb_first mb)"
    using assms(1) by (auto simp: mbox_put_def bind_Some_iff)
  have room: "mb_last mb + 1 < mb_first mb + int SYS_MBOX_SIZE" using assms(2) by (auto simp: mbox_full_def bind_Some_iff)
  then show "ring_ok mb'" using assms(3) by (simp add: ring_ok_def mb')
  have other: "nat i mod SYS_MBOX_SIZE \<noteq> ?n" if "mb_first mb \<le> i" "i < mb_last mb" for i
  proof
    assume "nat i mod SYS_MBOX_SIZE = ?n"
    moreover have "nat (mb_last mb) = nat i + nat (mb_last mb - i)" "0 < nat (mb_last mb - i)" "nat (mb_last mb - i) < SYS_MBOX_SIZE"
      using that room assms(3) by (auto simp: ring_ok_def)
    ultimately show False using mod_window [of "nat (mb_last mb - i)" "nat i"] by simp
  qed
  have same: "(mb_msgs mb)[?n := m] ! (nat i mod SYS_MBOX_SIZE) = mb_msgs mb ! (nat i mod SYS_MBOX_SIZE)"
    if "mb_first mb \<le> i" "i < mb_last mb" for i
    by (rule nth_list_update_neq [OF other [OF that, THEN not_sym]])
  have "[mb_first mb..mb_last mb] = [mb_first mb..mb_last mb - 1] @ [mb_last mb]"
    using assms(3) by (simp add: ring_ok_def upto_rec2)
  then show "mbox_contents mb' = mbox_contents mb @ [m]"
    using assms(3) same by (simp add: mbox_contents_def mb' ring_ok_def)
  show "first \<longleftrightarrow> mbox_contents mb = []" using contents_Nil [OF assms(3)] f by auto
  show "mb_mutex mb' = mb_mutex mb" "mb_not_empty mb' = mb_not_empty mb" by (simp_all add: mb')
qed

lemma mbox_take_spec:
  assumes "mbox_take mb = Some (m, mb')" and "mb_first mb \<noteq> mb_last mb" and "ring_ok mb"
  shows "ring_ok mb'" and "mbox_contents mb = m # mbox_contents mb'"
    and "mb_mutex mb' = mb_mutex mb" and "mb_not_empty mb' = mb_not_empty mb"
proof -
  have mb': "mb' = mb\<lparr>mb_first := mb_first mb + 1\<rparr>" and m: "m = mb_msgs mb ! (nat (mb_first mb) mod SYS_MBOX_SIZE)"
    using assms(1) by (auto simp: mbox_take_def bind_Some_iff)
  show "ring_ok mb'" using assms(2,3) by (simp add: ring_ok_def mb')
  show "mbox_contents mb = m # mbox_contents mb'"
    using assms(2,3) by (simp add: mbox_contents_def mb' m ring_ok_def upto_rec1)
  show "mb_mutex mb' = mb_mutex mb" "mb_not_empty mb' = mb_not_empty mb" by (simp_all add: mb')
qed

text \<open>One step of a thread on the contents: it stores, takes or leaves them alone.\<close>

lemma mbox_step_contents:
  assumes "mbox_step pc mb = Some (pc', mb')" and "ring_ok mb"
  shows "ring_ok mb'" and "mbox_contents mb @ put_of pc pc' = got_of pc pc' @ mbox_contents mb'"
proof -
  have "ring_ok mb' \<and> mbox_contents mb @ put_of pc pc' = got_of pc pc' @ mbox_contents mb'"
  proof (cases pc)
    case (Post_Test nb m)
    then show ?thesis
      using assms mbox_put_spec(1,2) [of m mb] by (auto simp: bind_Some_iff split: if_split_asm)
  next
    case (Fetch_Test k)
    then show ?thesis
      using assms mbox_take_spec(1,2) [of mb] by (auto simp: bind_Some_iff split: if_split_asm)
  qed (use assms in \<open>auto simp: bind_Some_iff split: if_split_asm\<close>)
  then show "ring_ok mb'" "mbox_contents mb @ put_of pc pc' = got_of pc pc' @ mbox_contents mb'" by simp_all
qed

lemma mbox_step_mutex:
  assumes "mbox_step pc mb = Some (pc', mb')"
  shows "if holds_mutex pc then (if holds_mutex pc' then mb_mutex mb' = mb_mutex mb else mb_mutex mb' = sys_sem_signal (mb_mutex mb))
         else if holds_mutex pc' then mb_mutex mb \<noteq> 0 \<and> mb_mutex mb' = mb_mutex mb - 1 else mb_mutex mb' = mb_mutex mb"
proof -
  have put: "mb_mutex mb1 = mb_mutex mb" if "mbox_put m mb = Some (f, mb1)" for m f mb1
    using that by (auto simp: mbox_put_def bind_Some_iff)
  have take: "mb_mutex mb1 = mb_mutex mb" if "mbox_take mb = Some (m, mb1)" for m mb1
    using that by (auto simp: mbox_take_def bind_Some_iff)
  show ?thesis
    using assms put take by (cases pc) (auto simp: bind_Some_iff sem_wait_def split: if_split_asm)
qed

text \<open>The invariant of every reachable state.\<close>

definition mbox_inv :: "'m mbox_sys \<Rightarrow> bool" where
  "mbox_inv s \<longleftrightarrow> ring_ok (ms_mbox s) \<and> mutex_ok s \<and> ms_put s = ms_got s @ mbox_contents (ms_mbox s)"

lemma mutex_step:
  assumes "mbox_step (ms_pcs s t) (ms_mbox s) = Some (pc, mb)" and "mutex_ok s"
    and s': "ms_pcs s' = (ms_pcs s)(t := pc)" "ms_mbox s' = mb"
  shows "mutex_ok s'"
proof -
  note st = mbox_step_mutex [OF assms(1)]
  show ?thesis
  proof (cases "holds_mutex (ms_pcs s t)")
    case True
    then have c: "mb_mutex (ms_mbox s) = 0" "\<forall>u. u \<noteq> t \<longrightarrow> \<not> holds_mutex (ms_pcs s u)"
      using assms(2) unfolding mutex_ok_def by (metis, metis)
    then show ?thesis using st True s' by (auto simp: mutex_ok_def sys_sem_signal_def split: if_split_asm)
  next
    case False
    then show ?thesis
      using st s' assms(2) by (auto simp: mutex_ok_def split: if_split_asm)
  qed
qed

lemma mutex_same:
  assumes "mutex_ok s" and "\<not> holds_mutex (ms_pcs s t)" and "\<not> holds_mutex pc"
  shows "mutex_ok (s\<lparr>ms_pcs := (ms_pcs s)(t := pc)\<rparr>)"
  using assms by (auto simp: mutex_ok_def split: if_split_asm)

lemma idle_free: "mbox_idle pc \<Longrightarrow> \<not> holds_mutex pc" "mbox_call pc \<Longrightarrow> \<not> holds_mutex pc"
  by (cases pc; simp)+

lemma mbox_inv_step: "mbox_run s s' \<Longrightarrow> mbox_inv s \<Longrightarrow> mbox_inv s'"
proof (induction rule: mbox_run.induct)
  case (run_call s t pc)
  then show ?case using mutex_same [of s t pc] idle_free by (auto simp: mbox_inv_def)
next
  case (run_step s t pc mb)
  then show ?case
    using mutex_step [OF run_step(1)] mbox_step_contents [OF run_step(1)] by (simp add: mbox_inv_def)
next
  case (run_expire s t)
  then show ?case using mutex_same [of s t Fetch_Expired] by (auto simp: mbox_inv_def)
qed

lemma mbox_inv_init: "length junk = SYS_MBOX_SIZE \<Longrightarrow> mbox_inv (mbox_init junk)"
  by (simp add: mbox_inv_def mbox_init_def sys_mbox_new_def ring_ok_def mutex_ok_def mbox_contents_def)

lemma mbox_inv_reach: "mbox_run\<^sup>*\<^sup>* (mbox_init junk) s \<Longrightarrow> length junk = SYS_MBOX_SIZE \<Longrightarrow> mbox_inv s"
  by (induction rule: rtranclp_induct) (auto intro: mbox_inv_init mbox_inv_step)

section \<open>One consumer\<close>

fun fetcher :: "'m mbox_pc \<Rightarrow> bool" where
  "fetcher (Fetch_Lock k) = True" | "fetcher (Fetch_Test k) = True" | "fetcher (Fetch_Unlock_Empty k) = True"
| "fetcher (Fetch_Wait k) = True" | "fetcher (Fetch_Signal m) = True" | "fetcher (Fetch_Unlock m) = True" | "fetcher pc = False"

fun going_to_wait :: "'m mbox_pc \<Rightarrow> bool" where
  "going_to_wait (Fetch_Unlock_Empty k) = True" | "going_to_wait (Fetch_Wait k) = True" | "going_to_wait pc = False"

fun signalling :: "'m mbox_pc \<Rightarrow> bool" where
  "signalling (Post_Signal first) = first" | "signalling pc = False"

text \<open>
  With one consumer \<open>c\<close>, a message that is in the mailbox while \<open>c\<close> waits has been signalled, or the
  thread that stored it is about to signal it.
\<close>

definition wakeup_ok :: "nat \<Rightarrow> 'm mbox_sys \<Rightarrow> bool" where
  "wakeup_ok c s \<longleftrightarrow> mb_not_empty (ms_mbox s) \<le> 1 \<and> (\<forall>t. fetcher (ms_pcs s t) \<longrightarrow> t = c) \<and>
     (going_to_wait (ms_pcs s c) \<longrightarrow> mbox_contents (ms_mbox s) \<noteq> [] \<longrightarrow>
       mb_not_empty (ms_mbox s) = 1 \<or> (\<exists>t. signalling (ms_pcs s t)))"

lemma idle_pc: "mbox_idle pc \<Longrightarrow> \<not> signalling pc \<and> \<not> fetcher pc" "mbox_call pc \<Longrightarrow> \<not> going_to_wait pc \<and> \<not> signalling pc"
  by (cases pc; simp)+

lemma wakeup_call:
  assumes "wakeup_ok c s" and "mbox_idle (ms_pcs s t)" and "mbox_call pc" and "fetcher pc \<longrightarrow> t = c"
  shows "wakeup_ok c (s\<lparr>ms_pcs := (ms_pcs s)(t := pc)\<rparr>)"
proof -
  have sig: "\<not> signalling (ms_pcs s t)" using idle_pc(1) [OF assms(2)] by simp
  have new: "\<not> going_to_wait pc" using idle_pc(2) [OF assms(3)] by simp
  show ?thesis
    unfolding wakeup_ok_def
  proof (intro conjI impI)
    assume g: "going_to_wait (ms_pcs (s\<lparr>ms_pcs := (ms_pcs s)(t := pc)\<rparr>) c)"
      and m: "mbox_contents (ms_mbox (s\<lparr>ms_pcs := (ms_pcs s)(t := pc)\<rparr>)) \<noteq> []"
    have "t \<noteq> c" using g new by auto
    then show "mb_not_empty (ms_mbox (s\<lparr>ms_pcs := (ms_pcs s)(t := pc)\<rparr>)) = 1 \<or>
        (\<exists>u. signalling (ms_pcs (s\<lparr>ms_pcs := (ms_pcs s)(t := pc)\<rparr>) u))"
      using g m assms(1) sig unfolding wakeup_ok_def by (auto split: if_split_asm)
  qed (use assms(1,4) in \<open>simp_all add: wakeup_ok_def\<close>)
qed

lemma u32_le_1: "(x :: u32) \<le> 1 \<longleftrightarrow> x = 0 \<or> x = 1"
proof
  assume "x \<le> 1"
  then have "unat x \<le> 1" by (simp add: word_le_nat_alt)
  then have "unat x = 0 \<or> unat x = 1" by arith
  then show "x = 0 \<or> x = 1" by (simp add: word_unat_eq_iff [of x])
qed auto

lemma step_not_empty:
  assumes "mbox_step pc mb = Some (pc', mb')" and "ring_ok mb"
  shows "fetcher pc' \<Longrightarrow> fetcher pc"
    and "\<not> fetcher pc \<Longrightarrow> mb_not_empty mb = 1 \<Longrightarrow> mb_not_empty mb' = 1"
    and "\<not> fetcher pc \<Longrightarrow> mbox_contents mb = [] \<Longrightarrow> mbox_contents mb' \<noteq> [] \<Longrightarrow> signalling pc'"
    and "signalling pc \<Longrightarrow> mb_not_empty mb \<le> 1 \<Longrightarrow> mb_not_empty mb' = 1"
    and "going_to_wait pc' \<Longrightarrow> mbox_contents mb' \<noteq> [] \<Longrightarrow>
      going_to_wait pc \<and> \<not> signalling pc \<and> mbox_contents mb' = mbox_contents mb \<and> mb_not_empty mb' = mb_not_empty mb"
    and "mb_not_empty mb \<le> 1 \<Longrightarrow> mb_not_empty mb' \<le> 1"
proof -
  note put = mbox_put_spec [OF _ _ assms(2)] and take = mbox_take_spec [OF _ _ assms(2)]
  show "fetcher pc' \<Longrightarrow> fetcher pc"
    using assms(1) by (cases pc) (auto simp: bind_Some_iff split: if_split_asm)
  show "\<not> fetcher pc \<Longrightarrow> mb_not_empty mb = 1 \<Longrightarrow> mb_not_empty mb' = 1"
    using assms(1) put(5) by (cases pc) (auto simp: bind_Some_iff sys_sem_signal_def split: if_split_asm)
  show "\<not> fetcher pc \<Longrightarrow> mbox_contents mb = [] \<Longrightarrow> mbox_contents mb' \<noteq> [] \<Longrightarrow> signalling pc'"
    using assms(1) put(3) by (cases pc) (auto simp: bind_Some_iff split: if_split_asm)
  show "signalling pc \<Longrightarrow> mb_not_empty mb \<le> 1 \<Longrightarrow> mb_not_empty mb' = 1"
    using assms(1) by (cases pc) (auto simp: u32_le_1 sys_sem_signal_def)
  show "going_to_wait pc' \<Longrightarrow> mbox_contents mb' \<noteq> [] \<Longrightarrow>
      going_to_wait pc \<and> \<not> signalling pc \<and> mbox_contents mb' = mbox_contents mb \<and> mb_not_empty mb' = mb_not_empty mb"
    using assms contents_Nil [OF assms(2)] by (cases pc) (auto simp: bind_Some_iff split: if_split_asm)
  show "mb_not_empty mb \<le> 1 \<Longrightarrow> mb_not_empty mb' \<le> 1"
    using assms(1) put(5) take(4)
    by (cases pc) (auto simp: bind_Some_iff sys_sem_signal_def sem_wait_def u32_le_1 split: if_split_asm)
qed

lemma wakeup_step:
  assumes w: "wakeup_ok c s" and e: "mbox_step (ms_pcs s t) (ms_mbox s) = Some (pc, mb)" and r: "ring_ok (ms_mbox s)"
    and s': "ms_pcs s' = (ms_pcs s)(t := pc)" "ms_mbox s' = mb"
  shows "wakeup_ok c s'"
  unfolding wakeup_ok_def
proof (intro conjI impI)
  note st = step_not_empty [OF e r]
  have b: "mb_not_empty (ms_mbox s) \<le> 1" using w by (simp add: wakeup_ok_def)
  then show "mb_not_empty (ms_mbox s') \<le> 1" using st(6) s' by simp
  show "\<forall>t. fetcher (ms_pcs s' t) \<longrightarrow> t = c" using w st(1) s' by (auto simp: wakeup_ok_def)
  assume k: "going_to_wait (ms_pcs s' c)" and ne: "mbox_contents (ms_mbox s') \<noteq> []"
  show "mb_not_empty (ms_mbox s') = 1 \<or> (\<exists>u. signalling (ms_pcs s' u))"
  proof (cases "t = c")
    case True
    then have c: "going_to_wait (ms_pcs s c)" "\<not> signalling (ms_pcs s t)" "mbox_contents (ms_mbox s) \<noteq> []"
      "mb_not_empty mb = mb_not_empty (ms_mbox s)"
      using k ne st(5) s' by auto
    have "mb_not_empty (ms_mbox s) = 1 \<or> (\<exists>u. signalling (ms_pcs s u))" using c w by (simp add: wakeup_ok_def)
    then show ?thesis using c(2,4) s' by (metis fun_upd_apply)
  next
    case False
    then have c: "going_to_wait (ms_pcs s c)" "\<not> fetcher (ms_pcs s t)"
      using k s' w by (auto simp: wakeup_ok_def)
    show ?thesis
    proof (cases "mbox_contents (ms_mbox s) = []")
      case True
      then show ?thesis using st(3) c(2) ne s' by auto
    next
      case nonempty: False
      then have "mb_not_empty (ms_mbox s) = 1 \<or> (\<exists>u. signalling (ms_pcs s u))" using w c(1) by (auto simp: wakeup_ok_def)
      then show ?thesis
      proof
        assume "mb_not_empty (ms_mbox s) = 1"
        then show ?thesis using st(2) c(2) s' by auto
      next
        assume "\<exists>u. signalling (ms_pcs s u)"
        then obtain u where u: "signalling (ms_pcs s u)" by blast
        then show ?thesis using st(4) b s' by (cases "u = t") auto
      qed
    qed
  qed
qed

definition one_consumer :: "nat \<Rightarrow> 'm mbox_sys \<Rightarrow> 'm mbox_sys \<Rightarrow> bool" where
  "one_consumer c s s' \<longleftrightarrow> mbox_run s s' \<and> (\<forall>t. fetcher (ms_pcs s' t) \<longrightarrow> t = c)"

lemma one_consumer_inv:
  assumes "(one_consumer c)\<^sup>*\<^sup>* (mbox_init junk) s" and "length junk = SYS_MBOX_SIZE"
  shows "mbox_inv s \<and> wakeup_ok c s"
  using assms(1)
proof (induction rule: rtranclp_induct)
  case base
  then show ?case
    using mbox_inv_init [OF assms(2)] by (simp add: wakeup_ok_def mbox_init_def sys_mbox_new_def mbox_contents_def)
next
  case (step s1 s2)
  then have r: "mbox_run s1 s2" and f: "\<forall>t. fetcher (ms_pcs s2 t) \<longrightarrow> t = c" and i: "mbox_inv s1" "wakeup_ok c s1"
    by (simp_all add: one_consumer_def)
  have "wakeup_ok c s2"
    using r
  proof (cases rule: mbox_run.cases)
    case (run_call t pc)
    then show ?thesis using wakeup_call [OF i(2), of t pc] f by auto
  next
    case (run_step t pc mb)
    then show ?thesis using wakeup_step [OF i(2) run_step(2), of s2] i(1) by (simp add: mbox_inv_def)
  next
    case (run_expire t)
    then have t: "t = c" "\<not> going_to_wait Fetch_Expired" using i(2) by (auto simp: wakeup_ok_def)
    then show ?thesis using i(2) run_expire by (auto simp: wakeup_ok_def)
  qed
  then show ?case using mbox_inv_step [OF r i(1)] by simp
qed

text \<open>Schedules: a call of a thread, or its next step.\<close>

fun mbox_sched :: "(nat \<times> 'm mbox_pc option) list \<Rightarrow> 'm mbox_sys \<Rightarrow> 'm mbox_sys option" where
  "mbox_sched [] s = Some s"
| "mbox_sched ((t, Some pc) # xs) s =
     (if mbox_idle (ms_pcs s t) \<and> mbox_call pc then mbox_sched xs (s\<lparr>ms_pcs := (ms_pcs s)(t := pc)\<rparr>) else None)"
| "mbox_sched ((t, None) # xs) s = do {
     (pc, mb) \<leftarrow> mbox_step (ms_pcs s t) (ms_mbox s);
     mbox_sched xs \<lparr>ms_pcs = (ms_pcs s)(t := pc), ms_mbox = mb, ms_put = ms_put s @ put_of (ms_pcs s t) pc,
                    ms_got = ms_got s @ got_of (ms_pcs s t) pc\<rparr>
   }"

lemma mbox_sched_run: "mbox_sched xs s = Some s' \<Longrightarrow> mbox_run\<^sup>*\<^sup>* s s'"
proof (induction xs s rule: mbox_sched.induct)
  case (2 t pc xs s)
  then show ?case by (auto split: if_split_asm intro: converse_rtranclp_into_rtranclp run_call)
next
  case (3 t xs s)
  then obtain pc mb where st: "mbox_step (ms_pcs s t) (ms_mbox s) = Some (pc, mb)" by (auto simp: bind_Some_iff)
  then show ?case using "3.IH" [OF st refl] "3.prems" run_step [OF st] by (auto intro: converse_rtranclp_into_rtranclp)
qed simp

lemma mbox_sched_one:
  assumes "mbox_sched xs s = Some s'" and "ring_ok (ms_mbox s)" and "\<forall>t. fetcher (ms_pcs s t) \<longrightarrow> t = c"
    and "\<forall>(t, p) \<in> set xs. \<forall>pc. p = Some pc \<longrightarrow> fetcher pc \<longrightarrow> t = c"
  shows "(one_consumer c)\<^sup>*\<^sup>* s s'"
  using assms
proof (induction xs s rule: mbox_sched.induct)
  case (2 t pc xs s)
  let ?s = "s\<lparr>ms_pcs := (ms_pcs s)(t := pc)\<rparr>"
  have c: "mbox_idle (ms_pcs s t)" "mbox_call pc" "mbox_sched xs ?s = Some s'" using "2.prems"(1) by (auto split: if_split_asm)
  have f: "\<forall>u. fetcher (ms_pcs ?s u) \<longrightarrow> u = c" using "2.prems"(3,4) by auto
  have "one_consumer c s ?s" using run_call [OF c(1,2)] f by (simp add: one_consumer_def)
  moreover have "(one_consumer c)\<^sup>*\<^sup>* ?s s'" using "2.IH" c f "2.prems"(2,4) by auto
  ultimately show ?case by (rule converse_rtranclp_into_rtranclp)
next
  case (3 t xs s)
  then obtain pc mb where st: "mbox_step (ms_pcs s t) (ms_mbox s) = Some (pc, mb)" by (auto simp: bind_Some_iff)
  let ?s = "\<lparr>ms_pcs = (ms_pcs s)(t := pc), ms_mbox = mb, ms_put = ms_put s @ put_of (ms_pcs s t) pc,
                    ms_got = ms_got s @ got_of (ms_pcs s t) pc\<rparr>"
  have f: "\<forall>u. fetcher (ms_pcs ?s u) \<longrightarrow> u = c" using "3.prems"(3) step_not_empty(1) [OF st "3.prems"(2)] by auto
  have "one_consumer c s ?s" using run_step [OF st] f by (simp add: one_consumer_def)
  moreover have "(one_consumer c)\<^sup>*\<^sup>* ?s s'"
    using "3.IH" [OF st refl] "3.prems" st f mbox_step_contents(1) [OF st "3.prems"(2)] by auto
  ultimately show ?case by (rule converse_rtranclp_into_rtranclp)
qed simp

section \<open>Properties\<close>

text \<open>
  C35: A mailbox delivers every message exactly once and in order. However any number of threads interleave in
  \<open>sys_mbox_post\<close>, \<open>sys_mbox_trypost\<close>, \<open>sys_arch_mbox_fetch\<close> (with and without a timeout) and \<open>sys_arch_mbox_tryfetch\<close>, the messages
  stored so far are the ones taken so far followed by the ones between \<open>first\<close> and \<open>last\<close> in the ring, of which there
  are at most 127, and at most one thread is between the wait for the mutex and the signal that gives it back.
\<close>

theorem mailbox_delivers:
  assumes "mbox_run\<^sup>*\<^sup>* (mbox_init junk) s" and "length junk = SYS_MBOX_SIZE"
  shows "ms_put s = ms_got s @ mbox_contents (ms_mbox s) \<and> length (mbox_contents (ms_mbox s)) < SYS_MBOX_SIZE \<and>
     (holds_mutex (ms_pcs s t) \<and> holds_mutex (ms_pcs s u) \<longrightarrow> t = u)"
proof -
  have i: "mbox_inv s" by (rule mbox_inv_reach [OF assms])
  have "t = u" if "holds_mutex (ms_pcs s t)" "holds_mutex (ms_pcs s u)"
    using i that unfolding mbox_inv_def mutex_ok_def by (metis (no_types))
  then show ?thesis using i contents_length [of "ms_mbox s"] by (auto simp: mbox_inv_def ring_ok_def)
qed

text \<open>The bounded queue that a mailbox is to be: \<open>put\<close> and \<open>got\<close> are the messages that go in and out in one step.\<close>

definition fifo_step :: "nat \<Rightarrow> 'm list \<Rightarrow> 'm list \<Rightarrow> 'm list \<Rightarrow> 'm list \<Rightarrow> bool" where
  "fifo_step capacity put got q q' \<longleftrightarrow>
     put = [] \<and> got = [] \<and> q' = q \<or>
     (\<exists>m. put = [m] \<and> got = [] \<and> length q < capacity \<and> q' = q @ [m]) \<or>
     (\<exists>m. put = [] \<and> got = [m] \<and> q = m # q')"

text \<open>
  C34: The ring of the mailbox refines a bounded first-in first-out queue of 127 messages, one less than
  \<open>SYS_MBOX_SIZE\<close>: every step of a thread either leaves the contents alone, or appends the thread's message
  while there is room, or removes the oldest message. A \<open>sys_mbox_trypost\<close> is refused exactly when the queue is full, and a
  fetch finds the mailbox empty exactly when the queue is empty.
\<close>

theorem mailbox_refines_fifo:
  assumes "mbox_step pc mb = Some (pc', mb')" and "ring_ok mb"
  shows "ring_ok mb' \<and> fifo_step 127 (put_of pc pc') (got_of pc pc') (mbox_contents mb) (mbox_contents mb') \<and>
     (pc = Post_Test True m \<longrightarrow> (pc' = Post_Fail \<longleftrightarrow> length (mbox_contents mb) = 127)) \<and>
     (pc = Fetch_Test k \<longrightarrow> (pc' = Fetch_Unlock_Empty k \<longleftrightarrow> mbox_contents mb = []))"
proof -
  note st = mbox_step_contents [OF assms]
  have full: "mbox_full mb = Some b \<Longrightarrow> b = (length (mbox_contents mb) = 127)" for b
    using contents_length [OF assms(2)] assms(2) by (auto simp: mbox_full_def bind_Some_iff ring_ok_def)
  have lt: "length (mbox_contents mb) < 128" using contents_length [OF assms(2)] assms(2) by (auto simp: ring_ok_def)
  have "fifo_step 127 (put_of pc pc') (got_of pc pc') (mbox_contents mb) (mbox_contents mb')"
  proof (cases pc)
    case (Post_Test nb x)
    then show ?thesis
      using assms(1) mbox_put_spec(2) [of x mb, OF _ _ assms(2)] full [of False] lt
      by (auto simp: fifo_step_def bind_Some_iff split: if_split_asm)
  next
    case (Fetch_Test k)
    then show ?thesis using assms st by (auto simp: fifo_step_def bind_Some_iff split: if_split_asm)
  qed (use assms st in \<open>auto simp: fifo_step_def bind_Some_iff split: if_split_asm\<close>)
  moreover have "pc' = Post_Fail \<longleftrightarrow> length (mbox_contents mb) = 127" if "pc = Post_Test True m"
    using that assms full by (auto simp: bind_Some_iff split: if_split_asm)
  moreover have "pc' = Fetch_Unlock_Empty k \<longleftrightarrow> mbox_contents mb = []" if "pc = Fetch_Test k"
    using that assms contents_Nil [OF assms(2)] by (auto simp: bind_Some_iff split: if_split_asm)
  ultimately show ?thesis using st(1) by blast
qed

text \<open>
  C36: With one consumer no wake-up is lost. In every reachable state in which only thread \<open>c\<close> fetches, \<open>c\<close> waits on \<open>not_empty\<close>, the
  mailbox is not empty and no thread is in its critical section, the consumer gets the oldest message by its own steps alone:
  the semaphore has been signalled. (The counters are C \<open>int\<close>s that are never reduced, so the bound on \<open>first\<close> ends the
  life of a mailbox after 2147483647 messages.)
\<close>

theorem consumer_gets_message:
  assumes "(one_consumer c)\<^sup>*\<^sup>* (mbox_init junk) s" and "length junk = SYS_MBOX_SIZE"
    and "ms_pcs s c = Fetch_Wait k" and "mbox_contents (ms_mbox s) = m # ms" and "\<forall>t. \<not> holds_mutex (ms_pcs s t)"
    and "mb_first (ms_mbox s) < 2 ^ 31 - 1"
  shows "\<exists>s'. mbox_run\<^sup>*\<^sup>* s s' \<and> ms_pcs s' c = Fetched m \<and> mbox_contents (ms_mbox s') = ms \<and> (\<forall>t. t \<noteq> c \<longrightarrow> ms_pcs s' t = ms_pcs s t)"
proof -
  define mb where "mb = ms_mbox s"
  have i: "mbox_inv s" "wakeup_ok c s" using one_consumer_inv [OF assms(1,2)] by simp_all
  have no: "\<not> signalling (ms_pcs s t)" for t using assms(5) [rule_format, of t] by (cases "ms_pcs s t") auto
  have ne: "mb_not_empty mb = 1" using i(2) assms(3,4) no by (simp add: wakeup_ok_def mb_def)
  have mu: "mb_mutex mb = 1" using i(1) assms(5) by (auto simp: mbox_inv_def mutex_ok_def mb_def split: if_split_asm)
  have ring: "ring_ok mb" using i(1) by (simp add: mbox_inv_def mb_def)
  define mb2 where "mb2 = mb\<lparr>mb_not_empty := 0, mb_mutex := 0\<rparr>"
  have ring2: "ring_ok mb2" "mb_first mb2 \<noteq> mb_last mb2"
    using ring contents_Nil [OF ring] assms(4) by (auto simp: mb2_def mb_def)
  obtain m' mb3 where t: "mbox_take mb2 = Some (m', mb3)"
    using ring2 assms(6) by (auto simp: mbox_take_def ring_ok_def mb2_def mb_def bind_Some_iff c_int_def)
  have mt: "m' = m" "mbox_contents mb3 = ms"
    using mbox_take_spec(2) [OF t ring2(2,1)] assms(4) by (simp_all add: mb2_def mb_def)
  obtain s' where s': "mbox_sched [(c, None), (c, None), (c, None), (c, None), (c, None)] s = Some s'" "ms_pcs s' c = Fetched m"
    "mbox_contents (ms_mbox s') = ms" "\<forall>t. t \<noteq> c \<longrightarrow> ms_pcs s' t = ms_pcs s t"
    using assms(3) ne mu t [unfolded mb2_def] mt ring2(2) [unfolded mb2_def]
    by (cases "mb_wait_send mb3 = 0") (simp_all add: sem_wait_def mb_def [symmetric])
  then show ?thesis using mbox_sched_run [OF s'(1)] by blast
qed

text \<open>
  With two consumers a wake-up can be lost: \<open>not_empty\<close> is signalled only for the first message of an empty mailbox, and
  the semaphore does not count. Here both wait, two messages are posted, one consumer takes the first, and the
  other one sleeps although the second message is there; nothing but a new call can move any thread.
\<close>

definition lost_wakeup_schedule :: "(nat \<times> nat mbox_pc option) list" where
  "lost_wakeup_schedule =
     (1, Some (Fetch_Lock Fetch_Forever)) # replicate 3 (1, None) @ (2, Some (Fetch_Lock Fetch_Forever)) # replicate 3 (2, None) @
     (0, Some (Post_Lock False 11)) # replicate 4 (0, None) @ (0, Some (Post_Lock False 12)) # replicate 4 (0, None) @
     replicate 5 (1, None)"

lemma ex_lost:
  "case mbox_sched lost_wakeup_schedule (mbox_init (replicate SYS_MBOX_SIZE 0)) of None \<Rightarrow> False
   | Some s \<Rightarrow> mbox_contents (ms_mbox s) = [12] \<and> ms_pcs s 2 = Fetch_Wait Fetch_Forever \<and> mb_not_empty (ms_mbox s) = 0"
  by code_simp

lemma ms_idle_step: "mbox_idle pc \<Longrightarrow> mbox_step pc mb = None" by (cases pc) auto

lemma mailbox_lost_wakeup:
  "\<exists>s. mbox_run\<^sup>*\<^sup>* (mbox_init (replicate SYS_MBOX_SIZE 0)) s \<and> mbox_contents (ms_mbox s) = [12 :: nat] \<and>
     ms_pcs s 2 = Fetch_Wait Fetch_Forever \<and> mbox_step (ms_pcs s 2) (ms_mbox s) = None"
proof -
  obtain s where s: "mbox_sched lost_wakeup_schedule (mbox_init (replicate SYS_MBOX_SIZE 0)) = Some s"
    "mbox_contents (ms_mbox s) = [12]" "ms_pcs s 2 = Fetch_Wait Fetch_Forever" "mb_not_empty (ms_mbox s) = 0"
    using ex_lost by (auto split: option.split_asm)
  then show ?thesis using mbox_sched_run [OF s(1)] by (auto simp: sem_wait_def)
qed

text \<open>The properties at a mailbox with one message that thread 1 waits for.\<close>

definition ex_mbox_schedule :: "(nat \<times> nat mbox_pc option) list" where
  "ex_mbox_schedule =
     (1, Some (Fetch_Lock Fetch_Forever)) # replicate 3 (1, None) @ (0, Some (Post_Lock False 11)) # replicate 4 (0, None) @
     (0, Some (Post_Lock True 12)) # replicate 4 (0, None)"

lemma ex_mbox:
  "case mbox_sched ex_mbox_schedule (mbox_init (replicate SYS_MBOX_SIZE 0)) of None \<Rightarrow> False
   | Some s \<Rightarrow> mbox_contents (ms_mbox s) = [11, 12] \<and> ms_pcs s 1 = Fetch_Wait Fetch_Forever \<and> ms_pcs s 0 = Posted \<and>
       mb_mutex (ms_mbox s) = 1 \<and> mb_first (ms_mbox s) = 0 \<and> ms_got s = [] \<and> ring_ok (ms_mbox s)"
  by code_simp

lemma ex_mbox_run:
  obtains s where "(one_consumer 1)\<^sup>*\<^sup>* (mbox_init (replicate SYS_MBOX_SIZE 0)) s" "mbox_run\<^sup>*\<^sup>* (mbox_init (replicate SYS_MBOX_SIZE 0)) s"
    "mbox_contents (ms_mbox s) = [11, 12 :: nat]" "ms_pcs s 1 = Fetch_Wait Fetch_Forever" "ms_pcs s 0 = Posted"
    "mb_mutex (ms_mbox s) = 1" "mb_first (ms_mbox s) = 0" "ms_got s = []" "ring_ok (ms_mbox s)"
proof -
  obtain s where s: "mbox_sched ex_mbox_schedule (mbox_init (replicate SYS_MBOX_SIZE 0)) = Some s" "mbox_contents (ms_mbox s) = [11, 12]"
    "ms_pcs s 1 = Fetch_Wait Fetch_Forever" "ms_pcs s 0 = Posted" "mb_mutex (ms_mbox s) = 1" "mb_first (ms_mbox s) = 0" "ms_got s = []" "ring_ok (ms_mbox s)"
    using ex_mbox by (auto split: option.split_asm)
  have "(one_consumer 1)\<^sup>*\<^sup>* (mbox_init (replicate SYS_MBOX_SIZE 0)) s"
    by (rule mbox_sched_one [OF s(1)])
      (simp_all add: mbox_init_def sys_mbox_new_def ring_ok_def ex_mbox_schedule_def numeral_nat)
  then show thesis using that mbox_sched_run [OF s(1)] s(2-8) by blast
qed

theorem mailbox_delivers_witness:
  "\<exists>s. mbox_run\<^sup>*\<^sup>* (mbox_init (replicate SYS_MBOX_SIZE 0)) s \<and> ms_put s = [11, 12 :: nat]"
proof -
  obtain s where s: "mbox_run\<^sup>*\<^sup>* (mbox_init (replicate SYS_MBOX_SIZE 0)) s" "mbox_contents (ms_mbox s) = [11, 12 :: nat]" "ms_got s = []"
    by (rule ex_mbox_run)
  then show ?thesis using mailbox_delivers [OF s(1)] by auto
qed

theorem consumer_gets_message_witness:
  "\<exists>s s'. mbox_run\<^sup>*\<^sup>* s s' \<and> ms_pcs s 1 = Fetch_Wait Fetch_Forever \<and> ms_pcs s' 1 = Fetched (11 :: nat) \<and>
     mbox_contents (ms_mbox s') = [12]"
proof -
  obtain s where s: "(one_consumer 1)\<^sup>*\<^sup>* (mbox_init (replicate SYS_MBOX_SIZE 0)) s" "mbox_contents (ms_mbox s) = [11, 12 :: nat]"
    "ms_pcs s 1 = Fetch_Wait Fetch_Forever" "mb_mutex (ms_mbox s) = 1" "mb_first (ms_mbox s) = 0"
    by (rule ex_mbox_run)
  have "mutex_ok s" using one_consumer_inv [OF s(1)] by (simp add: mbox_inv_def)
  then have "\<forall>t. \<not> holds_mutex (ms_pcs s t)" using s(4) by (simp add: mutex_ok_def)
  then show ?thesis using consumer_gets_message [OF s(1) _ s(3,2)] s(3,5) by auto
qed

theorem mailbox_refines_fifo_witness:
  "\<exists>mb'. mbox_step (Post_Test True (11 :: nat)) (sys_mbox_new (replicate SYS_MBOX_SIZE 0)) = Some (Post_Signal True, mb') \<and>
     fifo_step 127 [11] [] [] (mbox_contents mb')"
proof -
  have ok: "ring_ok (sys_mbox_new (replicate SYS_MBOX_SIZE (0 :: nat)))" "mbox_contents (sys_mbox_new (replicate SYS_MBOX_SIZE (0 :: nat))) = []"
    by (simp_all add: ring_ok_def sys_mbox_new_def mbox_contents_def)
  obtain mb' where st: "mbox_step (Post_Test True (11 :: nat)) (sys_mbox_new (replicate SYS_MBOX_SIZE 0)) = Some (Post_Signal True, mb')"
    by (simp add: sys_mbox_new_def mbox_full_def mbox_put_def c_int_def)
  then show ?thesis using mailbox_refines_fifo [OF st ok(1)] ok(2) by auto
qed

end
