(* ===== verification/Timers.thy ===== *)
theory Timers
  imports Lwip_Base
begin

text \<open>
  The timeouts of \<^verbatim>\<open>src/timers.c\<close> for \<open>NO_SYS\<close>: a list sorted by the time at which they expire, in which
  each one holds the distance to the one before it, counted from \<open>timeouts_last_time\<close>; and the timer of TCP on top of it.
  The configuration of this repository sets \<open>NO_SYS_NO_TIMERS\<close>, so a program that uses the stack calls \<open>tcp_tmr\<close> itself, as
  \<^verbatim>\<open>test/udp/rudp.c\<close> does; the file is modelled as it is compiled without that option.
\<close>

section \<open>The list of timeouts\<close>

text \<open>\<open>struct sys_timeo\<close>: \<open>None\<close> is a handler that is \<open>NULL\<close>.\<close>

record sys_timeo =
  to_time :: u32
  to_h :: "nat option"
  to_arg :: nat

text \<open>
  \<open>tm_next\<close> is the list \<open>next_timeout\<close>, \<open>tm_last\<close> is \<open>timeouts_last_time\<close>, \<open>tm_tcp_active\<close> is
  \<open>tcpip_tcp_timer_active\<close>, \<open>tm_free\<close> is the number of free elements of the pool \<open>MEMP_SYS_TIMEOUT\<close>, \<open>tm_calls\<close> counts the calls of
  \<open>sys_now\<close>, whose values are a parameter, and \<open>tm_world\<close> is the state of the rest of the program.
\<close>

record 'w timers =
  tm_next :: "sys_timeo list"
  tm_last :: u32
  tm_tcp_active :: bool
  tm_free :: nat
  tm_calls :: nat
  tm_world :: 'w

type_synonym clock = "nat \<Rightarrow> u32"

definition read_clock :: "clock \<Rightarrow> 'w timers \<Rightarrow> u32 \<times> 'w timers" where
  "read_clock clock s = (clock (tm_calls s), s\<lparr>tm_calls := tm_calls s + 1\<rparr>)"

text \<open>The loop of \<open>sys_timeout\<close> that looks for the place of the new timeout.\<close>

fun timeo_insert :: "sys_timeo \<Rightarrow> sys_timeo list \<Rightarrow> sys_timeo list" where
  "timeo_insert timeout [] = []"
| "timeo_insert timeout (t # ts) =
     (let timeout1 = timeout\<lparr>to_time := to_time timeout - to_time t\<rparr> in
      case ts of
        [] \<Rightarrow> [t, timeout1]
      | n # ns \<Rightarrow> if to_time n > to_time timeout1
                 then t # timeout1 # n\<lparr>to_time := to_time n - to_time timeout1\<rparr> # ns
                 else t # timeo_insert timeout1 ts)"

definition sys_timeout :: "clock \<Rightarrow> u32 \<Rightarrow> nat option \<Rightarrow> nat \<Rightarrow> 'w timers \<Rightarrow> 'w timers option" where
  "sys_timeout clock msecs handler arg s = do {
     lwip_assert (0 < tm_free s);
     let (now, s1) = read_clock clock (s\<lparr>tm_free := tm_free s - 1\<rparr>);
     case tm_next s1 of
       [] \<Rightarrow> Some (s1\<lparr>tm_last := now, tm_next := [\<lparr>to_time = msecs, to_h = handler, to_arg = arg\<rparr>]\<rparr>)
     | t # ts \<Rightarrow>
         (let diff = now - tm_last s1;
              timeout = \<lparr>to_time = msecs + diff, to_h = handler, to_arg = arg\<rparr>
          in if to_time t > msecs
             then Some (s1\<lparr>tm_next := timeout # t\<lparr>to_time := to_time t - msecs\<rparr> # ts\<rparr>)
             else Some (s1\<lparr>tm_next := timeo_insert timeout (t # ts)\<rparr>))
   }"

text \<open>\<open>None\<close>: there is no such timeout.\<close>

fun timeo_remove :: "nat option \<Rightarrow> nat \<Rightarrow> sys_timeo list \<Rightarrow> sys_timeo list option" where
  "timeo_remove handler arg [] = None"
| "timeo_remove handler arg (t # ts) =
     (if to_h t = handler \<and> to_arg t = arg
      then Some (case ts of [] \<Rightarrow> [] | n # ns \<Rightarrow> n\<lparr>to_time := to_time n + to_time t\<rparr> # ns)
      else map_option ((#) t) (timeo_remove handler arg ts))"

definition sys_untimeout :: "nat option \<Rightarrow> nat \<Rightarrow> 'w timers \<Rightarrow> 'w timers" where
  "sys_untimeout handler arg s =
     (case timeo_remove handler arg (tm_next s) of
        None \<Rightarrow> s
      | Some ts \<Rightarrow> s\<lparr>tm_next := ts, tm_free := tm_free s + 1\<rparr>)"

section \<open>Running the handlers\<close>

text \<open>
  \<open>run\<close> gives the handlers (\<open>None\<close>: one that does not return), \<open>check_ooseq\<close> is \<open>PBUF_CHECK_FREE_OOSEQ\<close>. The loop ends only when no timeout
  is due, so it may run forever.
\<close>

partial_function (option) check_timeouts_loop ::
  "('w \<Rightarrow> 'w option) \<Rightarrow> (nat \<Rightarrow> nat \<Rightarrow> 'w timers \<Rightarrow> 'w timers option) \<Rightarrow> u32 \<Rightarrow> 'w timers \<Rightarrow> 'w timers option" where
  "check_timeouts_loop check_ooseq run diff s =
     Option.bind (check_ooseq (tm_world s)) (\<lambda>w.
       let s0 = s\<lparr>tm_world := w\<rparr> in
       case tm_next s0 of
         [] \<Rightarrow> Some s0
       | t # ts \<Rightarrow>
           if to_time t \<le> diff
           then Option.bind
             (case to_h t of
                None \<Rightarrow> Some (s0\<lparr>tm_last := tm_last s0 + to_time t, tm_next := ts, tm_free := tm_free s0 + 1\<rparr>)
              | Some h \<Rightarrow> run h (to_arg t) (s0\<lparr>tm_last := tm_last s0 + to_time t, tm_next := ts, tm_free := tm_free s0 + 1\<rparr>))
             (\<lambda>s1. check_timeouts_loop check_ooseq run (diff - to_time t) s1)
           else Some s0)"

definition sys_check_timeouts ::
  "clock \<Rightarrow> ('w \<Rightarrow> 'w option) \<Rightarrow> (nat \<Rightarrow> nat \<Rightarrow> 'w timers \<Rightarrow> 'w timers option) \<Rightarrow> 'w timers \<Rightarrow> 'w timers option" where
  "sys_check_timeouts clock check_ooseq run s =
     (if tm_next s = [] then Some s
      else let (now, s1) = read_clock clock s
           in check_timeouts_loop check_ooseq run (now - tm_last s1) s1)"

definition sys_restart_timeouts :: "clock \<Rightarrow> 'w timers \<Rightarrow> 'w timers" where
  "sys_restart_timeouts clock s = (let (now, s1) = read_clock clock s in s1\<lparr>tm_last := now\<rparr>)"

definition sys_timeouts_sleeptime :: "clock \<Rightarrow> 'w timers \<Rightarrow> u32 \<times> 'w timers" where
  "sys_timeouts_sleeptime clock s =
     (case tm_next s of
        [] \<Rightarrow> (0xffffffff, s)
      | t # _ \<Rightarrow>
          (let (now, s1) = read_clock clock s;
               diff = now - tm_last s1
           in (if diff > to_time t then 0 else to_time t - diff, s1)))"

section \<open>The timer of TCP\<close>

abbreviation TCP_TMR_INTERVAL :: u32 where "TCP_TMR_INTERVAL \<equiv> 250"

text \<open>The number that stands for the handler \<open>tcpip_tcp_timer\<close>.\<close>

definition tcp_timer_handler :: nat where "tcp_timer_handler = 0"

text \<open>
  \<open>pcbs\<close> says whether \<open>tcp_active_pcbs\<close> or \<open>tcp_tw_pcbs\<close> is not empty; \<open>tmr\<close> is \<open>tcp_tmr\<close>, which may register control blocks and so
  call \<open>tcp_timer_needed\<close>.
\<close>

definition tcpip_tcp_timer :: "clock \<Rightarrow> ('w \<Rightarrow> bool) \<Rightarrow> ('w timers \<Rightarrow> 'w timers option) \<Rightarrow> 'w timers \<Rightarrow> 'w timers option" where
  "tcpip_tcp_timer clock pcbs tmr s = do {
     s1 \<leftarrow> tmr s;
     if pcbs (tm_world s1) then sys_timeout clock TCP_TMR_INTERVAL (Some tcp_timer_handler) 0 s1
     else Some (s1\<lparr>tm_tcp_active := False\<rparr>)
   }"

definition tcp_timer_needed :: "clock \<Rightarrow> ('w \<Rightarrow> bool) \<Rightarrow> 'w timers \<Rightarrow> 'w timers option" where
  "tcp_timer_needed clock pcbs s =
     (if \<not> tm_tcp_active s \<and> pcbs (tm_world s)
      then sys_timeout clock TCP_TMR_INTERVAL (Some tcp_timer_handler) 0 (s\<lparr>tm_tcp_active := True\<rparr>)
      else Some s)"

text \<open>The call of a handler: the one of TCP, or one of the rest of the program.\<close>

definition call_handler ::
  "clock \<Rightarrow> ('w \<Rightarrow> bool) \<Rightarrow> ('w timers \<Rightarrow> 'w timers option) \<Rightarrow> (nat \<Rightarrow> nat \<Rightarrow> 'w timers \<Rightarrow> 'w timers option) \<Rightarrow>
   nat \<Rightarrow> nat \<Rightarrow> 'w timers \<Rightarrow> 'w timers option" where
  "call_handler clock pcbs tmr others h a s =
     (if h = tcp_timer_handler then tcpip_tcp_timer clock pcbs tmr s else others h a s)"

section \<open>When timeouts expire\<close>

text \<open>The timeouts with the distance of each one to \<open>timeouts_last_time\<close>.\<close>

fun expiries :: "nat \<Rightarrow> sys_timeo list \<Rightarrow> (nat \<times> nat option \<times> nat) list" where
  "expiries b [] = []"
| "expiries b (t # ts) = (b + unat (to_time t), to_h t, to_arg t) # expiries (b + unat (to_time t)) ts"

lemma expiries_ge: "e \<in> set (expiries b ts) \<Longrightarrow> b \<le> fst e"
  by (induction ts arbitrary: b) force+

lemma expiries_shift: "expiries (b + c) ts = map (\<lambda>(d, x). (d + c, x)) (expiries b ts)"
proof (induction ts arbitrary: b)
  case (Cons t ts)
  show ?case using Cons.IH [of "b + unat (to_time t)"] by (simp add: ac_simps)
qed simp

lemma expiries_drop: "\<forall>e \<in> set (expiries b ts). \<not> fst e \<le> d \<Longrightarrow> dropWhile (\<lambda>e. fst e \<le> d) (expiries b ts) = expiries b ts \<and> takeWhile (\<lambda>e. fst e \<le> d) (expiries b ts) = []"
  by (cases "expiries b ts") auto

lemma timeo_insert_expiries:
  assumes "ts \<noteq> []" and "to_time (hd ts) \<le> to_time x"
  shows "expiries b (timeo_insert x ts) =
    (let d = b + unat (to_time x); es = expiries b ts
     in takeWhile (\<lambda>e. fst e \<le> d) es @ (d, to_h x, to_arg x) # dropWhile (\<lambda>e. fst e \<le> d) es)"
  using assms
proof (induction x ts arbitrary: b rule: timeo_insert.induct)
  case (2 x t ts)
  have le: "to_time t \<le> to_time x" using "2.prems"(2) by simp
  have r: "unat (to_time x - to_time t) = unat (to_time x) - unat (to_time t)" "unat (to_time t) \<le> unat (to_time x)"
    using le by (simp_all add: unat_sub word_le_nat_alt)
  show ?case
  proof (cases ts)
    case Nil
    then show ?thesis using r by (simp add: Let_def)
  next
    case (Cons n ns)
    show ?thesis
    proof (cases "to_time n > to_time x - to_time t")
      case True
      then have g: "unat (to_time x) - unat (to_time t) < unat (to_time n)"
        "unat (to_time n - (to_time x - to_time t)) = unat (to_time n) - (unat (to_time x) - unat (to_time t))"
        using r by (simp_all add: word_less_nat_alt unat_sub word_le_nat_alt)
      then have g3: "\<not> unat (to_time t) + unat (to_time n) \<le> unat (to_time x)" using r by linarith
      have g4: "b + (unat (to_time n) + unat (to_time t)) = b + unat (to_time t) + unat (to_time n)" by simp
      show ?thesis using Cons True r g g3 by (simp add: Let_def g4)
    next
      case False
      have n: "unat (to_time n) \<le> unat (to_time x) - unat (to_time t)" using False r by (simp add: word_less_nat_alt)
      let ?x = "x\<lparr>to_time := to_time x - to_time t\<rparr>"
      have step: "timeo_insert x (t # ts) = t # timeo_insert ?x ts" using Cons False by simp
      have "expiries (b + unat (to_time t)) (timeo_insert ?x ts) =
          (let d = b + unat (to_time t) + unat (to_time ?x); es = expiries (b + unat (to_time t)) ts
           in takeWhile (\<lambda>e. fst e \<le> d) es @ (d, to_h ?x, to_arg ?x) # dropWhile (\<lambda>e. fst e \<le> d) es)"
        by (rule "2.IH" [OF refl Cons]) (use Cons False in simp_all)
      moreover have d: "b + unat (to_time t) + unat (to_time ?x) = b + unat (to_time x)" using r by simp
      ultimately have "expiries (b + unat (to_time t)) (timeo_insert ?x ts) =
          takeWhile (\<lambda>e. fst e \<le> b + unat (to_time x)) (expiries (b + unat (to_time t)) ts) @
          (b + unat (to_time x), to_h x, to_arg x) # dropWhile (\<lambda>e. fst e \<le> b + unat (to_time x)) (expiries (b + unat (to_time t)) ts)"
        unfolding d Let_def by simp
      then show ?thesis unfolding step using r(2) by (simp add: Let_def)
    qed
  qed
qed simp

lemma timeo_remove_expiries:
  assumes "timeo_remove h a ts = Some ts'" and "sum_list (map (unat \<circ> to_time) ts) < 2 ^ 32"
  shows "\<exists>pre e post. expiries b ts = pre @ e # post \<and> snd e = (h, a) \<and> (\<forall>e' \<in> set pre. snd e' \<noteq> (h, a)) \<and>
    expiries b ts' = pre @ post"
  using assms
proof (induction ts arbitrary: b ts')
  case (Cons t ts)
  show ?case
  proof (cases "to_h t = h \<and> to_arg t = a")
    case True
    have "expiries b ts' = expiries (b + unat (to_time t)) ts"
    proof (cases ts)
      case (Cons n ns)
      then have "unat (to_time n + to_time t) = unat (to_time n) + unat (to_time t)"
        using Cons.prems(2) by (intro unat_add_lem [THEN iffD1]) simp
      then show ?thesis using Cons.prems(1) True Cons by (auto simp: ac_simps)
    qed (use Cons.prems(1) True in simp)
    then show ?thesis using True by (intro exI [of _ "[]"]) simp
  next
    case False
    then obtain ts1 where ts1: "timeo_remove h a ts = Some ts1" "ts' = t # ts1" using Cons.prems(1) by auto
    have "sum_list (map (unat \<circ> to_time) ts) < 2 ^ 32" using Cons.prems(2) by (simp add: o_def)
    then obtain pre e post where ih: "expiries (b + unat (to_time t)) ts = pre @ e # post" "snd e = (h, a)"
      "\<forall>e' \<in> set pre. snd e' \<noteq> (h, a)" "expiries (b + unat (to_time t)) ts1 = pre @ post"
      using Cons.IH [OF ts1(1), of "b + unat (to_time t)"] by blast
    then show ?thesis using False ts1(2) by (intro exI [of _ "(b + unat (to_time t), to_h t, to_arg t) # pre"]) auto
  qed
qed simp

text \<open>The number of timeouts at the front that expire at the time of the last one that was run.\<close>

definition zeros :: "'w timers \<Rightarrow> nat" where
  "zeros s = length (takeWhile (\<lambda>t. to_time t = 0) (tm_next s))"

section \<open>Properties\<close>

text \<open>
  C39: Where \<open>sys_timeout\<close> puts a timeout. With \<open>d\<close> the time from \<open>timeouts_last_time\<close> to the requested one, the timeout is
  inserted behind those that expire at \<open>d\<close> or before and all others keep their times, except when the first one is more
  than \<open>msecs\<close> away from \<open>timeouts_last_time\<close>: then the new timeout goes in front of it, and every other timeout is delayed by the time that has passed since
  \<open>timeouts_last_time\<close> (the test and the subtraction use \<open>msecs\<close> where they should use \<open>timeout->time\<close>).
\<close>

theorem sys_timeout_expiries:
  assumes "sys_timeout clock msecs h a s = Some s'" and "tm_next s \<noteq> []"
    and "unat msecs + unat (clock (tm_calls s) - tm_last s) < 2 ^ 32"
  shows "let passed = unat (clock (tm_calls s) - tm_last s); d = unat msecs + passed; es = expiries 0 (tm_next s)
    in tm_last s' = tm_last s \<and>
       expiries 0 (tm_next s') =
         (if unat msecs < fst (hd es) then (d, h, a) # map (\<lambda>(e, x). (e + passed, x)) es
          else takeWhile (\<lambda>e. fst e \<le> d) es @ (d, h, a) # dropWhile (\<lambda>e. fst e \<le> d) es)"
proof -
  obtain t ts where ts: "tm_next s = t # ts" using assms(2) by (cases "tm_next s") auto
  define diff where "diff = clock (tm_calls s) - tm_last s"
  define x where "x = \<lparr>to_time = msecs + diff, to_h = h, to_arg = a\<rparr>"
  have d: "unat (msecs + diff) = unat msecs + unat diff"
    using assms(3) by (intro unat_add_lem [THEN iffD1]) (simp add: diff_def)
  have s': "tm_next s' = (if to_time t > msecs then x # t\<lparr>to_time := to_time t - msecs\<rparr> # ts else timeo_insert x (t # ts))"
    "tm_last s' = tm_last s"
    using assms(1) ts by (auto simp: sys_timeout_def read_clock_def Let_def x_def diff_def split: if_split_asm)
  have lt: "to_time t > msecs \<longleftrightarrow> unat msecs < unat (to_time t)" by (simp add: word_less_nat_alt)
  show ?thesis
  proof (cases "to_time t > msecs")
    case True
    have u: "unat (to_time t - msecs) = unat (to_time t) - unat msecs" using True by (simp add: unat_sub)
    have sum: "unat msecs + unat diff + (unat (to_time t) - unat msecs) = unat diff + unat (to_time t)" using True lt by linarith
    then have "expiries (unat msecs + unat diff + (unat (to_time t) - unat msecs)) ts =
        map (\<lambda>(e, x). (e + unat diff, x)) (expiries (unat (to_time t)) ts)"
      using expiries_shift [of "unat (to_time t)" "unat diff" ts] by (simp add: add.commute)
    then show ?thesis using True s' lt d u ts sum by (simp add: Let_def x_def diff_def [symmetric] add.commute)
  next
    case False
    have "to_time t \<le> msecs + diff" using False d by (simp add: word_le_nat_alt word_less_nat_alt)
    then have "expiries 0 (timeo_insert x (t # ts)) = (let d = 0 + unat (to_time x); es = expiries 0 (t # ts)
       in takeWhile (\<lambda>e. fst e \<le> d) es @ (d, to_h x, to_arg x) # dropWhile (\<lambda>e. fst e \<le> d) es)"
      by (intro timeo_insert_expiries) (simp_all add: x_def)
    then show ?thesis using False s' lt d ts by (simp add: Let_def x_def diff_def [symmetric])
  qed
qed

text \<open>
  A timeout of 100 ms (handler 2) that is started 400 ms after \<open>timeouts_last_time\<close> delays one that is due at 450 ms (handler 1): it now
  expires at 850 ms, after the new one, which expires at 500 ms.
\<close>

definition ex_timers :: "nat list timers" where
  "ex_timers = \<lparr>tm_next = [\<lparr>to_time = 450, to_h = Some 1, to_arg = 0\<rparr>], tm_last = 1000, tm_tcp_active = False, tm_free = 3, tm_calls = 0, tm_world = []\<rparr>"

theorem sys_timeout_expiries_witness:
  "\<exists>s'. sys_timeout (\<lambda>_. 1400) 100 (Some 2) 0 ex_timers = Some s' \<and>
    expiries 0 (tm_next s') = [(500, Some 2, 0), (850, Some 1, 0)]"
proof -
  obtain s' where s': "sys_timeout (\<lambda>_. 1400) 100 (Some 2) 0 ex_timers = Some s'"
    by (simp add: sys_timeout_def ex_timers_def read_clock_def)
  show ?thesis
    using sys_timeout_expiries [OF s'] s' by (simp add: ex_timers_def Let_def)
qed

text \<open>
  \<open>sys_untimeout\<close> removes the first timeout with the given handler and argument and moves no other one: the rest of
  the list expires when it would have.
\<close>

theorem sys_untimeout_keeps_others:
  assumes "sum_list (map (unat \<circ> to_time) (tm_next s)) < 2 ^ 32"
  shows "if (h, a) \<in> snd ` set (expiries 0 (tm_next s))
    then (\<exists>pre e post. expiries 0 (tm_next s) = pre @ e # post \<and> snd e = (h, a) \<and> (\<forall>e' \<in> set pre. snd e' \<noteq> (h, a)) \<and>
       expiries 0 (tm_next (sys_untimeout h a s)) = pre @ post \<and> tm_free (sys_untimeout h a s) = tm_free s + 1)
    else sys_untimeout h a s = s"
proof -
  have none: "timeo_remove h a ts = None \<longleftrightarrow> (h, a) \<notin> snd ` set (expiries b ts)" for b ts
    by (induction ts arbitrary: b) (auto simp: image_iff)
  show ?thesis
  proof (cases "timeo_remove h a (tm_next s)")
    case None
    then show ?thesis using none [of "tm_next s" 0] by (simp add: sys_untimeout_def)
  next
    case (Some ts')
    then show ?thesis
      using none [of "tm_next s" 0] timeo_remove_expiries [OF Some assms, of 0] by (auto simp: sys_untimeout_def)
  qed
qed

theorem sys_untimeout_keeps_others_witness:
  "\<exists>s :: nat list timers. expiries 0 (tm_next s) = [(50, Some 1, 0), (80, Some 2, 0), (90, Some 1, 0)] \<and>
     expiries 0 (tm_next (sys_untimeout (Some 2) 0 s)) = [(50, Some 1, 0), (90, Some 1, 0)]"
proof -
  define s where "s = ex_timers\<lparr>tm_next := [\<lparr>to_time = 50, to_h = Some 1, to_arg = 0\<rparr>, \<lparr>to_time = 30, to_h = Some 2, to_arg = 0\<rparr>,
    \<lparr>to_time = 10, to_h = Some 1, to_arg = 0\<rparr>]\<rparr>"
  have e: "expiries 0 (tm_next s) = [(50, Some 1, 0), (80, Some 2, 0), (90, Some 1, 0)]" by (simp add: s_def)
  obtain pre e1 post where p: "expiries 0 (tm_next s) = pre @ e1 # post" "snd e1 = (Some 2, 0)" "\<forall>e' \<in> set pre. snd e' \<noteq> (Some 2, 0)"
    "expiries 0 (tm_next (sys_untimeout (Some 2) 0 s)) = pre @ post"
    using sys_untimeout_keeps_others [of s "Some 2" 0] e by (auto simp: s_def)
  have "pre = [(50, Some 1, 0)] \<and> post = [(90, Some 1, 0)]"
    using p(1-3) unfolding e by (auto simp: Cons_eq_append_conv)
  then show ?thesis using e p(4) by (intro exI [of _ s]) simp
qed

lemma check_timeouts_due:
  assumes "check_ooseq (tm_world s) = Some w" and "tm_next s = t # ts" and "to_time t \<le> diff"
  defines "s0 \<equiv> s\<lparr>tm_world := w, tm_last := tm_last s + to_time t, tm_next := ts, tm_free := tm_free s + 1\<rparr>"
  shows "check_timeouts_loop check_ooseq run diff s =
    Option.bind (case to_h t of None \<Rightarrow> Some s0 | Some h \<Rightarrow> run h (to_arg t) s0) (check_timeouts_loop check_ooseq run (diff - to_time t))"
  using assms(1-3) by (subst check_timeouts_loop.simps, cases "to_h t") (simp_all add: Let_def s0_def)

lemma check_timeouts_idle:
  assumes "check_ooseq (tm_world s) = Some w" and "tm_next s = [] \<or> diff < to_time (hd (tm_next s))"
  shows "check_timeouts_loop check_ooseq run diff s = Some (s\<lparr>tm_world := w\<rparr>)"
  using assms by (subst check_timeouts_loop.simps, cases "tm_next s") (auto simp: Let_def)

text \<open>
  What a run of the loop needs of the handlers. \<open>I\<close> holds in the states the run passes through: the hook and the removal of a timeout
  without a handler keep it, and a handler that is called after its timeout was taken off the list returns, keeps it and leaves no more
  timeouts with distance 0 at the front than it found.
\<close>

definition due_state :: "'w timers \<Rightarrow> 'w timers" where
  "due_state s = s\<lparr>tm_last := tm_last s + to_time (hd (tm_next s)), tm_next := tl (tm_next s), tm_free := tm_free s + 1\<rparr>"

definition handlers_return ::
  "('w timers \<Rightarrow> bool) \<Rightarrow> ('w \<Rightarrow> 'w option) \<Rightarrow> (nat \<Rightarrow> nat \<Rightarrow> 'w timers \<Rightarrow> 'w timers option) \<Rightarrow> bool" where
  "handlers_return I check_ooseq run \<longleftrightarrow>
     (\<forall>s. I s \<longrightarrow> (\<exists>w. check_ooseq (tm_world s) = Some w \<and> I (s\<lparr>tm_world := w\<rparr>))) \<and>
     (\<forall>s. I s \<longrightarrow> tm_next s \<noteq> [] \<longrightarrow>
        (case to_h (hd (tm_next s)) of
           None \<Rightarrow> I (due_state s)
         | Some h \<Rightarrow> \<exists>s'. run h (to_arg (hd (tm_next s))) (due_state s) = Some s' \<and> I s' \<and> zeros s' \<le> zeros (due_state s)))"

lemma check_timeouts_loop_returns:
  assumes "handlers_return I check_ooseq run" and "I s"
  shows "\<exists>s'. check_timeouts_loop check_ooseq run diff s = Some s' \<and> I s'"
proof -
  have "wf (inv_image (less_than <*lex*> less_than) (\<lambda>(diff :: u32, s). (unat diff, zeros s)))" by auto
  then show ?thesis using assms(2)
  proof (induction "(diff, s)" arbitrary: diff s rule: wf_induct_rule)
    case less
    obtain w where w: "check_ooseq (tm_world s) = Some w" "I (s\<lparr>tm_world := w\<rparr>)"
      using assms(1) less.prems unfolding handlers_return_def by blast
    show ?case
    proof (cases "tm_next s")
      case Nil
      then show ?thesis using check_timeouts_idle [of check_ooseq s w diff run] w by simp
    next
      case (Cons t ts)
      show ?thesis
      proof (cases "to_time t \<le> diff")
        case False
        then show ?thesis using check_timeouts_idle [of check_ooseq s w diff run] w Cons by simp
      next
        case True
        define s0 where "s0 = s\<lparr>tm_world := w, tm_last := tm_last s + to_time t, tm_next := ts, tm_free := tm_free s + 1\<rparr>"
        have s0: "due_state (s\<lparr>tm_world := w\<rparr>) = s0" using Cons by (simp add: due_state_def s0_def)
        have "case to_h t of None \<Rightarrow> I s0 | Some h \<Rightarrow> \<exists>s'. run h (to_arg t) s0 = Some s' \<and> I s' \<and> zeros s' \<le> zeros s0"
          using assms(1) [unfolded handlers_return_def, THEN conjunct2, rule_format, OF w(2)] Cons unfolding s0 by (cases "to_h t") simp_all
        then obtain s1 where s1: "(case to_h t of None \<Rightarrow> Some s0 | Some h \<Rightarrow> run h (to_arg t) s0) = Some s1" "zeros s1 \<le> zeros s0" "I s1"
          by (cases "to_h t") auto
        have "((diff - to_time t, s1), (diff, s)) \<in> inv_image (less_than <*lex*> less_than) (\<lambda>(diff, s). (unat diff, zeros s))"
        proof (cases "to_time t = 0")
          case True
          then have "zeros s0 < zeros s" using Cons by (simp add: zeros_def s0_def)
          then show ?thesis using True s1(2) by simp
        next
          case False
          then have "unat (diff - to_time t) < unat diff"
            using True by (simp add: unat_sub word_le_nat_alt) (metis diff_less gr0I le_0_eq unat_eq_0)
          then show ?thesis by simp
        qed
        from less.hyps [OF this s1(3)] show ?thesis
          using check_timeouts_due [of check_ooseq s w t ts diff run] w Cons True s1(1) [unfolded s0_def] by simp
      qed
    qed
  qed
qed

text \<open>
  C38: \<open>sys_check_timeouts\<close> returns. Whatever the clock says, its loop ends if, in the states it passes through, every handler returns and leaves no more
  timeouts with distance 0 at the front of the list than it found: each round uses up time or such a timeout. The states are
  described by an invariant \<open>I\<close>, which holds in the end too. A program whose only timeout is the one of TCP is an instance
  (\<open>tcp_timer_alone\<close>): \<open>tcpip_tcp_timer\<close> restarts itself as long as there are connections, and the loop ends all the same.
\<close>

theorem sys_check_timeouts_returns:
  assumes "handlers_return I check_ooseq run" and "\<And>n. I (s\<lparr>tm_calls := n\<rparr>)"
  shows "\<exists>s'. sys_check_timeouts clock check_ooseq run s = Some s' \<and> I s'"
  using check_timeouts_loop_returns [OF assms(1,2)] assms(2) [of "tm_calls s"] by (simp add: sys_check_timeouts_def read_clock_def Let_def)

lemma timeo_insert_zeros: "to_time x \<noteq> 0 \<Longrightarrow> to_time (hd ts) \<le> to_time x \<Longrightarrow> 
    length (takeWhile (\<lambda>t. to_time t = 0) (timeo_insert x ts)) \<le> length (takeWhile (\<lambda>t. to_time t = 0) ts)"
proof (induction x ts rule: timeo_insert.induct)
  case (2 x t ts)
  show ?case
  proof (cases "to_time t = 0")
    case False
    then show ?thesis by (auto simp: Let_def split: list.split)
  next
    case True
    show ?thesis
    proof (cases ts)
      case Nil
      then show ?thesis using True "2.prems" by simp
    next
      case (Cons n ns)
      show ?thesis
      proof (cases "to_time n > to_time x")
        case True
        then show ?thesis using \<open>to_time t = 0\<close> Cons "2.prems" by (simp add: Let_def)
      next
        case False
        let ?x = "x\<lparr>to_time := to_time x - to_time t\<rparr>"
        have "length (takeWhile (\<lambda>t. to_time t = 0) (timeo_insert ?x ts)) \<le> length (takeWhile (\<lambda>t. to_time t = 0) ts)"
          by (rule "2.IH" [OF refl Cons]) (use True False Cons "2.prems" in simp_all)
        moreover have "timeo_insert x (t # ts) = t # timeo_insert ?x ts" using Cons False True by simp
        ultimately show ?thesis using True by simp
      qed
    qed
  qed
qed simp

text \<open>Starting a timeout with an interval above 0 puts none with distance 0 at the front.\<close>

lemma sys_timeout_zeros:
  assumes "sys_timeout clock msecs h a s = Some s'" and "0 < msecs" and "unat msecs + unat (clock (tm_calls s) - tm_last s) < 2 ^ 32"
  shows "zeros s' \<le> zeros s"
proof -
  define x where "x = \<lparr>to_time = msecs + (clock (tm_calls s) - tm_last s), to_h = h, to_arg = a\<rparr>"
  have "unat (to_time x) = unat msecs + unat (clock (tm_calls s) - tm_last s)"
    using unat_add_lem [THEN iffD1, of msecs "clock (tm_calls s) - tm_last s"] assms(3) by (simp add: x_def)
  then have x: "to_time x \<noteq> 0" "msecs \<le> to_time x" using assms(2) by (auto simp: word_le_nat_alt word_less_nat_alt)
  show ?thesis
  proof (cases "tm_next s")
    case Nil
    then show ?thesis using assms(1,2) by (auto simp: sys_timeout_def read_clock_def Let_def zeros_def)
  next
    case (Cons t ts)
    then have s': "tm_next s' = (if to_time t > msecs then x # t\<lparr>to_time := to_time t - msecs\<rparr> # ts else timeo_insert x (tm_next s))"
      using assms(1) by (auto simp: sys_timeout_def read_clock_def Let_def x_def split: if_split_asm)
    show ?thesis
    proof (cases "to_time t > msecs")
      case True
      then show ?thesis using s' x by (simp add: zeros_def)
    next
      case False
      then show ?thesis using s' x(1) timeo_insert_zeros [of x "tm_next s"] x(2) Cons by (simp add: zeros_def)
    qed
  qed
qed

text \<open>The program whose only timeout is the one of TCP; \<open>tcp_tmr\<close> returns and does not touch the timeouts.\<close>

definition tcp_alone :: "'w timers \<Rightarrow> bool" where
  "tcp_alone s \<longleftrightarrow> tm_next s = [] \<or> (\<exists>t. tm_next s = [t] \<and> to_h t = Some tcp_timer_handler)"

lemma tcp_timer_alone:
  assumes "\<And>s. \<exists>w. tmr s = Some (s\<lparr>tm_world := w\<rparr>)"
  shows "handlers_return tcp_alone Some (call_handler clock pcbs tmr others)"
proof -
  have run: "\<exists>s'. call_handler clock pcbs tmr others tcp_timer_handler a s = Some s' \<and> tcp_alone s' \<and> zeros s' = 0"
    if "tm_next s = []" "0 < tm_free s" for a s
  proof -
    obtain w where "tmr s = Some (s\<lparr>tm_world := w\<rparr>)" using assms by blast
    then show ?thesis
      using that by (simp add: call_handler_def tcpip_tcp_timer_def sys_timeout_def read_clock_def Let_def tcp_alone_def zeros_def)
  qed
  have "case to_h (hd (tm_next s)) of None \<Rightarrow> tcp_alone (due_state s)
      | Some h \<Rightarrow> \<exists>s'. call_handler clock pcbs tmr others h (to_arg (hd (tm_next s))) (due_state s) = Some s' \<and> tcp_alone s' \<and>
          zeros s' \<le> zeros (due_state s)"
    if alone: "tcp_alone s" "tm_next s \<noteq> []" for s
  proof -
    obtain t where t: "tm_next s = [t]" "to_h t = Some tcp_timer_handler" using alone by (auto simp: tcp_alone_def)
    have "tm_next (due_state s) = []" "0 < tm_free (due_state s)" using t(1) by (simp_all add: due_state_def)
    from run [OF this, of "to_arg t"] show ?thesis using t by auto
  qed
  then show ?thesis by (simp add: handlers_return_def tcp_alone_def)
qed

text \<open>
  A connection stays open, so the timer is restarted every time: 1300 ms late, with the pool of timeouts used up, the loop calls it six
  times and ends with the timer in the list.
\<close>

definition ex_tcp_timer :: "nat timers" where
  "ex_tcp_timer = \<lparr>tm_next = [\<lparr>to_time = 100, to_h = Some tcp_timer_handler, to_arg = 0\<rparr>], tm_last = 1000, tm_tcp_active = True,
     tm_free = 0, tm_calls = 0, tm_world = 0\<rparr>"

definition ex_run :: "nat \<Rightarrow> nat \<Rightarrow> nat timers \<Rightarrow> nat timers option" where
  "ex_run = call_handler (\<lambda>n. 2400 + of_nat n) (\<lambda>w. True) (\<lambda>s. Some (s\<lparr>tm_world := tm_world s + 1\<rparr>)) (\<lambda>h a s. None)"

lemma ex_run_six:
  "map_option tm_world (sys_check_timeouts (\<lambda>n. 2400 + of_nat n) Some ex_run ex_tcp_timer) = Some 6"
  by (simp add: sys_check_timeouts_def read_clock_def ex_tcp_timer_def Let_def,
      (subst check_timeouts_loop.simps, simp add: ex_run_def call_handler_def tcpip_tcp_timer_def sys_timeout_def read_clock_def Let_def)+)

theorem sys_check_timeouts_returns_witness:
  "\<exists>s'. sys_check_timeouts (\<lambda>n. 2400 + of_nat n) Some ex_run ex_tcp_timer = Some s' \<and> tcp_alone s' \<and> tm_world s' = 6"
proof -
  have "\<exists>s'. sys_check_timeouts (\<lambda>n. 2400 + of_nat n) Some ex_run ex_tcp_timer = Some s' \<and> tcp_alone s'"
    unfolding ex_run_def by (rule sys_check_timeouts_returns [OF tcp_timer_alone]) (auto simp: tcp_alone_def ex_tcp_timer_def)
  then show ?thesis using ex_run_six by auto
qed

definition log_handler :: "nat \<Rightarrow> nat \<Rightarrow> (nat \<times> nat) list timers \<Rightarrow> (nat \<times> nat) list timers option" where
  "log_handler h a s = Some (s\<lparr>tm_world := tm_world s @ [(h, a)]\<rparr>)"

fun named_handlers :: "(nat \<times> nat option \<times> nat) list \<Rightarrow> (nat \<times> nat) list" where
  "named_handlers [] = []"
| "named_handlers ((d, None, a) # es) = named_handlers es"
| "named_handlers ((d, Some h, a) # es) = (h, a) # named_handlers es"

lemma named_handlers_shift: "named_handlers (map (\<lambda>(d, x). (d + c, x)) es) = named_handlers es"
  by (induction es rule: named_handlers.induct) auto

lemma while_shift:
  assumes "c \<le> (d :: nat)"
  shows "takeWhile (\<lambda>e. fst e \<le> d) (map (\<lambda>(e, x). (e + c, x)) es) = map (\<lambda>(e, x). (e + c, x)) (takeWhile (\<lambda>e. fst e \<le> d - c) es)"
    and "dropWhile (\<lambda>e. fst e \<le> d) (map (\<lambda>(e, x). (e + c, x)) es) = map (\<lambda>(e, x). (e + c, x)) (dropWhile (\<lambda>e. fst e \<le> d - c) es)"
  using assms by (induction es) auto

lemma check_timeouts_log:
  assumes "due = takeWhile (\<lambda>e. fst e \<le> unat diff) (expiries 0 (tm_next s))"
    and "moved = (if due = [] then 0 else fst (last due))"
  shows "\<exists>s'. check_timeouts_loop Some log_handler diff s = Some s' \<and> tm_world s' = tm_world s @ named_handlers due \<and>
    tm_free s' = tm_free s + length due \<and> tm_last s' = tm_last s + of_nat moved \<and>
    map (\<lambda>(d, x). (d + moved, x)) (expiries 0 (tm_next s')) = dropWhile (\<lambda>e. fst e \<le> unat diff) (expiries 0 (tm_next s))"
  using assms
proof (induction "tm_next s" arbitrary: s diff due moved)
  case Nil
  then show ?case using check_timeouts_idle [of Some s "tm_world s"] by simp
next
  case (Cons t ts)
  show ?case
  proof (cases "to_time t \<le> diff")
    case False
    then have "check_timeouts_loop Some log_handler diff s = Some s"
      using check_timeouts_idle [of Some s "tm_world s" diff log_handler] Cons.hyps(2) [symmetric] by simp
    then show ?thesis using False Cons.hyps(2) [symmetric] Cons.prems by (simp add: word_le_nat_alt)
  next
    case True
    define s0 where "s0 = s\<lparr>tm_world := tm_world s, tm_last := tm_last s + to_time t, tm_next := ts, tm_free := tm_free s + 1\<rparr>"
    define s1 where "s1 = (case to_h t of None \<Rightarrow> s0 | Some h \<Rightarrow> s0\<lparr>tm_world := tm_world s @ [(h, to_arg t)]\<rparr>)"
    have s1: "ts = tm_next s1" "tm_free s1 = tm_free s + 1" "tm_last s1 = tm_last s + to_time t"
      "tm_world s1 = tm_world s @ named_handlers [(unat (to_time t), to_h t, to_arg t)]"
      by (cases "to_h t"; simp add: s1_def s0_def)+
    let ?es = "expiries 0 ts" and ?sh = "\<lambda>(e, x). (e + unat (to_time t), x)"
    have u: "unat (diff - to_time t) = unat diff - unat (to_time t)" "unat (to_time t) \<le> unat diff"
      using True by (simp_all add: unat_sub word_le_nat_alt)
    define due1 where "due1 = takeWhile (\<lambda>e. fst e \<le> unat (diff - to_time t)) ?es"
    define moved1 where "moved1 = (if due1 = [] then 0 else fst (last due1))"
    obtain s' where s': "check_timeouts_loop Some log_handler (diff - to_time t) s1 = Some s'" "tm_world s' = tm_world s1 @ named_handlers due1"
      "tm_free s' = tm_free s1 + length due1" "tm_last s' = tm_last s1 + of_nat moved1"
      "map (\<lambda>(d, x). (d + moved1, x)) (expiries 0 (tm_next s')) = dropWhile (\<lambda>e. fst e \<le> unat (diff - to_time t)) ?es"
      using Cons.hyps(1) [OF s1(1), of due1 "diff - to_time t" moved1] s1(1) by (auto simp: due1_def moved1_def)
    have l: "check_timeouts_loop Some log_handler diff s = Some s'"
      using check_timeouts_due [of Some s "tm_world s" t ts diff log_handler] Cons.hyps(2) True s'(1)
      by (cases "to_h t") (simp_all add: log_handler_def s1_def s0_def)
    have es: "expiries 0 (tm_next s) = (unat (to_time t), to_h t, to_arg t) # map ?sh ?es"
      using Cons.hyps(2) [symmetric] expiries_shift [of 0 "unat (to_time t)" ts] by simp
    have due: "due = (unat (to_time t), to_h t, to_arg t) # map ?sh due1"
      using Cons.prems(1) u while_shift(1) [OF u(2), of ?es] by (simp add: es due1_def)
    have moved: "moved = moved1 + unat (to_time t)"
      using Cons.prems(2) by (auto simp: due moved1_def last_map case_prod_beta)
    have rest: "dropWhile (\<lambda>e. fst e \<le> unat diff) (expiries 0 (tm_next s)) = map ?sh (dropWhile (\<lambda>e. fst e \<le> unat (diff - to_time t)) ?es)"
      using u while_shift(2) [OF u(2), of ?es] by (simp add: es)
    have "named_handlers due = named_handlers [(unat (to_time t), to_h t, to_arg t)] @ named_handlers due1"
      using named_handlers_shift [of "unat (to_time t)" due1] by (cases "to_h t") (simp_all add: due)
    moreover have "map (\<lambda>(d, x). (d + moved, x)) (expiries 0 (tm_next s')) = map ?sh (map (\<lambda>(d, x). (d + moved1, x)) (expiries 0 (tm_next s')))"
      by (simp add: moved case_prod_beta o_def)
    ultimately show ?thesis
      using l s' s1 rest by (intro exI [of _ s']) (simp add: due moved)
  qed
qed

text \<open>
  C37: \<open>sys_check_timeouts\<close> runs exactly the handlers that are due, in the order of their times. With handlers that record their
  argument and leave the timeouts alone, it runs those whose time has come at the time the clock shows
  (a handler that is \<open>NULL\<close> is dropped), frees their elements, and the others expire when they would have: \<open>timeouts_last_time\<close> moves by as much as
  the times in the list are reduced.
\<close>

theorem sys_check_timeouts_order:
  assumes "tm_next s \<noteq> []"
  shows "let passed = unat (clock (tm_calls s) - tm_last s); es = expiries 0 (tm_next s);
       due = takeWhile (\<lambda>e. fst e \<le> passed) es; moved = (if due = [] then 0 else fst (last due))
    in \<exists>s'. sys_check_timeouts clock Some log_handler s = Some s' \<and> tm_world s' = tm_world s @ named_handlers due \<and>
      tm_free s' = tm_free s + length due \<and> tm_last s' = tm_last s + of_nat moved \<and>
      map (\<lambda>(d, x). (d + moved, x)) (expiries 0 (tm_next s')) = dropWhile (\<lambda>e. fst e \<le> passed) es"
proof -
  define s1 where "s1 = s\<lparr>tm_calls := tm_calls s + 1\<rparr>"
  define diff where "diff = clock (tm_calls s) - tm_last s"
  define due where "due = takeWhile (\<lambda>e. fst e \<le> unat diff) (expiries 0 (tm_next s))"
  define moved where "moved = (if due = [] then 0 else fst (last due))"
  have s1: "tm_next s1 = tm_next s" "tm_world s1 = tm_world s" "tm_free s1 = tm_free s" "tm_last s1 = tm_last s"
    by (simp_all add: s1_def)
  have "sys_check_timeouts clock Some log_handler s = check_timeouts_loop Some log_handler diff s1"
    using assms by (simp add: sys_check_timeouts_def read_clock_def s1_def diff_def)
  moreover have "due = takeWhile (\<lambda>e. fst e \<le> unat diff) (expiries 0 (tm_next s1))"
    by (simp add: due_def s1)
  ultimately show ?thesis
    using check_timeouts_log [of due diff s1 moved, OF _ moved_def]
    unfolding Let_def diff_def [symmetric] due_def [symmetric] moved_def [symmetric] s1 by simp
qed

definition ex_log :: "(nat \<times> nat) list timers" where
  "ex_log = \<lparr>tm_next = [\<lparr>to_time = 50, to_h = Some 1, to_arg = 7\<rparr>, \<lparr>to_time = 30, to_h = None, to_arg = 0\<rparr>,
     \<lparr>to_time = 10, to_h = Some 3, to_arg = 9\<rparr>, \<lparr>to_time = 20, to_h = Some 4, to_arg = 0\<rparr>],
     tm_last = 4294967290, tm_tcp_active = False, tm_free = 0, tm_calls = 0, tm_world = []\<rparr>"

theorem sys_check_timeouts_order_witness:
  "\<exists>s'. sys_check_timeouts (\<lambda>_. 90) Some log_handler ex_log = Some s' \<and> tm_world s' = [(1, 7), (3, 9)] \<and> tm_free s' = 3 \<and> tm_last s' = 84"
  using sys_check_timeouts_order [of ex_log "\<lambda>_. 90"] by (auto simp: ex_log_def Let_def)

section \<open>One timer for TCP\<close>

text \<open>\<open>tcpip_tcp_timer_active\<close> says whether the timer is in the list, and it is there at most once.\<close>

definition tcp_timers :: "sys_timeo list \<Rightarrow> nat" where
  "tcp_timers ts = length (filter (\<lambda>t. to_h t = Some tcp_timer_handler) ts)"

definition tcp_timer_ok :: "'w timers \<Rightarrow> bool" where
  "tcp_timer_ok s = (tcp_timers (tm_next s) = (if tm_tcp_active s then 1 else 0))"

lemma tcp_timers_simps [simp]:
  "tcp_timers [] = 0"
  "tcp_timers (t # ts) = (if to_h t = Some tcp_timer_handler then 1 else 0) + tcp_timers ts"
  by (simp_all add: tcp_timers_def)

lemma timeo_insert_timers:
  "ts \<noteq> [] \<Longrightarrow> tcp_timers (timeo_insert x ts) = (if to_h x = Some tcp_timer_handler then 1 else 0) + tcp_timers ts"
proof (induction x ts rule: timeo_insert.induct)
  case (2 x t ts)
  show ?case
  proof (cases ts)
    case (Cons n ns)
    then show ?thesis using "2.IH" [OF refl Cons] by (cases "to_time n > to_time x - to_time t") (simp_all add: Let_def)
  qed (simp add: Let_def)
qed simp

lemma sys_timeout_timers:
  assumes "sys_timeout clock msecs h a s = Some s'"
  shows "tcp_timers (tm_next s') = (if h = Some tcp_timer_handler then 1 else 0) + tcp_timers (tm_next s)"
    and "tm_tcp_active s' = tm_tcp_active s"
  using assms by (cases "tm_next s"; auto simp: sys_timeout_def read_clock_def Let_def timeo_insert_timers simp del: timeo_insert.simps split: if_split_asm)+

lemma timeo_remove_timers:
  "timeo_remove h a ts = Some ts' \<Longrightarrow> h \<noteq> Some tcp_timer_handler \<Longrightarrow> tcp_timers ts' = tcp_timers ts"
proof (induction ts arbitrary: ts')
  case (Cons t ts)
  then show ?case by (cases ts) (auto split: if_split_asm)
qed simp

lemma call_handler_timers:
  assumes others: "\<And>h a s s'. \<lbrakk>tcp_timer_ok s; others h a s = Some s'\<rbrakk> \<Longrightarrow> tcp_timer_ok s'"
    and tmr: "\<And>s s'. \<lbrakk>tm_tcp_active s; tmr s = Some s'\<rbrakk> \<Longrightarrow> tm_tcp_active s' \<and> tcp_timers (tm_next s') = tcp_timers (tm_next s)"
    and s: "tm_next s = t # ts" "tcp_timer_ok s" "to_h t = Some h"
    and run: "call_handler clock pcbs tmr others h a (s\<lparr>tm_world := w, tm_last := l, tm_next := ts, tm_free := f\<rparr>) = Some s'"
  shows "tcp_timer_ok s'"
proof (cases "h = tcp_timer_handler")
  case False
  then show ?thesis using others [OF _ run [unfolded call_handler_def, simplified False if_False]] s by (simp add: tcp_timer_ok_def)
next
  case True
  let ?s = "s\<lparr>tm_world := w, tm_last := l, tm_next := ts, tm_free := f\<rparr>"
  have a: "tm_tcp_active ?s" "tcp_timers (tm_next ?s) = 0"
    using s True by (auto simp: tcp_timer_ok_def split: if_split_asm)
  obtain s1 where s1: "tmr ?s = Some s1" using run True by (auto simp: call_handler_def tcpip_tcp_timer_def bind_eq_Some_conv)
  note k = tmr [OF a(1) s1]
  have "(if pcbs (tm_world s1) then sys_timeout clock TCP_TMR_INTERVAL (Some tcp_timer_handler) 0 s1
      else Some (s1\<lparr>tm_tcp_active := False\<rparr>)) = Some s'"
    using run True s1 by (simp add: call_handler_def tcpip_tcp_timer_def)
  then show ?thesis using k a(2) sys_timeout_timers [of clock TCP_TMR_INTERVAL "Some tcp_timer_handler" 0 s1 s']
    by (auto simp: tcp_timer_ok_def split: if_split_asm)
qed

lemma check_timeouts_loop_timers:
  assumes others: "\<And>h a s s'. \<lbrakk>tcp_timer_ok s; others h a s = Some s'\<rbrakk> \<Longrightarrow> tcp_timer_ok s'"
    and tmr: "\<And>s s'. \<lbrakk>tm_tcp_active s; tmr s = Some s'\<rbrakk> \<Longrightarrow> tm_tcp_active s' \<and> tcp_timers (tm_next s') = tcp_timers (tm_next s)"
    and "check_timeouts_loop ooseq (call_handler clock pcbs tmr others) diff s = Some s'" and "tcp_timer_ok s"
  shows "tcp_timer_ok s'"
proof -
  let ?P = "\<lambda>ooseq run d s s'. run = call_handler clock pcbs tmr others \<longrightarrow> tcp_timer_ok s \<longrightarrow> tcp_timer_ok s'"
  have "?P ooseq (call_handler clock pcbs tmr others) diff s s'"
  proof (rule check_timeouts_loop.raw_induct [of ?P, OF _ assms(3)], goal_cases)
    case (1 loop ooseq run diff s s')
    show ?case
    proof (intro impI)
      assume run: "run = call_handler clock pcbs tmr others" and ok: "tcp_timer_ok s"
      obtain w where w: "ooseq (tm_world s) = Some w" using 1(2) by (cases "ooseq (tm_world s)") auto
      show "tcp_timer_ok s'"
      proof (cases "tm_next s")
        case Nil
        then show ?thesis using 1(2) w ok by (auto simp: tcp_timer_ok_def Let_def)
      next
        case (Cons t ts)
        show ?thesis
        proof (cases "to_time t \<le> diff")
          case False
          then show ?thesis using 1(2) w ok Cons by (auto simp: tcp_timer_ok_def Let_def)
        next
          case True
          show ?thesis
          proof (cases "to_h t")
            case None
            then have "loop ooseq run (diff - to_time t) (s\<lparr>tm_world := w, tm_last := tm_last s + to_time t, tm_next := ts, tm_free := tm_free s + 1\<rparr>) = Some s'"
              using 1(2) w Cons True by (simp add: Let_def)
            from 1(1) [OF this] show ?thesis using run ok Cons None by (simp add: tcp_timer_ok_def)
          next
            case (Some h)
            then obtain s1 where s1:
              "call_handler clock pcbs tmr others h (to_arg t) (s\<lparr>tm_world := w, tm_last := tm_last s + to_time t, tm_next := ts, tm_free := tm_free s + 1\<rparr>) = Some s1"
              "loop ooseq run (diff - to_time t) s1 = Some s'"
              using 1(2) w Cons True run by (auto simp: Let_def bind_eq_Some_conv)
            have "tcp_timer_ok s1" by (rule call_handler_timers [of others tmr, OF _ _ Cons ok Some s1(1)]) (use others tmr in blast)+
            then show ?thesis using 1(1) [OF s1(2)] run by simp
          qed
        qed
      qed
    qed
  qed
  then show ?thesis using assms(4) by simp
qed

text \<open>
  C40: The timer of TCP is in the list of timeouts exactly while \<open>tcpip_tcp_timer_active\<close> is set, and then once: \<open>tcp_timer_needed\<close>,
  starting or stopping another timeout, and \<open>sys_check_timeouts\<close> with \<open>tcpip_tcp_timer\<close> among its handlers keep it so, if the other handlers do and \<open>tcp_tmr\<close>, which
  runs with the flag set, leaves flag and timer as they are.
\<close>

theorem tcp_timer_single:
  fixes s :: "'w timers"
  assumes "\<forall>h a (s :: 'w timers) s'. tcp_timer_ok s \<longrightarrow> others h a s = Some s' \<longrightarrow> tcp_timer_ok s'"
    and "\<forall>(s :: 'w timers) s'. tm_tcp_active s \<longrightarrow> tmr s = Some s' \<longrightarrow> tm_tcp_active s' \<and> tcp_timers (tm_next s') = tcp_timers (tm_next s)"
    and "tcp_timer_ok s"
  shows "(tcp_timer_needed clock pcbs s = Some s' \<longrightarrow> tcp_timer_ok s') \<and>
    (sys_check_timeouts clock ooseq (call_handler clock pcbs tmr others) s = Some s' \<longrightarrow> tcp_timer_ok s') \<and>
    (h \<noteq> Some tcp_timer_handler \<longrightarrow> sys_timeout clock msecs h a s = Some s' \<longrightarrow> tcp_timer_ok s') \<and>
    (h \<noteq> Some tcp_timer_handler \<longrightarrow> tcp_timer_ok (sys_untimeout h a s))"
proof (intro conjI impI)
  assume "tcp_timer_needed clock pcbs s = Some s'"
  then show "tcp_timer_ok s'"
    using assms(3) sys_timeout_timers [of clock TCP_TMR_INTERVAL "Some tcp_timer_handler" 0 "s\<lparr>tm_tcp_active := True\<rparr>" s']
    by (auto simp: tcp_timer_needed_def tcp_timer_ok_def split: if_split_asm)
next
  assume c: "sys_check_timeouts clock ooseq (call_handler clock pcbs tmr others) s = Some s'"
  show "tcp_timer_ok s'"
  proof (cases "tm_next s")
    case (Cons t ts)
    have "tcp_timer_ok (s\<lparr>tm_calls := tm_calls s + 1\<rparr>)" using assms(3) by (simp add: tcp_timer_ok_def)
    moreover have "check_timeouts_loop ooseq (call_handler clock pcbs tmr others) (clock (tm_calls s) - tm_last s) (s\<lparr>tm_calls := tm_calls s + 1\<rparr>) = Some s'"
      using c Cons by (simp add: sys_check_timeouts_def read_clock_def)
    ultimately show ?thesis using check_timeouts_loop_timers [of others tmr] assms(1,2) by blast
  qed (use c assms(3) in \<open>simp add: sys_check_timeouts_def\<close>)
next
  assume "h \<noteq> Some tcp_timer_handler" "sys_timeout clock msecs h a s = Some s'"
  then show "tcp_timer_ok s'" using assms(3) sys_timeout_timers [of clock msecs h a s s'] by (simp add: tcp_timer_ok_def)
next
  assume "h \<noteq> Some tcp_timer_handler"
  then show "tcp_timer_ok (sys_untimeout h a s)"
    using assms(3) timeo_remove_timers [of h a "tm_next s"] by (cases "timeo_remove h a (tm_next s)") (auto simp: sys_untimeout_def tcp_timer_ok_def)
qed

theorem tcp_timer_single_witness:
  "\<exists>s s' :: nat list timers. tcp_timer_needed (\<lambda>_. 1000) (\<lambda>_. True) ex_timers = Some s \<and> tcp_timer_ok s \<and>
     sys_check_timeouts (\<lambda>_. 1300) Some (call_handler (\<lambda>_. 1300) (\<lambda>_. True) Some (\<lambda>_ _. Some)) s = Some s' \<and> tcp_timer_ok s'"
proof -
  define s where "s = ex_timers\<lparr>tm_next := [\<lparr>to_time = 250, to_h = Some 0, to_arg = 0\<rparr>, \<lparr>to_time = 200, to_h = Some 1, to_arg = 0\<rparr>],
    tm_tcp_active := True, tm_free := 2, tm_calls := 1\<rparr>"
  have s: "tcp_timer_needed (\<lambda>_. 1000) (\<lambda>_. True) ex_timers = Some s"
    by (simp add: tcp_timer_needed_def sys_timeout_def ex_timers_def read_clock_def s_def tcp_timer_handler_def)
  have "tcp_timer_ok ex_timers" by (simp add: tcp_timer_ok_def ex_timers_def tcp_timer_handler_def)
  then have ok: "tcp_timer_ok s"
    using tcp_timer_single [of "\<lambda>_ _. Some" Some ex_timers "\<lambda>_. 1000" "\<lambda>_. True"] s by blast
  obtain s' where s': "sys_check_timeouts (\<lambda>_. 1300) Some (call_handler (\<lambda>_. 1300) (\<lambda>_. True) Some (\<lambda>_ _. Some)) s = Some s'"
    by (simp add: s_def ex_timers_def sys_check_timeouts_def read_clock_def check_timeouts_due check_timeouts_idle call_handler_def tcpip_tcp_timer_def
        tcp_timer_handler_def sys_timeout_def Let_def)
  have "tcp_timer_ok s'" using tcp_timer_single [of "\<lambda>_ _. Some" Some s "\<lambda>_. 1300" "\<lambda>_. True" s' Some] ok s' by blast
  then show ?thesis using s ok s' by blast
qed

end
