(* ===== verification/Spec2Isabelle.thy ===== *)
theory Spec2Isabelle
  imports Tcp_Receive Tcp_Api Rudp_Wire Sys_Arch Sys_Mbox Timers
begin

text \<open>
  A reliable transport over UDP: the TCP of lwIP without IP, whose segments travel as UDP datagrams, and a socket layer on top.

  \<^bold>\<open>The program and its model.\<close> The state of the stack is one record that grows along the theories: \<open>mem_state\<close> (Memp: pools, heap,
  reference counts), \<open>sys\<close> (Tcp_Types: the counters and what was sent) and \<open>lw\<close> (Tcp: control blocks by address, the four lists of them, the
  static variables of \<^verbatim>\<open>tcp.c\<close>, the structures of the sockets). An operation takes the state and
  returns it updated; the result is an \<open>option\<close>, and \<open>None\<close> is a failed assertion or an access to memory that is not there. Integers are words of
  the width the source gives them. A linked chain of buffers is a list, \<open>NULL\<close> the empty list. Control blocks and
  sockets are referred to by address, so that use after free is visible. What the program gets from outside is a parameter: \<open>env\<close> holds
  the results of \<open>malloc\<close>, the contents of fresh memory and the results of the transmit function; \<open>app\<close> and \<open>rudp_user\<close> the
  callbacks of the program above; clocks are functions.

  \<^item> Lwip_Base: types, constants and the configuration (\<^verbatim>\<open>include/lwip/cc.h\<close>, \<^verbatim>\<open>err.h\<close>, \<^verbatim>\<open>opt.h\<close>, \<^verbatim>\<open>lwipopts.h\<close>), \<open>LWIP_ASSERT\<close>, the circular order
    of sequence numbers, and lemmas on words, lists and options that all theories share.
  \<^item> Memp (\<^verbatim>\<open>src/memp.c\<close>): \<open>memp_init\<close>, \<open>memp_malloc\<close>, \<open>memp_free\<close> and their statistics. What a client may rely on is the
    locale \<open>object_pool\<close>.
  \<^item> Pbuf, Pbuf_Bytes, Pbuf_Copy, Pbuf_Refs (\<^verbatim>\<open>src/pbuf.c\<close>): every compiled function on packet buffers. The
    meaning of a chain is the list of its bytes, \<open>chain_bytes\<close>; \<open>chain_ok\<close> says that its length fields are right. Searching is proved in
    the locale \<open>byte_reader\<close>, which \<open>pbuf_get_at\<close> provides.
  \<^item> Tcp_Types (\<^verbatim>\<open>include/lwip/tcp.h\<close>, \<^verbatim>\<open>tcp_impl.h\<close>): states, headers, segments, control blocks.
  \<^item> Tcp_Out (\<^verbatim>\<open>src/tcp_out.c\<close>) with Tcp_Queue and Tcp_Write: \<open>tcp_write\<close> in its three phases, \<open>tcp_output\<close>, retransmission and control
    segments. The two queues share the locale \<open>queue_insert\<close>.
  \<^item> Tcp (\<^verbatim>\<open>src/tcp.c\<close>) with Tcp_Frame, Tcp_Conn, Tcp_Lists, Tcp_Api and Tcp_Close: the interface of the stack, the timers, allocation and
    the choice of the connection to be killed. \<open>pcbs_ok\<close> is the invariant of the lists.
  \<^item> Tcp_In (\<^verbatim>\<open>src/tcp_in.c\<close>) with Tcp_Parse, Tcp_Wire, Tcp_Receive, Tcp_Ack, Tcp_Input_Frame, Tcp_Process and Tcp_Input: parsing,
    demultiplexing, the state machine, acknowledgements, reassembly and delivery.
  \<^item> Rudp, Rudp_Keeps, Rudp_Close, Rudp_Wire (\<^verbatim>\<open>test/udp/rudp.c\<close>, \<^verbatim>\<open>rudp.h\<close>, \<^verbatim>\<open>server.cpp\<close>, \<^verbatim>\<open>client.cpp\<close>): initialisation, the sockets, their
    callbacks, the loop that turns datagrams into chains for \<open>tcp_input\<close>, and the callbacks of the two example programs. The layer is a client of the stack: the locales \<open>setter_client\<close>,
    \<open>call_client\<close> and \<open>user_client\<close> say what it relies on, for any property the calls keep, and the stack provides it for five properties.
  \<^item> Sys_Arch and Sys_Mbox (\<^verbatim>\<open>src/sys_arch.c\<close>): clock, waiting times, the recursive lock; mailboxes as a system of interleaving threads.
  \<^item> Timers (\<^verbatim>\<open>src/timers.c\<close>): the list of timeouts and the timer of TCP.
  \<^item> Tcp_Examples: the concrete connection at which the properties are applied. Every property with a hypothesis has a witness
    of the same name with the suffix \<open>_witness\<close>.
\<close>

text \<open>
  \<^bold>\<open>What the theorems show.\<close> \<^emph>\<open>Data.\<close> The bytes an application writes are appended, exactly, to the unsent queue; what is handed to the network are these segments and lies in the window; a
  segment that leaves one host is parsed by the other as the same header, options and data, also through the datagram and the copy into pool
  buffers; data in sequence, and the queued data it makes contiguous, is delivered as one piece of the stream of the
  peer; an acknowledgement removes exactly what it covers; the socket layer hands on exactly those bytes. \<^emph>\<open>Structure.\<close> From the start of the program on, calls,
  timer ticks and packets, with callbacks that send and close, keep the lists of control blocks well formed, except for a second bind of a bound
  block (shown to damage them) and a reset that meets refused data, which are left out. This does not say that a connection stays on its list: the slow timer
  can lose connections it has skipped (\<open>unlink_after\<close>). The callbacks of the slow timer must announce a change of the active list, which those of the
  socket layer are shown to do. The synchronised
  states move as the diagram of RFC 793 says, given as a reference function, once everything that was queued is sent; before that the code departs from it, as stated. \<^emph>\<open>Memory.\<close> Pools hand out no
  element twice, buffers are freed exactly when their last reference goes, and operations on chains depend only on the bytes. \<^emph>\<open>Time and threads.\<close> Timeouts
  run in order, the loop over them ends, and mailboxes refine a bounded queue under every interleaving. \<^emph>\<open>Errors.\<close> What a failing \<open>tcp_write\<close>
  leaves, what becomes of packets that are too short, and where the socket layer uses freed control blocks: there
  the theorem says that the model has no result.

  \<^bold>\<open>Termination.\<close> There is no fuel. Loops are structural recursion or recursion with a measure (the bytes still missing in \<open>pbuf_alloc_tail\<close>,
  the ports still to be tried in \<open>tcp_new_port_loop\<close>, the option bytes in \<open>parseopt_loop\<close>). The loop of \<open>sys_check_timeouts\<close> runs handlers that
  may start new timeouts and need not end; it is a partial function, and a property gives the condition under which it returns, an invariant of the states the run passes through. \<open>update_loop\<close> counts to the 1000
  of the source.

  \<^bold>\<open>Configuration.\<close> The code is modelled as \<^verbatim>\<open>lwipopts.h\<close> configures it: callbacks, no window scaling, no timestamps, out-of-sequence queueing, oversized
  segments, statistics for the pools and TCP. Only \<^verbatim>\<open>timers.c\<close> is modelled without \<open>NO_SYS_NO_TIMERS\<close>, under which it would be empty.

  \<^bold>\<open>Not modelled.\<close> Debug output and \<^verbatim>\<open>stats.c\<close>, which only print. \<^verbatim>\<open>init.c\<close>, which only checks the configuration when it is compiled, and the
  headers that only declare. The timers of protocols that are not in the repository, and the variants of functions the configuration removes. System
  calls: those on the UDP socket and its clock, the creation of threads, mutexes and condition variables, \<open>malloc\<close> itself; their results are parameters. The
  main functions of the example programs, and the unit tests. The bytes of the heap beyond what a buffer owns are not there: an access outside a buffer is \<open>None\<close>,
  so what such an access would do to other objects is not described.
\<close>

end
